(* ===== verification/Prelude.thy ===== *)
theory Prelude
  imports Main "HOL-Library.Char_ord" "HOL-Library.List_Lexorder" "HOL-Library.Product_Lexorder"
begin

section \<open>Shared vocabulary of the development\<close>

text \<open>
  What every component uses: results with the error on the left, the question-mark
  operator of Rust, the ranges and the checked and wrapping arithmetic of the machine
  integers, the membership scans over a \<open>BTreeSet\<close> named \<open>seen\<close>, and the sorted
  association lists that stand for a \<open>BTreeMap\<close>.

  A Rust \<open>str\<close>, \<open>String\<close> or byte slice is a HOL \<open>string\<close>: a list of bytes
  (a HOL \<open>char\<close> is exactly one byte), so \<open>length\<close> is \<open>len()\<close> and the order on
  strings is the bytewise lexicographic order of \<open>Ord for str\<close>.
\<close>

type_synonym i64 = int
type_synonym usize = nat
type_synonym bytes = string

named_theorems bounds_simps "machine ranges, unfolded"
named_theorems inv_intros "introduction rules of component invariants"

subsection \<open>Results\<close>

abbreviation Err :: "'e \<Rightarrow> 'e + 'a" where
  "Err \<equiv> Inl"

abbreviation Ok :: "'a \<Rightarrow> 'e + 'a" where
  "Ok \<equiv> Inr"

definition and_then :: "'e + 'a \<Rightarrow> ('a \<Rightarrow> 'e + 'b) \<Rightarrow> 'e + 'b" where
  "and_then r f = (case r of Inl e \<Rightarrow> Inl e | Inr x \<Rightarrow> f x)"

definition map_err :: "('e \<Rightarrow> 'f) \<Rightarrow> 'e + 'a \<Rightarrow> 'f + 'a" where
  "map_err g r = (case r of Inl e \<Rightarrow> Inl (g e) | Inr x \<Rightarrow> Inr x)"

definition ok_or :: "'e \<Rightarrow> 'a option \<Rightarrow> 'e + 'a" where
  "ok_or e x = (case x of None \<Rightarrow> Inl e | Some y \<Rightarrow> Inr y)"

lemma and_then_simps [simp]:
  "and_then (Inl e) f = Inl e"
  "and_then (Inr x) f = f x"
  by (simp_all add: and_then_def)

lemma map_err_simps [simp]:
  "map_err g (Inl e) = Inl (g e)"
  "map_err g (Inr x) = Inr x"
  by (simp_all add: map_err_def)

lemma ok_or_simps [simp]:
  "ok_or e None = Inl e"
  "ok_or e (Some x) = Inr x"
  by (simp_all add: ok_or_def)

lemma and_then_Ok_iff:
  "and_then r f = Inr y \<longleftrightarrow> (\<exists>x. r = Inr x \<and> f x = Inr y)"
  by (cases r) auto

lemma and_then_Err_iff:
  "and_then r f = Inl e \<longleftrightarrow> r = Inl e \<or> (\<exists>x. r = Inr x \<and> f x = Inl e)"
  by (cases r) auto

lemma map_err_Ok_iff: "map_err g r = Inr y \<longleftrightarrow> r = Inr y"
  by (cases r) auto

lemma map_err_Err_iff: "map_err g r = Inl e \<longleftrightarrow> (\<exists>e'. r = Inl e' \<and> e = g e')"
  by (cases r) auto

lemma ok_or_Ok_iff: "ok_or e x = Inr y \<longleftrightarrow> x = Some y"
  by (cases x) auto

lemma ok_or_Err_iff: "ok_or e x = Inl e' \<longleftrightarrow> x = None \<and> e' = e"
  by (cases x) auto

lemmas result_iffs = and_then_Ok_iff and_then_Err_iff map_err_Ok_iff map_err_Err_iff
  ok_or_Ok_iff ok_or_Err_iff

text \<open>Collecting an iterator of results stops at the first error, as \<open>collect::<Result<Vec<_>>>\<close>.\<close>

fun collect_results :: "('a \<Rightarrow> 'e + 'b) \<Rightarrow> 'a list \<Rightarrow> 'e + 'b list" where
  "collect_results f [] = Inr []"
| "collect_results f (x # xs) =
     and_then (f x) (\<lambda>y. and_then (collect_results f xs) (\<lambda>ys. Inr (y # ys)))"

lemma collect_results_Ok_iff:
  "collect_results f xs = Inr ys \<longleftrightarrow> list_all2 (\<lambda>x y. f x = Inr y) xs ys"
proof (induction xs arbitrary: ys)
  case Nil
  then show ?case by auto
next
  case (Cons x xs)
  then show ?case by (auto simp: result_iffs list_all2_Cons1)
qed

lemma collect_results_length: "collect_results f xs = Inr ys \<Longrightarrow> length ys = length xs"
  by (simp add: collect_results_Ok_iff list_all2_lengthD)

lemma collect_results_map:
  "(\<And>x. x \<in> set xs \<Longrightarrow> f x = Inr (g x)) \<Longrightarrow> collect_results f xs = Inr (map g xs)"
  by (induction xs) auto

subsection \<open>ASCII bytes\<close>

definition byte_in :: "nat \<Rightarrow> nat \<Rightarrow> char \<Rightarrow> bool" where
  "byte_in lo hi c \<longleftrightarrow> lo \<le> of_char c \<and> of_char c \<le> (hi::nat)"

definition is_ascii_digit :: "char \<Rightarrow> bool" where
  "is_ascii_digit c \<longleftrightarrow> byte_in 48 57 c"

definition is_ascii_upper :: "char \<Rightarrow> bool" where
  "is_ascii_upper c \<longleftrightarrow> byte_in 65 90 c"

definition is_ascii_lower :: "char \<Rightarrow> bool" where
  "is_ascii_lower c \<longleftrightarrow> byte_in 97 122 c"

definition is_ascii_hexdigit :: "char \<Rightarrow> bool" where
  "is_ascii_hexdigit c \<longleftrightarrow> is_ascii_digit c \<or> byte_in 65 70 c \<or> byte_in 97 102 c"

definition ascii_lower :: "char \<Rightarrow> char" where
  "ascii_lower c = (if is_ascii_upper c then char_of (of_char c + 32 :: nat) else c)"

definition ascii_upper :: "char \<Rightarrow> char" where
  "ascii_upper c = (if is_ascii_lower c then char_of (of_char c - 32 :: nat) else c)"

lemmas ascii_defs = byte_in_def is_ascii_digit_def is_ascii_upper_def is_ascii_lower_def
  is_ascii_hexdigit_def ascii_lower_def ascii_upper_def

lemma of_char_lt_256 [simp]: "(of_char c :: nat) < 256"
  using of_char_of[where ?'a = nat] by (metis char_of_char of_char_of mod_less_divisor zero_less_numeral)

subsection \<open>Machine integers\<close>

text \<open>
  An \<open>i64\<close> is an \<open>int\<close> and a \<open>usize\<close> or \<open>u64\<close> a \<open>nat\<close>, with the range of the
  machine type written out. \<open>checked_add\<close> returns \<open>None\<close> outside the range; an
  unchecked \<open>+\<close> or \<open>-\<close> wraps as the release profile does.
\<close>

definition i64_min :: int where
  "i64_min = - 9223372036854775808"

definition i64_max :: int where
  "i64_max = 9223372036854775807"

definition i64_ok :: "int \<Rightarrow> bool" where
  "i64_ok x \<longleftrightarrow> i64_min \<le> x \<and> x \<le> i64_max"

definition u64_max :: nat where
  "u64_max = 18446744073709551615"

lemmas i64_bounds [bounds_simps] = i64_min_def i64_max_def i64_ok_def u64_max_def

definition i64_wrap :: "int \<Rightarrow> int" where
  "i64_wrap x = (x + 9223372036854775808) mod 18446744073709551616 - 9223372036854775808"

definition i64_add :: "int \<Rightarrow> int \<Rightarrow> int" where
  "i64_add a b = i64_wrap (a + b)"

definition i64_sub :: "int \<Rightarrow> int \<Rightarrow> int" where
  "i64_sub a b = i64_wrap (a - b)"

definition i64_checked_add :: "int \<Rightarrow> int \<Rightarrow> int option" where
  "i64_checked_add a b = (if i64_ok (a + b) then Some (a + b) else None)"

definition u64_checked_add :: "nat \<Rightarrow> nat \<Rightarrow> nat option" where
  "u64_checked_add a b = (if a + b \<le> u64_max then Some (a + b) else None)"

definition i64_try_from :: "nat \<Rightarrow> int option" where
  "i64_try_from n = (if int n \<le> i64_max then Some (int n) else None)"

lemma i64_wrap_ok [simp]: "i64_ok x \<Longrightarrow> i64_wrap x = x"
  by (simp add: i64_wrap_def bounds_simps)

lemma i64_wrap_range [simp]: "i64_ok (i64_wrap x)"
  by (simp add: i64_wrap_def bounds_simps)

lemma i64_add_exact [simp]: "i64_ok (a + b) \<Longrightarrow> i64_add a b = a + b"
  by (simp add: i64_add_def)

lemma i64_sub_exact [simp]: "i64_ok (a - b) \<Longrightarrow> i64_sub a b = a - b"
  by (simp add: i64_sub_def)

lemma i64_checked_add_Some_iff:
  "i64_checked_add a b = Some c \<longleftrightarrow> c = a + b \<and> i64_ok c"
  by (auto simp: i64_checked_add_def)

lemma i64_checked_add_None_iff: "i64_checked_add a b = None \<longleftrightarrow> \<not> i64_ok (a + b)"
  by (simp add: i64_checked_add_def)

lemma u64_checked_add_Some_iff:
  "u64_checked_add a b = Some c \<longleftrightarrow> c = a + b \<and> c \<le> u64_max"
  by (auto simp: u64_checked_add_def)

lemma u64_checked_add_None_iff: "u64_checked_add a b = None \<longleftrightarrow> u64_max < a + b"
  by (auto simp: u64_checked_add_def)

lemma i64_try_from_Some_iff: "i64_try_from n = Some x \<longleftrightarrow> x = int n \<and> int n \<le> i64_max"
  by (auto simp: i64_try_from_def)

subsection \<open>Scans with a set of keys already seen\<close>

text \<open>
  The code's \<open>any(|x| bad(x) || !seen.insert(key(x)))\<close>: true when some element is bad
  or repeats the key of an earlier one.
\<close>

fun rejects_repeat :: "('a \<Rightarrow> bool) \<Rightarrow> ('a \<Rightarrow> 'k) \<Rightarrow> 'k set \<Rightarrow> 'a list \<Rightarrow> bool" where
  "rejects_repeat bad key seen [] = False"
| "rejects_repeat bad key seen (x # xs) =
     (bad x \<or> key x \<in> seen \<or> rejects_repeat bad key (insert (key x) seen) xs)"

lemma rejects_repeat_iff:
  "rejects_repeat bad key seen xs \<longleftrightarrow>
     (\<exists>x \<in> set xs. bad x) \<or> \<not> distinct (map key xs) \<or> key ` set xs \<inter> seen \<noteq> {}"
  by (induction xs arbitrary: seen) auto

lemma not_rejects_repeat_empty:
  "\<not> rejects_repeat bad key {} xs \<longleftrightarrow> (\<forall>x \<in> set xs. \<not> bad x) \<and> distinct (map key xs)"
  by (auto simp: rejects_repeat_iff)

text \<open>The code's \<open>filter(|x| seen.insert(*x))\<close>: the first occurrence of every value, in order.\<close>

fun first_occurrences :: "'a set \<Rightarrow> 'a list \<Rightarrow> 'a list" where
  "first_occurrences seen [] = []"
| "first_occurrences seen (x # xs) =
     (if x \<in> seen then first_occurrences seen xs
      else x # first_occurrences (insert x seen) xs)"

lemma set_first_occurrences [simp]: "set (first_occurrences seen xs) = set xs - seen"
  by (induction xs arbitrary: seen) auto

lemma distinct_first_occurrences [simp]: "distinct (first_occurrences seen xs)"
  by (induction xs arbitrary: seen) auto

lemma first_occurrences_distinct:
  "distinct xs \<Longrightarrow> set xs \<inter> seen = {} \<Longrightarrow> first_occurrences seen xs = xs"
  by (induction xs arbitrary: seen) auto

lemma first_occurrences_idem [simp]:
  "first_occurrences {} (first_occurrences {} xs) = first_occurrences {} xs"
  by (rule first_occurrences_distinct) auto

lemma length_first_occurrences_le: "length (first_occurrences seen xs) \<le> length xs"
  by (induction xs arbitrary: seen) (auto simp: le_SucI)

text \<open>\<open>sort\<close> and \<open>dedup\<close>, or a \<open>BTreeSet\<close> collected: the strictly sorted list of the elements.\<close>

lemma strict_remdups_adj: "sorted xs \<Longrightarrow> sorted_wrt (<) (remdups_adj xs)"
  for xs :: "'a::linorder list"
  by (induction xs rule: remdups_adj.induct) (auto simp: order_le_less)

lemma dedup_sort: "sorted_wrt (<) (remdups_adj (sort xs))" for xs :: "'a::linorder list"
  by (rule strict_remdups_adj) simp

lemma dedup_sort_eq: "sorted_wrt (<) xs \<Longrightarrow> remdups_adj (sort xs) = xs"
  for xs :: "'a::linorder list"
  by (simp add: strict_sorted_iff sorted_sort_id remdups_adj_distinct)

subsection \<open>Prefixes and suffixes\<close>

fun starts_with :: "'a list \<Rightarrow> 'a list \<Rightarrow> bool" where
  "starts_with [] xs = True"
| "starts_with (p # ps) [] = False"
| "starts_with (p # ps) (x # xs) = (p = x \<and> starts_with ps xs)"

lemma starts_with_iff: "starts_with p xs \<longleftrightarrow> (\<exists>ys. xs = p @ ys)"
  by (induction p xs rule: starts_with.induct) auto

lemma starts_with_append [simp]: "starts_with p (p @ xs)"
  by (simp add: starts_with_iff)

lemma starts_with_length: "starts_with p xs \<Longrightarrow> length p \<le> length xs"
  by (auto simp: starts_with_iff)

definition ends_with :: "'a list \<Rightarrow> 'a list \<Rightarrow> bool" where
  "ends_with s xs = starts_with (rev s) (rev xs)"

lemma ends_with_iff: "ends_with s xs \<longleftrightarrow> (\<exists>ys. xs = ys @ s)"
proof
  assume "ends_with s xs"
  then obtain ys where "rev xs = rev s @ ys"
    by (auto simp: ends_with_def starts_with_iff)
  then have "xs = rev ys @ s" by (metis rev_append rev_rev_ident)
  then show "\<exists>ys. xs = ys @ s" by blast
qed (auto simp: ends_with_def starts_with_iff)

text \<open>\<open>slice::get\<close>: out of range is \<open>None\<close>.\<close>

definition get_at :: "'a list \<Rightarrow> nat \<Rightarrow> 'a option" where
  "get_at xs i = (if i < length xs then Some (xs ! i) else None)"

lemma get_at_Some_iff: "get_at xs i = Some x \<longleftrightarrow> i < length xs \<and> xs ! i = x"
  by (auto simp: get_at_def)

lemma get_at_None_iff: "get_at xs i = None \<longleftrightarrow> length xs \<le> i"
  by (auto simp: get_at_def)

end
