(* ===== verification/Ordered_Map.thy ===== *)
theory Ordered_Map
  imports Prelude
begin

section \<open>Maps in key order\<close>

text \<open>
  The standard library's \<open>BTreeMap\<close> as an association list in strictly increasing key
  order. The locale states the map contract its clients use; iteration order is part of
  it, since the code iterates (root detection, wire encoding) in key order.
\<close>

locale ordered_map =
  fixes empty :: "'m" and get :: "'m \<Rightarrow> 'k::linorder \<Rightarrow> 'v option"
    and put :: "'k \<Rightarrow> 'v \<Rightarrow> 'm \<Rightarrow> 'm" and del :: "'k \<Rightarrow> 'm \<Rightarrow> 'm"
    and entries :: "'m \<Rightarrow> ('k \<times> 'v) list" and inv :: "'m \<Rightarrow> bool"
  assumes get_empty: "get empty k = None"
    and get_put: "inv m \<Longrightarrow> get (put k v m) = (get m)(k \<mapsto> v)"
    and get_del: "inv m \<Longrightarrow> get (del k m) = (get m)(k := None)"
    and entries_get: "inv m \<Longrightarrow> map_of (entries m) = get m"
    and entries_sorted: "inv m \<Longrightarrow> sorted_wrt (<) (map fst (entries m))"
    and inv_empty: "inv empty"
    and inv_put: "inv m \<Longrightarrow> inv (put k v m)"
    and inv_del: "inv m \<Longrightarrow> inv (del k m)"
begin

lemma entries_distinct: "inv m \<Longrightarrow> distinct (map fst (entries m))"
  using entries_sorted[of m] by (simp add: strict_sorted_iff)

lemma entries_set: "inv m \<Longrightarrow> (k, v) \<in> set (entries m) \<longleftrightarrow> get m k = Some v"
  using entries_get[of m] entries_distinct[of m] by (metis map_of_eq_Some_iff)

lemma keys_dom: "inv m \<Longrightarrow> fst ` set (entries m) = dom (get m)"
  using entries_get[of m] by (metis dom_map_of_conv_image_fst)

lemma finite_dom: "inv m \<Longrightarrow> finite (dom (get m))"
  by (metis keys_dom List.finite_set finite_imageI)

lemma length_entries: "inv m \<Longrightarrow> length (entries m) = card (dom (get m))"
  by (metis distinct_card entries_distinct keys_dom length_map list.set_map)

lemma entries_canonical:
  assumes "inv m" "inv m'" "get m = get m'"
  shows "entries m = entries m'"
proof -
  have same: "set (entries m) = set (entries m')"
    using assms entries_set by auto
  have "inj_on fst (set (entries m) \<union> set (entries m'))"
    using same entries_distinct[OF assms(1)] by (simp add: distinct_map)
  then show ?thesis
    using same entries_sorted[OF assms(1)] entries_sorted[OF assms(2)]
    by (intro map_sorted_distinct_set_unique[of fst]) (simp_all add: strict_sorted_iff)
qed

lemma put_length:
  "inv m \<Longrightarrow> length (entries (put k v m)) =
     (if get m k = None then Suc (length (entries m)) else length (entries m))"
proof -
  assume m: "inv m"
  have "length (entries (put k v m)) = card (insert k (dom (get m)))"
    using m by (simp add: length_entries inv_put get_put)
  then show ?thesis
    using m finite_dom[OF m] by (auto simp: length_entries card_insert_if)
qed

lemma del_length_le: "inv m \<Longrightarrow> length (entries (del k m)) \<le> length (entries m)"
  by (simp add: length_entries inv_del get_del card_mono finite_dom)

end

subsection \<open>The implementation\<close>

type_synonym ('k, 'v) btree_map = "('k \<times> 'v) list"

fun bt_get :: "('k::linorder, 'v) btree_map \<Rightarrow> 'k \<Rightarrow> 'v option" where
  "bt_get [] k = None"
| "bt_get ((k', v) # m) k = (if k = k' then Some v else bt_get m k)"

fun bt_insert :: "'k::linorder \<Rightarrow> 'v \<Rightarrow> ('k, 'v) btree_map \<Rightarrow> ('k, 'v) btree_map" where
  "bt_insert k v [] = [(k, v)]"
| "bt_insert k v ((k', v') # m) =
     (if k < k' then (k, v) # (k', v') # m
      else if k = k' then (k, v) # m
      else (k', v') # bt_insert k v m)"

fun bt_remove :: "'k::linorder \<Rightarrow> ('k, 'v) btree_map \<Rightarrow> ('k, 'v) btree_map" where
  "bt_remove k [] = []"
| "bt_remove k ((k', v') # m) = (if k = k' then m else (k', v') # bt_remove k m)"

definition bt_inv :: "('k::linorder, 'v) btree_map \<Rightarrow> bool" where
  "bt_inv m \<longleftrightarrow> sorted_wrt (<) (map fst m)"

lemma bt_get_map_of: "bt_get m = map_of m"
proof
  fix k
  show "bt_get m k = map_of m k"
    by (induction m k rule: bt_get.induct) auto
qed

lemma fst_set_bt_insert: "fst ` set (bt_insert k v m) = insert k (fst ` set m)"
  by (induction k v m rule: bt_insert.induct) auto

lemma fst_set_bt_remove: "fst ` set (bt_remove k m) \<subseteq> fst ` set m"
  by (induction k m rule: bt_remove.induct) auto

lemma bt_inv_insert: "bt_inv m \<Longrightarrow> bt_inv (bt_insert k v m)"
  unfolding bt_inv_def
proof (induction k v m rule: bt_insert.induct)
  case (2 k v k' v' m)
  then show ?case
    using fst_set_bt_insert[of k v m] by fastforce
qed simp

lemma bt_inv_remove: "bt_inv m \<Longrightarrow> bt_inv (bt_remove k m)"
  unfolding bt_inv_def
proof (induction k m rule: bt_remove.induct)
  case (2 k k' v' m)
  then show ?case
    using fst_set_bt_remove[of k m] by fastforce
qed simp

lemma bt_get_insert: "bt_get (bt_insert k v m) = (bt_get m)(k \<mapsto> v)"
proof
  fix x
  show "bt_get (bt_insert k v m) x = ((bt_get m)(k \<mapsto> v)) x"
    by (induction k v m rule: bt_insert.induct) auto
qed

lemma bt_get_absent: "k \<notin> fst ` set m \<Longrightarrow> bt_get m k = None"
  by (simp add: bt_get_map_of map_of_eq_None_iff)

lemma bt_get_remove: "bt_inv m \<Longrightarrow> bt_get (bt_remove k m) = (bt_get m)(k := None)"
  unfolding bt_inv_def
proof (induction k m rule: bt_remove.induct)
  case (2 k k' v' m)
  show ?case
  proof (cases "k = k'")
    case True
    with 2 have "k' \<notin> fst ` set m" by auto
    then show ?thesis
      using True by (auto simp: fun_eq_iff dest: bt_get_absent)
  next
    case False
    with 2 show ?thesis by (auto simp: fun_eq_iff)
  qed
qed (simp add: fun_eq_iff)

interpretation btm: ordered_map "[]" bt_get bt_insert bt_remove "\<lambda>m. m" bt_inv
  by unfold_locales
    (simp_all add: bt_get_insert bt_get_remove bt_inv_insert bt_inv_remove,
     simp_all add: bt_get_map_of, simp_all add: bt_inv_def)

lemma bt_get_Some_mem: "bt_get m k = Some v \<Longrightarrow> (k, v) \<in> set m"
  by (simp add: bt_get_map_of map_of_SomeD)

end
