(* ===== verification/Codecs.thy ===== *)
theory Codecs
  imports Prelude
begin

section \<open>The contract of a persisted label\<close>

text \<open>
  Every closed vocabulary of the code is written to storage as a text label by an
  \<open>encode\<close> (\<open>as_persisted\<close>, \<open>as_str\<close>, \<open>code\<close>) and read back by a \<open>decode\<close>
  (\<open>from_persisted\<close>, \<open>from_code\<close>). The locale states what the rest of the code
  relies on: a label read back is the value written, and only such labels are accepted.
\<close>

locale persisted_codec =
  fixes encode :: "'a \<Rightarrow> string" and decode :: "string \<Rightarrow> 'e + 'a"
  assumes decode_encode: "decode (encode x) = Inr x"
    and decode_sound: "decode s = Inr x \<Longrightarrow> encode x = s"
begin

lemma encode_inject: "encode x = encode y \<longleftrightarrow> x = y"
  by (metis decode_encode sum.inject(2))

lemma decode_Ok_iff: "decode s = Inr x \<longleftrightarrow> s = encode x"
  using decode_encode decode_sound by auto

lemma decode_Ok_unique: "decode s = Inr x \<Longrightarrow> decode t = Inr x \<Longrightarrow> s = t"
  by (simp add: decode_Ok_iff)

lemma decode_refuses_iff: "(\<exists>e. decode s = Inl e) \<longleftrightarrow> s \<notin> range encode"
  by (cases "decode s") (auto simp: decode_Ok_iff decode_encode)

lemma decode_round_trip: "map_err (\<lambda>_. s) (decode s) = Inr x \<Longrightarrow> encode x = s"
  by (auto simp: result_iffs decode_Ok_iff)

end

text \<open>A codec whose one error is a fixed constant: the unknown-discriminator errors.\<close>

locale closed_codec = persisted_codec encode decode
  for encode :: "'a \<Rightarrow> string" and decode :: "string \<Rightarrow> 'e + 'a" +
  fixes unknown :: 'e
  assumes decode_unknown: "decode s = Inl e \<Longrightarrow> e = unknown"
begin

lemma decode_Err_iff: "decode s = Inl e \<longleftrightarrow> e = unknown \<and> s \<notin> range encode"
proof
  assume "decode s = Inl e"
  then show "e = unknown \<and> s \<notin> range encode"
    using decode_unknown decode_refuses_iff by blast
next
  assume "e = unknown \<and> s \<notin> range encode"
  then show "decode s = Inl e"
    using decode_unknown decode_refuses_iff by blast
qed

lemma decode_cases: "decode s = Inl unknown \<or> (\<exists>x. s = encode x \<and> decode s = Inr x)"
  by (cases "decode s") (auto simp: decode_Ok_iff dest: decode_unknown)

end

end
