(* ===== verification/Vocabulary.thy ===== *)
theory Vocabulary
  imports Codecs "HOL-Library.Word"
begin

section \<open>Identities and vocabulary\<close>

text \<open>
  \<open>librairii-core/src/vocabulary.rs\<close> and \<open>identity.rs\<close>: the closed vocabularies, the
  positive group identities and the SHA-256 identity with its text form. Parsing and
  printing of a UUID belong to the \<open>uuid\<close> package, so they appear as parameters of
  the definitions that use them; a UUID value is its sixteen bytes.
\<close>

unbundle bit_operations_syntax

subsection \<open>Vocabularies\<close>

datatype message_id = MsgInvalidUuid | MsgInvalidGroupId | MsgInvalidChecksum

datatype boundary_error = InvalidUuid | InvalidGroupId | InvalidChecksum

fun message_id_of :: "boundary_error \<Rightarrow> message_id" where
  "message_id_of InvalidUuid = MsgInvalidUuid"
| "message_id_of InvalidGroupId = MsgInvalidGroupId"
| "message_id_of InvalidChecksum = MsgInvalidChecksum"

datatype operation_kind = Import | MetadataSync | Export

datatype operation_state =
  Queued | Running | Succeeded | PartiallySucceeded | Failed | Cancelled | Interrupted

datatype review_decision = NotNow | Add | Remove | Keep

definition review_decision_default :: review_decision where
  "review_decision_default = NotNow"

datatype export_scope_kind = CurrentQuery_scope | Selection_scope | CollectionUnion | ShelfUnion | RefinedShelf

subsection \<open>Group identities\<close>

text \<open>The macro \<open>group_identity!\<close> gives every group the same positive-integer identity.\<close>

type_synonym group_id = int

definition group_id_new :: "i64 \<Rightarrow> boundary_error + group_id" where
  "group_id_new value =
     ok_or InvalidGroupId (if value \<noteq> 0 \<and> value > 0 then Some value else None)"

lemma group_id_new_Ok_iff: "group_id_new v = Inr g \<longleftrightarrow> 0 < v \<and> g = v"
  by (auto simp: group_id_new_def)

datatype browse_scope = Library_scope | Collection_scope group_id | Shelf_scope group_id

type_synonym story_uuid = bytes

subsection \<open>Hexadecimal digits\<close>

definition to_digit16 :: "char \<Rightarrow> nat option" where
  "to_digit16 c = (let n = of_char c :: nat in
     if 48 \<le> n \<and> n \<le> 57 then Some (n - 48)
     else if 97 \<le> n \<and> n \<le> 102 then Some (n - 87)
     else if 65 \<le> n \<and> n \<le> 70 then Some (n - 55)
     else None)"

definition hex_digit :: "nat \<Rightarrow> char" where
  "hex_digit n = (if n < 10 then char_of (48 + n) else char_of (87 + n))"

lemma to_digit16_lt: "to_digit16 c = Some d \<Longrightarrow> d < 16"
  by (auto simp: to_digit16_def Let_def split: if_splits)

lemma to_digit16_hex_digit [simp]: "n < 16 \<Longrightarrow> to_digit16 (hex_digit n) = Some n"
  by (auto simp: to_digit16_def hex_digit_def Let_def)

lemma nibbles_or:
  assumes "l < (16::nat)"
  shows "push_bit 4 h OR l = 16 * h + l"
proof -
  have "push_bit 4 h AND l = 0"
  proof (rule bit_eqI)
    fix n
    have "\<not> bit l n" if "4 \<le> n"
    proof -
      have "(2::nat) ^ 4 \<le> 2 ^ n" using that by (rule power_increasing) simp
      with assms have "l < 2 ^ n" by simp
      then show ?thesis by (simp add: bit_nat_def)
    qed
    then show "bit (push_bit 4 h AND l) n \<longleftrightarrow> bit 0 n"
      by (auto simp: bit_and_iff bit_push_bit_iff)
  qed
  then have "push_bit 4 h OR l = push_bit 4 h + l"
    by (intro disjunctive_add[symmetric]) (metis bit_and_iff bit_0_eq bot_apply bot_bool_def)
  then show ?thesis
    by (simp add: push_bit_eq_mult)
qed

subsection \<open>Checksums\<close>

text \<open>\<open>Checksum::from_str\<close>: 64 bytes of text, two digits for each of the 32 bytes.\<close>

fun checksum_pairs :: "string \<Rightarrow> boundary_error + bytes" where
  "checksum_pairs (high # low # rest) =
     and_then (ok_or InvalidChecksum (to_digit16 high)) (\<lambda>h.
     and_then (ok_or InvalidChecksum (to_digit16 low)) (\<lambda>l.
     and_then (checksum_pairs rest) (\<lambda>bs.
       Inr (char_of ((push_bit 4 h OR l) mod 256) # bs))))"
| "checksum_pairs _ = Inr []"

definition checksum_from_str :: "string \<Rightarrow> boundary_error + bytes" where
  "checksum_from_str value =
     (if length value \<noteq> 64 then Inl InvalidChecksum else checksum_pairs value)"

definition checksum_display :: "bytes \<Rightarrow> string" where
  "checksum_display bytes =
     concat (map (\<lambda>b. [hex_digit (of_char b div 16), hex_digit (of_char b mod 16)]) bytes)"

lemma checksum_pairs_display: "checksum_pairs (checksum_display bs) = Inr bs"
proof (induction bs)
  case Nil
  show ?case by (simp add: checksum_display_def)
next
  case (Cons b bs)
  have lt: "(of_char b :: nat) div 16 < 16"
    using less_mult_imp_div_less[of "of_char b" 16 16] by simp
  have "char_of ((push_bit 4 (of_char b div 16) OR of_char b mod 16) mod 256 :: nat) = b"
    by (simp add: nibbles_or)
  with Cons lt show ?case
    by (simp add: checksum_display_def)
qed

lemma length_checksum_display: "length (checksum_display bs) = 2 * length bs"
  by (induction bs) (simp_all add: checksum_display_def)

lemma checksum_pairs_length:
  "checksum_pairs s = Inr bs \<Longrightarrow> even (length s) \<Longrightarrow> 2 * length bs = length s"
proof (induction s arbitrary: bs rule: checksum_pairs.induct)
  case (1 high low rest)
  then show ?case by (auto simp: result_iffs)
qed auto

lemma checksum_from_str_length: "checksum_from_str s = Inr bs \<Longrightarrow> length bs = 32"
  using checksum_pairs_length[of s bs] by (auto simp: checksum_from_str_def split: if_splits)

lemma hex_digit_to_digit16: "to_digit16 c = Some d \<Longrightarrow> hex_digit d = ascii_lower c"
  using char_of_char[of c]
  by (auto simp: to_digit16_def hex_digit_def ascii_defs Let_def split: if_splits)

lemma checksum_display_Cons:
  "checksum_display (b # bs) =
     hex_digit (of_char b div 16) # hex_digit (of_char b mod 16) # checksum_display bs"
  by (simp add: checksum_display_def)

lemma checksum_display_pairs:
  "checksum_pairs s = Inr bs \<Longrightarrow> even (length s) \<Longrightarrow> checksum_display bs = map ascii_lower s"
proof (induction s arbitrary: bs rule: checksum_pairs.induct)
  case (1 high low rest)
  from 1 obtain h l bs' where d: "to_digit16 high = Some h" "to_digit16 low = Some l"
    and r: "checksum_pairs rest = Inr bs'" and bs: "bs = char_of ((push_bit 4 h OR l) mod 256) # bs'"
    by (auto simp: result_iffs)
  have b: "h < 16" "l < 16" using d to_digit16_lt by auto
  then have "(16 * h + l) mod 256 = 16 * h + l" by simp
  then have "of_char (char_of ((push_bit 4 h OR l) mod 256) :: char) = 16 * h + l"
    using b by (simp add: nibbles_or)
  then have "checksum_display bs = hex_digit h # hex_digit l # checksum_display bs'"
    using b by (simp add: bs checksum_display_Cons)
  with 1 d r show ?case
    by (simp add: hex_digit_to_digit16)
qed (auto simp: checksum_display_def)

lemma to_digit16_ascii_lower [simp]: "to_digit16 (ascii_lower c) = to_digit16 c"
  by (auto simp: to_digit16_def ascii_defs Let_def)

lemma checksum_pairs_ascii_lower: "checksum_pairs (map ascii_lower s) = checksum_pairs s"
  by (induction s rule: checksum_pairs.induct) auto

text \<open>A text is accepted as a checksum exactly when it is, up to letter case, the printed
  form of 32 bytes, and the bytes returned are those: parsing and printing are inverse up to
  the case of the digits.\<close>

theorem checksum_parse_print:
  "checksum_from_str s = Inr bs \<longleftrightarrow> length bs = 32 \<and> checksum_display bs = map ascii_lower s"
proof
  assume ok: "checksum_from_str s = Inr bs"
  then have "length s = 64" "checksum_pairs s = Inr bs"
    by (auto simp: checksum_from_str_def split: if_splits)
  then show "length bs = 32 \<and> checksum_display bs = map ascii_lower s"
    using checksum_display_pairs[of s bs] checksum_from_str_length[OF ok] by auto
next
  assume rhs: "length bs = 32 \<and> checksum_display bs = map ascii_lower s"
  then have "length (map ascii_lower s) = 64"
    by (metis length_checksum_display mult_2 numeral_Bit0)
  moreover have "checksum_pairs s = Inr bs"
    using rhs by (metis checksum_pairs_ascii_lower checksum_pairs_display)
  ultimately show "checksum_from_str s = Inr bs"
    by (simp add: checksum_from_str_def)
qed

end
