(* ===== verification/Operation_Codec.thy ===== *)
theory Operation_Codec
  imports Vocabulary
begin

section \<open>Persisted labels of operations\<close>

text \<open>
  \<open>librairii-core/src/operations/codec.rs\<close>: the labels of operation kinds and states,
  of item states and of export sources. Each pair is an interpretation of the label
  contract, so labels are injective and a foreign label is refused.
\<close>

datatype operation_codec_error = UnknownKind | UnknownState | UnknownItemState | UnknownExportSourceType

fun encode_kind :: "operation_kind \<Rightarrow> string" where
  "encode_kind Import = ''import''"
| "encode_kind MetadataSync = ''metadata_sync''"
| "encode_kind Export = ''export''"

definition decode_kind :: "string \<Rightarrow> operation_codec_error + operation_kind" where
  "decode_kind value =
     (if value = ''import'' then Inr Import
      else if value = ''metadata_sync'' then Inr MetadataSync
      else if value = ''export'' then Inr Export
      else Inl UnknownKind)"

fun encode_state :: "operation_state \<Rightarrow> string" where
  "encode_state Queued = ''queued''"
| "encode_state Running = ''running''"
| "encode_state Succeeded = ''succeeded''"
| "encode_state PartiallySucceeded = ''partially_succeeded''"
| "encode_state Failed = ''failed''"
| "encode_state Cancelled = ''cancelled''"
| "encode_state Interrupted = ''interrupted''"

definition decode_state :: "string \<Rightarrow> operation_codec_error + operation_state" where
  "decode_state value =
     (if value = ''queued'' then Inr Queued
      else if value = ''running'' then Inr Running
      else if value = ''succeeded'' then Inr Succeeded
      else if value = ''partially_succeeded'' then Inr PartiallySucceeded
      else if value = ''failed'' then Inr Failed
      else if value = ''cancelled'' then Inr Cancelled
      else if value = ''interrupted'' then Inr Interrupted
      else Inl UnknownState)"

definition is_terminal :: "operation_state \<Rightarrow> bool" where
  "is_terminal value = (\<not> (value = Queued \<or> value = Running))"

datatype item_state =
  Pending_item | Running_item | Succeeded_item | Skipped_item | Conflicted_item | Failed_item
  | Cancelled_item

definition item_from_persisted :: "string \<Rightarrow> operation_codec_error + item_state" where
  "item_from_persisted value =
     (if value = ''pending'' then Inr Pending_item
      else if value = ''running'' then Inr Running_item
      else if value = ''succeeded'' then Inr Succeeded_item
      else if value = ''skipped'' then Inr Skipped_item
      else if value = ''conflicted'' then Inr Conflicted_item
      else if value = ''failed'' then Inr Failed_item
      else if value = ''cancelled'' then Inr Cancelled_item
      else Inl UnknownItemState)"

fun item_as_persisted :: "item_state \<Rightarrow> string" where
  "item_as_persisted Pending_item = ''pending''"
| "item_as_persisted Running_item = ''running''"
| "item_as_persisted Succeeded_item = ''succeeded''"
| "item_as_persisted Skipped_item = ''skipped''"
| "item_as_persisted Conflicted_item = ''conflicted''"
| "item_as_persisted Failed_item = ''failed''"
| "item_as_persisted Cancelled_item = ''cancelled''"

definition item_is_terminal :: "item_state \<Rightarrow> bool" where
  "item_is_terminal s = (\<not> (s = Pending_item \<or> s = Running_item))"

datatype export_group_kind = Collection_group | CuratedShelf_group

datatype export_source_type =
  Selection_source | CurrentQuery_source | Shelf_source | Shelves_source | Collection_source
  | Collections_source | CuratedShelf_source | CuratedShelves_source

definition source_from_persisted :: "string \<Rightarrow> operation_codec_error + export_source_type" where
  "source_from_persisted value =
     (if value = ''selection'' then Inr Selection_source
      else if value = ''current_query'' then Inr CurrentQuery_source
      else if value = ''shelf'' then Inr Shelf_source
      else if value = ''shelves'' then Inr Shelves_source
      else if value = ''collection'' then Inr Collection_source
      else if value = ''collections'' then Inr Collections_source
      else if value = ''curated_shelf'' then Inr CuratedShelf_source
      else if value = ''curated_shelves'' then Inr CuratedShelves_source
      else Inl UnknownExportSourceType)"

fun source_as_persisted :: "export_source_type \<Rightarrow> string" where
  "source_as_persisted Selection_source = ''selection''"
| "source_as_persisted CurrentQuery_source = ''current_query''"
| "source_as_persisted Shelf_source = ''shelf''"
| "source_as_persisted Shelves_source = ''shelves''"
| "source_as_persisted Collection_source = ''collection''"
| "source_as_persisted Collections_source = ''collections''"
| "source_as_persisted CuratedShelf_source = ''curated_shelf''"
| "source_as_persisted CuratedShelves_source = ''curated_shelves''"

fun group_kind :: "export_source_type \<Rightarrow> export_group_kind option" where
  "group_kind Selection_source = None"
| "group_kind CurrentQuery_source = None"
| "group_kind Shelf_source = Some Collection_group"
| "group_kind Shelves_source = Some Collection_group"
| "group_kind Collection_source = Some Collection_group"
| "group_kind Collections_source = Some Collection_group"
| "group_kind CuratedShelf_source = Some CuratedShelf_group"
| "group_kind CuratedShelves_source = Some CuratedShelf_group"

subsection \<open>The label contract\<close>

interpretation kind_codec: closed_codec encode_kind decode_kind UnknownKind
proof unfold_locales
  fix x s e
  show "decode_kind (encode_kind x) = Inr x" by (cases x) (simp_all add: decode_kind_def)
  show "decode_kind s = Inr x \<Longrightarrow> encode_kind x = s"
    by (auto simp: decode_kind_def split: if_splits)
  show "decode_kind s = Inl e \<Longrightarrow> e = UnknownKind"
    by (auto simp: decode_kind_def split: if_splits)
qed

interpretation state_codec: closed_codec encode_state decode_state UnknownState
proof unfold_locales
  fix x s e
  show "decode_state (encode_state x) = Inr x" by (cases x) (simp_all add: decode_state_def)
  show "decode_state s = Inr x \<Longrightarrow> encode_state x = s"
    by (auto simp: decode_state_def split: if_splits)
  show "decode_state s = Inl e \<Longrightarrow> e = UnknownState"
    by (auto simp: decode_state_def split: if_splits)
qed

interpretation item_codec: closed_codec item_as_persisted item_from_persisted UnknownItemState
proof unfold_locales
  fix x s e
  show "item_from_persisted (item_as_persisted x) = Inr x"
    by (cases x) (simp_all add: item_from_persisted_def)
  show "item_from_persisted s = Inr x \<Longrightarrow> item_as_persisted x = s"
    by (auto simp: item_from_persisted_def split: if_splits)
  show "item_from_persisted s = Inl e \<Longrightarrow> e = UnknownItemState"
    by (auto simp: item_from_persisted_def split: if_splits)
qed

interpretation source_codec:
  closed_codec source_as_persisted source_from_persisted UnknownExportSourceType
proof unfold_locales
  fix x s e
  show "source_from_persisted (source_as_persisted x) = Inr x"
    by (cases x) (simp_all add: source_from_persisted_def)
  show "source_from_persisted s = Inr x \<Longrightarrow> source_as_persisted x = s"
    by (auto simp: source_from_persisted_def split: if_splits)
  show "source_from_persisted s = Inl e \<Longrightarrow> e = UnknownExportSourceType"
    by (auto simp: source_from_persisted_def split: if_splits)
qed

lemma is_terminal_simps [simp]:
  "\<not> is_terminal Queued" "\<not> is_terminal Running" "is_terminal Succeeded"
  "is_terminal PartiallySucceeded" "is_terminal Failed" "is_terminal Cancelled"
  "is_terminal Interrupted"
  by (simp_all add: is_terminal_def)

lemma item_is_terminal_simps [simp]:
  "\<not> item_is_terminal Pending_item" "\<not> item_is_terminal Running_item"
  "item_is_terminal Succeeded_item" "item_is_terminal Skipped_item"
  "item_is_terminal Conflicted_item" "item_is_terminal Failed_item"
  "item_is_terminal Cancelled_item"
  by (simp_all add: item_is_terminal_def)

text \<open>Every persisted label of operation kinds, operation states, item states and export
  sources reads back as the value written, and nothing but those labels is accepted.\<close>

theorem operation_labels_round_trip:
  "(decode_kind s = Inr k \<longleftrightarrow> s = encode_kind k) \<and>
   (decode_state s = Inr st \<longleftrightarrow> s = encode_state st) \<and>
   (item_from_persisted s = Inr it \<longleftrightarrow> s = item_as_persisted it) \<and>
   (source_from_persisted s = Inr src \<longleftrightarrow> s = source_as_persisted src)"
  by (simp add: kind_codec.decode_Ok_iff state_codec.decode_Ok_iff item_codec.decode_Ok_iff
      source_codec.decode_Ok_iff)

end
