(* ===== verification/Utf8.thy ===== *)
theory Utf8
  imports Prelude
begin

section \<open>UTF-8 and white space\<close>

text \<open>
  A Rust \<open>str\<close> is a byte string that is valid UTF-8. \<open>utf8_next\<close> reads one code point
  with the strict table of the standard (no overlong forms, no surrogates, nothing above
  U+10FFFF), \<open>utf8_chars\<close> is \<open>str::from_utf8\<close> followed by \<open>chars\<close>, and \<open>encode_utf8\<close>
  is \<open>String::push\<close>. The two are inverse, so a \<open>str\<close> may be handled through its code
  points. \<open>trim_chars\<close> is the boundary trim the code applies to titles, labels and names.
\<close>

definition is_scalar :: "nat \<Rightarrow> bool" where
  "is_scalar c \<longleftrightarrow> c < 0xD800 \<or> (0xE000 \<le> c \<and> c < 0x110000)"

definition encode_utf8 :: "nat \<Rightarrow> string" where
  "encode_utf8 c =
     (if c < 0x80 then [char_of c]
      else if c < 0x800 then [char_of (0xC0 + c div 64), char_of (0x80 + c mod 64)]
      else if c < 0x10000 then
        [char_of (0xE0 + c div 4096), char_of (0x80 + c div 64 mod 64), char_of (0x80 + c mod 64)]
      else
        [char_of (0xF0 + c div 262144), char_of (0x80 + c div 4096 mod 64),
         char_of (0x80 + c div 64 mod 64), char_of (0x80 + c mod 64)])"

text \<open>Width of the sequence and the range of its second byte, by the first byte.\<close>

definition lead_info :: "nat \<Rightarrow> (nat \<times> nat \<times> nat) option" where
  "lead_info b =
     (if 0xC2 \<le> b \<and> b \<le> 0xDF then Some (2, 0x80, 0xBF)
      else if b = 0xE0 then Some (3, 0xA0, 0xBF)
      else if (0xE1 \<le> b \<and> b \<le> 0xEC) \<or> (0xEE \<le> b \<and> b \<le> 0xEF) then Some (3, 0x80, 0xBF)
      else if b = 0xED then Some (3, 0x80, 0x9F)
      else if b = 0xF0 then Some (4, 0x90, 0xBF)
      else if 0xF1 \<le> b \<and> b \<le> 0xF3 then Some (4, 0x80, 0xBF)
      else if b = 0xF4 then Some (4, 0x80, 0x8F)
      else None)"

text \<open>The value of a sequence: the low bits of the first byte, then six bits of each other byte.\<close>

definition sequence_value :: "nat \<Rightarrow> nat \<Rightarrow> string \<Rightarrow> nat" where
  "sequence_value width first tail =
     foldl (\<lambda>v b. v * 64 + of_char b mod 64) (first mod 2 ^ (7 - width)) tail"

definition utf8_next :: "string \<Rightarrow> (nat \<times> nat) option" where
  "utf8_next s =
     (case s of
        [] \<Rightarrow> None
      | c # rest \<Rightarrow>
          if of_char c < (0x80 :: nat) then Some (of_char c, 1)
          else (case lead_info (of_char c) of
              None \<Rightarrow> None
            | Some (width, lo, hi) \<Rightarrow>
                if length s < width \<or> \<not> byte_in lo hi (rest ! 0)
                  \<or> \<not> list_all (byte_in 0x80 0xBF) (take (width - 2) (drop 1 rest))
                then None
                else Some (sequence_value width (of_char c) (take (width - 1) rest), width)))"

lemma utf8_next_width: "utf8_next s = Some (c, w) \<Longrightarrow> 1 \<le> w \<and> w \<le> length s"
  by (auto simp: utf8_next_def lead_info_def Suc_le_eq split: list.splits if_splits)

function utf8_chars :: "string \<Rightarrow> nat list option" where
  "utf8_chars s =
     (if s = [] then Some []
      else (case utf8_next s of
          None \<Rightarrow> None
        | Some (c, w) \<Rightarrow> map_option (\<lambda>cs. c # cs) (utf8_chars (drop w s))))"
  by pat_completeness auto
termination
  by (relation "measure length") (auto dest: utf8_next_width)

declare utf8_chars.simps [simp del]

definition valid_utf8 :: "string \<Rightarrow> bool" where
  "valid_utf8 s \<longleftrightarrow> utf8_chars s \<noteq> None"

definition str_of_chars :: "nat list \<Rightarrow> string" where
  "str_of_chars cs = concat (map encode_utf8 cs)"

text \<open>\<open>chars()\<close> of a \<open>str\<close>; on bytes that are not UTF-8, which no \<open>str\<close> holds, it is empty.\<close>

definition str_chars :: "string \<Rightarrow> nat list" where
  "str_chars s = (case utf8_chars s of None \<Rightarrow> [] | Some cs \<Rightarrow> cs)"

subsection \<open>Encoding and decoding are inverse\<close>

lemma of_char_char_of_small: "n < 256 \<Longrightarrow> of_char (char_of n :: char) = (n :: nat)"
  by simp

lemma encode_utf8_nonempty: "encode_utf8 c \<noteq> []"
  by (simp add: encode_utf8_def)

lemma low_bits:
  "y < 64 \<Longrightarrow> (128 + y) mod 64 = (y::nat)"
  "x < 32 \<Longrightarrow> (192 + x) mod 32 = (x::nat)"
  "x < 16 \<Longrightarrow> (224 + x) mod 16 = (x::nat)"
  "x < 8 \<Longrightarrow> (240 + x) mod 8 = (x::nat)"
  using mod_mult_self3[of 2 64 y] mod_mult_self3[of 6 32 x] mod_mult_self3[of 14 16 x]
    mod_mult_self3[of 30 8 x]
  by simp_all

lemma sextets2:
  assumes "y < (64::nat)"
  shows "(x * 64 + y) div 64 = x" "(x * 64 + y) mod 64 = y"
  using assms by simp_all

lemma sextets3:
  assumes "y < (64::nat)" "z < 64"
  shows "((x * 64 + y) * 64 + z) div 4096 = x" "((x * 64 + y) * 64 + z) div 64 = x * 64 + y"
    "((x * 64 + y) * 64 + z) mod 64 = z"
  using assms mod_mult_self3[of "x * 64 + y" 64 z] by simp_all

lemma sextets4:
  assumes "y < (64::nat)" "z < 64" "t < 64"
  shows "(((x * 64 + y) * 64 + z) * 64 + t) div 262144 = x"
    "(((x * 64 + y) * 64 + z) * 64 + t) div 4096 = x * 64 + y"
    "(((x * 64 + y) * 64 + z) * 64 + t) div 64 = (x * 64 + y) * 64 + z"
    "(((x * 64 + y) * 64 + z) * 64 + t) mod 64 = t"
  using assms mod_mult_self3[of "(x * 64 + y) * 64 + z" 64 t] by simp_all

lemma byte_offset:
  assumes "byte_in lo hi b"
  obtains x :: nat where "b = char_of (lo + x)" "of_char b = lo + x" "x \<le> hi - lo"
proof
  show "b = char_of (lo + (of_char b - lo))" "of_char b = lo + (of_char b - lo)"
    "of_char b - lo \<le> hi - lo"
    using assms by (simp_all add: byte_in_def diff_le_mono)
qed

lemma encode_three:
  assumes "y < 64" "z < 64" "x < 16" "x = 0 \<longrightarrow> 32 \<le> y"
  shows "encode_utf8 ((x * 64 + y) * 64 + z) =
    [char_of (224 + x), char_of (128 + y), char_of (128 + z)]"
proof -
  have "0x800 \<le> (x * 64 + y) * 64 + z" "(x * 64 + y) * 64 + z < 0x10000"
    using assms by (cases "x = 0"; simp)+
  then show ?thesis
    using assms by (simp only: encode_utf8_def sextets3 sextets2 if_False not_less simp_thms) auto
qed

lemma encode_four:
  assumes "y < 64" "z < 64" "t < 64" "x \<le> 4" "x = 0 \<longrightarrow> 16 \<le> y"
  shows "encode_utf8 (((x * 64 + y) * 64 + z) * 64 + t) =
    [char_of (240 + x), char_of (128 + y), char_of (128 + z), char_of (128 + t)]"
proof -
  have "0x10000 \<le> ((x * 64 + y) * 64 + z) * 64 + t"
    using assms by (cases "x = 0"; simp)
  then show ?thesis
    using assms
    by (simp only: encode_utf8_def sextets4 sextets3 sextets2 if_False not_less simp_thms) auto
qed

lemma utf8_next_encode3:
  assumes "y < 64" "z < 64" "x < 16" "x = 0 \<longrightarrow> 32 \<le> y" "x = 13 \<longrightarrow> y < 32"
  shows "utf8_next (encode_utf8 ((x * 64 + y) * 64 + z) @ rest) =
    Some ((x * 64 + y) * 64 + z, length (encode_utf8 ((x * 64 + y) * 64 + z)))"
proof -
  have enc: "encode_utf8 ((x * 64 + y) * 64 + z) =
      [char_of (224 + x), char_of (128 + y), char_of (128 + z)]"
    using assms by (intro encode_three) simp_all
  consider "x = 0" | "1 \<le> x" "x \<le> 12" | "x = 13" | "14 \<le> x" by linarith
  then obtain lo hi where "lead_info (224 + x) = Some (3, lo, hi)" "lo \<le> 128 + y" "128 + y \<le> hi"
    using assms by cases (simp_all add: lead_info_def)
  then show ?thesis
    unfolding enc using assms
    by (simp add: utf8_next_def byte_in_def sequence_value_def low_bits)
qed

lemma utf8_next_encode4:
  assumes "y < 64" "z < 64" "t < 64" "x \<le> 4" "x = 0 \<longrightarrow> 16 \<le> y" "x = 4 \<longrightarrow> y < 16"
  shows "utf8_next (encode_utf8 (((x * 64 + y) * 64 + z) * 64 + t) @ rest) =
    Some (((x * 64 + y) * 64 + z) * 64 + t,
      length (encode_utf8 (((x * 64 + y) * 64 + z) * 64 + t)))"
proof -
  have enc: "encode_utf8 (((x * 64 + y) * 64 + z) * 64 + t) =
      [char_of (240 + x), char_of (128 + y), char_of (128 + z), char_of (128 + t)]"
    using assms by (intro encode_four) simp_all
  consider "x = 0" | "1 \<le> x" "x \<le> 3" | "x = 4" using assms by linarith
  then obtain lo hi where "lead_info (240 + x) = Some (4, lo, hi)" "lo \<le> 128 + y" "128 + y \<le> hi"
    using assms by cases (simp_all add: lead_info_def)
  then show ?thesis
    unfolding enc using assms
    by (simp add: utf8_next_def byte_in_def sequence_value_def low_bits)
qed

lemma utf8_next_encode:
  assumes "is_scalar c"
  shows "utf8_next (encode_utf8 c @ rest) = Some (c, length (encode_utf8 c))"
proof -
  consider (one) "c < 0x80" | (two) "0x80 \<le> c" "c < 0x800"
    | (three) "0x800 \<le> c" "c < 0x10000" | (four) "0x10000 \<le> c" "c < 0x110000"
    using assms by (force simp: is_scalar_def)
  then show ?thesis
  proof cases
    case one
    then show ?thesis by (simp add: encode_utf8_def utf8_next_def)
  next
    case two
    then have "2 \<le> c div 64" "c div 64 < 32" by simp_all
    then have "lead_info (0xC0 + c div 64) = Some (2, 0x80, 0xBF)"
      by (simp add: lead_info_def)
    moreover have "(192 + c div 64) mod 32 = c div 64" "c mod 64 \<le> 63"
      "(128 + c mod 64) mod 64 = c mod 64"
      using two by (simp_all add: low_bits)
    moreover have "c div 64 * 64 + c mod 64 = c" by simp
    ultimately show ?thesis using two
      by (simp add: encode_utf8_def utf8_next_def byte_in_def sequence_value_def)
  next
    case three
    define x y z where "x = c div 64 div 64" and "y = c div 64 mod 64" and "z = c mod 64"
    have c: "c = (x * 64 + y) * 64 + z"
      using div_mult_mod_eq[of c 64] div_mult_mod_eq[of "c div 64" 64]
      by (simp only: x_def y_def z_def)
    have xyz: "y < 64" "z < 64" by (simp_all add: y_def z_def)
    moreover have "x < 16" using three xyz by (simp add: c)
    moreover have "x = 0 \<longrightarrow> 32 \<le> y" using three xyz by (auto simp: c)
    moreover have "x = 13 \<longrightarrow> y < 32" using assms three xyz by (auto simp: c is_scalar_def)
    ultimately show ?thesis by (simp only: c utf8_next_encode3)
  next
    case four
    define x y z t where "x = c div 64 div 64 div 64" and "y = c div 64 div 64 mod 64"
      and "z = c div 64 mod 64" and "t = c mod 64"
    have c: "c = ((x * 64 + y) * 64 + z) * 64 + t"
      using div_mult_mod_eq[of c 64] div_mult_mod_eq[of "c div 64" 64]
        div_mult_mod_eq[of "c div 64 div 64" 64]
      by (simp only: x_def y_def z_def t_def)
    have xyz: "y < 64" "z < 64" "t < 64" by (simp_all add: y_def z_def t_def)
    moreover have "x \<le> 4" using four xyz by (simp add: c)
    moreover have "x = 0 \<longrightarrow> 16 \<le> y" using four xyz by (auto simp: c)
    moreover have "x = 4 \<longrightarrow> y < 16" using four xyz by (auto simp: c)
    ultimately show ?thesis by (simp only: c utf8_next_encode4)
  qed
qed

lemma utf8_next_sound:
  assumes "utf8_next s = Some (c, w)"
  shows "is_scalar c \<and> take w s = encode_utf8 c"
proof -
  from assms obtain b rest where s: "s = b # rest" by (auto simp: utf8_next_def split: list.splits)
  show ?thesis
  proof (cases "of_char b < (0x80 :: nat)")
    case True
    with assms show ?thesis by (auto simp: s utf8_next_def is_scalar_def encode_utf8_def)
  next
    case False
    with assms obtain lo hi where lead: "lead_info (of_char b) = Some (w, lo, hi)"
      and len: "w \<le> length s" and second: "byte_in lo hi (rest ! 0)"
      and conts: "list_all (byte_in 0x80 0xBF) (take (w - 2) (drop 1 rest))"
      and c: "c = sequence_value w (of_char b) (take (w - 1) rest)"
      by (auto simp: s utf8_next_def split: option.splits if_splits)
    from lead consider "w = 2" | "w = 3" | "w = 4"
      by (auto simp: lead_info_def split: if_splits)
    then show ?thesis
    proof cases
      case 1
      with len s obtain d r where rest: "rest = d # r" by (cases rest) auto
      from lead 1 have lead2: "byte_in 0xC2 0xDF b" and "lo = 0x80" "hi = 0xBF"
        by (auto simp: lead_info_def byte_in_def split: if_splits)
      with second rest have "byte_in 0x80 0xBF d" by simp
      then obtain y :: nat where y: "d = char_of (0x80 + y)" "of_char d = 0x80 + y" "y \<le> 63"
        by (rule byte_offset) auto
      obtain x :: nat where x: "b = char_of (0xC2 + x)" "of_char b = 0xC2 + x" "x \<le> 29"
        by (rule byte_offset[OF lead2]) auto
      have "(194 + x) mod 32 = x + 2" "(128 + y) mod 64 = y"
        using x y low_bits(2)[of "x + 2"] by (simp_all add: low_bits)
      then have "c = (x + 2) * 64 + y"
        using c 1 rest x y by (simp add: sequence_value_def)
      moreover have "((x + 2) * 64 + y) div 64 = x + 2" "((x + 2) * 64 + y) mod 64 = y"
        by (rule sextets2; use y in simp)+
      ultimately show ?thesis
        using s rest 1 x y by (simp add: is_scalar_def encode_utf8_def)
    next
      case 2
      with len s obtain d e r where rest: "rest = d # e # r"
        by (cases rest; cases "tl rest") auto
      from lead 2 second conts rest have bytes: "byte_in 0xE0 0xEF b" "byte_in 0x80 0xBF d"
        "byte_in 0x80 0xBF e"
        by (auto simp: lead_info_def byte_in_def split: if_splits)
      obtain x :: nat where x: "b = char_of (0xE0 + x)" "of_char b = 0xE0 + x" "x \<le> 15"
        by (rule byte_offset[OF bytes(1)]) auto
      obtain y :: nat where y: "d = char_of (0x80 + y)" "of_char d = 0x80 + y" "y \<le> 63"
        by (rule byte_offset[OF bytes(2)]) auto
      obtain z :: nat where z: "e = char_of (0x80 + z)" "of_char e = 0x80 + z" "z \<le> 63"
        by (rule byte_offset[OF bytes(3)]) auto
      have "(224 + x) mod 16 = x" "(128 + y) mod 64 = y" "(128 + z) mod 64 = z"
        using x y z by (simp_all add: low_bits)
      then have cv: "c = (x * 64 + y) * 64 + z"
        using c 2 rest x y z by (simp add: sequence_value_def)
      have "x = 0 \<Longrightarrow> 32 \<le> y" "x = 13 \<Longrightarrow> y < 32"
        using lead second 2 rest x y by (auto simp: lead_info_def byte_in_def split: if_splits)
      then have "is_scalar c"
      proof -
        consider "x \<le> 12" | "x = 13" | "14 \<le> x" by linarith
        then show ?thesis
          using cv x y z \<open>x = 13 \<Longrightarrow> y < 32\<close> by cases (simp_all add: is_scalar_def)
      qed
      moreover have "encode_utf8 c = [b, d, e]"
        unfolding cv x(1) y(1) z(1) using x y z \<open>x = 0 \<Longrightarrow> 32 \<le> y\<close> by (intro encode_three) auto
      ultimately show ?thesis using s rest 2 by simp
    next
      case 3
      with len s obtain d e f r where rest: "rest = d # e # f # r"
        by (cases rest; cases "tl rest"; cases "tl (tl rest)") auto
      from lead 3 second conts rest have bytes: "byte_in 0xF0 0xF4 b" "byte_in 0x80 0xBF d"
        "byte_in 0x80 0xBF e" "byte_in 0x80 0xBF f"
        by (auto simp: lead_info_def byte_in_def numeral_2_eq_2 split: if_splits)
      obtain x :: nat where x: "b = char_of (0xF0 + x)" "of_char b = 0xF0 + x" "x \<le> 4"
        by (rule byte_offset[OF bytes(1)]) auto
      obtain y :: nat where y: "d = char_of (0x80 + y)" "of_char d = 0x80 + y" "y \<le> 63"
        by (rule byte_offset[OF bytes(2)]) auto
      obtain z :: nat where z: "e = char_of (0x80 + z)" "of_char e = 0x80 + z" "z \<le> 63"
        by (rule byte_offset[OF bytes(3)]) auto
      obtain t :: nat where t: "f = char_of (0x80 + t)" "of_char f = 0x80 + t" "t \<le> 63"
        by (rule byte_offset[OF bytes(4)]) auto
      have "(240 + x) mod 8 = x" "(128 + y) mod 64 = y" "(128 + z) mod 64 = z" "(128 + t) mod 64 = t"
        using x y z t by (simp_all add: low_bits)
      then have cv: "c = ((x * 64 + y) * 64 + z) * 64 + t"
        using c 3 rest x y z t by (simp add: sequence_value_def)
      have "x = 0 \<Longrightarrow> 16 \<le> y" "x = 4 \<Longrightarrow> y < 16"
        using lead second 3 rest x y by (auto simp: lead_info_def byte_in_def split: if_splits)
      then have "is_scalar c"
      proof -
        consider "x = 0" | "1 \<le> x" "x \<le> 3" | "x = 4" using x by linarith
        then show ?thesis
          using cv y z t \<open>x = 0 \<Longrightarrow> 16 \<le> y\<close> \<open>x = 4 \<Longrightarrow> y < 16\<close>
          by cases (simp_all add: is_scalar_def)
      qed
      moreover have "encode_utf8 c = [b, d, e, f]"
        unfolding cv x(1) y(1) z(1) t(1) using x y z t \<open>x = 0 \<Longrightarrow> 16 \<le> y\<close>
        by (intro encode_four) auto
      ultimately show ?thesis using s rest 3 by simp
    qed
  qed
qed


lemma utf8_chars_Nil [simp]: "utf8_chars [] = Some []"
  by (simp add: utf8_chars.simps)

lemma utf8_chars_encode_append:
  "is_scalar c \<Longrightarrow> utf8_chars (encode_utf8 c @ s) = map_option (\<lambda>cs. c # cs) (utf8_chars s)"
  by (subst utf8_chars.simps) (simp add: utf8_next_encode encode_utf8_nonempty)

lemma utf8_chars_str_of_chars:
  "list_all is_scalar cs \<Longrightarrow> utf8_chars (str_of_chars cs) = Some cs"
  by (induction cs) (simp_all add: str_of_chars_def utf8_chars_encode_append)

lemma str_of_chars_utf8_chars:
  "utf8_chars s = Some cs \<Longrightarrow> list_all is_scalar cs \<and> str_of_chars cs = s"
proof (induction s arbitrary: cs rule: utf8_chars.induct)
  case (1 s)
  show ?case
  proof (cases "s = []")
    case True
    with 1 show ?thesis by (simp add: str_of_chars_def)
  next
    case False
    with 1(2) obtain c w cs' where n: "utf8_next s = Some (c, w)"
      and r: "utf8_chars (drop w s) = Some cs'" and cs: "cs = c # cs'"
      by (subst (asm) utf8_chars.simps) (auto split: option.splits)
    have "list_all is_scalar cs' \<and> str_of_chars cs' = drop w s"
      by (rule 1(1)[OF False n _ r]) simp
    with utf8_next_sound[OF n] show ?thesis
      by (simp add: cs str_of_chars_def) (metis append_take_drop_id)
  qed
qed

text \<open>Valid UTF-8 byte strings and sequences of Unicode scalar values are in bijection:
  \<open>from_utf8\<close> accepts exactly the encodings of scalar values and \<open>chars\<close> recovers them.\<close>

theorem utf8_bijection:
  "utf8_chars s = Some cs \<longleftrightarrow> list_all is_scalar cs \<and> s = str_of_chars cs"
  using utf8_chars_str_of_chars str_of_chars_utf8_chars by blast

lemma valid_utf8_iff: "valid_utf8 s \<longleftrightarrow> (\<exists>cs. list_all is_scalar cs \<and> s = str_of_chars cs)"
  by (auto simp: valid_utf8_def utf8_bijection not_None_eq)

lemma str_chars_str_of_chars [simp]: "list_all is_scalar cs \<Longrightarrow> str_chars (str_of_chars cs) = cs"
  by (simp add: str_chars_def utf8_chars_str_of_chars)

lemma str_of_chars_str_chars: "valid_utf8 s \<Longrightarrow> str_of_chars (str_chars s) = s"
  by (auto simp: valid_utf8_iff)

lemma str_chars_scalar: "list_all is_scalar (str_chars s)"
  by (auto simp: str_chars_def dest: str_of_chars_utf8_chars split: option.splits)

lemma str_of_chars_append: "str_of_chars (xs @ ys) = str_of_chars xs @ str_of_chars ys"
  by (simp add: str_of_chars_def)

lemma valid_utf8_str_of_chars [simp]: "list_all is_scalar cs \<Longrightarrow> valid_utf8 (str_of_chars cs)"
  by (auto simp: valid_utf8_iff)

lemma str_of_chars_eq_Nil [simp]: "str_of_chars cs = [] \<longleftrightarrow> cs = []"
  by (cases cs) (simp_all add: str_of_chars_def encode_utf8_nonempty)

lemma str_of_chars_inject:
  "list_all is_scalar cs \<Longrightarrow> list_all is_scalar ds \<Longrightarrow> str_of_chars cs = str_of_chars ds \<longleftrightarrow> cs = ds"
  by (metis str_chars_str_of_chars)

subsection \<open>Boundary trimming\<close>

definition trim_chars :: "(nat \<Rightarrow> bool) \<Rightarrow> nat list \<Rightarrow> nat list" where
  "trim_chars p cs = rev (dropWhile p (rev (dropWhile p cs)))"

lemma trim_chars_idem [simp]: "trim_chars p (trim_chars p cs) = trim_chars p cs"
proof -
  define xs where "xs = dropWhile p cs"
  define ys where "ys = dropWhile p (rev xs)"
  have first: "ys = [] \<or> \<not> p (hd ys)"
    by (metis hd_dropWhile ys_def)
  have "xs = [] \<or> \<not> p (hd xs)" by (metis hd_dropWhile xs_def)
  moreover have "ys \<noteq> [] \<Longrightarrow> last ys = hd xs"
    by (metis dropWhile_eq_Nil_conv last_appendR last_rev takeWhile_dropWhile_id ys_def rev.simps(1))
  ultimately have "dropWhile p (rev ys) = rev ys"
    by (metis dropWhile_eq_self_iff hd_rev last_rev rev_is_Nil_conv dropWhile.simps(1) ys_def rev.simps(1))
  moreover have "dropWhile p ys = ys"
    using first by (metis dropWhile_eq_self_iff)
  ultimately show ?thesis
    by (simp add: trim_chars_def flip: xs_def ys_def)
qed

lemma trim_chars_set: "set (trim_chars p cs) \<subseteq> set cs"
  by (auto simp: trim_chars_def dest!: set_dropWhileD)

lemma trim_chars_list_all: "list_all q cs \<Longrightarrow> list_all q (trim_chars p cs)"
  using trim_chars_set by (fastforce simp: list_all_iff)

lemma trim_chars_Nil_iff: "trim_chars p cs = [] \<longleftrightarrow> list_all p cs"
proof -
  have "trim_chars p cs = [] \<longleftrightarrow> (\<forall>x \<in> set (dropWhile p cs). p x)"
    by (simp add: trim_chars_def dropWhile_eq_Nil_conv)
  also have "\<dots> \<longleftrightarrow> dropWhile p cs = []"
  proof -
    have "xs = [] \<or> \<not> p (hd xs) \<Longrightarrow> (\<forall>x \<in> set xs. p x) \<longleftrightarrow> xs = []" for xs
      by (cases xs) auto
    with hd_dropWhile[of p cs] show ?thesis by blast
  qed
  finally show ?thesis by (simp add: dropWhile_eq_Nil_conv list_all_iff)
qed

text \<open>The white space of Rust's \<open>char::is_whitespace\<close>, which \<open>str::trim\<close> removes.\<close>

definition rust_whitespace :: "nat \<Rightarrow> bool" where
  "rust_whitespace c \<longleftrightarrow> (9 \<le> c \<and> c \<le> 13) \<or> c = 0x20 \<or> c = 0x85 \<or> c = 0xA0 \<or> c = 0x1680
     \<or> (0x2000 \<le> c \<and> c \<le> 0x200A) \<or> c = 0x2028 \<or> c = 0x2029 \<or> c = 0x202F \<or> c = 0x205F
     \<or> c = 0x3000"

definition str_trim :: "string \<Rightarrow> string" where
  "str_trim s = str_of_chars (trim_chars rust_whitespace (str_chars s))"

subsection \<open>Frozen Unicode tables\<close>

text \<open>
  \<open>collection_codec/compatibility/normalization.rs\<close>: membership in a sorted table of
  ranges with a stride, the white-space table and the frozen boundary trim. The binary
  search \<open>partition_point\<close> finds the number of leading ranges that end below the character.
\<close>

type_synonym range_table = "(nat \<times> nat \<times> nat) list"

definition in_ranges :: "nat \<Rightarrow> range_table \<Rightarrow> bool" where
  "in_ranges rune ranges =
     (let i = length (takeWhile (\<lambda>(_, hi, _). hi < rune) ranges)
      in case get_at ranges i of
           None \<Rightarrow> False
         | Some (lo, _, stride) \<Rightarrow> lo \<le> rune \<and> (rune - lo) mod stride = 0)"

definition white_space_table :: range_table where
  "white_space_table =
     [(0x9, 0xd, 0x1), (0x20, 0x85, 0x65), (0xa0, 0x1680, 0x15e0), (0x2000, 0x200a, 0x1),
      (0x2028, 0x2029, 0x1), (0x202f, 0x205f, 0x30), (0x3000, 0x3000, 0x1)]"

definition is_space :: "nat \<Rightarrow> bool" where
  "is_space c = in_ranges c white_space_table"

definition trim_space :: "string \<Rightarrow> string" where
  "trim_space value = str_of_chars (trim_chars is_space (str_chars value))"

definition tag_trim :: "string \<Rightarrow> string" where
  "tag_trim value = trim_space value"

lemma mod_zero_below: "0 < k \<Longrightarrow> d \<le> k \<Longrightarrow> d mod k = 0 \<longleftrightarrow> d = 0 \<or> d = (k::nat)"
  by (cases "d < k") auto

lemma is_space_rust_whitespace: "is_space c = rust_whitespace c"
proof -
  have strides: "\<lbrakk>0x20 \<le> c; c \<le> 0x85\<rbrakk> \<Longrightarrow> (c - 0x20) mod 0x65 = 0 \<longleftrightarrow> c = 0x20 \<or> c = 0x85"
    "\<lbrakk>0xa0 \<le> c; c \<le> 0x1680\<rbrakk> \<Longrightarrow> (c - 0xa0) mod 0x15e0 = 0 \<longleftrightarrow> c = 0xa0 \<or> c = 0x1680"
    "\<lbrakk>0x202f \<le> c; c \<le> 0x205f\<rbrakk> \<Longrightarrow> (c - 0x202f) mod 0x30 = 0 \<longleftrightarrow> c = 0x202f \<or> c = 0x205f"
    using mod_zero_below[of "0x65" "c - 0x20"] mod_zero_below[of "0x15e0" "c - 0xa0"]
      mod_zero_below[of "0x30" "c - 0x202f"]
    by auto
  consider "c \<le> 0xd" | "0xd < c" "c \<le> 0x85" | "0x85 < c" "c \<le> 0x1680" | "0x1680 < c" "c \<le> 0x200a"
    | "0x200a < c" "c \<le> 0x2029" | "0x2029 < c" "c \<le> 0x205f" | "0x205f < c" by linarith
  then show ?thesis
  proof cases
    case 2
    then show ?thesis using strides(1)
      by (cases "0x20 \<le> c")
        (auto simp: is_space_def in_ranges_def white_space_table_def get_at_def rust_whitespace_def)
  next
    case 3
    then show ?thesis using strides(2)
      by (cases "0xa0 \<le> c")
        (auto simp: is_space_def in_ranges_def white_space_table_def get_at_def rust_whitespace_def)
  next
    case 6
    then show ?thesis using strides(3)
      by (cases "0x202f \<le> c")
        (auto simp: is_space_def in_ranges_def white_space_table_def get_at_def rust_whitespace_def)
  qed (auto simp: is_space_def in_ranges_def white_space_table_def get_at_def rust_whitespace_def)
qed

lemma tag_trim_idem: "tag_trim (tag_trim s) = tag_trim s"
  by (simp add: tag_trim_def trim_space_def trim_chars_list_all str_chars_scalar)

lemma tag_trim_valid: "valid_utf8 (tag_trim s)"
  by (simp add: tag_trim_def trim_space_def trim_chars_list_all str_chars_scalar)

end
