(* ===== verification/Operation_Data.thy ===== *)
theory Operation_Data
  imports Operation_Codec Utf8
begin

section \<open>Stored operation data\<close>

text \<open>
  \<open>librairii-core/src/operations/data.rs\<close>: stored identities with their raw spelling, the
  raw tuple order of history keys, nullable outcomes, the decoded export source with its
  validation, and the provenance of an observation.
\<close>

datatype operation_policy_error =
  InactiveOperation | InvalidTransition | InvalidProgress | InvalidCounts | IncompleteOperation
  | InvalidExportSource | InvalidInterruption | NegativeByteCount | ByteTotalOverflow

record stored_operation_identity =
  op_id :: string
  created_at :: string
  started_at :: "string option"
  finished_at :: "string option"

text \<open>\<open>#[derive(Ord)]\<close> on \<open>HistoryKey\<close> compares \<open>created_at\<close> first, then \<open>id\<close>.\<close>

datatype history_key = HistoryKey (key_created_at: string) (key_id: string)

instantiation history_key :: linorder
begin

definition less_eq_history_key :: "history_key \<Rightarrow> history_key \<Rightarrow> bool" where
  "less_eq_history_key a b \<longleftrightarrow> (key_created_at a, key_id a) \<le> (key_created_at b, key_id b)"

definition less_history_key :: "history_key \<Rightarrow> history_key \<Rightarrow> bool" where
  "less_history_key a b \<longleftrightarrow> (key_created_at a, key_id a) < (key_created_at b, key_id b)"

instance
proof
  fix x y z :: history_key
  show "x < y \<longleftrightarrow> x \<le> y \<and> \<not> y \<le> x"
    by (auto simp: less_eq_history_key_def less_history_key_def)
  show "x \<le> x" by (simp add: less_eq_history_key_def)
  show "x \<le> y \<Longrightarrow> y \<le> z \<Longrightarrow> x \<le> z"
    unfolding less_eq_history_key_def by (rule order_trans)
  show "x \<le> y \<Longrightarrow> y \<le> x \<Longrightarrow> x = y"
    by (cases x; cases y) (auto simp: less_eq_history_key_def)
  show "x \<le> y \<or> y \<le> x"
    unfolding less_eq_history_key_def by (rule linear)
qed

end

definition history_key_of :: "stored_operation_identity \<Rightarrow> history_key" where
  "history_key_of i = HistoryKey (created_at i) (op_id i)"

definition typed_id ::
    "(string \<Rightarrow> 'u option) \<Rightarrow> stored_operation_identity \<Rightarrow> boundary_error + 'u" where
  "typed_id parse_uuid i = ok_or InvalidUuid (parse_uuid (op_id i))"

record stored_item_identity =
  item_id :: i64
  story_id :: "i64 option"
  resolved_story_id :: "i64 option"
  story_uuid_text :: "string option"

definition typed_story_uuid ::
    "(string \<Rightarrow> 'u option) \<Rightarrow> stored_item_identity \<Rightarrow> boundary_error + 'u option" where
  "typed_story_uuid parse_uuid i =
     (case story_uuid_text i of
        None \<Rightarrow> Inr None
      | Some text \<Rightarrow> and_then (ok_or InvalidUuid (parse_uuid text)) (\<lambda>u. Inr (Some u)))"

definition historical_story_id :: "stored_item_identity \<Rightarrow> i64" where
  "historical_story_id i =
     (case (case resolved_story_id i of Some r \<Rightarrow> Some r | None \<Rightarrow> story_id i) of
        Some s \<Rightarrow> s | None \<Rightarrow> 0)"

record raw_outcome =
  code :: "string option"
  message :: "string option"

definition raw_outcome_default :: raw_outcome where
  "raw_outcome_default = \<lparr>code = None, message = None\<rparr>"

text \<open>\<open>as_deref().unwrap_or_default()\<close> on a nullable text.\<close>

definition text_or_default :: "string option \<Rightarrow> string" where
  "text_or_default t = (case t of None \<Rightarrow> [] | Some s \<Rightarrow> s)"

record stored_export_scope =
  discriminator :: "string option"
  scope_group_ids :: "string option"
  scope_group_names :: "string option"

definition scope_source_type ::
    "stored_export_scope \<Rightarrow> operation_codec_error + export_source_type option" where
  "scope_source_type s =
     (case discriminator s of
        None \<Rightarrow> Inr None
      | Some d \<Rightarrow> and_then (source_from_persisted d) (\<lambda>t. Inr (Some t)))"

subsection \<open>Export sources\<close>

record export_source =
  source_type :: export_source_type
  collection_ids :: "i64 list"
  collection_names :: "string list"
  shelf_ids :: "i64 list"
  shelf_names :: "string list"

definition collection_fields :: "export_source \<Rightarrow> bool" where
  "collection_fields s \<longleftrightarrow> source_type s = Collection_source \<or> source_type s = Collections_source"

definition group_ids :: "export_source \<Rightarrow> i64 list" where
  "group_ids s = (if collection_fields s then collection_ids s else shelf_ids s)"

definition group_names :: "export_source \<Rightarrow> string list" where
  "group_names s = (if collection_fields s then collection_names s else shelf_names s)"

definition collection_history_ids :: "export_source \<Rightarrow> i64 list" where
  "collection_history_ids s =
     (if group_kind (source_type s) = Some Collection_group then group_ids s else [])"

definition collection_history_names :: "export_source \<Rightarrow> string list" where
  "collection_history_names s =
     (if group_kind (source_type s) = Some Collection_group then group_names s else [])"

fun valid_count :: "export_source_type \<Rightarrow> i64 list \<Rightarrow> bool" where
  "valid_count Selection_source ids = (ids = [])"
| "valid_count CurrentQuery_source ids = (ids = [])"
| "valid_count Shelf_source ids = (length ids = 1)"
| "valid_count Collection_source ids = (length ids = 1)"
| "valid_count CuratedShelf_source ids = (length ids = 1)"
| "valid_count Shelves_source ids = (2 \<le> length ids)"
| "valid_count Collections_source ids = (2 \<le> length ids)"
| "valid_count CuratedShelves_source ids = (2 \<le> length ids)"

definition validate_source :: "export_source \<Rightarrow> operation_policy_error + unit" where
  "validate_source s =
     (if (collection_fields s \<and> (shelf_ids s \<noteq> [] \<or> shelf_names s \<noteq> []))
         \<or> (\<not> collection_fields s \<and> (collection_ids s \<noteq> [] \<or> collection_names s \<noteq> []))
      then Inl InvalidExportSource
      else let ids = group_ids s; names = group_names s in
        if \<not> valid_count (source_type s) ids
           \<or> length ids \<noteq> length names
           \<or> rejects_repeat (\<lambda>(id, name). id \<le> 0 \<or> str_trim name = []) fst {} (zip ids names)
        then Inl InvalidExportSource
        else Inr ())"

subsection \<open>Observations\<close>

datatype observation_kind = StoredSnapshot | ProvisionalPersistenceFailure

record operation_observation =
  obs_state :: operation_state
  obs_kind :: observation_kind

definition is_saved_terminal :: "operation_observation \<Rightarrow> bool" where
  "is_saved_terminal obs \<longleftrightarrow> obs_kind obs = StoredSnapshot \<and> is_terminal (obs_state obs)"

subsection \<open>What validation accepts\<close>

text \<open>The specification of an admissible export source, without the code's order of checks.\<close>

definition admissible_source :: "export_source \<Rightarrow> bool" where
  "admissible_source s \<longleftrightarrow>
     (if collection_fields s then shelf_ids s = [] \<and> shelf_names s = []
      else collection_ids s = [] \<and> collection_names s = [])
     \<and> valid_count (source_type s) (group_ids s)
     \<and> length (group_ids s) = length (group_names s)
     \<and> list_all (\<lambda>id. 0 < id) (group_ids s)
     \<and> list_all (\<lambda>name. str_trim name \<noteq> []) (group_names s)
     \<and> distinct (group_ids s)"

lemma zip_all_iff:
  "length xs = length ys \<Longrightarrow>
   (\<forall>z \<in> set (zip xs ys). P (fst z) \<and> Q (snd z)) \<longleftrightarrow> list_all P xs \<and> list_all Q ys"
  by (induction xs ys rule: list_induct2) auto

lemma validate_source_Ok_iff: "validate_source s = Inr () \<longleftrightarrow> admissible_source s"
proof (cases "length (group_ids s) = length (group_names s)")
  case True
  have "\<not> rejects_repeat (\<lambda>(id, name). id \<le> 0 \<or> str_trim name = []) fst {}
      (zip (group_ids s) (group_names s)) \<longleftrightarrow>
    list_all (\<lambda>id. 0 < id) (group_ids s) \<and> list_all (\<lambda>name. str_trim name \<noteq> []) (group_names s)
    \<and> distinct (group_ids s)"
    using zip_all_iff[OF True, of "\<lambda>id. 0 < id" "\<lambda>name. str_trim name \<noteq> []"] True
    by (auto simp: not_rejects_repeat_empty split_beta not_le)
  with True show ?thesis
    by (auto simp: validate_source_def admissible_source_def Let_def)
next
  case False
  then show ?thesis by (auto simp: validate_source_def admissible_source_def Let_def)
qed

text \<open>Validating an export source succeeds exactly on the admissible ones: only the fields
  of its own group kind are filled, the number of groups fits the source type, the two vectors
  have equal length, and every group has a positive, unrepeated id and a non-blank name.\<close>

theorem validate_source_correct: "validate_source s = Inr () \<longleftrightarrow> admissible_source s"
  by (rule validate_source_Ok_iff)

lemma validate_source_error: "validate_source s = Inl e \<Longrightarrow> e = InvalidExportSource"
  by (auto simp: validate_source_def Let_def split: if_splits)

end
