(* ===== verification/Operation_History.thy ===== *)
theory Operation_History
  imports Operation_Data "HOL-Library.Multiset"
begin

section \<open>Operation history\<close>

text \<open>
  \<open>librairii-core/src/operations/history.rs\<close> with the two text predicates of
  \<open>operations/mod.rs\<close>: the bounded selection of the newest rows behind a cursor, the active
  rows followed by the latest terminal export, and the reveal predicate. The payload of a row
  is a type parameter: selection never looks at it.
\<close>

definition text_present :: "string \<Rightarrow> bool" where
  "text_present value \<longleftrightarrow> tag_trim value \<noteq> []"

definition valid_output_name :: "string \<Rightarrow> bool" where
  "valid_output_name value \<longleftrightarrow>
     text_present value \<and> tag_trim value = value
     \<and> value \<noteq> ''.'' \<and> value \<noteq> ''..''
     \<and> \<not> list_ex (\<lambda>c. c = CHR ''/'' \<or> c = CHR 0x5C \<or> c = CHR 0x00) value"

subsection \<open>Rows, cursors and windows\<close>

definition history_page_size :: usize where
  "history_page_size = 20"

definition history_lookahead :: usize where
  "history_lookahead = history_page_size + 1"

record 'a operation_view_row =
  row_identity :: stored_operation_identity
  row_kind :: operation_kind
  row_observation :: operation_observation
  row_payload :: 'a

datatype history_cursor = Start | Found history_key | Missing

datatype history_error = MissingCursor

record 'a history_window =
  operations :: "'a operation_view_row list"
  next_before :: "string option"

type_synonym raw_key = "string \<times> string"

definition creation_key :: "'a operation_view_row \<Rightarrow> raw_key" where
  "creation_key row = (created_at (row_identity row), op_id (row_identity row))"

definition terminal_export_key :: "'a operation_view_row \<Rightarrow> raw_key" where
  "terminal_export_key row =
     ((case finished_at (row_identity row) of Some t \<Rightarrow> t | None \<Rightarrow> created_at (row_identity row)),
      op_id (row_identity row))"

subsection \<open>The bounded selection\<close>

definition cursor_bound :: "history_cursor \<Rightarrow> history_error + raw_key option" where
  "cursor_bound cursor =
     (case cursor of
        Start \<Rightarrow> Inr None
      | Found key \<Rightarrow> Inr (Some (key_created_at key, key_id key))
      | Missing \<Rightarrow> Inl MissingCursor)"

definition skipped_row :: "raw_key option \<Rightarrow> 'a operation_view_row \<Rightarrow> bool" where
  "skipped_row before row \<longleftrightarrow>
     obs_kind (row_observation row) \<noteq> StoredSnapshot
     \<or> (case before of None \<Rightarrow> False | Some key \<Rightarrow> creation_key row \<ge> key)"

definition insertion_position :: "'a operation_view_row \<Rightarrow> 'a operation_view_row list \<Rightarrow> nat" where
  "insertion_position row selected =
     length (takeWhile (\<lambda>other. \<not> creation_key row > creation_key other) selected)"

definition select_step ::
    "raw_key option \<Rightarrow> 'a operation_view_row list \<Rightarrow> 'a operation_view_row \<Rightarrow> 'a operation_view_row list" where
  "select_step before selected row =
     (if skipped_row before row then selected
      else let position = insertion_position row selected in
        if position < history_lookahead then
          let kept = (if length selected = history_lookahead then butlast selected else selected) in
            take position kept @ row # drop position kept
        else selected)"

definition history_window_of ::
    "'a operation_view_row list \<Rightarrow> history_cursor \<Rightarrow> history_error + 'a history_window" where
  "history_window_of rows cursor =
     and_then (cursor_bound cursor) (\<lambda>before.
       let selected = foldl (select_step before) [] rows in
         Inr (if length selected > history_page_size
              then let page = butlast selected in
                \<lparr>operations = page,
                 next_before = (if page = [] then None else Some (op_id (row_identity (last page))))\<rparr>
              else \<lparr>operations = selected, next_before = None\<rparr>))"

subsection \<open>Active rows and the latest export\<close>

definition active_row :: "'a operation_view_row \<Rightarrow> bool" where
  "active_row row \<longleftrightarrow>
     obs_kind (row_observation row) = StoredSnapshot
     \<and> (obs_state (row_observation row) = Queued \<or> obs_state (row_observation row) = Running)"

definition terminal_export :: "'a operation_view_row \<Rightarrow> bool" where
  "terminal_export row \<longleftrightarrow> row_kind row = Export \<and> is_saved_terminal (row_observation row)"

text \<open>
  The order that \<open>sort_unstable_by\<close> leaves among equal keys is unspecified; stored rows have
  unique ids, so keys are unique and any stable descending sort is the same list.
\<close>

definition sort_descending :: "('a \<Rightarrow> 'k::linorder) \<Rightarrow> 'a list \<Rightarrow> 'a list" where
  "sort_descending key xs = rev (sort_key key xs)"

text \<open>\<open>Iterator::max_by\<close> keeps the later of two elements with equal keys.\<close>

fun max_by_key :: "('a \<Rightarrow> 'k::linorder) \<Rightarrow> 'a list \<Rightarrow> 'a option" where
  "max_by_key key [] = None"
| "max_by_key key (x # xs) =
     Some (foldl (\<lambda>best y. if key best > key y then best else y) x xs)"

definition active_and_latest :: "'a operation_view_row list \<Rightarrow> 'a operation_view_row list" where
  "active_and_latest rows =
     (let active = sort_descending creation_key (filter active_row rows);
          latest = max_by_key terminal_export_key (filter terminal_export rows)
      in case latest of None \<Rightarrow> active | Some row \<Rightarrow> active @ [row])"

definition reveal_eligible ::
    "operation_kind \<Rightarrow> operation_observation \<Rightarrow> string option \<Rightarrow> bool" where
  "reveal_eligible kind observation raw_destination \<longleftrightarrow>
     kind = Export \<and> is_saved_terminal observation
     \<and> (case raw_destination of None \<Rightarrow> False | Some path \<Rightarrow> path \<noteq> [])"

subsection \<open>Bounded insertion keeps the newest rows\<close>

text \<open>The unbounded reference: insertion into a descending list.\<close>

definition insert_newest :: "'a operation_view_row \<Rightarrow> 'a operation_view_row list \<Rightarrow> 'a operation_view_row list" where
  "insert_newest row xs =
     (let position = insertion_position row xs in take position xs @ row # drop position xs)"

abbreviation newest_first :: "'a operation_view_row list \<Rightarrow> bool" where
  "newest_first \<equiv> sorted_wrt (\<lambda>a b. creation_key b \<le> creation_key a)"

lemma insert_newest_Nil [simp]: "insert_newest row [] = [row]"
  by (simp add: insert_newest_def insertion_position_def)

lemma insert_newest_Cons [simp]:
  "insert_newest row (x # xs) =
     (if creation_key row > creation_key x then row # x # xs else x # insert_newest row xs)"
  by (simp add: insert_newest_def insertion_position_def Let_def)

lemma mset_insert_newest [simp]: "mset (insert_newest row xs) = add_mset row (mset xs)"
  by (induction xs) auto

lemma set_insert_newest [simp]: "set (insert_newest row xs) = insert row (set xs)"
  by (induction xs) auto

lemma newest_first_insert: "newest_first xs \<Longrightarrow> newest_first (insert_newest row xs)"
  by (induction xs) (auto simp: not_less intro: order.trans less_imp_le)

lemma take_insert_newest:
  "take n (insert_newest row (take n xs)) = take n (insert_newest row xs)"
proof (induction xs arbitrary: n)
  case Nil
  then show ?case by simp
next
  case (Cons x xs)
  then show ?case by (cases n) (auto simp: take_Cons' min_def)
qed

lemma insertion_position_le: "insertion_position row xs \<le> length xs"
  by (simp add: insertion_position_def length_takeWhile_le)

lemma bounded_insert:
  assumes "length xs \<le> history_lookahead"
  shows "select_step before xs row =
    (if skipped_row before row then xs else take history_lookahead (insert_newest row xs))"
proof -
  let ?p = "insertion_position row xs"
  have p: "?p \<le> length xs" by (rule insertion_position_le)
  have full: "take (history_lookahead - ?p) (row # drop ?p xs) =
      row # drop ?p (butlast xs)" if "length xs = history_lookahead" "?p < history_lookahead"
  proof -
    have "history_lookahead - ?p = Suc (length xs - 1 - ?p)" using that by simp
    then show ?thesis by (simp add: butlast_conv_take drop_take)
  qed
  show ?thesis
  proof (cases "length xs = history_lookahead")
    case True
    with p full show ?thesis
      by (auto simp: select_step_def insert_newest_def Let_def butlast_conv_take min_def)
  next
    case False
    with p assms show ?thesis
      by (auto simp: select_step_def insert_newest_def Let_def)
  qed
qed

lemma selected_prefix:
  "foldl (select_step before) [] rows =
     take history_lookahead
       (foldl (\<lambda>xs row. insert_newest row xs) [] (filter (\<lambda>row. \<not> skipped_row before row) rows))"
proof (induction rows rule: rev_induct)
  case Nil
  then show ?case by simp
next
  case (snoc row rows)
  then show ?case by (simp add: bounded_insert take_insert_newest)
qed

lemma reference_sorted:
  "newest_first (foldl (\<lambda>xs row. insert_newest row xs) [] rows)"
  "mset (foldl (\<lambda>xs row. insert_newest row xs) [] rows) = mset rows"
  by (induction rows rule: rev_induct) (simp_all add: newest_first_insert)

text \<open>C19: The bounded scan is a full descending sort followed by a cut: the window holds the
  first twenty of all stored rows behind the cursor, newest first, and the continuation id is
  that of the twentieth row, present exactly when a further row exists; only a missing cursor
  is refused.\<close>

theorem history_window_correct:
  "(case cursor_bound cursor of
      Inl e \<Rightarrow> history_window_of rows cursor = Inl e \<and> cursor = Missing
    | Inr before \<Rightarrow>
        \<exists>sorted. newest_first sorted
          \<and> mset sorted = mset (filter (\<lambda>row. \<not> skipped_row before row) rows)
          \<and> history_window_of rows cursor = Inr
              \<lparr>operations = take history_page_size sorted,
               next_before = (if length sorted > history_page_size
                 then Some (op_id (row_identity (sorted ! (history_page_size - 1)))) else None)\<rparr>)"
proof (cases "cursor_bound cursor")
  case (Inl e)
  then show ?thesis
    by (auto simp: history_window_of_def cursor_bound_def split: history_cursor.splits)
next
  case (Inr before)
  define sorted where "sorted = foldl (\<lambda>xs row. insert_newest row xs) []
      (filter (\<lambda>row. \<not> skipped_row before row) rows)"
  have positive: "history_page_size \<noteq> 0" by (simp add: history_page_size_def)
  have sel: "foldl (select_step before) [] rows = take history_lookahead sorted"
    by (simp add: selected_prefix sorted_def)
  have cut: "butlast (take history_lookahead sorted) = take history_page_size sorted"
    if "length sorted > history_page_size"
    using that by (simp_all add: history_lookahead_def history_page_size_def butlast_take)
  have page: "take history_page_size sorted \<noteq> []" if "length sorted > history_page_size"
    using that by (auto simp: history_page_size_def)
  then have last_id: "last (take history_page_size sorted) = sorted ! (history_page_size - 1)"
    if "length sorted > history_page_size"
    using that by (auto simp: last_conv_nth history_page_size_def)
  have "history_window_of rows cursor = Inr
      \<lparr>operations = take history_page_size sorted,
       next_before = (if length sorted > history_page_size
         then Some (op_id (row_identity (sorted ! (history_page_size - 1)))) else None)\<rparr>"
    using cut last_id page positive
    by (auto simp: history_window_of_def Inr sel Let_def history_lookahead_def)
  with reference_sorted[of "filter (\<lambda>row. \<not> skipped_row before row) rows"] Inr show ?thesis
    by (auto simp: sorted_def)
qed

subsection \<open>The active view\<close>

lemma max_by_key_foldl:
  "let m = foldl (\<lambda>best y. if key best > key y then best else y) x xs in
     m \<in> insert x (set xs) \<and> (\<forall>y \<in> insert x (set xs). key y \<le> key m)"
  for key :: "'a \<Rightarrow> 'k::linorder"
proof (induction xs arbitrary: x)
  case Nil
  then show ?case by simp
next
  case (Cons z zs)
  show ?case
  proof (cases "key x > key z")
    case True
    with Cons.IH[of x] show ?thesis by (auto simp: Let_def)
  next
    case False
    with Cons.IH[of z] show ?thesis by (auto simp: Let_def)
  qed
qed

lemma max_by_key_Some: "max_by_key key xs = Some m \<Longrightarrow> m \<in> set xs \<and> (\<forall>x \<in> set xs. key x \<le> key m)"
  using max_by_key_foldl[of key] by (cases xs) (auto simp: Let_def)

lemma max_by_key_None: "max_by_key key xs = None \<longleftrightarrow> xs = []"
  by (cases xs) auto

lemma sort_descending_sorted:
  "sorted_wrt (\<lambda>a b. key b \<le> key a) (sort_descending key xs)"
  "mset (sort_descending key xs) = mset xs"
  using sorted_sort_key[of key xs] by (simp_all add: sort_descending_def sorted_wrt_rev sorted_map)

text \<open>The active view is all stored queued and running rows, newest first, followed by at
  most one row: the stored terminal export with the greatest finishing key, present whenever
  there is one.\<close>

theorem active_and_latest_correct:
  "\<exists>active latest. active_and_latest rows = active @ latest
     \<and> mset active = mset (filter active_row rows) \<and> newest_first active
     \<and> (case latest of
          [] \<Rightarrow> filter terminal_export rows = []
        | [row] \<Rightarrow> row \<in> set rows \<and> terminal_export row
            \<and> list_all (\<lambda>other. terminal_export_key other \<le> terminal_export_key row)
                (filter terminal_export rows)
        | _ \<Rightarrow> False)"
proof (cases "max_by_key terminal_export_key (filter terminal_export rows)")
  case None
  then show ?thesis
    using sort_descending_sorted[of creation_key "filter active_row rows"]
    by (intro exI[of _ "sort_descending creation_key (filter active_row rows)"] exI[of _ "[]"])
      (auto simp: active_and_latest_def max_by_key_None)
next
  case (Some row)
  then show ?thesis
    using sort_descending_sorted[of creation_key "filter active_row rows"]
      max_by_key_Some[OF Some]
    by (intro exI[of _ "sort_descending creation_key (filter active_row rows)"] exI[of _ "[row]"])
      (auto simp: active_and_latest_def list_all_iff)
qed

end
