(* ===== verification/Operation_Policy.thy ===== *)
theory Operation_Policy
  imports Operation_Data
begin

section \<open>Operation policy\<close>

text \<open>
  \<open>librairii-core/src/operations/policy.rs\<close>: the guards on counts and progress, the checked
  byte total, the transitions of an operation and of its items, the interruption of a running
  operation, and the aggregate that folds the terminal items into the operation's result.
\<close>

subsection \<open>Counts and progress\<close>

record counts =
  completed :: i64
  total :: i64

definition counts_validate :: "counts \<Rightarrow> operation_policy_error + unit" where
  "counts_validate c =
     (if total c < 0 \<or> completed c < 0 \<or> completed c > total c then Inl InvalidCounts else Inr ())"

definition counts_for_new_work :: "i64 \<Rightarrow> operation_policy_error + counts" where
  "counts_for_new_work n =
     (if n \<le> 0 then Inl InvalidCounts else Inr \<lparr>completed = 0, total = n\<rparr>)"

record progress =
  prg_completed :: i64
  prg_total :: i64

definition advance :: "progress \<Rightarrow> item_state \<Rightarrow> i64 \<Rightarrow> operation_policy_error + progress" where
  "advance p state next_value =
     (if state \<noteq> Running_item
         \<or> prg_completed p < 0
         \<or> prg_total p < 0
         \<or> next_value < prg_completed p
         \<or> next_value > prg_total p
      then Inl InvalidProgress
      else Inr (p\<lparr>prg_completed := next_value\<rparr>))"

fun byte_total_from :: "i64 \<Rightarrow> i64 list \<Rightarrow> operation_policy_error + i64" where
  "byte_total_from acc [] = Inr acc"
| "byte_total_from acc (value # values) =
     (if value < 0 then Inl NegativeByteCount
      else and_then (ok_or ByteTotalOverflow (i64_checked_add acc value))
        (\<lambda>acc'. byte_total_from acc' values))"

definition checked_byte_total :: "i64 list \<Rightarrow> operation_policy_error + i64" where
  "checked_byte_total values = byte_total_from 0 values"

subsection \<open>Transitions\<close>

definition require_active :: "operation_state \<Rightarrow> operation_policy_error + unit" where
  "require_active state = (if is_terminal state then Inl InactiveOperation else Inr ())"

definition mark_running :: "operation_state \<Rightarrow> operation_policy_error + operation_state" where
  "mark_running state = and_then (require_active state) (\<lambda>_. Inr Running)"

definition mark_item_running :: "item_state \<Rightarrow> operation_policy_error + item_state" where
  "mark_item_running state =
     (if state \<noteq> Pending_item then Inl InvalidTransition else Inr Running_item)"

definition request_cancel :: "operation_state \<Rightarrow> operation_policy_error + bool" where
  "request_cancel state = and_then (require_active state) (\<lambda>_. Inr True)"

record completion_candidate =
  cand_item_state :: item_state
  cand_counts :: counts

definition complete_item ::
    "operation_state \<Rightarrow> item_state \<Rightarrow> counts \<Rightarrow> item_state \<Rightarrow> operation_policy_error + completion_candidate" where
  "complete_item parent current c terminal =
     and_then (require_active parent) (\<lambda>_.
     and_then (counts_validate c) (\<lambda>_.
       if item_is_terminal current \<or> \<not> item_is_terminal terminal then Inl InvalidTransition
       else if completed c = total c then Inl InvalidCounts
       else Inr \<lparr>cand_item_state = terminal,
                 cand_counts = c\<lparr>completed := i64_add (completed c) 1\<rparr>\<rparr>))"

definition finish ::
    "operation_state \<Rightarrow> counts \<Rightarrow> operation_state \<Rightarrow> operation_policy_error + operation_state" where
  "finish current c target =
     and_then (require_active current) (\<lambda>_.
     and_then (counts_validate c) (\<lambda>_.
       if \<not> is_terminal target \<or> target = Interrupted then Inl InvalidTransition
       else if completed c \<noteq> total c then Inl IncompleteOperation
       else Inr target))"

subsection \<open>Interruption\<close>

record item_record =
  rec_identity :: stored_item_identity
  rec_state :: item_state
  rec_progress :: progress
  rec_outcome :: raw_outcome

record interruption_candidate =
  int_state :: operation_state
  int_counts :: counts
  int_items :: "item_record list"
  int_reason :: raw_outcome

definition interrupt_item :: "raw_outcome \<Rightarrow> item_record \<Rightarrow> item_record" where
  "interrupt_item reason item =
     (if \<not> item_is_terminal (rec_state item)
      then item\<lparr>rec_state := Cancelled_item, rec_outcome := reason\<rparr>
      else item)"

definition interrupt ::
    "operation_state \<Rightarrow> counts \<Rightarrow> item_record list \<Rightarrow> raw_outcome
      \<Rightarrow> operation_policy_error + interruption_candidate" where
  "interrupt current c items reason =
     and_then (require_active current) (\<lambda>_.
     and_then (counts_validate c) (\<lambda>_.
       if text_or_default (code reason) = [] \<or> text_or_default (message reason) = []
       then Inl InvalidInterruption
       else and_then (ok_or InvalidCounts (i64_try_from (length items))) (\<lambda>n.
         if n \<noteq> total c then Inl InvalidCounts
         else and_then (ok_or InvalidCounts (i64_try_from
             (length (filter (\<lambda>item. item_is_terminal (rec_state item)) items)))) (\<lambda>k.
           if k \<noteq> completed c then Inl InvalidCounts
           else let c' = \<lparr>completed = n, total = n\<rparr> in
             and_then (counts_validate c') (\<lambda>_.
               Inr \<lparr>int_state = Interrupted, int_counts = c',
                    int_items = map (interrupt_item reason) items,
                    int_reason = reason\<rparr>)))))"

subsection \<open>The completion aggregate\<close>

record terminal_result =
  res_state :: operation_state
  res_code :: string
  res_message :: string

record completion_aggregate =
  agg_kind :: operation_kind
  agg_counts :: counts
  successes :: i64
  skipped :: i64
  conflicted :: i64
  failures :: i64
  cancelled :: i64
  failure_code :: string
  failure_message :: string

definition aggregate_new :: "operation_kind \<Rightarrow> i64 \<Rightarrow> operation_policy_error + completion_aggregate" where
  "aggregate_new kind n =
     and_then (counts_for_new_work n) (\<lambda>c.
       Inr \<lparr>agg_kind = kind, agg_counts = c, successes = 0, skipped = 0, conflicted = 0,
            failures = 0, cancelled = 0, failure_code = [], failure_message = []\<rparr>)"

definition record_failure :: "raw_outcome \<Rightarrow> completion_aggregate \<Rightarrow> completion_aggregate" where
  "record_failure outcome a =
     (let a = a\<lparr>failures := i64_add (failures a) 1\<rparr> in
      if failure_code a = []
      then a\<lparr>failure_code := text_or_default (code outcome),
             failure_message := text_or_default (message outcome)\<rparr>
      else a)"

definition tally ::
    "item_state \<Rightarrow> raw_outcome \<Rightarrow> completion_aggregate \<Rightarrow> completion_aggregate" where
  "tally state outcome a =
     (case state of
        Succeeded_item \<Rightarrow> a\<lparr>successes := i64_add (successes a) 1\<rparr>
      | Skipped_item \<Rightarrow>
          if agg_kind a \<noteq> Export then a\<lparr>successes := i64_add (successes a) 1\<rparr>
          else a\<lparr>skipped := i64_add (skipped a) 1\<rparr>
      | Conflicted_item \<Rightarrow>
          if agg_kind a = Export then a\<lparr>conflicted := i64_add (conflicted a) 1\<rparr>
          else record_failure outcome a
      | Cancelled_item \<Rightarrow> a\<lparr>cancelled := i64_add (cancelled a) 1\<rparr>
      | _ \<Rightarrow> record_failure outcome a)"

definition aggregate_record ::
    "item_state \<Rightarrow> raw_outcome \<Rightarrow> completion_aggregate \<Rightarrow> operation_policy_error + completion_aggregate" where
  "aggregate_record state outcome a =
     (if \<not> item_is_terminal state then Inl InvalidTransition
      else if completed (agg_counts a) = total (agg_counts a) then Inl InvalidCounts
      else let a = tally state outcome a in
        Inr (a\<lparr>agg_counts := (agg_counts a)\<lparr>completed := i64_add (completed (agg_counts a)) 1\<rparr>\<rparr>))"

definition failure_result :: "completion_aggregate \<Rightarrow> string \<Rightarrow> string \<Rightarrow> terminal_result" where
  "failure_result a default_code default_message =
     \<lparr>res_state = Failed,
      res_code = (if failure_code a = [] then default_code else failure_code a),
      res_message = (if failure_message a = [] then default_message else failure_message a)\<rparr>"

definition terminal_result_of :: "completion_aggregate \<Rightarrow> operation_policy_error + terminal_result" where
  "terminal_result_of a =
     (if completed (agg_counts a) \<noteq> total (agg_counts a) then Inl IncompleteOperation
      else Inr
       (if agg_kind a = Export then
          if failures a = 0 \<and> cancelled a = 0 \<and> skipped a = 0 \<and> conflicted a = 0 then
            \<lparr>res_state = Succeeded, res_code = [], res_message = []\<rparr>
          else if successes a > 0 then
            \<lparr>res_state = PartiallySucceeded, res_code = ''partial_export'',
             res_message = ''Some stories were not exported.''\<rparr>
          else if cancelled a > 0 \<and> failures a = 0 then
            \<lparr>res_state = Cancelled, res_code = ''cancelled'',
             res_message = ''The export was cancelled.''\<rparr>
          else failure_result a ''export_failed'' ''No stories were exported.''
        else if failures a = 0 \<and> cancelled a = 0 then
          \<lparr>res_state = Succeeded, res_code = [], res_message = []\<rparr>
        else if agg_kind a = MetadataSync then
          if failures a = 0 then
            \<lparr>res_state = Cancelled, res_code = ''catalog_cancelled'',
             res_message = ''Official metadata refresh was cancelled.''\<rparr>
          else failure_result a ''catalog_refresh_failed''
             ''Official metadata could not be refreshed.''
        else if successes a > 0 then
          \<lparr>res_state = PartiallySucceeded, res_code = ''partial_failure'',
           res_message = ''Some files could not be imported.''\<rparr>
        else if failures a = 0 then
          \<lparr>res_state = Cancelled, res_code = ''cancelled'',
           res_message = ''The import was cancelled.''\<rparr>
        else
          \<lparr>res_state = Failed, res_code = ''import_failed'',
           res_message = ''No selected files were imported.''\<rparr>))"

text \<open>Recording a list of acknowledged items in order, stopping at the first refusal.\<close>

fun record_all ::
    "completion_aggregate \<Rightarrow> (item_state \<times> raw_outcome) list
      \<Rightarrow> operation_policy_error + completion_aggregate" where
  "record_all a [] = Inr a"
| "record_all a ((state, outcome) # items) =
     and_then (aggregate_record state outcome a) (\<lambda>a'. record_all a' items)"

subsection \<open>Counts, progress and byte totals\<close>

definition counts_ok :: "counts \<Rightarrow> bool" where
  "counts_ok c \<longleftrightarrow> 0 \<le> completed c \<and> completed c \<le> total c"

lemma counts_validate_Ok_iff [simp]: "counts_validate c = Inr u \<longleftrightarrow> counts_ok c"
  by (auto simp: counts_validate_def counts_ok_def)

lemma counts_validate_Err_iff [simp]: "counts_validate c = Inl e \<longleftrightarrow> \<not> counts_ok c \<and> e = InvalidCounts"
  by (auto simp: counts_validate_def counts_ok_def)

lemma require_active_Ok_iff [simp]: "require_active st = Inr u \<longleftrightarrow> \<not> is_terminal st"
  by (simp add: require_active_def)

lemma require_active_Err_iff [simp]:
  "require_active st = Inl e \<longleftrightarrow> is_terminal st \<and> e = InactiveOperation"
  by (auto simp: require_active_def)

text \<open>Progress of a running item never goes backwards and never exceeds its total; every
  other request is refused as invalid progress and changes nothing.\<close>

theorem advance_correct:
  "advance p state v =
     (if state = Running_item \<and> 0 \<le> prg_completed p \<and> prg_completed p \<le> v \<and> v \<le> prg_total p
      then Inr (p\<lparr>prg_completed := v\<rparr>) else Inl InvalidProgress)"
  by (auto simp: advance_def)

lemma byte_total_from_Ok_iff:
  "0 \<le> acc \<Longrightarrow> i64_ok acc \<Longrightarrow>
   byte_total_from acc vs = Inr t \<longleftrightarrow>
     list_all (\<lambda>v. 0 \<le> v) vs \<and> t = acc + sum_list vs \<and> i64_ok t"
proof (induction vs arbitrary: acc)
  case Nil
  then show ?case by auto
next
  case (Cons v vs)
  show ?case
  proof (cases "0 \<le> v \<and> i64_ok (acc + v)")
    case True
    with Cons.prems Cons.IH[of "acc + v"] show ?thesis
      by (auto simp: i64_checked_add_def algebra_simps)
  next
    case False
    have "list_all (\<lambda>v. 0 \<le> v) vs \<Longrightarrow> 0 \<le> sum_list vs"
      by (induction vs) auto
    with False Cons.prems show ?thesis
      by (auto simp: i64_checked_add_def bounds_simps)
  qed
qed

text \<open>The byte total is the exact sum of the values, and it is returned precisely when no
  value is negative and the sum fits the signed 64-bit storage range: it never wraps.\<close>

theorem checked_byte_total_correct:
  "checked_byte_total values = Inr t \<longleftrightarrow>
     list_all (\<lambda>v. 0 \<le> v) values \<and> t = sum_list values \<and> i64_ok t"
  by (simp add: checked_byte_total_def byte_total_from_Ok_iff bounds_simps)

subsection \<open>Transitions\<close>

text \<open>A terminal operation is final: starting it, cancelling it, completing one of its items,
  finishing it and interrupting it are all refused as inactive.\<close>

theorem terminal_operation_is_final:
  assumes "is_terminal st"
  shows "mark_running st = Inl InactiveOperation
    \<and> request_cancel st = Inl InactiveOperation
    \<and> complete_item st item c it = Inl InactiveOperation
    \<and> finish st c target = Inl InactiveOperation
    \<and> interrupt st c items reason = Inl InactiveOperation"
  using assms
  by (simp add: mark_running_def request_cancel_def complete_item_def finish_def
      interrupt_def require_active_def)

theorem terminal_operation_is_final_witness:
  "is_terminal Failed \<and> finish Failed \<lparr>completed = 1, total = 1\<rparr> Succeeded = Inl InactiveOperation"
  using terminal_operation_is_final[of Failed _ "\<lparr>completed = 1, total = 1\<rparr>" _ Succeeded] by simp

text \<open>Completing an item succeeds exactly for an active operation with valid, unfinished
  counts, an item that is not yet terminal and a terminal target; it then advances the counter
  by one, within the range of a signed 64-bit integer, and keeps the counts valid.\<close>

theorem complete_item_correct:
  assumes "i64_ok (total c)"
  shows "complete_item parent current c terminal = Inr r \<longleftrightarrow>
    \<not> is_terminal parent \<and> \<not> item_is_terminal current \<and> item_is_terminal terminal
    \<and> 0 \<le> completed c \<and> completed c < total c
    \<and> r = \<lparr>cand_item_state = terminal, cand_counts = c\<lparr>completed := completed c + 1\<rparr>\<rparr>
    \<and> counts_ok (cand_counts r)"
  using assms
  by (auto simp: complete_item_def result_iffs counts_ok_def bounds_simps split: if_splits)

theorem complete_item_correct_witness:
  "i64_ok (total \<lparr>completed = 1, total = 3\<rparr>) \<and>
   complete_item Running Running_item \<lparr>completed = 1, total = 3\<rparr> Failed_item =
     Inr \<lparr>cand_item_state = Failed_item, cand_counts = \<lparr>completed = 2, total = 3\<rparr>\<rparr>"
  using complete_item_correct[of "\<lparr>completed = 1, total = 3\<rparr>" Running Running_item Failed_item
      "\<lparr>cand_item_state = Failed_item, cand_counts = \<lparr>completed = 2, total = 3\<rparr>\<rparr>"]
  by (simp add: counts_ok_def bounds_simps)

lemma finish_Ok_iff:
  "finish current c target = Inr r \<longleftrightarrow>
     \<not> is_terminal current \<and> counts_ok c \<and> is_terminal target \<and> target \<noteq> Interrupted
     \<and> completed c = total c \<and> r = target"
  by (auto simp: finish_def result_iffs)

subsection \<open>Interruption\<close>

lemma interrupt_item_simps [simp]:
  "rec_identity (interrupt_item r i) = rec_identity i"
  "rec_progress (interrupt_item r i) = rec_progress i"
  "item_is_terminal (rec_state (interrupt_item r i))"
  "item_is_terminal (rec_state i) \<Longrightarrow> interrupt_item r i = i"
  by (simp_all add: interrupt_item_def)

lemma interrupt_Ok_iff:
  "interrupt current c items reason = Inr r \<longleftrightarrow>
     \<not> is_terminal current
     \<and> text_or_default (code reason) \<noteq> [] \<and> text_or_default (message reason) \<noteq> []
     \<and> int (length items) \<le> i64_max \<and> total c = int (length items)
     \<and> completed c = int (length (filter (\<lambda>i. item_is_terminal (rec_state i)) items))
     \<and> r = \<lparr>int_state = Interrupted,
            int_counts = \<lparr>completed = int (length items), total = int (length items)\<rparr>,
            int_items = map (interrupt_item reason) items, int_reason = reason\<rparr>"
proof -
  let ?P = "\<lambda>i. item_is_terminal (rec_state i)"
  define k where "k = length (filter ?P items)"
  have "k \<le> length items" by (simp add: k_def)
  then show ?thesis
    unfolding k_def[symmetric] interrupt_def
    by (auto simp: result_iffs i64_try_from_def counts_ok_def Let_def k_def[symmetric])
qed

text \<open>C24: A successful interruption loses nothing: the operation becomes interrupted with all its
  items counted complete, every item ends terminal, items already terminal are kept exactly as
  they were, and identities and progress of all items are preserved in order.\<close>

theorem interrupt_preserves_facts:
  assumes "interrupt current c items reason = Inr r"
  shows "int_state r = Interrupted
    \<and> completed (int_counts r) = total c \<and> total (int_counts r) = total c
    \<and> list_all (\<lambda>i. item_is_terminal (rec_state i)) (int_items r)
    \<and> filter (\<lambda>i. item_is_terminal (rec_state i)) items
        = map fst (filter (\<lambda>(old, new). item_is_terminal (rec_state old) \<and> new = old)
            (zip items (int_items r)))
    \<and> map rec_identity (int_items r) = map rec_identity items
    \<and> map rec_progress (int_items r) = map rec_progress items"
proof -
  have kept: "filter P items = map fst (filter (\<lambda>(old, new). P old \<and> new = old) (zip items (map f items)))"
    if "\<And>i. P i \<Longrightarrow> f i = i" for P and f :: "item_record \<Rightarrow> item_record"
    using that by (induction items) auto
  from assms show ?thesis
    using kept[of "\<lambda>i. item_is_terminal (rec_state i)" "interrupt_item reason"]
    by (simp add: interrupt_Ok_iff list_all_iff)
qed

definition sample_item :: "item_state \<Rightarrow> item_record" where
  "sample_item st =
     \<lparr>rec_identity = \<lparr>item_id = 1, story_id = None, resolved_story_id = None, story_uuid_text = None\<rparr>,
      rec_state = st, rec_progress = \<lparr>prg_completed = 0, prg_total = 9\<rparr>,
      rec_outcome = raw_outcome_default\<rparr>"

theorem interrupt_preserves_facts_witness:
  "\<exists>r. interrupt Running \<lparr>completed = 1, total = 2\<rparr> [sample_item Succeeded_item, sample_item Running_item]
        \<lparr>code = Some ''c'', message = Some ''m''\<rparr> = Inr r
      \<and> int_state r = Interrupted \<and> completed (int_counts r) = 2"
proof -
  let ?c = "\<lparr>completed = 1, total = 2\<rparr>"
  let ?items = "[sample_item Succeeded_item, sample_item Running_item]"
  let ?reason = "\<lparr>code = Some ''c'', message = Some ''m''\<rparr>"
  obtain r where r: "interrupt Running ?c ?items ?reason = Inr r"
    by (auto simp: interrupt_Ok_iff text_or_default_def sample_item_def bounds_simps)
  from interrupt_preserves_facts[OF this] show ?thesis using r by auto
qed

subsection \<open>The aggregate against its specification\<close>

datatype item_class = Counts_success | Counts_skipped | Counts_conflicted | Counts_cancelled | Counts_failure

definition item_class_of :: "operation_kind \<Rightarrow> item_state \<Rightarrow> item_class" where
  "item_class_of kind st =
     (if st = Succeeded_item then Counts_success
      else if st = Skipped_item then (if kind = Export then Counts_skipped else Counts_success)
      else if st = Conflicted_item then (if kind = Export then Counts_conflicted else Counts_failure)
      else if st = Cancelled_item then Counts_cancelled
      else Counts_failure)"

definition class_count :: "operation_kind \<Rightarrow> item_class \<Rightarrow> item_state list \<Rightarrow> int" where
  "class_count kind cl sts = int (length (filter (\<lambda>st. item_class_of kind st = cl) sts))"

lemma class_count_append [simp]:
  "class_count kind cl (sts @ [st]) = class_count kind cl sts + (if item_class_of kind st = cl then 1 else 0)"
  by (simp add: class_count_def)

lemma class_count_Nil [simp]: "class_count kind cl [] = 0"
  by (simp add: class_count_def)

lemma class_count_range: "0 \<le> class_count kind cl sts" "class_count kind cl sts \<le> int (length sts)"
  by (simp_all add: class_count_def)

lemma class_count_zero_iff: "class_count kind cl sts = 0 \<longleftrightarrow> (\<forall>st \<in> set sts. item_class_of kind st \<noteq> cl)"
  by (auto simp: class_count_def filter_empty_conv)

definition agg_rep :: "operation_kind \<Rightarrow> i64 \<Rightarrow> item_state list \<Rightarrow> completion_aggregate \<Rightarrow> bool" where
  "agg_rep kind n sts a \<longleftrightarrow>
     agg_kind a = kind \<and> agg_counts a = \<lparr>completed = int (length sts), total = n\<rparr>
     \<and> successes a = class_count kind Counts_success sts
     \<and> skipped a = class_count kind Counts_skipped sts
     \<and> conflicted a = class_count kind Counts_conflicted sts
     \<and> failures a = class_count kind Counts_failure sts
     \<and> cancelled a = class_count kind Counts_cancelled sts"

lemma aggregate_new_rep: "aggregate_new kind n = Inr a \<Longrightarrow> agg_rep kind n [] a"
  by (auto simp: aggregate_new_def counts_for_new_work_def agg_rep_def split: if_splits)

lemma count_step_exact:
  "i64_ok n \<Longrightarrow> int (length sts) < n \<Longrightarrow> i64_add (class_count kind cl sts) 1 = class_count kind cl sts + 1"
  "i64_ok n \<Longrightarrow> int (length sts) < n \<Longrightarrow> i64_add (int (length sts)) 1 = int (length sts) + 1"
  using class_count_range[of kind cl sts] by (auto intro!: i64_add_exact simp: bounds_simps)

lemma aggregate_record_rep:
  assumes rep: "agg_rep kind n sts a" and ok: "i64_ok n" and room: "int (length sts) < n"
    and st: "item_is_terminal st"
  shows "\<exists>a'. aggregate_record st outcome a = Inr a' \<and> agg_rep kind n (sts @ [st]) a'"
  using rep st room count_step_exact[OF ok room]
  by (cases st) (auto simp: aggregate_record_def tally_def record_failure_def agg_rep_def
      item_class_of_def Let_def)

lemma record_all_rep:
  "agg_rep kind n sts a \<Longrightarrow> i64_ok n \<Longrightarrow> int (length sts + length items) \<le> n \<Longrightarrow>
   list_all item_is_terminal (map fst items) \<Longrightarrow>
   \<exists>a'. record_all a items = Inr a' \<and> agg_rep kind n (sts @ map fst items) a'"
proof (induction items arbitrary: sts a)
  case Nil
  then show ?case by simp
next
  case (Cons item items)
  obtain st outcome where item: "item = (st, outcome)" by (cases item)
  from Cons.prems aggregate_record_rep[of kind n sts a st outcome] item
  obtain a' where "aggregate_record st outcome a = Inr a'" "agg_rep kind n (sts @ [st]) a'"
    by auto
  with Cons.IH[of "sts @ [st]" a'] Cons.prems item show ?case by simp
qed

text \<open>What an operation with these terminal items is reported as.\<close>

definition expected_state :: "operation_kind \<Rightarrow> item_state list \<Rightarrow> operation_state" where
  "expected_state kind sts =
     (let has = (\<lambda>cl. list_ex (\<lambda>st. item_class_of kind st = cl) sts) in
      if list_all (\<lambda>st. item_class_of kind st = Counts_success) sts then Succeeded
      else if kind \<noteq> MetadataSync \<and> has Counts_success then PartiallySucceeded
      else if has Counts_failure then Failed
      else if kind = Export \<and> \<not> has Counts_cancelled then Failed
      else Cancelled)"

lemma terminal_result_rep:
  assumes rep: "agg_rep kind n sts a" and len: "int (length sts) = n"
  shows "\<exists>r. terminal_result_of a = Inr r \<and> res_state r = expected_state kind sts
            \<and> (res_code r = [] \<longleftrightarrow> res_state r = Succeeded)"
proof -
  have pos: "0 < class_count k cl sts \<longleftrightarrow> class_count k cl sts \<noteq> 0" for k cl
    using class_count_range(1)[of k cl sts] by linarith
  have success: "cl = Counts_success \<longleftrightarrow> cl \<noteq> Counts_skipped \<and> cl \<noteq> Counts_conflicted
      \<and> cl \<noteq> Counts_failure \<and> cl \<noteq> Counts_cancelled" for cl
    by (cases cl) simp_all
  have all: "(\<forall>st \<in> set sts. item_class_of kind st = Counts_success) \<longleftrightarrow>
      class_count kind Counts_skipped sts = 0 \<and> class_count kind Counts_conflicted sts = 0
      \<and> class_count kind Counts_failure sts = 0 \<and> class_count kind Counts_cancelled sts = 0"
    unfolding class_count_zero_iff success by blast
  have other: "class_count kind Counts_skipped sts = 0 \<and> class_count kind Counts_conflicted sts = 0"
    if "kind \<noteq> Export"
    using that by (auto simp: class_count_zero_iff item_class_of_def)
  have ex: "list_ex (\<lambda>st. item_class_of kind st = cl) sts \<longleftrightarrow> class_count kind cl sts \<noteq> 0" for cl
    by (auto simp: class_count_zero_iff list_ex_iff)
  note spec = expected_state_def Let_def ex list_all_iff all
  show ?thesis
  proof (cases "kind = Export")
    case True
    with rep len show ?thesis
      unfolding spec by (simp add: terminal_result_of_def agg_rep_def pos failure_result_def)
  next
    case False
    with rep len other[OF False] show ?thesis
      unfolding spec by (simp add: terminal_result_of_def agg_rep_def pos failure_result_def)
  qed
qed

text \<open>C18: Aggregating an operation's items: when every item is terminal and their number is the
  announced total, recording them never fails, and the result has exactly the state that the
  specification assigns to the items' states, with a reason code precisely when the operation
  did not succeed.\<close>

theorem aggregate_result_correct:
  assumes "aggregate_new kind (int (length items)) = Inr a0"
    and "i64_ok (int (length items))" and "list_all item_is_terminal (map fst items)"
  shows "\<exists>a r. record_all a0 items = Inr a \<and> terminal_result_of a = Inr r
    \<and> res_state r = expected_state kind (map fst items)
    \<and> (res_code r = [] \<longleftrightarrow> res_state r = Succeeded)"
proof -
  from record_all_rep[OF aggregate_new_rep[OF assms(1)] assms(2) _ assms(3)]
  obtain a where a: "record_all a0 items = Inr a"
    "agg_rep kind (int (length items)) (map fst items) a" by auto
  from terminal_result_rep[OF a(2)] show ?thesis using a(1) by auto
qed

theorem aggregate_result_correct_witness:
  "\<exists>a0 a r. aggregate_new Export 2 = Inr a0
     \<and> record_all a0 [(Succeeded_item, raw_outcome_default), (Skipped_item, raw_outcome_default)] = Inr a
     \<and> terminal_result_of a = Inr r \<and> res_state r = PartiallySucceeded"
proof -
  let ?items = "[(Succeeded_item, raw_outcome_default), (Skipped_item, raw_outcome_default)]"
  obtain a0 where a0: "aggregate_new Export (int (length ?items)) = Inr a0"
    by (simp add: aggregate_new_def counts_for_new_work_def)
  from aggregate_result_correct[OF a0]
  show ?thesis using a0
    by (auto simp: bounds_simps expected_state_def item_class_of_def)
qed

end
