(* ===== verification/Import_Types.thy ===== *)
theory Import_Types
  imports Codecs
begin

section \<open>Import codes, errors and reports\<close>

text \<open>
  \<open>librairii-core/src/import/mod.rs\<close>: the four code tables that the \<open>codes!\<close> macro expands to
  (the list \<open>ALL\<close>, \<open>as_str\<close> and \<open>from_code\<close>), the validation error, and the error and
  execution observations of \<open>import/report.rs\<close>. Every table is an interpretation of the
  codec locale.
\<close>

subsection \<open>Code tables\<close>

datatype archive_format =
  PlainPk | V1Pk | V2Pk | GenericPk
  | Zip | SevenZip | StudioZip

definition archive_format_all :: "archive_format list" where
  "archive_format_all =
     [PlainPk, V1Pk, V2Pk, GenericPk,
      Zip, SevenZip, StudioZip]"

fun archive_format_str :: "archive_format \<Rightarrow> string" where
  "archive_format_str PlainPk = ''plain_pk''"
| "archive_format_str V1Pk = ''v1_pk''"
| "archive_format_str V2Pk = ''v2_pk''"
| "archive_format_str GenericPk = ''generic_pk''"
| "archive_format_str Zip = ''zip''"
| "archive_format_str SevenZip = ''seven_zip''"
| "archive_format_str StudioZip = ''studio_zip''"

definition archive_format_of_str :: "string \<Rightarrow> archive_format option" where
  "archive_format_of_str code =
     (if code = ''plain_pk'' then Some PlainPk
      else if code = ''v1_pk'' then Some V1Pk
      else if code = ''v2_pk'' then Some V2Pk
      else if code = ''generic_pk'' then Some GenericPk
      else if code = ''zip'' then Some Zip
      else if code = ''seven_zip'' then Some SevenZip
      else if code = ''studio_zip'' then Some StudioZip
      else None)"

interpretation archive_format_codes: closed_codec archive_format_str "\<lambda>s. ok_or () (archive_format_of_str s)" "()"
proof unfold_locales
  fix x s e
  show "ok_or () (archive_format_of_str (archive_format_str x)) = Inr x" by (cases x) (simp_all add: archive_format_of_str_def)
  show "ok_or () (archive_format_of_str s) = Inr x \<Longrightarrow> archive_format_str x = s"
    by (auto simp: archive_format_of_str_def result_iffs split: if_splits)
  show "ok_or () (archive_format_of_str s) = Inl e \<Longrightarrow> e = ()" by simp
qed

lemma archive_format_all_complete: "distinct archive_format_all \<and> set archive_format_all = UNIV"
  by (auto simp: archive_format_all_def intro: archive_format.exhaust)

datatype validation_code =
  InvalidLimits | InvalidContainer | UnsupportedFormat | AmbiguousStructure
  | UnsafePath | LinkEntry | EntryLimit | ExpandedSizeLimit
  | CompressionRatioLimit | NestedArchive | MetadataLimit | ArtworkLimit
  | MissingEntry | MissingAsset | InvalidUuid_code | MalformedMetadata

definition validation_code_all :: "validation_code list" where
  "validation_code_all =
     [InvalidLimits, InvalidContainer, UnsupportedFormat, AmbiguousStructure,
      UnsafePath, LinkEntry, EntryLimit, ExpandedSizeLimit,
      CompressionRatioLimit, NestedArchive, MetadataLimit, ArtworkLimit,
      MissingEntry, MissingAsset, InvalidUuid_code, MalformedMetadata]"

fun validation_code_str :: "validation_code \<Rightarrow> string" where
  "validation_code_str InvalidLimits = ''invalid_limits''"
| "validation_code_str InvalidContainer = ''invalid_container''"
| "validation_code_str UnsupportedFormat = ''unsupported_format''"
| "validation_code_str AmbiguousStructure = ''ambiguous_structure''"
| "validation_code_str UnsafePath = ''unsafe_path''"
| "validation_code_str LinkEntry = ''link_entry''"
| "validation_code_str EntryLimit = ''entry_limit''"
| "validation_code_str ExpandedSizeLimit = ''expanded_size_limit''"
| "validation_code_str CompressionRatioLimit = ''compression_ratio_limit''"
| "validation_code_str NestedArchive = ''nested_archive''"
| "validation_code_str MetadataLimit = ''metadata_limit''"
| "validation_code_str ArtworkLimit = ''artwork_limit''"
| "validation_code_str MissingEntry = ''missing_entry''"
| "validation_code_str MissingAsset = ''missing_asset''"
| "validation_code_str InvalidUuid_code = ''invalid_uuid''"
| "validation_code_str MalformedMetadata = ''malformed_metadata''"

definition validation_code_of_str :: "string \<Rightarrow> validation_code option" where
  "validation_code_of_str code =
     (if code = ''invalid_limits'' then Some InvalidLimits
      else if code = ''invalid_container'' then Some InvalidContainer
      else if code = ''unsupported_format'' then Some UnsupportedFormat
      else if code = ''ambiguous_structure'' then Some AmbiguousStructure
      else if code = ''unsafe_path'' then Some UnsafePath
      else if code = ''link_entry'' then Some LinkEntry
      else if code = ''entry_limit'' then Some EntryLimit
      else if code = ''expanded_size_limit'' then Some ExpandedSizeLimit
      else if code = ''compression_ratio_limit'' then Some CompressionRatioLimit
      else if code = ''nested_archive'' then Some NestedArchive
      else if code = ''metadata_limit'' then Some MetadataLimit
      else if code = ''artwork_limit'' then Some ArtworkLimit
      else if code = ''missing_entry'' then Some MissingEntry
      else if code = ''missing_asset'' then Some MissingAsset
      else if code = ''invalid_uuid'' then Some InvalidUuid_code
      else if code = ''malformed_metadata'' then Some MalformedMetadata
      else None)"

interpretation validation_code_codes: closed_codec validation_code_str "\<lambda>s. ok_or () (validation_code_of_str s)" "()"
proof unfold_locales
  fix x s e
  show "ok_or () (validation_code_of_str (validation_code_str x)) = Inr x" by (cases x) (simp_all add: validation_code_of_str_def)
  show "ok_or () (validation_code_of_str s) = Inr x \<Longrightarrow> validation_code_str x = s"
    by (auto simp: validation_code_of_str_def result_iffs split: if_splits)
  show "ok_or () (validation_code_of_str s) = Inl e \<Longrightarrow> e = ()" by simp
qed

lemma validation_code_all_complete: "distinct validation_code_all \<and> set validation_code_all = UNIV"
  by (auto simp: validation_code_all_def intro: validation_code.exhaust)

datatype outcome_code =
  Imported | DuplicateChecksum | UuidConflict

definition outcome_code_all :: "outcome_code list" where
  "outcome_code_all =
     [Imported, DuplicateChecksum, UuidConflict]"

fun outcome_code_str :: "outcome_code \<Rightarrow> string" where
  "outcome_code_str Imported = ''imported''"
| "outcome_code_str DuplicateChecksum = ''duplicate_checksum''"
| "outcome_code_str UuidConflict = ''uuid_conflict''"

definition outcome_code_of_str :: "string \<Rightarrow> outcome_code option" where
  "outcome_code_of_str code =
     (if code = ''imported'' then Some Imported
      else if code = ''duplicate_checksum'' then Some DuplicateChecksum
      else if code = ''uuid_conflict'' then Some UuidConflict
      else None)"

interpretation outcome_code_codes: closed_codec outcome_code_str "\<lambda>s. ok_or () (outcome_code_of_str s)" "()"
proof unfold_locales
  fix x s e
  show "ok_or () (outcome_code_of_str (outcome_code_str x)) = Inr x" by (cases x) (simp_all add: outcome_code_of_str_def)
  show "ok_or () (outcome_code_of_str s) = Inr x \<Longrightarrow> outcome_code_str x = s"
    by (auto simp: outcome_code_of_str_def result_iffs split: if_splits)
  show "ok_or () (outcome_code_of_str s) = Inl e \<Longrightarrow> e = ()" by simp
qed

lemma outcome_code_all_complete: "distinct outcome_code_all \<and> set outcome_code_all = UNIV"
  by (auto simp: outcome_code_all_def intro: outcome_code.exhaust)

datatype import_error_code =
  Stage | Lookup | Inspection_failed | Publish
  | Artwork | Catalog | Compensation_failed | Cleanup
  | Cancelled_import

definition import_error_all :: "import_error_code list" where
  "import_error_all =
     [Stage, Lookup, Inspection_failed, Publish,
      Artwork, Catalog, Compensation_failed, Cleanup,
      Cancelled_import]"

fun import_error_str :: "import_error_code \<Rightarrow> string" where
  "import_error_str Stage = ''stage_failed''"
| "import_error_str Lookup = ''lookup_failed''"
| "import_error_str Inspection_failed = ''inspection_failed''"
| "import_error_str Publish = ''publish_failed''"
| "import_error_str Artwork = ''artwork_failed''"
| "import_error_str Catalog = ''catalog_failed''"
| "import_error_str Compensation_failed = ''compensation_failed''"
| "import_error_str Cleanup = ''cleanup_failed''"
| "import_error_str Cancelled_import = ''cancelled''"

definition import_error_of_str :: "string \<Rightarrow> import_error_code option" where
  "import_error_of_str code =
     (if code = ''stage_failed'' then Some Stage
      else if code = ''lookup_failed'' then Some Lookup
      else if code = ''inspection_failed'' then Some Inspection_failed
      else if code = ''publish_failed'' then Some Publish
      else if code = ''artwork_failed'' then Some Artwork
      else if code = ''catalog_failed'' then Some Catalog
      else if code = ''compensation_failed'' then Some Compensation_failed
      else if code = ''cleanup_failed'' then Some Cleanup
      else if code = ''cancelled'' then Some Cancelled_import
      else None)"

interpretation import_error_codes: closed_codec import_error_str "\<lambda>s. ok_or () (import_error_of_str s)" "()"
proof unfold_locales
  fix x s e
  show "ok_or () (import_error_of_str (import_error_str x)) = Inr x" by (cases x) (simp_all add: import_error_of_str_def)
  show "ok_or () (import_error_of_str s) = Inr x \<Longrightarrow> import_error_str x = s"
    by (auto simp: import_error_of_str_def result_iffs split: if_splits)
  show "ok_or () (import_error_of_str s) = Inl e \<Longrightarrow> e = ()" by simp
qed

lemma import_error_all_complete: "distinct import_error_all \<and> set import_error_all = UNIV"
  by (auto simp: import_error_all_def intro: import_error_code.exhaust)

subsection \<open>Errors\<close>

text \<open>
  \<open>ValidationError\<close> and \<open>FailureCause\<close> refer to each other: an error may carry a cause,
  and a cause may be an inspection error.
\<close>

datatype validation_error =
    ValidationError (ve_code: validation_code) (ve_entry: "bytes option") (ve_cause: "failure_cause option")
and failure_cause =
    Cause_message string
  | Cause_inspection validation_error
  | Cause_import import_error_code "failure_cause option"
  | Cause_joined "failure_cause list"

definition error_new :: "validation_code \<Rightarrow> validation_error" where
  "error_new code = ValidationError code None None"

definition error_at :: "validation_code \<Rightarrow> bytes \<Rightarrow> validation_error" where
  "error_at code entry = ValidationError code (Some entry) None"

definition with_cause :: "failure_cause \<Rightarrow> validation_error \<Rightarrow> validation_error" where
  "with_cause cause e = ValidationError (ve_code e) (ve_entry e) (Some cause)"

definition caused_by :: "string \<Rightarrow> validation_error \<Rightarrow> validation_error" where
  "caused_by message e = with_cause (Cause_message message) e"

lemma error_simps [simp]:
  "ve_code (error_new code) = code" "ve_code (error_at code entry) = code"
  "ve_code (with_cause cause e) = ve_code e" "ve_code (caused_by message e) = ve_code e"
  by (simp_all add: error_new_def error_at_def with_cause_def caused_by_def)

definition join_causes :: "failure_cause option list \<Rightarrow> failure_cause option" where
  "join_causes causes =
     (let present = List.map_filter (\<lambda>c. c) causes in
      if present = [] then None else Some (Cause_joined present))"

text \<open>\<open>Iterator::find_map\<close>: the first result that is present.\<close>

fun find_map :: "('a \<Rightarrow> 'b option) \<Rightarrow> 'a list \<Rightarrow> 'b option" where
  "find_map f [] = None"
| "find_map f (x # xs) = (case f x of Some y \<Rightarrow> Some y | None \<Rightarrow> find_map f xs)"

lemma find_map_cong [fundef_cong]:
  "xs = ys \<Longrightarrow> (\<And>x. x \<in> set ys \<Longrightarrow> f x = g x) \<Longrightarrow> find_map f xs = find_map g ys"
  by (induction ys arbitrary: xs) (auto split: option.splits)

fun first_validation :: "failure_cause \<Rightarrow> validation_error option" where
  "first_validation (Cause_inspection e) = Some e"
| "first_validation (Cause_import code (Some cause)) = first_validation cause"
| "first_validation (Cause_joined causes) = find_map first_validation causes"
| "first_validation (Cause_message m) = None"
| "first_validation (Cause_import code None) = None"

text \<open>All inspection errors of a cause, in source order, without descending into their own causes.\<close>

fun inspection_errors :: "failure_cause \<Rightarrow> validation_error list" where
  "inspection_errors (Cause_inspection e) = [e]"
| "inspection_errors (Cause_import code (Some cause)) = inspection_errors cause"
| "inspection_errors (Cause_joined causes) = concat (map inspection_errors causes)"
| "inspection_errors (Cause_message m) = []"
| "inspection_errors (Cause_import code None) = []"

definition first_of :: "'a list \<Rightarrow> 'a option" where
  "first_of xs = (case xs of [] \<Rightarrow> None | x # _ \<Rightarrow> Some x)"

lemma first_of_append:
  "first_of (xs @ ys) = (case first_of xs of Some x \<Rightarrow> Some x | None \<Rightarrow> first_of ys)"
  by (cases xs) (simp_all add: first_of_def)

lemma find_map_first_of:
  "(\<And>x. x \<in> set xs \<Longrightarrow> f x = first_of (g x)) \<Longrightarrow> find_map f xs = first_of (concat (map g xs))"
proof (induction xs)
  case (Cons x xs)
  then show ?case by (cases "first_of (g x)") (simp_all add: first_of_append)
qed (simp add: first_of_def)

lemma first_validation_first_of: "first_validation c = first_of (inspection_errors c)"
proof (induction c rule: first_validation.induct)
  case (3 causes)
  then show ?case by (simp add: find_map_first_of)
qed (simp_all add: first_of_def)

text \<open>The validation error reported for a tree of causes is the first inspection error in
  source order, and joining causes keeps every present cause in order: neither a later error
  nor an absent one can hide it.\<close>

theorem first_validation_of_join:
  "(case join_causes causes of None \<Rightarrow> None | Some cause \<Rightarrow> first_validation cause) =
     first_of (concat (map inspection_errors (List.map_filter (\<lambda>c. c) causes)))"
  by (auto simp: join_causes_def first_validation_first_of Let_def first_of_def)

subsection \<open>Reports\<close>

record reported_outcome =
  out_code :: outcome_code
  out_raw_uuid :: bytes
  out_story_id :: "i64 option"
  out_archive_id :: "i64 option"
  out_existing_story_id :: "i64 option"
  out_checksum :: "bytes option"

datatype commit_observation = NotReported | Committed | ProvenNotCommitted | Uncertain_commit

datatype problem_phase = Primary | StagingCleanup | Compensation | Reporting

record reported_problem =
  problem_phase :: problem_phase
  problem_cause :: failure_cause

record reported_execution =
  exec_outcome :: "reported_outcome option"
  exec_commit :: commit_observation
  exec_problems :: "reported_problem list"

definition from_supplied_observations ::
    "reported_outcome option \<Rightarrow> commit_observation \<Rightarrow> reported_execution" where
  "from_supplied_observations outcome commit =
     \<lparr>exec_outcome = outcome, exec_commit = commit, exec_problems = []\<rparr>"

definition record_problem :: "reported_problem \<Rightarrow> reported_execution \<Rightarrow> reported_execution" where
  "record_problem problem e = e\<lparr>exec_problems := exec_problems e @ [problem]\<rparr>"

lemma record_problems:
  "foldl (\<lambda>e p. record_problem p e) (from_supplied_observations outcome commit) ps =
     \<lparr>exec_outcome = outcome, exec_commit = commit, exec_problems = ps\<rparr>"
  by (induction ps rule: rev_induct) (simp_all add: from_supplied_observations_def record_problem_def)

text \<open>The four code tables are bijections between their variants and their labels: a label is
  accepted exactly when it is the label of a variant, and yields that variant.\<close>

theorem import_codes_round_trip:
  "(archive_format_of_str s = Some f \<longleftrightarrow> s = archive_format_str f) \<and>
   (validation_code_of_str s = Some v \<longleftrightarrow> s = validation_code_str v) \<and>
   (outcome_code_of_str s = Some r \<longleftrightarrow> s = outcome_code_str r) \<and>
   (import_error_of_str s = Some e \<longleftrightarrow> s = import_error_str e)"
  using archive_format_codes.decode_Ok_iff[of s f] validation_code_codes.decode_Ok_iff[of s v]
    outcome_code_codes.decode_Ok_iff[of s r] import_error_codes.decode_Ok_iff[of s e]
  by (simp add: ok_or_Ok_iff)

end
