(* ===== verification/Float64.thy ===== *)
theory Float64
  imports Prelude Complex_Main "HOL-Library.Log_Nat"
begin

section \<open>Quotients of 64-bit floats\<close>

text \<open>
  What the code uses of \<open>f64\<close>: the conversion of a signed integer, the quotient of two such
  values and a comparison. A finite float is its rational value; a conversion or a quotient is
  rounded to the nearest value with 53 significant bits, ties to even, as IEEE 754 prescribes.
  The magnitudes that occur, between \<open>2^-63\<close> and \<open>2^63\<close>, are normal numbers, so neither
  overflow nor a subnormal result is possible.
\<close>

datatype f64 = Finite rat | Infinite bool | Not_a_number

definition is_finite :: "f64 \<Rightarrow> bool" where
  "is_finite x = (case x of Finite _ \<Rightarrow> True | _ \<Rightarrow> False)"

definition pow2 :: "int \<Rightarrow> rat" where
  "pow2 e = (if 0 \<le> e then 2 ^ nat e else 1 / 2 ^ nat (- e))"

lemma pow2_pos [simp]: "0 < pow2 e"
  by (simp add: pow2_def)

lemma pow2_nonzero [simp]: "pow2 e \<noteq> 0"
  using pow2_pos[of e] by linarith

lemma pow2_add: "pow2 (a + b) = pow2 a * pow2 b"
proof -
  have pi: "pow2 e = 2 powi e" for e
    by (simp add: pow2_def power_int_def inverse_eq_divide power_one_over)
  show ?thesis by (simp add: pi power_int_add)
qed

text \<open>The binary exponent of a positive rational.\<close>

definition rat_exponent :: "rat \<Rightarrow> int" where
  "rat_exponent q =
     (let (n, d) = quotient_of q;
          k = bitlen n - bitlen d
      in if pow2 k \<le> q then k else k - 1)"

definition round_half_even :: "rat \<Rightarrow> int" where
  "round_half_even q =
     (let f = \<lfloor>q\<rfloor>; r = q - of_int f in
      if r < 1 / 2 \<or> r = 1 / 2 \<and> even f then f else f + 1)"

definition round_positive :: "rat \<Rightarrow> rat" where
  "round_positive q =
     (let u = pow2 (rat_exponent q - 52) in of_int (round_half_even (q / u)) * u)"

definition f64_round :: "rat \<Rightarrow> rat" where
  "f64_round q =
     (if q = 0 then 0 else if q < 0 then - round_positive (- q) else round_positive q)"

definition f64_of_i64 :: "i64 \<Rightarrow> f64" where
  "f64_of_i64 x = Finite (f64_round (of_int x))"

fun f64_div :: "f64 \<Rightarrow> f64 \<Rightarrow> f64" where
  "f64_div (Finite a) (Finite b) =
     (if b \<noteq> 0 then Finite (f64_round (a / b))
      else if a = 0 then Not_a_number
      else Infinite (0 < a))"
| "f64_div (Finite a) (Infinite s) = Finite 0"
| "f64_div (Infinite s) (Finite b) = Infinite (s = (0 \<le> b))"
| "f64_div _ _ = Not_a_number"

text \<open>The ordered comparison: false as soon as one side is not a number.\<close>

fun f64_less :: "f64 \<Rightarrow> f64 \<Rightarrow> bool" where
  "f64_less (Finite a) (Finite b) = (a < b)"
| "f64_less (Finite a) (Infinite s) = s"
| "f64_less (Infinite s) (Finite b) = (\<not> s)"
| "f64_less (Infinite s) (Infinite t) = (\<not> s \<and> t)"
| "f64_less _ _ = False"

subsection \<open>Rounding error\<close>

lemma pow2_of_nat: "0 \<le> e \<Longrightarrow> pow2 e = of_int (2 ^ nat e)"
  by (simp add: pow2_def)

lemma pow2_1 [simp]: "pow2 0 = 1" "pow2 1 = 2"
  by (simp_all add: pow2_def)

lemma pow2_Suc: "pow2 (e + 1) = 2 * pow2 e"
  by (simp add: pow2_add)

lemma pow2_diff: "pow2 (a - b) = pow2 a / pow2 b"
  using pow2_add[of "a - b" b] by (simp add: field_simps)

lemma pow2_less_iff: "pow2 a < pow2 b \<Longrightarrow> a < b"
proof (rule ccontr)
  assume less: "pow2 a < pow2 b" and "\<not> a < b"
  then have "0 \<le> a - b" by simp
  then have "1 \<le> pow2 (a - b)" by (simp add: pow2_def)
  then have "pow2 b \<le> pow2 a" by (simp add: pow2_diff field_simps)
  with less show False by simp
qed

lemma bitlen_bounds_rat:
  assumes "0 < n"
  shows "pow2 (bitlen n) / 2 \<le> of_int n" "of_int n < pow2 (bitlen n)"
proof -
  have pos: "1 \<le> bitlen n"
    using assms bitlen_eq_zero_iff[of n] bitlen_nonneg[of n] by linarith
  from bitlen_bounds[OF assms]
  have b: "of_int (2 ^ nat (bitlen n - 1)) \<le> (of_int n :: rat)"
    "(of_int n :: rat) < of_int (2 ^ nat (bitlen n))"
    by (simp_all only: of_int_le_iff of_int_less_iff)
  show "of_int n < pow2 (bitlen n)" using b(2) pos by (simp add: pow2_of_nat)
  have "pow2 (bitlen n) / 2 = pow2 (bitlen n - 1)" by (simp add: pow2_diff)
  then show "pow2 (bitlen n) / 2 \<le> of_int n" using b(1) pos by (simp add: pow2_of_nat)
qed

lemma rat_exponent_bounds:
  assumes "0 < q"
  shows "pow2 (rat_exponent q) \<le> q" "q < 2 * pow2 (rat_exponent q)"
proof -
  obtain n d where nd: "quotient_of q = (n, d)" by (cases "quotient_of q")
  then have d: "0 < d" and q: "q = of_int n / of_int d"
    using quotient_of_denom_pos quotient_of_div by blast+
  with assms have n: "0 < n" by (simp add: zero_less_divide_iff)
  let ?k = "bitlen n - bitlen d"
  note bn = bitlen_bounds_rat[OF n] and bd = bitlen_bounds_rat[OF d]
  have dpos: "0 < (of_int d :: rat)" using d by simp
  have "pow2 ?k / 2 = (pow2 (bitlen n) / 2) / pow2 (bitlen d)" by (simp add: pow2_diff)
  also have "\<dots> \<le> of_int n / of_int d"
    using bn(1) bd(2) dpos n by (intro frac_le) simp_all
  finally have low: "pow2 ?k / 2 \<le> q" by (simp add: q)
  have "of_int n / of_int d < pow2 (bitlen n) / (pow2 (bitlen d) / 2)"
    using bn(2) bd(1) n by (intro frac_less) simp_all
  then have high: "q < 2 * pow2 ?k" by (simp add: q pow2_diff mult.commute)
  show "pow2 (rat_exponent q) \<le> q" "q < 2 * pow2 (rat_exponent q)"
    using low high by (auto simp: rat_exponent_def nd Let_def pow2_diff)
qed

lemma round_half_even_error:
  "of_int (round_half_even x) - x \<le> 1 / 2" "x - of_int (round_half_even x) \<le> 1 / 2"
proof -
  have "of_int \<lfloor>x\<rfloor> \<le> x" "x < of_int \<lfloor>x\<rfloor> + 1" using floor_correct[of x] by simp_all
  then show "of_int (round_half_even x) - x \<le> 1 / 2" "x - of_int (round_half_even x) \<le> 1 / 2"
    unfolding round_half_even_def Let_def by (cases "even \<lfloor>x\<rfloor>"; simp; linarith)+
qed

lemma round_half_even_le: "x \<le> of_int m \<Longrightarrow> round_half_even x \<le> m"
proof -
  assume le: "x \<le> of_int m"
  show ?thesis
  proof (cases "x = of_int m")
    case True
    then show ?thesis by (simp add: round_half_even_def)
  next
    case False
    with le have "\<lfloor>x\<rfloor> < m" by (simp add: floor_less_iff)
    then show ?thesis by (auto simp: round_half_even_def Let_def)
  qed
qed

lemma round_half_even_ge: "of_int m \<le> x \<Longrightarrow> m \<le> round_half_even x"
proof -
  assume "of_int m \<le> x"
  then have "m \<le> \<lfloor>x\<rfloor>" by (simp add: le_floor_iff)
  then show ?thesis by (simp add: round_half_even_def Let_def)
qed

lemma round_positive_error:
  assumes "0 < q"
  shows "round_positive q \<ge> q - q / 2 ^ 53"
proof -
  let ?u = "pow2 (rat_exponent q - 52)"
  have u: "?u = pow2 (rat_exponent q) / 2 ^ 52"
    using pow2_of_nat[of 52] by (simp add: pow2_diff)
  have "q / ?u - of_int (round_half_even (q / ?u)) \<le> 1 / 2" by (rule round_half_even_error(2))
  then have "(q / ?u - of_int (round_half_even (q / ?u))) * ?u \<le> 1 / 2 * ?u"
    by (intro mult_right_mono) (simp_all add: less_imp_le)
  then have "q - round_positive q \<le> ?u / 2"
    by (simp add: round_positive_def Let_def left_diff_distrib)
  also have "?u / 2 = pow2 (rat_exponent q) / 2 ^ 53" by (simp add: u)
  also have "\<dots> \<le> q / 2 ^ 53"
    using rat_exponent_bounds(1)[OF assms] by (intro divide_right_mono) simp_all
  finally show ?thesis by simp
qed

lemma exponent_small:
  assumes "0 < q" "q < 2 ^ 53"
  shows "\<exists>k. of_int m / pow2 (rat_exponent q - 52) = of_int k"
proof -
  have "pow2 (rat_exponent q) < pow2 53"
    using rat_exponent_bounds(1)[OF assms(1)] assms(2) by (simp add: pow2_def)
  then have "rat_exponent q \<le> 52" using pow2_less_iff by force
  then have "of_int m / pow2 (rat_exponent q - 52) = of_int (m * 2 ^ nat (52 - rat_exponent q))"
    by (auto simp: pow2_def)
  then show ?thesis by blast
qed

lemma round_positive_le:
  assumes "0 < q" "q \<le> of_int m" "m < 2 ^ 53"
  shows "round_positive q \<le> of_int m"
proof -
  let ?u = "pow2 (rat_exponent q - 52)"
  have "(of_int m :: rat) < of_int (2 ^ 53)" using assms(3) by (simp only: of_int_less_iff)
  then have "q < 2 ^ 53" using assms(2) by simp
  then obtain k where k: "of_int m / ?u = of_int k" using exponent_small assms(1) by blast
  have "q / ?u \<le> of_int k" unfolding k[symmetric] using assms(2) by (intro divide_right_mono) (simp_all add: less_imp_le)
  then have "of_int (round_half_even (q / ?u)) \<le> (of_int k :: rat)"
    using round_half_even_le by simp
  then have "of_int (round_half_even (q / ?u)) * ?u \<le> of_int k * ?u"
    by (intro mult_right_mono) (simp_all add: less_imp_le)
  also have "of_int k * ?u = of_int m" by (simp add: k[symmetric])
  finally show ?thesis by (simp add: round_positive_def Let_def)
qed

lemma round_positive_exact:
  assumes "0 < m" "m < 2 ^ 53"
  shows "round_positive (of_int m) = of_int m"
proof -
  let ?q = "of_int m :: rat" let ?u = "pow2 (rat_exponent ?q - 52)"
  have "?q < of_int (2 ^ 53)" using assms(2) by (simp only: of_int_less_iff)
  then obtain k where k: "?q / ?u = of_int k" using exponent_small[of ?q m] assms(1) by auto
  have "round_half_even (of_int k) = k" by (simp add: round_half_even_def)
  then have "round_positive ?q = of_int k * ?u" by (simp add: round_positive_def Let_def k)
  also have "\<dots> = ?q" by (simp add: k[symmetric])
  finally show ?thesis .
qed

subsection \<open>Exact comparison of an integer quotient with an integer bound\<close>

lemma f64_round_pos: "0 < q \<Longrightarrow> f64_round q = round_positive q"
  by (simp add: f64_round_def)

lemma quotient_above:
  assumes E: "0 < E" "E < 2 ^ 53" and c: "0 < c" and m: "m * c < E"
  shows "of_int m < round_positive (of_int E / of_int c)"
proof -
  let ?q = "of_int E / of_int c :: rat"
  have cpos: "0 < (of_int c :: rat)" using c by simp
  have "m * c + 1 \<le> E" using m by simp
  then have "of_int (m * c + 1) \<le> (of_int E :: rat)" by (simp only: of_int_le_iff)
  then have low: "of_int m + 1 / of_int c \<le> ?q"
    using cpos by (simp add: pos_le_divide_eq distrib_right)
  have "(of_int E :: rat) < of_int (2 ^ 53)" using E by (simp only: of_int_less_iff)
  then have "?q / 2 ^ 53 < 1 / of_int c" using cpos by (simp add: field_simps)
  moreover have "?q - ?q / 2 ^ 53 \<le> round_positive ?q"
    using E cpos by (intro round_positive_error) simp
  ultimately show ?thesis using low by linarith
qed

lemma quotient_exceeds_iff:
  assumes E: "0 \<le> E" "E < 2 ^ 53" and c: "0 < c" and m: "1 \<le> m" "m < 2 ^ 53"
  shows "f64_less (Finite (of_int m)) (f64_div (f64_of_i64 E) (f64_of_i64 c)) \<longleftrightarrow> m * c < E"
proof (cases "E = 0")
  case True
  have "0 < round_positive (of_int c)"
  proof -
    have "0 < (of_int c :: rat) - of_int c / 2 ^ 53" using c by (simp add: field_simps)
    then show ?thesis using round_positive_error[of "of_int c"] c by simp
  qed
  with True c m show ?thesis
    by (simp add: f64_of_i64_def f64_round_def mult_less_0_iff not_less)
next
  case False
  with E have Epos: "0 < E" by simp
  have Er: "f64_round (of_int E) = of_int E"
    using Epos E by (simp add: f64_round_pos round_positive_exact)
  define C where "C = f64_round (of_int c)"
  have C: "C = round_positive (of_int c)" using c by (simp add: C_def f64_round_pos)
  show ?thesis
  proof (cases "c < 2 ^ 53")
    case True
    then have "C = of_int c" using c by (simp add: C round_positive_exact)
    moreover have "\<not> m * c < E \<Longrightarrow> round_positive (of_int E / of_int c) \<le> of_int m"
    proof (rule round_positive_le)
      assume "\<not> m * c < E"
      then have "of_int E \<le> (of_int (m * c) :: rat)" by (simp only: of_int_le_iff not_less)
      then show "of_int E / of_int c \<le> (of_int m :: rat)" using c by (simp add: field_simps)
    qed (use Epos c m in simp_all)
    ultimately show ?thesis
      using quotient_above[OF Epos E(2) c, of m] Epos c Er
      by (cases "m * c < E") (auto simp: f64_of_i64_def C_def[symmetric] f64_round_pos)
  next
    case False
    have "E < c" using E False by simp
    have "E \<le> 2 ^ 53 - 1" using E by simp
    then have "(of_int E :: rat) \<le> of_int (2 ^ 53 - 1)" by (simp only: of_int_le_iff)
    also have "\<dots> = 2 ^ 53 - 2 ^ 53 / 2 ^ 53" by simp
    also have "\<dots> = 2 ^ 53 * (1 - 1 / 2 ^ 53)" by (simp add: right_diff_distrib)
    also have "\<dots> \<le> of_int c * (1 - 1 / 2 ^ 53)"
    proof (rule mult_right_mono)
      have "of_int (2 ^ 53) \<le> (of_int c :: rat)" using False by (simp only: of_int_le_iff not_less)
      then show "2 ^ 53 \<le> (of_int c :: rat)" by simp
    qed simp
    also have "\<dots> = of_int c - of_int c / 2 ^ 53" by (simp add: right_diff_distrib)
    also have "\<dots> \<le> C" using round_positive_error[of "of_int c"] c by (simp add: C)
    finally have EC: "of_int E \<le> C" .
    with Epos have Cpos: "0 < C" by (metis of_int_0_less_iff less_le_trans)
    have "round_positive (of_int E / C) \<le> of_int 1"
      using EC Cpos Epos by (intro round_positive_le) simp_all
    moreover have "(1 :: rat) \<le> of_int m" using m by simp
    moreover have "\<not> m * c < E"
      using \<open>E < c\<close> m c mult_le_cancel_right1[of c m] by (smt (verit, best))
    ultimately show ?thesis
      using Cpos Epos Er by (auto simp: f64_of_i64_def C_def[symmetric] f64_round_pos)
  qed
qed

end
