(* ===== verification/Import_Names.thy ===== *)
theory Import_Names
  imports Import_Types Utf8 Float64
begin

section \<open>Limits, suffixes and entry names\<close>

text \<open>
  \<open>import/limits.rs\<close> (the limits and their validation), \<open>suffix_matches\<close> of
  \<open>import/mod.rs\<close> and \<open>validate_entry_name\<close> of \<open>import/entries.rs\<close>: the checks on one
  archive entry name, and the lexical key under which it is indexed.
\<close>

subsection \<open>Limits\<close>

record limits =
  max_path_bytes :: usize
  max_path_depth :: usize
  max_entries :: usize
  max_expanded_bytes :: i64
  max_compression_ratio :: f64
  max_metadata_bytes :: i64
  max_artwork_bytes :: i64

definition limits_default :: limits where
  "limits_default =
     \<lparr>max_path_bytes = 512, max_path_depth = 16, max_entries = 10000,
      max_expanded_bytes = 2 * 2 ^ 30, max_compression_ratio = Finite 200,
      max_metadata_bytes = 2 ^ 20, max_artwork_bytes = 10 * 2 ^ 20\<rparr>"

definition limits_validate :: "limits \<Rightarrow> validation_error + unit" where
  "limits_validate l =
     (if max_path_bytes l = 0 \<or> max_path_depth l = 0 \<or> max_entries l = 0
         \<or> max_expanded_bytes l \<le> 0 \<or> max_metadata_bytes l \<le> 0 \<or> max_artwork_bytes l \<le> 0
         \<or> f64_less (max_compression_ratio l) (Finite 1)
         \<or> \<not> is_finite (max_compression_ratio l)
      then Inl (error_new InvalidLimits) else Inr ())"

definition limits_ok :: "limits \<Rightarrow> bool" where
  "limits_ok l \<longleftrightarrow>
     0 < max_path_bytes l \<and> 0 < max_path_depth l \<and> 0 < max_entries l
     \<and> 0 < max_expanded_bytes l \<and> 0 < max_metadata_bytes l \<and> 0 < max_artwork_bytes l
     \<and> (case max_compression_ratio l of Finite r \<Rightarrow> 1 \<le> r | _ \<Rightarrow> False)"

lemma limits_validate_Ok_iff [simp]: "limits_validate l = Inr u \<longleftrightarrow> limits_ok l"
  by (cases "max_compression_ratio l") (auto simp: limits_validate_def limits_ok_def is_finite_def)

lemma limits_validate_Err_iff [simp]:
  "limits_validate l = Inl e \<longleftrightarrow> \<not> limits_ok l \<and> e = error_new InvalidLimits"
  by (cases "max_compression_ratio l") (auto simp: limits_validate_def limits_ok_def is_finite_def)

lemma limits_default_ok: "limits_ok limits_default"
  by (simp add: limits_ok_def limits_default_def)

subsection \<open>Policy suffixes\<close>

fun suffix_loop :: "string \<Rightarrow> bytes \<Rightarrow> bool" where
  "suffix_loop [] name = True"
| "suffix_loop (expected # rest) name =
     (if name \<noteq> [] \<and> ascii_lower (last name) = expected
      then suffix_loop rest (take (length name - 1) name)
      else if expected = CHR ''i'' \<and> ends_with [CHR 0xC4, CHR 0xB0] name
      then suffix_loop rest (take (length name - 2) name)
      else if expected = CHR ''k'' \<and> ends_with [CHR 0xE2, CHR 0x84, CHR 0xAA] name
      then suffix_loop rest (take (length name - 3) name)
      else False)"

definition suffix_matches :: "bytes \<Rightarrow> string \<Rightarrow> bool" where
  "suffix_matches name suffix = suffix_loop (rev suffix) name"

text \<open>The byte sequences that spell one expected letter.\<close>

definition spells :: "char \<Rightarrow> bytes \<Rightarrow> bool" where
  "spells expected piece \<longleftrightarrow>
     (\<exists>b. piece = [b] \<and> ascii_lower b = expected)
     \<or> (expected = CHR ''i'' \<and> piece = [CHR 0xC4, CHR 0xB0])
     \<or> (expected = CHR ''k'' \<and> piece = [CHR 0xE2, CHR 0x84, CHR 0xAA])"

lemma ascii_lower_high:
  "ascii_lower (CHR 0xB0) = CHR 0xB0" "ascii_lower (CHR 0xAA) = CHR 0xAA"
  by (simp_all add: ascii_defs)

lemma suffix_loop_piece:
  assumes "spells e piece"
  shows "suffix_loop (e # es) (front @ piece) = suffix_loop es front"
  using assms by (auto simp: spells_def ends_with_iff ascii_lower_high)

lemma suffix_loop_Cons:
  "suffix_loop (e # es) name \<longleftrightarrow> (\<exists>front piece. name = front @ piece \<and> spells e piece \<and> suffix_loop es front)"
proof
  assume loop: "suffix_loop (e # es) name"
  have "\<exists>front piece. name = front @ piece \<and> spells e piece"
  proof (cases "name \<noteq> [] \<and> ascii_lower (last name) = e")
    case True
    then have "name = butlast name @ [last name]" "spells e [last name]" by (simp_all add: spells_def)
    then show ?thesis by blast
  next
    case False
    with loop have "\<exists>piece. spells e piece \<and> ends_with piece name"
      by (auto simp: spells_def split: if_splits)
    then show ?thesis by (auto simp: ends_with_iff)
  qed
  with loop show "\<exists>front piece. name = front @ piece \<and> spells e piece \<and> suffix_loop es front"
    using suffix_loop_piece by blast
next
  assume "\<exists>front piece. name = front @ piece \<and> spells e piece \<and> suffix_loop es front"
  then show "suffix_loop (e # es) name" using suffix_loop_piece by blast
qed

text \<open>The suffix test accepts exactly the names that end with a spelling of the suffix, letter
  by letter: an ASCII letter in either case, the capital I with dot for i, or the Kelvin sign
  for k. The greedy scan misses no spelling and accepts nothing else.\<close>

theorem suffix_matches_correct:
  "suffix_matches name suffix \<longleftrightarrow>
     (\<exists>front pieces. name = front @ concat pieces \<and> list_all2 spells suffix pieces)"
proof -
  have "suffix_loop es name \<longleftrightarrow>
      (\<exists>front pieces. name = front @ concat (rev pieces) \<and> list_all2 spells es pieces)" for es
  proof (induction es arbitrary: name)
    case Nil
    then show ?case by simp
  next
    case (Cons e es)
    have "suffix_loop (e # es) name \<longleftrightarrow>
        (\<exists>piece front pieces. name = (front @ concat (rev pieces)) @ piece
          \<and> spells e piece \<and> list_all2 spells es pieces)"
      unfolding suffix_loop_Cons Cons.IH by blast
    also have "\<dots> \<longleftrightarrow> (\<exists>front pieces. name = front @ concat (rev pieces) \<and> list_all2 spells (e # es) pieces)"
      (is "?L \<longleftrightarrow> ?R")
    proof
      assume ?L
      then obtain piece front pieces where "name = front @ concat (rev (piece # pieces))"
        "list_all2 spells (e # es) (piece # pieces)" by auto
      then show ?R by blast
    next
      assume ?R
      then obtain front piece pieces where "name = (front @ concat (rev pieces)) @ piece"
        "spells e piece" "list_all2 spells es pieces"
        by (auto simp: list_all2_Cons1)
      then show ?L by blast
    qed
    finally show ?case .
  qed
  from this[of "rev suffix"] show ?thesis
    unfolding suffix_matches_def by (metis list_all2_rev rev_rev_ident)
qed

subsection \<open>Splitting and joining\<close>

fun split_on :: "'a \<Rightarrow> 'a list \<Rightarrow> 'a list list" where
  "split_on sep [] = [[]]"
| "split_on sep (x # xs) =
     (if x = sep then [] # split_on sep xs
      else case split_on sep xs of [] \<Rightarrow> [[x]] | part # parts \<Rightarrow> (x # part) # parts)"

fun join_with :: "'a \<Rightarrow> 'a list list \<Rightarrow> 'a list" where
  "join_with sep [] = []"
| "join_with sep [part] = part"
| "join_with sep (part # parts) = part @ sep # join_with sep parts"

lemma split_on_nonempty [simp]: "split_on sep xs \<noteq> []"
  by (induction xs) (auto split: list.splits)

lemma split_on_no_sep: "part \<in> set (split_on sep xs) \<Longrightarrow> sep \<notin> set part"
  by (induction xs arbitrary: part) (auto split: list.splits if_splits)

lemma split_on_set: "part \<in> set (split_on sep xs) \<Longrightarrow> set part \<subseteq> set xs"
  by (induction xs arbitrary: part) (fastforce split: list.splits if_splits)+

lemma join_split_on: "join_with sep (split_on sep xs) = xs"
proof (induction xs)
  case (Cons x xs)
  then show ?case
    by (cases "split_on sep xs" rule: list.exhaust; cases "tl (split_on sep xs)") auto
qed simp

lemma split_on_append:
  "sep \<notin> set part \<Longrightarrow> split_on sep (part @ sep # rest) = part # split_on sep rest"
  by (induction part) auto

lemma split_on_single: "sep \<notin> set part \<Longrightarrow> split_on sep part = [part]"
  by (induction part) auto

lemma split_join:
  "parts \<noteq> [] \<Longrightarrow> (\<And>part. part \<in> set parts \<Longrightarrow> sep \<notin> set part) \<Longrightarrow> split_on sep (join_with sep parts) = parts"
  by (induction sep parts rule: join_with.induct) (simp_all add: split_on_append split_on_single)

lemma join_with_set: "set (join_with sep parts) \<subseteq> insert sep (\<Union> (set ` set parts))"
  by (induction sep parts rule: join_with.induct) auto

lemma join_with_length:
  "parts \<noteq> [] \<Longrightarrow> length (join_with sep parts) + 1 = (\<Sum>part\<leftarrow>parts. length part + 1)"
  by (induction sep parts rule: join_with.induct) auto

subsection \<open>Entry names\<close>

definition is_ascii_alphabetic :: "char \<Rightarrow> bool" where
  "is_ascii_alphabetic c \<longleftrightarrow> is_ascii_upper c \<or> is_ascii_lower c"

definition component_step :: "string list \<Rightarrow> string \<Rightarrow> string list" where
  "component_step components part =
     (if part = [] \<or> part = ''.'' then components
      else if part = ''..'' \<and> components \<noteq> [] \<and> last components \<noteq> ''..'' then butlast components
      else components @ [part])"

definition drive_prefix :: "bytes \<Rightarrow> bool" where
  "drive_prefix name \<longleftrightarrow> 2 \<le> length name \<and> is_ascii_alphabetic (name ! 0) \<and> name ! 1 = CHR '':''"

definition validate_entry_name :: "bytes \<Rightarrow> limits \<Rightarrow> validation_error + string" where
  "validate_entry_name name l =
     and_then (limits_validate l) (\<lambda>_.
       if name = [] \<or> length name > max_path_bytes l \<or> CHR 0x00 \<in> set name \<or> CHR 0x5C \<in> set name
       then Inl (error_at UnsafePath name)
       else if \<not> valid_utf8 name then Inl (error_at UnsafePath name)
       else if starts_with ''/'' name \<or> drive_prefix name then Inl (error_at UnsafePath name)
       else let components = foldl component_step [] (split_on (CHR ''/'') name) in
         if components = [] \<or> hd components = ''..'' \<or> length components > max_path_depth l
         then Inl (error_at UnsafePath name)
         else Inr (join_with (CHR ''/'') components))"

subsection \<open>The reference: walking the path from the archive root\<close>

text \<open>\<open>None\<close> as soon as a component climbs above the root.\<close>

fun walk :: "string list \<Rightarrow> string list \<Rightarrow> string list option" where
  "walk dirs [] = Some dirs"
| "walk dirs (part # parts) =
     (if part = [] \<or> part = ''.'' then walk dirs parts
      else if part = ''..'' then (if dirs = [] then None else walk (butlast dirs) parts)
      else walk (dirs @ [part]) parts)"

definition plain_component :: "string \<Rightarrow> bool" where
  "plain_component part \<longleftrightarrow> part \<noteq> [] \<and> part \<noteq> ''.'' \<and> part \<noteq> ''..''"

lemma escaped_stays:
  "components \<noteq> [] \<Longrightarrow> hd components = ''..'' \<Longrightarrow>
   foldl component_step components parts \<noteq> [] \<and> hd (foldl component_step components parts) = ''..''"
proof (induction parts arbitrary: components)
  case Nil
  then show ?case by simp
next
  case (Cons part parts)
  have "component_step components part \<noteq> [] \<and> hd (component_step components part) = ''..''"
    using Cons.prems by (cases components) (auto simp: component_step_def)
  then show ?case using Cons.IH by simp
qed

lemma components_walk:
  "list_all plain_component dirs \<Longrightarrow>
   (case walk dirs parts of
      None \<Rightarrow> foldl component_step dirs parts \<noteq> [] \<and> hd (foldl component_step dirs parts) = ''..''
    | Some dirs' \<Rightarrow> foldl component_step dirs parts = dirs' \<and> list_all plain_component dirs'
        \<and> set dirs' \<subseteq> set dirs \<union> set parts \<and> length dirs' \<le> length dirs + length parts)"
proof (induction dirs parts rule: walk.induct)
  case (1 dirs)
  then show ?case by simp
next
  case (2 dirs part parts)
  consider "part = [] \<or> part = ''.''" | "part = ''..''" "dirs = []" | "part = ''..''" "dirs \<noteq> []"
    | "plain_component part"
    by (auto simp: plain_component_def)
  then show ?case
  proof cases
    case 1
    with 2 show ?thesis by (auto simp: component_step_def split: option.splits)
  next
    case 2
    then show ?thesis
      using escaped_stays[of "[''..'']" parts] by (simp add: component_step_def)
  next
    case 3
    have "list_all plain_component (butlast dirs)" "last dirs \<noteq> ''..''"
      using "2.prems" 3 by (auto simp: list_all_iff plain_component_def in_set_butlastD)
    moreover from this 3 have "component_step dirs part = butlast dirs" by (simp add: component_step_def)
    ultimately show ?thesis
      using 3 "2.IH"(2) by (auto split: option.splits dest: in_set_butlastD)
  next
    case 4
    moreover from this have "component_step dirs part = dirs @ [part]"
      by (simp add: component_step_def plain_component_def)
    ultimately show ?thesis
      using "2.IH"(3) "2.prems" by (auto simp: plain_component_def[of part] split: option.splits)
  qed
qed

definition plain_bytes :: "bytes \<Rightarrow> limits \<Rightarrow> bool" where
  "plain_bytes name l \<longleftrightarrow>
     name \<noteq> [] \<and> length name \<le> max_path_bytes l \<and> CHR 0x00 \<notin> set name \<and> CHR 0x5C \<notin> set name
     \<and> valid_utf8 name \<and> \<not> starts_with ''/'' name \<and> \<not> drive_prefix name"

text \<open>No accepted entry name leaves the archive root: a name is accepted exactly when its
  bytes are plain (bounded, UTF-8, no NUL, backslash, leading slash or drive prefix) and the
  walk along its components never climbs above the root and ends below it within the depth
  limit; the key is the path reached.\<close>

theorem validate_entry_name_correct:
  "validate_entry_name name l = Inr key \<longleftrightarrow>
     limits_ok l \<and> plain_bytes name l
     \<and> (\<exists>dirs. walk [] (split_on (CHR ''/'') name) = Some dirs \<and> dirs \<noteq> []
          \<and> length dirs \<le> max_path_depth l \<and> key = join_with (CHR ''/'') dirs)"
proof -
  have dotdot: "list_all plain_component dirs \<Longrightarrow> dirs \<noteq> [] \<Longrightarrow> hd dirs \<noteq> ''..''" for dirs
    by (cases dirs) (auto simp: plain_component_def)
  show ?thesis
    using components_walk[of "[]" "split_on (CHR ''/'') name"]
    by (auto simp: validate_entry_name_def plain_bytes_def result_iffs Let_def not_less dest: dotdot
        split: option.splits if_splits)
qed

subsection \<open>Keys are canonical\<close>

lemma encode_utf8_high_bytes:
  assumes "is_scalar c" "128 \<le> c" "x \<in> set (encode_utf8 c)"
  shows "128 \<le> (of_char x :: nat)"
proof -
  have bound: "c < 0x110000" using assms(1) by (auto simp: is_scalar_def)
  have mods: "0x80 + c mod 64 < 256" "0x80 + c div 64 mod 64 < 256" "0x80 + c div 4096 mod 64 < 256"
    by (simp_all add: less_imp_diff_less add.commute[of "128::nat"])
  have leads: "c < 0x800 \<Longrightarrow> 0xC0 + c div 64 < 256" "c < 0x10000 \<Longrightarrow> 0xE0 + c div 4096 < 256"
    "0xF0 + c div 262144 < 256"
    using bound by (simp_all add: div_less_iff_less_mult)
  have high: "n < 256 \<Longrightarrow> 128 \<le> n \<Longrightarrow> 128 \<le> (of_char (char_of n :: char) :: nat)" for n :: nat
    by (simp add: of_char_char_of_small)
  from assms show ?thesis
    using mods leads by (auto simp: encode_utf8_def intro!: high split: if_splits)
qed

lemma char_of_slash: "char_of (47 :: nat) = CHR ''/''"
  by code_simp

lemma slash_in_encode: "is_scalar c \<Longrightarrow> CHR ''/'' \<in> set (encode_utf8 c) \<longleftrightarrow> c = 47"
proof (cases "c < 128")
  case True
  have "(CHR ''/'' = char_of c) \<longleftrightarrow> c = 47"
  proof
    assume "CHR ''/'' = char_of c"
    then have "(of_char CHR ''/'' :: nat) = of_char (char_of c :: char)" by simp
    with True show "c = 47" by (simp add: of_char_char_of_small)
  qed (simp add: char_of_slash)
  with True show ?thesis by (simp add: encode_utf8_def)
next
  case False
  then show "is_scalar c \<Longrightarrow> CHR ''/'' \<in> set (encode_utf8 c) \<longleftrightarrow> c = 47"
    using encode_utf8_high_bytes[of c "CHR ''/''"] by auto
qed

lemma split_on_prefix:
  "sep \<notin> set xs \<Longrightarrow> split_on sep ys = part # parts \<Longrightarrow> split_on sep (xs @ ys) = (xs @ part) # parts"
  by (induction xs) auto

lemma split_str_of_chars:
  "list_all is_scalar cs \<Longrightarrow>
   split_on (CHR ''/'') (str_of_chars cs) = map str_of_chars (split_on 47 cs)"
proof (induction cs)
  case Nil
  then show ?case by (simp add: str_of_chars_def)
next
  case (Cons c cs)
  obtain part parts where parts: "split_on 47 cs = part # parts"
    by (meson neq_Nil_conv split_on_nonempty)
  have cons: "str_of_chars (c # cs) = encode_utf8 c @ str_of_chars cs" for c cs
    by (simp add: str_of_chars_def)
  show ?case
  proof (cases "c = 47")
    case True
    have "encode_utf8 47 = [CHR ''/'']" by (simp add: encode_utf8_def char_of_slash)
    with True Cons show ?thesis by (simp add: cons) (simp add: str_of_chars_def)
  next
    case False
    with Cons.prems have "CHR ''/'' \<notin> set (encode_utf8 c)" by (simp add: slash_in_encode)
    with False Cons parts show ?thesis
      by (simp add: cons split_on_prefix)
  qed
qed

lemma valid_utf8_append: "valid_utf8 a \<Longrightarrow> valid_utf8 b \<Longrightarrow> valid_utf8 (a @ b)"
  by (auto simp: valid_utf8_iff str_of_chars_append[symmetric])
    (metis list_all_append str_of_chars_append)

lemma valid_utf8_split:
  assumes "valid_utf8 s" "part \<in> set (split_on (CHR ''/'') s)"
  shows "valid_utf8 part"
proof -
  obtain cs where cs: "list_all is_scalar cs" "s = str_of_chars cs"
    using assms(1) by (auto simp: valid_utf8_iff)
  with assms(2) obtain cs' where "cs' \<in> set (split_on 47 cs)" "part = str_of_chars cs'"
    by (auto simp: split_str_of_chars)
  with cs split_on_set[of cs' 47 cs] show ?thesis by (auto simp: list_all_iff subset_iff)
qed

lemma valid_utf8_join:
  "list_all valid_utf8 parts \<Longrightarrow> valid_utf8 (join_with (CHR ''/'') parts)"
proof (induction "CHR ''/''" parts rule: join_with.induct)
  case 1
  then show ?case by (simp add: valid_utf8_def utf8_chars.simps)
next
  case (3 part q parts)
  have "valid_utf8 ''/''" by code_simp
  with 3 show ?case using valid_utf8_append[of "''/''"] valid_utf8_append by simp
qed simp

lemma walk_plain: "list_all plain_component parts \<Longrightarrow> walk dirs parts = Some (dirs @ parts)"
  by (induction parts arbitrary: dirs) (auto simp: plain_component_def)

lemma walk_weight:
  "walk dirs parts = Some dirs' \<Longrightarrow>
   (\<Sum>p\<leftarrow>dirs'. length p + 1) \<le> (\<Sum>p\<leftarrow>dirs. length p + 1) + (\<Sum>p\<leftarrow>parts. length (p::string) + 1)"
proof (induction dirs parts rule: walk.induct)
  case (2 dirs part parts)
  have "(\<Sum>p\<leftarrow>butlast dirs. length p + 1) \<le> (\<Sum>p\<leftarrow>dirs. length p + 1)"
    by (cases dirs rule: rev_cases) auto
  with 2 show ?case by (fastforce split: if_splits)
qed simp

text \<open>The key of an accepted name is canonical: validating the key again returns it unchanged,
  unless cleaning exposed a drive prefix, in which case the key itself would be refused.\<close>

theorem entry_key_canonical:
  assumes "validate_entry_name name l = Inr key"
  shows "validate_entry_name key l = (if drive_prefix key then Inl (error_at UnsafePath key) else Inr key)"
proof -
  obtain dirs where ok: "limits_ok l" "plain_bytes name l"
    and walk: "walk [] (split_on (CHR ''/'') name) = Some dirs" "dirs \<noteq> []"
      "length dirs \<le> max_path_depth l" "key = join_with (CHR ''/'') dirs"
    using assms by (auto simp: validate_entry_name_correct)
  have parts: "list_all plain_component dirs" "set dirs \<subseteq> set (split_on (CHR ''/'') name)"
    using components_walk[of "[]" "split_on (CHR ''/'') name"] walk(1) by simp_all
  have noslash: "CHR ''/'' \<notin> set part" if "part \<in> set dirs" for part
    using parts(2) that split_on_no_sep by fastforce
  have split_key: "split_on (CHR ''/'') key = dirs" using walk noslash by (simp add: split_join)
  have bytes: "set key \<subseteq> insert (CHR ''/'') (set name)"
    using join_with_set[of "CHR ''/''" dirs] split_on_set parts(2) unfolding walk(4) by fastforce
  have "length key \<le> length name"
    using walk_weight[OF walk(1)] join_with_length[of dirs "CHR ''/''"] walk(2,4)
      join_with_length[of "split_on (CHR ''/'') name" "CHR ''/''"] by (simp add: join_split_on)
  moreover have "valid_utf8 key"
    unfolding walk(4) using ok(2) parts(2) valid_utf8_split
    by (intro valid_utf8_join) (auto simp: list_all_iff plain_bytes_def)
  moreover obtain d ds where dirs: "dirs = d # ds" "d \<noteq> []" "hd d \<noteq> CHR ''/''"
    using walk(2) parts(1) noslash by (cases dirs) (auto simp: plain_component_def, metis hd_in_set)
  then have "key \<noteq> []" "\<not> starts_with ''/'' key"
    unfolding walk(4) by (cases ds; cases d; auto)+
  ultimately have plain: "plain_bytes key l \<longleftrightarrow> \<not> drive_prefix key"
    using ok(2) bytes by (auto simp: plain_bytes_def)
  show ?thesis
  proof (cases "drive_prefix key")
    case True
    then have "\<exists>e. validate_entry_name key l = Inl e"
      using plain validate_entry_name_correct[of key l] by (cases "validate_entry_name key l") auto
    with True ok show ?thesis
      by (auto simp: validate_entry_name_def result_iffs Let_def split: if_splits)
  next
    case False
    have "walk [] (split_on (CHR ''/'') key) = Some dirs"
      by (simp add: split_key walk_plain parts)
    then have "validate_entry_name key l = Inr key"
      unfolding validate_entry_name_correct using plain False ok walk by blast
    with False show ?thesis by simp
  qed
qed

theorem entry_key_canonical_witness:
  "validate_entry_name ''a/b'' limits_default = Inr ''a/b''"
proof -
  have "validate_entry_name ''a/./c/../b'' limits_default = Inr ''a/b''" by code_simp
  from entry_key_canonical[OF this] show ?thesis
    by (simp add: drive_prefix_def)
qed

end
