(* ===== verification/Import_Inventory.thy ===== *)
theory Import_Inventory
  imports Import_Names Ordered_Map
begin

section \<open>Archive budgets and inventories\<close>

text \<open>
  \<open>import/limits.rs\<close> (declared-size accounting) and \<open>import/entries.rs\<close> (the inventory
  builder). The builder is a record returned updated by \<open>push\<close>; its map of entries is the
  \<open>BTreeMap\<close> model, used through the ordered-map interface.
\<close>

subsection \<open>Entries and budgets\<close>

record entry_info =
  entry_name :: bytes
  entry_compressed :: i64
  entry_uncompressed :: i64
  entry_is_directory :: bool
  entry_is_link :: bool

definition entry_from_unsigned ::
    "bytes \<Rightarrow> nat \<Rightarrow> nat \<Rightarrow> bool \<Rightarrow> bool \<Rightarrow> validation_error + entry_info" where
  "entry_from_unsigned name compressed uncompressed is_directory is_link =
     (let invalid = caused_by ''entry size exceeds supported range'' (error_at InvalidContainer name) in
      and_then (ok_or invalid (i64_try_from compressed)) (\<lambda>c.
      and_then (ok_or invalid (i64_try_from uncompressed)) (\<lambda>u.
        Inr \<lparr>entry_name = name, entry_compressed = c, entry_uncompressed = u,
             entry_is_directory = is_directory, entry_is_link = is_link\<rparr>)))"

record budget_usage =
  used_entries :: usize
  expanded_bytes :: i64
  compressed_bytes :: i64

record budget =
  budget_limits :: limits
  usage :: budget_usage

definition budget_new :: "limits \<Rightarrow> validation_error + budget" where
  "budget_new l =
     and_then (limits_validate l) (\<lambda>_.
       Inr \<lparr>budget_limits = l,
            usage = \<lparr>used_entries = 0, expanded_bytes = 0, compressed_bytes = 0\<rparr>\<rparr>)"

definition expanded_usage :: "entry_info \<Rightarrow> budget \<Rightarrow> validation_error + budget_usage" where
  "expanded_usage entry b =
     and_then (validate_entry_name (entry_name entry) (budget_limits b)) (\<lambda>_.
       if entry_is_link entry then Inl (error_at LinkEntry (entry_name entry))
       else if entry_compressed entry < 0 \<or> entry_uncompressed entry < 0
       then Inl (caused_by ''negative entry size'' (error_at InvalidContainer (entry_name entry)))
       else and_then (ok_or (error_at EntryLimit (entry_name entry))
           (Option.bind (u64_checked_add (used_entries (usage b)) 1)
             (\<lambda>n. if n \<le> max_entries (budget_limits b) then Some n else None))) (\<lambda>count.
         if entry_uncompressed entry
             > i64_sub (max_expanded_bytes (budget_limits b)) (expanded_bytes (usage b))
         then Inl (error_at ExpandedSizeLimit (entry_name entry))
         else Inr \<lparr>used_entries = count,
                   expanded_bytes = i64_add (expanded_bytes (usage b)) (entry_uncompressed entry),
                   compressed_bytes = compressed_bytes (usage b)\<rparr>))"

definition check_ratio ::
    "i64 \<Rightarrow> i64 \<Rightarrow> bytes option \<Rightarrow> budget \<Rightarrow> validation_error + unit" where
  "check_ratio expanded compressed entry b =
     (let error = (\<lambda>code. case entry of Some name \<Rightarrow> error_at code name | None \<Rightarrow> error_new code) in
      if compressed < 0
      then Inl (caused_by ''negative compressed size'' (error InvalidContainer))
      else let denominator = (if compressed = 0 \<and> expanded > 0 then 1 else compressed) in
        if f64_less (max_compression_ratio (budget_limits b))
             (f64_div (f64_of_i64 expanded) (f64_of_i64 denominator))
        then Inl (error CompressionRatioLimit)
        else Inr ())"

definition account :: "entry_info \<Rightarrow> budget \<Rightarrow> validation_error + budget" where
  "account entry b =
     and_then (expanded_usage entry b) (\<lambda>next.
     and_then (ok_or (caused_by ''compressed size overflow''
                       (error_at InvalidContainer (entry_name entry)))
        (i64_checked_add (compressed_bytes next) (entry_compressed entry))) (\<lambda>compressed.
       let next = next\<lparr>compressed_bytes := compressed\<rparr> in
       and_then (check_ratio (expanded_bytes next) (compressed_bytes next) (Some (entry_name entry)) b)
         (\<lambda>_. Inr (b\<lparr>usage := next\<rparr>))))"

definition account_expanded :: "entry_info \<Rightarrow> budget \<Rightarrow> validation_error + budget" where
  "account_expanded entry b =
     and_then (expanded_usage entry b) (\<lambda>next. Inr (b\<lparr>usage := next\<rparr>))"

definition validate_compression :: "i64 \<Rightarrow> budget \<Rightarrow> validation_error + unit" where
  "validate_compression whole_container_bytes b =
     check_ratio (expanded_bytes (usage b)) whole_container_bytes None b"

subsection \<open>Inventories\<close>

datatype compression_accounting = ZipEntries | SevenZipContainer i64

record entry_record =
  raw_name :: bytes
  rec_compressed_bytes :: i64
  rec_uncompressed_bytes :: i64
  rec_is_directory :: bool

record inventory =
  inv_entries :: "(string, entry_record) btree_map"
  inv_usage :: budget_usage

definition inventory_entry :: "inventory \<Rightarrow> string \<Rightarrow> entry_record option" where
  "inventory_entry iv key = bt_get (inv_entries iv) key"

definition has_file :: "inventory \<Rightarrow> string \<Rightarrow> bool" where
  "has_file iv key =
     (case inventory_entry iv key of None \<Rightarrow> False | Some entry \<Rightarrow> \<not> rec_is_directory entry)"

definition file_names :: "inventory \<Rightarrow> string list" where
  "file_names iv = map fst (filter (\<lambda>(_, entry). \<not> rec_is_directory entry) (inv_entries iv))"

definition strip_slash :: "string \<Rightarrow> string" where
  "strip_slash prefix = (if ends_with ''/'' prefix then butlast prefix else prefix)"

definition has_file_below :: "inventory \<Rightarrow> string \<Rightarrow> bool" where
  "has_file_below iv prefix =
     (let prefix = strip_slash prefix @ ''/'' in list_ex (\<lambda>name. starts_with prefix name) (file_names iv))"

record inventory_builder =
  builder_budget :: budget
  builder_accounting :: compression_accounting
  builder_entries :: "(string, entry_record) btree_map"
  builder_failure :: "validation_error option"

definition builder_new :: "limits \<Rightarrow> compression_accounting \<Rightarrow> validation_error + inventory_builder" where
  "builder_new l accounting =
     and_then (budget_new l) (\<lambda>b.
       Inr \<lparr>builder_budget = b, builder_accounting = accounting, builder_entries = [],
            builder_failure = None\<rparr>)"

definition record_of :: "entry_info \<Rightarrow> entry_record" where
  "record_of entry =
     \<lparr>raw_name = entry_name entry, rec_compressed_bytes = entry_compressed entry,
      rec_uncompressed_bytes = entry_uncompressed entry, rec_is_directory = entry_is_directory entry\<rparr>"

definition nested_archive :: "entry_info \<Rightarrow> string \<Rightarrow> bool" where
  "nested_archive entry key \<longleftrightarrow>
     \<not> entry_is_directory entry
     \<and> (suffix_matches key ''.zip'' \<or> suffix_matches key ''.7z'' \<or> suffix_matches key ''.pk'')"

text \<open>
  The budget is charged before the key is checked, and it stays charged when the key is then
  refused; the result carries the builder as the code leaves it.
\<close>

definition charge :: "entry_info \<Rightarrow> inventory_builder \<Rightarrow> validation_error + budget" where
  "charge entry b =
     (case builder_accounting b of
        ZipEntries \<Rightarrow> account entry (builder_budget b)
      | SevenZipContainer _ \<Rightarrow> account_expanded entry (builder_budget b))"

definition push_checked ::
    "entry_info \<Rightarrow> inventory_builder \<Rightarrow> (validation_error + unit) \<times> inventory_builder" where
  "push_checked entry b =
     (case charge entry b of
        Inl e \<Rightarrow> (Inl e, b)
      | Inr charged \<Rightarrow>
          let b = b\<lparr>builder_budget := charged\<rparr> in
          (case validate_entry_name (entry_name entry) (budget_limits charged) of
             Inl e \<Rightarrow> (Inl e, b)
           | Inr key \<Rightarrow>
               if bt_get (builder_entries b) key \<noteq> None
               then (Inl (error_at AmbiguousStructure (entry_name entry)), b)
               else if nested_archive entry key
               then (Inl (error_at NestedArchive (entry_name entry)), b)
               else (Inr (), b\<lparr>builder_entries := bt_insert key (record_of entry) (builder_entries b)\<rparr>)))"

definition push ::
    "entry_info \<Rightarrow> inventory_builder \<Rightarrow> (validation_error + unit) \<times> inventory_builder" where
  "push entry b =
     (case builder_failure b of
        Some e \<Rightarrow> (Inl e, b)
      | None \<Rightarrow>
          (case push_checked entry b of
             (Inl e, b') \<Rightarrow> (Inl e, b'\<lparr>builder_failure := Some e\<rparr>)
           | (Inr _, b') \<Rightarrow> (Inr (), b')))"

definition builder_finish :: "inventory_builder \<Rightarrow> validation_error + inventory" where
  "builder_finish b =
     (case builder_failure b of
        Some e \<Rightarrow> Inl e
      | None \<Rightarrow>
          and_then (case builder_accounting b of
                      SevenZipContainer n \<Rightarrow> validate_compression n (builder_budget b)
                    | ZipEntries \<Rightarrow> Inr ()) (\<lambda>_.
            Inr \<lparr>inv_entries = builder_entries b, inv_usage = usage (builder_budget b)\<rparr>))"

text \<open>What a container adapter does with the entries of one archive: push each, then finish.\<close>

definition push_all :: "entry_info list \<Rightarrow> inventory_builder \<Rightarrow> inventory_builder" where
  "push_all entries b = foldl (\<lambda>b entry. snd (push entry b)) b entries"

definition inventory_of ::
    "limits \<Rightarrow> compression_accounting \<Rightarrow> entry_info list \<Rightarrow> validation_error + inventory" where
  "inventory_of l accounting entries =
     and_then (builder_new l accounting) (\<lambda>b. builder_finish (push_all entries b))"

subsection \<open>Charging the budget\<close>

lemma expanded_usage_Ok_iff:
  assumes "0 \<le> expanded_bytes (usage b)" "expanded_bytes (usage b) \<le> max_expanded_bytes (budget_limits b)"
    and "i64_ok (max_expanded_bytes (budget_limits b))"
  shows "expanded_usage entry b = Inr u \<longleftrightarrow>
    (\<exists>key. validate_entry_name (entry_name entry) (budget_limits b) = Inr key)
    \<and> \<not> entry_is_link entry \<and> 0 \<le> entry_compressed entry \<and> 0 \<le> entry_uncompressed entry
    \<and> used_entries (usage b) + 1 \<le> u64_max \<and> used_entries (usage b) + 1 \<le> max_entries (budget_limits b)
    \<and> expanded_bytes (usage b) + entry_uncompressed entry \<le> max_expanded_bytes (budget_limits b)
    \<and> u = \<lparr>used_entries = used_entries (usage b) + 1,
           expanded_bytes = expanded_bytes (usage b) + entry_uncompressed entry,
           compressed_bytes = compressed_bytes (usage b)\<rparr>"
proof -
  have sub: "i64_sub (max_expanded_bytes (budget_limits b)) (expanded_bytes (usage b)) =
      max_expanded_bytes (budget_limits b) - expanded_bytes (usage b)"
    using assms by (intro i64_sub_exact) (simp add: bounds_simps)
  have add: "i64_add (expanded_bytes (usage b)) (entry_uncompressed entry) =
      expanded_bytes (usage b) + entry_uncompressed entry"
    if "0 \<le> entry_uncompressed entry"
      "expanded_bytes (usage b) + entry_uncompressed entry \<le> max_expanded_bytes (budget_limits b)"
    using assms that by (intro i64_add_exact) (simp add: bounds_simps)
  show ?thesis
    unfolding expanded_usage_def sub
    by (auto simp: result_iffs not_less not_le add u64_checked_add_def bind_eq_Some_conv
        split: if_splits)
qed

text \<open>The floating-point ratio check is exact where the limit is a whole number below
  \<open>2^53\<close>, as the default limit is, and the archive expands to fewer than \<open>2^53\<close> bytes: it
  accepts precisely when the expanded size is at most the limit times the compressed size, an
  empty compressed size counting as one byte.\<close>

theorem check_ratio_exact:
  assumes "max_compression_ratio (budget_limits b) = Finite (of_int m)" "1 \<le> m" "m < 2 ^ 53"
    and "0 \<le> expanded" "expanded < 2 ^ 53" "0 \<le> compressed"
  shows "check_ratio expanded compressed entry b = Inr () \<longleftrightarrow>
    expanded \<le> m * (if compressed = 0 then 1 else compressed)"
proof (cases "expanded = 0 \<and> compressed = 0")
  case True
  then show ?thesis
    using assms by (simp add: check_ratio_def Let_def f64_of_i64_def f64_round_def)
next
  case False
  then have "0 < (if compressed = 0 \<and> expanded > 0 then 1 else compressed)" using assms by auto
  from quotient_exceeds_iff[OF assms(4,5) this assms(2,3)] False assms show ?thesis
    by (auto simp: check_ratio_def Let_def not_less)
qed

theorem check_ratio_exact_witness:
  "check_ratio 601 3 None \<lparr>budget_limits = limits_default,
      usage = \<lparr>used_entries = 0, expanded_bytes = 0, compressed_bytes = 0\<rparr>\<rparr> \<noteq> Inr ()"
  using check_ratio_exact[of "\<lparr>budget_limits = limits_default,
      usage = \<lparr>used_entries = 0, expanded_bytes = 0, compressed_bytes = 0\<rparr>\<rparr>" 200 601 3 None]
  by (simp add: limits_default_def)

subsection \<open>The builder's invariant\<close>

definition total_uncompressed :: "entry_info list \<Rightarrow> int" where
  "total_uncompressed entries = (\<Sum>e\<leftarrow>entries. entry_uncompressed e)"

definition total_compressed :: "entry_info list \<Rightarrow> int" where
  "total_compressed entries = (\<Sum>e\<leftarrow>entries. entry_compressed e)"

lemma total_simps [simp]:
  "total_uncompressed [] = 0" "total_compressed [] = 0"
  "total_uncompressed (es @ [e]) = total_uncompressed es + entry_uncompressed e"
  "total_compressed (es @ [e]) = total_compressed es + entry_compressed e"
  by (simp_all add: total_uncompressed_def total_compressed_def)

text \<open>An entry that the inventory may hold, indexed under its canonical key.\<close>

definition indexed_entry :: "limits \<Rightarrow> (string, entry_record) btree_map \<Rightarrow> entry_info \<Rightarrow> bool" where
  "indexed_entry l m entry \<longleftrightarrow>
     \<not> entry_is_link entry \<and> 0 \<le> entry_compressed entry \<and> 0 \<le> entry_uncompressed entry
     \<and> (\<exists>key. validate_entry_name (entry_name entry) l = Inr key \<and> \<not> nested_archive entry key
          \<and> bt_get m key = Some (record_of entry))"

definition builder_inv ::
    "limits \<Rightarrow> compression_accounting \<Rightarrow> entry_info list \<Rightarrow> inventory_builder \<Rightarrow> bool" where
  "builder_inv l accounting entries b \<longleftrightarrow>
     builder_accounting b = accounting \<and> budget_limits (builder_budget b) = l
     \<and> used_entries (usage (builder_budget b)) = length entries \<and> length entries \<le> max_entries l
     \<and> expanded_bytes (usage (builder_budget b)) = total_uncompressed entries
     \<and> 0 \<le> total_uncompressed entries \<and> total_uncompressed entries \<le> max_expanded_bytes l
     \<and> compressed_bytes (usage (builder_budget b)) =
         (if accounting = ZipEntries then total_compressed entries else 0)
     \<and> bt_inv (builder_entries b) \<and> length (builder_entries b) = length entries
     \<and> list_all (indexed_entry l (builder_entries b)) entries"

lemma builder_new_inv:
  "builder_new l accounting = Inr b \<Longrightarrow> builder_inv l accounting [] b \<and> builder_failure b = None \<and> limits_ok l"
  by (auto simp: builder_new_def budget_new_def builder_inv_def result_iffs limits_ok_def
      btm.inv_empty)

lemma charge_effect:
  assumes "i64_ok (max_expanded_bytes l)" "builder_inv l accounting entries b"
    and charged: "charge entry b = Inr c"
  shows "budget_limits c = l \<and> used_entries (usage c) = length (entries @ [entry])
    \<and> length (entries @ [entry]) \<le> max_entries l
    \<and> expanded_bytes (usage c) = total_uncompressed (entries @ [entry])
    \<and> 0 \<le> total_uncompressed (entries @ [entry])
    \<and> total_uncompressed (entries @ [entry]) \<le> max_expanded_bytes l
    \<and> compressed_bytes (usage c) =
        (if accounting = ZipEntries then total_compressed (entries @ [entry]) else 0)
    \<and> \<not> entry_is_link entry \<and> 0 \<le> entry_compressed entry \<and> 0 \<le> entry_uncompressed entry"
proof -
  let ?b = "builder_budget b"
  have inv: "builder_accounting b = accounting" "budget_limits ?b = l"
    "used_entries (usage ?b) = length entries" "expanded_bytes (usage ?b) = total_uncompressed entries"
    "0 \<le> total_uncompressed entries" "total_uncompressed entries \<le> max_expanded_bytes l"
    "compressed_bytes (usage ?b) = (if accounting = ZipEntries then total_compressed entries else 0)"
    using assms(2) by (simp_all add: builder_inv_def)
  obtain u where u: "expanded_usage entry ?b = Inr u"
    using charged by (cases "builder_accounting b")
      (auto simp: charge_def account_def account_expanded_def result_iffs)
  have charged_u: "c = ?b\<lparr>usage := u\<lparr>compressed_bytes := compressed_bytes u +
      (if accounting = ZipEntries then entry_compressed entry else 0)\<rparr>\<rparr>"
    using charged u inv(1) by (cases accounting)
      (auto simp: charge_def account_def account_expanded_def result_iffs Let_def i64_checked_add_Some_iff)
  have "0 \<le> expanded_bytes (usage ?b)" "expanded_bytes (usage ?b) \<le> max_expanded_bytes (budget_limits ?b)"
    "i64_ok (max_expanded_bytes (budget_limits ?b))"
    using inv assms(1) by simp_all
  note facts = u[unfolded expanded_usage_Ok_iff[OF this]]
  show ?thesis using facts inv by (simp add: charged_u)
qed

lemma indexed_insert:
  assumes "bt_inv m" "bt_get m key = None" "indexed_entry l m e"
  shows "indexed_entry l (bt_insert key v m) e"
proof -
  obtain k where k: "validate_entry_name (entry_name e) l = Inr k" "\<not> nested_archive e k"
    "bt_get m k = Some (record_of e)"
    using assms(3) unfolding indexed_entry_def by blast
  with assms(2) have "k \<noteq> key" by (cases "k = key") simp_all
  then have "bt_get (bt_insert key v m) k = Some (record_of e)"
    using k(3) assms(1) by (simp add: btm.get_put)
  then show ?thesis using k assms(3) unfolding indexed_entry_def by blast
qed

lemma push_checked_Ok:
  assumes "push_checked entry b = (Inr u, b')"
  obtains c key where "charge entry b = Inr c"
    and "validate_entry_name (entry_name entry) (budget_limits c) = Inr key"
    and "bt_get (builder_entries b) key = None" and "\<not> nested_archive entry key"
    and "b' = b\<lparr>builder_budget := c,
        builder_entries := bt_insert key (record_of entry) (builder_entries b)\<rparr>"
proof (cases "charge entry b")
  case (Inl e)
  with assms show ?thesis by (simp add: push_checked_def)
next
  case (Inr c)
  show ?thesis
  proof (cases "validate_entry_name (entry_name entry) (budget_limits c)")
    case (Inl e)
    with \<open>charge entry b = Inr c\<close> assms show ?thesis by (simp add: push_checked_def)
  next
    case (Inr key)
    with \<open>charge entry b = Inr c\<close> assms that[of c key] show ?thesis
      by (simp add: push_checked_def Let_def split: if_splits)
  qed
qed

lemma push_checked_inv:
  assumes "i64_ok (max_expanded_bytes l)" "builder_inv l accounting entries b"
    and "push_checked entry b = (Inr u, b')"
  shows "builder_inv l accounting (entries @ [entry]) b' \<and> builder_failure b' = builder_failure b"
proof -
  have acc: "builder_accounting b = accounting" using assms(2) by (simp add: builder_inv_def)
  obtain c key where c: "charge entry b = Inr c"
    and key: "validate_entry_name (entry_name entry) (budget_limits c) = Inr key"
    and new: "bt_get (builder_entries b) key = None" "\<not> nested_archive entry key"
    and b': "b' = b\<lparr>builder_budget := c,
        builder_entries := bt_insert key (record_of entry) (builder_entries b)\<rparr>"
    using push_checked_Ok[OF assms(3)] by metis
  note effect = charge_effect[OF assms(1,2) c]
  have m: "bt_inv (builder_entries b)" "length (builder_entries b) = length entries"
    "list_all (indexed_entry l (builder_entries b)) entries"
    using assms(2) by (simp_all add: builder_inv_def)
  have "list_all (indexed_entry l (bt_insert key (record_of entry) (builder_entries b))) entries"
    using m(3) indexed_insert[OF m(1) new(1)] by (simp add: list_all_iff)
  moreover have "indexed_entry l (bt_insert key (record_of entry) (builder_entries b)) entry"
    unfolding indexed_entry_def using effect key new m(1)
    by (intro conjI exI[of _ key]) (simp_all add: btm.get_put)
  ultimately show ?thesis
    using effect m new acc btm.put_length[OF m(1), of key "record_of entry"] btm.inv_put[OF m(1)]
    by (simp add: builder_inv_def b')
qed

lemma push_failed: "builder_failure b = Some e \<Longrightarrow> push entry b = (Inl e, b)"
  by (simp add: push_def)

lemma push_refused: "push entry b = (Inl e, b') \<Longrightarrow> builder_failure b' = Some e"
proof (cases "builder_failure b")
  case None
  obtain r c where rc: "push_checked entry b = (r, c)" by (cases "push_checked entry b")
  assume "push entry b = (Inl e, b')"
  with None rc show ?thesis by (cases r) (auto simp: push_def)
qed (simp add: push_def)

lemma push_accepted:
  assumes "builder_failure (snd (push entry b)) = None"
  shows "builder_failure b = None \<and> push_checked entry b = (Inr (), snd (push entry b))"
proof (cases "builder_failure b")
  case None
  obtain r c where rc: "push_checked entry b = (r, c)" by (cases "push_checked entry b")
  with None assms show ?thesis by (cases r) (simp_all add: push_def)
next
  case (Some e)
  with assms show ?thesis by (simp add: push_def)
qed

lemma push_inv:
  assumes "i64_ok (max_expanded_bytes l)" "builder_inv l accounting entries b"
    and "builder_failure (snd (push entry b)) = None"
  shows "builder_inv l accounting (entries @ [entry]) (snd (push entry b))"
  using push_checked_inv[OF assms(1,2)] push_accepted[OF assms(3)] by blast

lemma push_all_failed: "builder_failure b = Some e \<Longrightarrow> push_all entries b = b"
  by (induction entries) (simp_all add: push_all_def push_failed)

lemma push_all_inv:
  assumes "i64_ok (max_expanded_bytes l)" "builder_inv l accounting [] b"
    and "builder_failure (push_all entries b) = None"
  shows "builder_inv l accounting entries (push_all entries b)"
  using assms(3)
proof (induction entries rule: rev_induct)
  case Nil
  then show ?case using assms(2) by (simp add: push_all_def)
next
  case (snoc e es)
  have step: "push_all (es @ [e]) b = snd (push e (push_all es b))" by (simp add: push_all_def)
  have "builder_failure (push_all es b) = None"
    using snoc.prems push_accepted unfolding step by blast
  with snoc show ?case
    unfolding step using push_inv[OF assms(1)] by simp
qed

text \<open>C17: A finished inventory is complete and exact: every entry offered is in it under its
  canonical key and nothing else is, no two entries share a key, none is a link, a nested
  archive or of negative size, and the recorded usage is the exact number of entries and the
  exact sum of their declared sizes, within the limits.\<close>

theorem inventory_complete:
  assumes "i64_ok (max_expanded_bytes l)" "inventory_of l accounting entries = Inr i"
  shows "bt_inv (inv_entries i) \<and> length (inv_entries i) = length entries
    \<and> list_all (indexed_entry l (inv_entries i)) entries
    \<and> used_entries (inv_usage i) = length entries \<and> length entries \<le> max_entries l
    \<and> expanded_bytes (inv_usage i) = total_uncompressed entries
    \<and> total_uncompressed entries \<le> max_expanded_bytes l
    \<and> (accounting = ZipEntries \<longrightarrow> compressed_bytes (inv_usage i) = total_compressed entries)"
proof -
  obtain b where b: "builder_new l accounting = Inr b" "builder_finish (push_all entries b) = Inr i"
    using assms(2) by (auto simp: inventory_of_def result_iffs)
  then have none: "builder_failure (push_all entries b) = None"
    by (auto simp: builder_finish_def split: option.splits)
  from push_all_inv[OF assms(1) _ none] builder_new_inv[OF b(1)]
  have "builder_inv l accounting entries (push_all entries b)" by simp
  moreover have "inv_entries i = builder_entries (push_all entries b)"
    "inv_usage i = usage (builder_budget (push_all entries b))"
    using b(2) none by (auto simp: builder_finish_def result_iffs)
  ultimately show ?thesis by (simp add: builder_inv_def)
qed

definition sample_entry :: "bytes \<Rightarrow> entry_info" where
  "sample_entry name =
     \<lparr>entry_name = name, entry_compressed = 1, entry_uncompressed = 2,
      entry_is_directory = False, entry_is_link = False\<rparr>"

theorem inventory_complete_witness:
  "\<exists>i. inventory_of limits_default (SevenZipContainer 2) [sample_entry ''a''] = Inr i
     \<and> used_entries (inv_usage i) = 1 \<and> expanded_bytes (inv_usage i) = 2"
proof -
  have limits: "limits_validate limits_default = Inr ()" by (simp add: limits_default_ok)
  have name: "validate_entry_name ''a'' limits_default = Inr ''a''" by code_simp
  have leaf: "\<not> nested_archive (sample_entry ''a'') ''a''" by code_simp
  have ratio: "check_ratio 2 2 None b = Inr ()" if "budget_limits b = limits_default" for b
    using check_ratio_exact[of b 200 2 2 None] that by (simp add: limits_default_def)
  have max: "max_expanded_bytes limits_default = 2147483648" "max_entries limits_default = 10000"
    by (simp_all add: limits_default_def)
  have "\<exists>i. inventory_of limits_default (SevenZipContainer 2) [sample_entry ''a''] = Inr i"
    using leaf
    by (simp add: inventory_of_def builder_new_def budget_new_def limits push_all_def push_def
        push_checked_def charge_def account_expanded_def expanded_usage_def sample_entry_def name
        u64_checked_add_def i64_sub_def i64_add_def i64_wrap_def max builder_finish_def
        validate_compression_def ratio u64_max_def)
  then obtain i where i: "inventory_of limits_default (SevenZipContainer 2) [sample_entry ''a''] = Inr i"
    by blast
  have "i64_ok (max_expanded_bytes limits_default)" by (simp add: max bounds_simps)
  from inventory_complete[OF this i] i show ?thesis
    by (simp add: total_uncompressed_def sample_entry_def)
qed

text \<open>The builder is terminal after a failure: once an entry is refused, every later push
  reports that same first error and leaves the builder unchanged, and no inventory can be
  finished from it.\<close>

theorem builder_failure_is_terminal:
  assumes "push entry b = (Inl e, b')"
  shows "push_all entries b' = b' \<and> push later (push_all entries b') = (Inl e, b')
    \<and> builder_finish (push_all entries b') = Inl e"
proof -
  from push_refused[OF assms] have "builder_failure b' = Some e" .
  then show ?thesis by (simp add: push_all_failed push_failed builder_finish_def)
qed

theorem builder_failure_is_terminal_witness:
  "\<exists>b e b'. builder_new limits_default ZipEntries = Inr b \<and> push (sample_entry []) b = (Inl e, b')
     \<and> push (sample_entry ''a'') b' = (Inl e, b') \<and> builder_finish b' = Inl e"
proof -
  have limits: "limits_validate limits_default = Inr ()" by (simp add: limits_default_ok)
  have name: "validate_entry_name [] limits_default = Inl (error_at UnsafePath [])" by code_simp
  obtain b where b: "builder_new limits_default ZipEntries = Inr b"
    by (simp add: builder_new_def budget_new_def limits)
  then obtain e b' where e: "push (sample_entry []) b = (Inl e, b')"
    by (auto simp: builder_new_def budget_new_def limits push_def push_checked_def charge_def
        account_def expanded_usage_def sample_entry_def name)
  from builder_failure_is_terminal[OF e, of "[]" "sample_entry ''a''"] b e show ?thesis
    by (auto simp: push_all_def)
qed

end
