(* ===== verification/Import_Pack.thy ===== *)
theory Import_Pack
  imports Import_Inventory Vocabulary
begin

section \<open>Pack identities, roots and dispatch\<close>

text \<open>
  \<open>import/pack.rs\<close> (the identity parser of the frozen Go library, the required entries and
  the detection of the pack root), \<open>import/dispatch.rs\<close> (the choice of a format from the file
  name and the content) and \<open>import/studio.rs\<close> (the references of a Studio project).
\<close>

subsection \<open>Identities\<close>

datatype uuid_source = Uuid_text bytes | Plain_bytes bytes

record import_identity =
  id_raw :: uuid_source
  id_typed :: story_uuid

definition nibble :: "char \<Rightarrow> nat option" where
  "nibble c =
     (if byte_in 48 57 c then Some (of_char c - 48)
      else if byte_in 97 102 c then Some (of_char c - 97 + 10)
      else if byte_in 65 70 c then Some (of_char c - 65 + 10)
      else None)"

definition hex_pair :: "char \<Rightarrow> char \<Rightarrow> char option" where
  "hex_pair high low =
     Option.bind (nibble high) (\<lambda>h. Option.bind (nibble low) (\<lambda>l. Some (char_of (h * 16 + l))))"

fun collect_options :: "('a \<Rightarrow> 'b option) \<Rightarrow> 'a list \<Rightarrow> 'b list option" where
  "collect_options f [] = Some []"
| "collect_options f (x # xs) =
     (case f x of None \<Rightarrow> None | Some y \<Rightarrow> map_option (\<lambda>ys. y # ys) (collect_options f xs))"

definition identity_new :: "uuid_source \<Rightarrow> bytes \<Rightarrow> validation_error + import_identity" where
  "identity_new raw bytes =
     (if bytes = replicate 16 (CHR 0x00) then Inl (error_new InvalidUuid_code)
      else Inr \<lparr>id_raw = raw, id_typed = bytes\<rparr>)"

text \<open>The part of the text that is read, by its length; delimiters of the 38-byte form are not looked at.\<close>

definition uuid_text :: "bytes \<Rightarrow> bytes option" where
  "uuid_text raw =
     (if length raw = 32 \<or> length raw = 36 then Some raw
      else if length raw = 38 then Some (take 36 (drop 1 raw))
      else if length raw = 45 \<and> map ascii_lower (take 9 raw) = map ascii_lower ''urn:uuid:''
      then Some (drop 9 raw)
      else None)"

definition hyphen_positions :: "nat list" where
  "hyphen_positions = [8, 13, 18, 23]"

definition byte_positions :: "nat list" where
  "byte_positions = [0, 2, 4, 6, 9, 11, 14, 16, 19, 21, 24, 26, 28, 30, 32, 34]"

definition uuid_bytes :: "bytes \<Rightarrow> bytes option" where
  "uuid_bytes text =
     (if length text = 32
      then collect_options (\<lambda>i. hex_pair (text ! (2 * i)) (text ! (2 * i + 1))) [0..<16]
      else if list_ex (\<lambda>i. text ! i \<noteq> CHR ''-'') hyphen_positions then None
      else collect_options (\<lambda>p. hex_pair (text ! p) (text ! (p + 1))) byte_positions)"

definition parse_text :: "bytes \<Rightarrow> validation_error + import_identity" where
  "parse_text raw =
     and_then (ok_or (error_new InvalidUuid_code) (Option.bind (uuid_text raw) uuid_bytes))
       (identity_new (Uuid_text raw))"

definition from_plain_bytes :: "bytes \<Rightarrow> validation_error + import_identity" where
  "from_plain_bytes raw =
     (if length raw \<noteq> 16 then Inl (error_at InvalidUuid_code ''uuid.bin'')
      else map_err (\<lambda>_. error_at InvalidUuid_code ''uuid.bin'') (identity_new (Plain_bytes raw) raw))"

subsection \<open>Required entries and pack roots\<close>

fun require_files :: "inventory \<Rightarrow> string list \<Rightarrow> validation_error + unit" where
  "require_files i [] = Inr ()"
| "require_files i (name # names) =
     (if \<not> has_file i name then Inl (error_at MissingEntry name) else require_files i names)"

fun require_below :: "inventory \<Rightarrow> string list \<Rightarrow> validation_error + unit" where
  "require_below i [] = Inr ()"
| "require_below i (prefix # prefixes) =
     (if \<not> has_file_below i prefix then Inl (error_at MissingEntry (prefix @ ''/''))
      else require_below i prefixes)"

definition validate_plain_entries :: "inventory \<Rightarrow> validation_error + unit" where
  "validate_plain_entries i =
     and_then (require_files i [''uuid.bin'', ''ni'', ''li.plain'', ''ri.plain'', ''si.plain''])
       (\<lambda>_. require_below i [''rf'', ''sf''])"

record pack_root =
  root_raw_name :: string
  root_identity :: import_identity

text \<open>\<open>str::split_once\<close>: the text before and after the first separator.\<close>

definition split_once :: "'a \<Rightarrow> 'a list \<Rightarrow> ('a list \<times> 'a list) option" where
  "split_once sep xs =
     (case dropWhile (\<lambda>x. x \<noteq> sep) xs of
        [] \<Rightarrow> None
      | _ # rest \<Rightarrow> Some (takeWhile (\<lambda>x. x \<noteq> sep) xs, rest))"

definition root_step ::
    "(string, import_identity) btree_map \<Rightarrow> string \<Rightarrow> (string, import_identity) btree_map" where
  "root_step roots name =
     (case split_once (CHR ''/'') name of
        None \<Rightarrow> roots
      | Some (folder, _) \<Rightarrow>
          (case parse_text folder of Inl _ \<Rightarrow> roots | Inr identity \<Rightarrow> bt_insert folder identity roots))"

definition pack_roots :: "inventory \<Rightarrow> (string, import_identity) btree_map" where
  "pack_roots i = foldl root_step [] (file_names i)"

definition validate_uuid_root_entries :: "inventory \<Rightarrow> validation_error + pack_root" where
  "validate_uuid_root_entries i =
     (case pack_roots i of
        [] \<Rightarrow> Inl (error_new InvalidUuid_code)
      | (folder, identity) # others \<Rightarrow>
          if others \<noteq> [] then Inl (error_new AmbiguousStructure)
          else
            and_then (require_files i (map (\<lambda>leaf. folder @ ''/'' @ leaf) [''ni'', ''li'', ''ri'', ''si''])) (\<lambda>_.
            and_then (require_below i (map (\<lambda>leaf. folder @ ''/'' @ leaf) [''rf'', ''sf''])) (\<lambda>_.
              Inr \<lparr>root_raw_name = folder, root_identity = identity\<rparr>)))"

subsection \<open>Dispatch\<close>

datatype container_kind = Zip_container | SevenZip_container | Other_container

record content_facts =
  facts_container :: container_kind
  has_story_json :: bool
  has_uuid_bin :: bool

datatype pack_structure = Plain_structure | UuidRoot | Studio

datatype integrity_requirement = AllZipPayloads | SelectedSevenZipPayloads

record archive_plan =
  plan_format :: archive_format
  plan_structure :: pack_structure
  plan_integrity :: integrity_requirement

definition content_facts_of :: "inventory \<Rightarrow> container_kind \<Rightarrow> content_facts" where
  "content_facts_of i container =
     \<lparr>facts_container = container, has_story_json = has_file i ''story.json'',
      has_uuid_bin = has_file i ''uuid.bin''\<rparr>"

definition dispatch :: "bytes \<Rightarrow> content_facts \<Rightarrow> validation_error + archive_plan" where
  "dispatch filename facts =
     (let seven = suffix_matches filename ''.7z''; zip = suffix_matches filename ''.zip'' in
      if \<not> seven \<and> \<not> zip \<and> \<not> suffix_matches filename ''.pk''
      then Inl (error_new UnsupportedFormat)
      else if facts_container facts \<noteq> (if seven then SevenZip_container else Zip_container)
      then Inl (error_new InvalidContainer)
      else
        let integrity = (if seven then SelectedSevenZipPayloads else AllZipPayloads) in
        if has_story_json facts then
          if \<not> seven \<and> \<not> zip then Inl (error_new UnsupportedFormat)
          else Inr \<lparr>plan_format = (if seven then SevenZip else StudioZip),
                    plan_structure = Studio, plan_integrity = integrity\<rparr>
        else if \<not> seven \<and> (suffix_matches filename ''.plain.pk'' \<or> has_uuid_bin facts)
        then Inr \<lparr>plan_format = PlainPk, plan_structure = Plain_structure, plan_integrity = integrity\<rparr>
        else Inr \<lparr>plan_format =
               (if seven then SevenZip
                else if suffix_matches filename ''.v1.pk'' then V1Pk
                else if suffix_matches filename ''.v2.pk'' then V2Pk
                else if zip then Zip
                else GenericPk),
             plan_structure = UuidRoot, plan_integrity = integrity\<rparr>)"

subsection \<open>Studio references\<close>

record stage_references =
  stage_image :: string
  stage_audio :: string

text \<open>The two loops over nodes and their references, with the flag \<open>has_reference\<close>.\<close>

fun check_references ::
    "inventory \<Rightarrow> limits \<Rightarrow> bool \<Rightarrow> string list \<Rightarrow> validation_error + bool" where
  "check_references i l seen [] = Inr seen"
| "check_references i l seen (reference # rest) =
     (if reference = [] then check_references i l seen rest
      else and_then (map_err (\<lambda>cause. with_cause (Cause_inspection cause) (error_at UnsafePath reference))
             (validate_entry_name reference l)) (\<lambda>clean.
        if \<not> starts_with ''assets/'' clean then Inl (error_at UnsafePath reference)
        else if \<not> has_file i reference then Inl (error_at MissingAsset reference)
        else check_references i l True rest))"

definition node_references :: "stage_references list \<Rightarrow> string list" where
  "node_references nodes = concat (map (\<lambda>node. [stage_image node, stage_audio node]) nodes)"

definition validate_references ::
    "inventory \<Rightarrow> stage_references list \<Rightarrow> limits \<Rightarrow> validation_error + unit" where
  "validate_references i nodes l =
     and_then (check_references i l False (node_references nodes)) (\<lambda>has_reference.
       if \<not> has_reference then Inl (error_at MissingAsset ''stageNodes'') else Inr ())"

definition validate_studio_policy ::
    "inventory \<Rightarrow> string \<Rightarrow> stage_references list \<Rightarrow> limits \<Rightarrow> validation_error + import_identity" where
  "validate_studio_policy i raw_uuid nodes l =
     and_then (limits_validate l) (\<lambda>_.
     and_then (map_err (\<lambda>e. ValidationError (ve_code e) (Some ''story.json'') (ve_cause e))
       (parse_text raw_uuid)) (\<lambda>identity.
     and_then (validate_references i nodes l) (\<lambda>_.
       if \<not> has_file i ''thumbnail.png'' then Inl (error_at MissingEntry ''thumbnail.png'')
       else Inr identity)))"

subsection \<open>The accepted spellings of an identity\<close>

lemma nibble_to_digit16: "nibble c = to_digit16 c"
  by (auto simp: nibble_def to_digit16_def byte_in_def Let_def)

lemma to_digit16_Some_iff: "d < 16 \<Longrightarrow> to_digit16 c = Some d \<longleftrightarrow> ascii_lower c = hex_digit d"
  by (metis hex_digit_to_digit16 to_digit16_ascii_lower to_digit16_hex_digit)

lemma hex_pair_Some_iff:
  "hex_pair high low = Some b \<longleftrightarrow>
     ascii_lower high = hex_digit (of_char b div 16) \<and> ascii_lower low = hex_digit (of_char b mod 16)"
proof -
  have lt: "(of_char b :: nat) div 16 < 16" using less_mult_imp_div_less[of "of_char b" 16 16] by simp
  have "hex_pair high low = Some b \<longleftrightarrow>
      nibble high = Some (of_char b div 16) \<and> nibble low = Some (of_char b mod 16)"
  proof
    assume "hex_pair high low = Some b"
    then obtain h l where hl: "nibble high = Some h" "nibble low = Some l" "b = char_of (h * 16 + l)"
      by (auto simp: hex_pair_def bind_eq_Some_conv)
    then have "h < 16" "l < 16" by (simp_all add: nibble_to_digit16 to_digit16_lt)
    then have "(of_char b :: nat) = h * 16 + l" unfolding hl(3) by simp
    with hl \<open>l < 16\<close> show "nibble high = Some (of_char b div 16) \<and> nibble low = Some (of_char b mod 16)"
      by simp
  qed (simp add: hex_pair_def)
  with lt show ?thesis by (simp add: nibble_to_digit16 to_digit16_Some_iff)
qed

lemma collect_options_Some_iff:
  "collect_options f xs = Some ys \<longleftrightarrow> list_all2 (\<lambda>x y. f x = Some y) xs ys"
  by (induction xs arbitrary: ys) (auto simp: list_all2_Cons1 split: option.splits)

text \<open>The canonical text of 16 bytes, and the same with its four hyphens.\<close>

definition hyphenated :: "bytes \<Rightarrow> string" where
  "hyphenated bs =
     checksum_display (take 4 bs) @ ''-'' @ checksum_display (take 2 (drop 4 bs)) @ ''-''
     @ checksum_display (take 2 (drop 6 bs)) @ ''-'' @ checksum_display (take 2 (drop 8 bs)) @ ''-''
     @ checksum_display (drop 10 bs)"

lemma ascii_lower_hyphen: "ascii_lower c = CHR ''-'' \<longleftrightarrow> c = CHR ''-''"
proof
  assume "ascii_lower c = CHR ''-''"
  then have "(of_char (ascii_lower c) :: nat) = 45" by simp
  then have "(of_char c :: nat) = 45"
    by (auto simp: ascii_defs split: if_splits)
  moreover have "CHR ''-'' = char_of (45 :: nat)" by code_simp
  ultimately show "c = CHR ''-''" by (metis char_of_char)
qed (simp add: ascii_defs)

lemma list_of_length_16:
  assumes "length bs = 16"
  obtains a0 a1 a2 a3 a4 a5 a6 a7 a8 a9 a10 a11 a12 a13 a14 a15
  where "bs = [a0, a1, a2, a3, a4, a5, a6, a7, a8, a9, a10, a11, a12, a13, a14, a15]"
  using assms by (auto simp: length_Suc_conv eval_nat_numeral)

lemma length_hyphenated: "length bs = 16 \<Longrightarrow> length (hyphenated bs) = 36"
  by (simp add: hyphenated_def length_checksum_display)

lemma collect_options_map: "collect_options f (map g xs) = collect_options (\<lambda>x. f (g x)) xs"
  by (induction xs) (auto split: option.splits)

lemma pairs_display:
  "length t = 2 * n \<Longrightarrow>
   collect_options (\<lambda>i. hex_pair (t ! (2 * i)) (t ! (2 * i + 1))) [0..<n] = Some bs \<longleftrightarrow>
     length bs = n \<and> map ascii_lower t = checksum_display bs"
proof (induction n arbitrary: t bs)
  case 0
  then show ?case by (auto simp: checksum_display_def)
next
  case (Suc n)
  then obtain h l rest where t: "t = h # l # rest" "length rest = 2 * n"
    by (auto simp: length_Suc_conv)
  have upt: "[0..<Suc n] = 0 # map Suc [0..<n]"
    by (simp add: map_Suc_upt upt_conv_Cons del: upt_Suc)
  show ?case
  proof (cases bs)
    case Nil
    then show ?thesis
      unfolding upt by (auto simp: t collect_options_map split: option.splits)
  next
    case (Cons b bs')
    have "collect_options (\<lambda>i. hex_pair (t ! (2 * i)) (t ! (2 * i + 1))) [0..<Suc n] = Some bs \<longleftrightarrow>
        hex_pair h l = Some b
        \<and> collect_options (\<lambda>i. hex_pair (rest ! (2 * i)) (rest ! (2 * i + 1))) [0..<n] = Some bs'"
      unfolding upt by (auto simp: t Cons collect_options_map split: option.splits)
    also have "\<dots> \<longleftrightarrow> length bs = Suc n \<and> map ascii_lower t = checksum_display bs"
      unfolding Suc.IH[OF t(2)] hex_pair_Some_iff
      by (auto simp: t Cons checksum_display_Cons)
    finally show ?thesis .
  qed
qed

lemma uuid_bytes_hyphens:
  "length t = 36 \<Longrightarrow> uuid_bytes t = Some bs \<longleftrightarrow>
     list_all (\<lambda>i. ascii_lower (t ! i) = CHR ''-'') hyphen_positions
     \<and> list_all2 (\<lambda>p b. ascii_lower (t ! p) = hex_digit (of_char b div 16)
          \<and> ascii_lower (t ! (p + 1)) = hex_digit (of_char b mod 16)) byte_positions bs"
  by (auto simp: uuid_bytes_def collect_options_Some_iff hex_pair_Some_iff ascii_lower_hyphen
      list_all_iff list_ex_iff)

lemma uuid_bytes_36:
  assumes "length t = 36"
  shows "uuid_bytes t = Some bs \<longleftrightarrow> length bs = 16 \<and> map ascii_lower t = hyphenated bs"
proof (cases "length bs = 16")
  case True
  have upt: "[0..<36] = [0, 1, 2, 3, 4, 5, 6, 7, 8, 9, 10, 11, 12, 13, 14, 15, 16, 17, 18, 19, 20,
      21, 22, 23, 24, 25, 26, 27, 28, 29, 30, 31, 32, 33, 34, 35 :: nat]" by code_simp
  have chars: "map ascii_lower t = map (\<lambda>i. ascii_lower (t ! i)) [0..<36]"
    using assms by (simp add: list_eq_iff_nth_eq)
  obtain a0 a1 a2 a3 a4 a5 a6 a7 a8 a9 a10 a11 a12 a13 a14 a15
    where bs: "bs = [a0, a1, a2, a3, a4, a5, a6, a7, a8, a9, a10, a11, a12, a13, a14, a15]"
    using list_of_length_16[OF True] .
  show ?thesis
    unfolding uuid_bytes_hyphens[OF assms] chars upt
    by (simp add: bs hyphen_positions_def byte_positions_def hyphenated_def checksum_display_def)
      (intro iffI conjI; elim conjE; assumption)
next
  case False
  then show ?thesis
    unfolding uuid_bytes_hyphens[OF assms]
    by (auto simp: byte_positions_def dest!: list_all2_lengthD)
qed

lemma uuid_bytes_32:
  assumes "length t = 32"
  shows "uuid_bytes t = Some bs \<longleftrightarrow> length bs = 16 \<and> map ascii_lower t = checksum_display bs"
  using pairs_display[of t 16 bs] assms by (simp add: uuid_bytes_def)

text \<open>The texts that stand for an identity: plain digits, hyphenated, delimited by any two bytes,
  or with the URN prefix, all in either case.\<close>

definition spells_uuid :: "bytes \<Rightarrow> bytes \<Rightarrow> bool" where
  "spells_uuid raw bs \<longleftrightarrow>
     map ascii_lower raw = checksum_display bs
     \<or> map ascii_lower raw = hyphenated bs
     \<or> (\<exists>x y text. raw = x # text @ [y] \<and> map ascii_lower text = hyphenated bs)
     \<or> map ascii_lower raw = ''urn:uuid:'' @ hyphenated bs"

lemma spelling_length:
  assumes "length bs = 16"
  shows "map ascii_lower r = checksum_display bs \<Longrightarrow> length r = 32"
    and "map ascii_lower r = hyphenated bs \<Longrightarrow> length r = 36"
    and "map ascii_lower r = ''urn:uuid:'' @ hyphenated bs \<Longrightarrow> length r = 45"
  using assms by (auto dest: arg_cong[where f = length] simp: length_checksum_display length_hyphenated)

lemma by_length:
  "(p \<Longrightarrow> n = 32) \<Longrightarrow> (q \<Longrightarrow> n = 36) \<Longrightarrow> (r \<Longrightarrow> n = 38) \<Longrightarrow> (s \<Longrightarrow> n = 45) \<Longrightarrow>
   (p \<or> q \<or> r \<or> s) \<longleftrightarrow> (if n = 32 then p else if n = 36 then q else if n = 38 then r else n = 45 \<and> s)"
  for n :: nat
  by auto

lemma spells_uuid_by_length:
  assumes "length bs = 16"
  shows "spells_uuid raw bs \<longleftrightarrow>
      (if length raw = 32 then map ascii_lower raw = checksum_display bs
       else if length raw = 36 then map ascii_lower raw = hyphenated bs
       else if length raw = 38 then \<exists>x y t. raw = x # t @ [y] \<and> map ascii_lower t = hyphenated bs
       else length raw = 45 \<and> map ascii_lower raw = ''urn:uuid:'' @ hyphenated bs)"
proof -
  have "length raw = 38" if "raw = x # t @ [y]" "map ascii_lower t = hyphenated bs" for x y t
    using spelling_length(2)[OF assms that(2)] that(1) by simp
  moreover define d where "d \<longleftrightarrow> (\<exists>x y t. raw = x # t @ [y] \<and> map ascii_lower t = hyphenated bs)"
  ultimately have "d \<Longrightarrow> length raw = 38" by blast
  then show ?thesis
    using spelling_length[OF assms, of raw] unfolding spells_uuid_def d_def[symmetric]
    by (intro by_length)
qed

lemma spells_uuid_length:
  "length bs = 16 \<Longrightarrow> spells_uuid raw bs \<Longrightarrow> length raw \<in> {32, 36, 38, 45}"
  by (simp add: spells_uuid_by_length split: if_splits)

lemma delimited_middle:
  assumes "length raw = 38"
  shows "(\<exists>x y t. raw = x # t @ [y] \<and> P t) \<longleftrightarrow> P (take 36 (drop 1 raw))"
proof -
  obtain x rest where "raw = x # rest" "length rest = 37"
    using assms by (auto simp: length_Suc_conv eval_nat_numeral)
  moreover then obtain t y where "rest = t @ [y]" "length t = 36"
    by (cases rest rule: rev_cases) auto
  ultimately show ?thesis by auto
qed

lemma lower_urn: "map ascii_lower ''urn:uuid:'' = ''urn:uuid:''"
  by code_simp

lemma uuid_text_bytes:
  "Option.bind (uuid_text raw) uuid_bytes = Some bs \<longleftrightarrow> length bs = 16 \<and> spells_uuid raw bs"
proof (cases "length raw \<in> {32, 36, 38, 45}")
  case True
  then consider (a) "length raw = 32" | (b) "length raw = 36" | (c) "length raw = 38" | (d) "length raw = 45"
    by blast
  then show ?thesis
  proof cases
    case a
    then show ?thesis by (auto simp: uuid_text_def uuid_bytes_32 spells_uuid_by_length)
  next
    case b
    then show ?thesis by (auto simp: uuid_text_def uuid_bytes_36 spells_uuid_by_length)
  next
    case c
    then show ?thesis
      by (auto simp: uuid_text_def uuid_bytes_36 spells_uuid_by_length
          delimited_middle[where P = "\<lambda>t. map ascii_lower t = hyphenated bs"])
  next
    case d
    define u where "u = ''urn:uuid:''"
    have u: "length u = 9" "map ascii_lower u = u" using lower_urn by (simp_all only: u_def) simp
    have split: "map ascii_lower raw = map ascii_lower (take 9 raw) @ map ascii_lower (drop 9 raw)"
      by (metis append_take_drop_id map_append)
    have "map ascii_lower raw = u @ hyphenated bs \<longleftrightarrow>
        map ascii_lower (take 9 raw) = u \<and> map ascii_lower (drop 9 raw) = hyphenated bs"
      unfolding split by (rule append_eq_append_conv) (use d u in simp)
    with d u show ?thesis
      unfolding uuid_text_def u_def[symmetric]
      by (auto simp: uuid_bytes_36 spells_uuid_by_length u_def[symmetric])
  qed
next
  case False
  then show ?thesis using spells_uuid_length[of bs raw] by (auto simp: uuid_text_def)
qed

text \<open>A text is accepted as a pack identity exactly when it is one of the four spellings of 16
  bytes that are not all zero; the identity carries those bytes and keeps the text as given.\<close>

theorem parse_text_correct:
  "parse_text raw = Inr i \<longleftrightarrow>
     id_raw i = Uuid_text raw \<and> length (id_typed i) = 16
     \<and> id_typed i \<noteq> replicate 16 (CHR 0x00) \<and> spells_uuid raw (id_typed i)"
proof -
  have "parse_text raw = Inr i \<longleftrightarrow>
      (\<exists>bs. Option.bind (uuid_text raw) uuid_bytes = Some bs \<and> identity_new (Uuid_text raw) bs = Inr i)"
    by (simp add: parse_text_def result_iffs)
  also have "\<dots> \<longleftrightarrow> (\<exists>bs. length bs = 16 \<and> spells_uuid raw bs \<and> identity_new (Uuid_text raw) bs = Inr i)"
    by (simp only: uuid_text_bytes conj_assoc)
  finally show ?thesis
    by (cases i) (auto simp: identity_new_def)
qed

subsection \<open>Required entries and roots\<close>

lemma require_files_Ok_iff: "require_files i names = Inr u \<longleftrightarrow> list_all (has_file i) names"
  by (induction names) auto

lemma require_below_Ok_iff: "require_below i prefixes = Inr u \<longleftrightarrow> list_all (has_file_below i) prefixes"
  by (induction prefixes) auto

text \<open>The pack identities spelled by the top-level folders of the regular files.\<close>

definition is_root :: "inventory \<Rightarrow> string \<Rightarrow> import_identity \<Rightarrow> bool" where
  "is_root i folder identity \<longleftrightarrow>
     list_ex (\<lambda>name. map_option fst (split_once (CHR ''/'') name) = Some folder) (file_names i)
     \<and> parse_text folder = Inr identity"

lemma root_step_get:
  assumes "bt_inv m"
  shows "bt_inv (root_step m name)"
    and "bt_get (root_step m name) folder = Some identity \<longleftrightarrow>
      map_option fst (split_once (CHR ''/'') name) = Some folder \<and> parse_text folder = Inr identity
      \<or> bt_get m folder = Some identity
        \<and> \<not> (map_option fst (split_once (CHR ''/'') name) = Some folder \<and> (\<exists>j. parse_text folder = Inr j))"
  using assms by (auto simp: root_step_def btm.inv_put btm.get_put split: option.splits sum.splits)

lemma pack_roots_get:
  "bt_inv (pack_roots i) \<and> (bt_get (pack_roots i) folder = Some identity \<longleftrightarrow> is_root i folder identity)"
proof -
  have "bt_inv (foldl root_step [] names) \<and>
      (bt_get (foldl root_step [] names) folder = Some identity \<longleftrightarrow>
        list_ex (\<lambda>name. map_option fst (split_once (CHR ''/'') name) = Some folder) names
        \<and> parse_text folder = Inr identity)" for names
  proof (induction names rule: rev_induct)
    case Nil
    then show ?case by (simp add: btm.inv_empty)
  next
    case (snoc name names)
    then show ?case using root_step_get(1)[of "foldl root_step [] names" name]
        root_step_get(2)[of "foldl root_step [] names" name folder identity] by auto
  qed
  then show ?thesis by (simp add: pack_roots_def is_root_def)
qed

lemma distinct_singleton_set: "distinct xs \<Longrightarrow> set xs = {x} \<Longrightarrow> xs = [x]"
  by (cases xs; cases "tl xs") auto

lemma pack_roots_singleton:
  "pack_roots i = [(folder, identity)] \<longleftrightarrow>
     (\<forall>f j. is_root i f j \<longleftrightarrow> f = folder \<and> j = identity)"
proof
  assume single: "pack_roots i = [(folder, identity)]"
  show "\<forall>f j. is_root i f j \<longleftrightarrow> f = folder \<and> j = identity"
  proof (intro allI)
    fix f j
    show "is_root i f j \<longleftrightarrow> f = folder \<and> j = identity"
      using pack_roots_get[of i f j] unfolding single by (auto split: if_splits)
  qed
next
  assume only: "\<forall>f j. is_root i f j \<longleftrightarrow> f = folder \<and> j = identity"
  have inv: "bt_inv (pack_roots i)" using pack_roots_get by blast
  have "set (pack_roots i) = {(folder, identity)}"
    using btm.entries_set[OF inv] pack_roots_get[of i] only by auto
  moreover have "distinct (pack_roots i)"
    using btm.entries_distinct[OF inv] by (simp add: distinct_map)
  ultimately show "pack_roots i = [(folder, identity)]"
    using distinct_singleton_set by metis
qed

text \<open>A pack root is found exactly when one top-level folder alone spells an identity and the
  four index files and the two asset folders lie below it; the root keeps the folder's own
  spelling.\<close>

theorem uuid_root_correct:
  "validate_uuid_root_entries i = Inr r \<longleftrightarrow>
     (\<forall>f j. is_root i f j \<longleftrightarrow> f = root_raw_name r \<and> j = root_identity r)
     \<and> list_all (\<lambda>leaf. has_file i (root_raw_name r @ ''/'' @ leaf)) [''ni'', ''li'', ''ri'', ''si'']
     \<and> list_all (\<lambda>leaf. has_file_below i (root_raw_name r @ ''/'' @ leaf)) [''rf'', ''sf'']"
proof -
  have "validate_uuid_root_entries i = Inr r \<longleftrightarrow>
      pack_roots i = [(root_raw_name r, root_identity r)]
      \<and> list_all (\<lambda>leaf. has_file i (root_raw_name r @ ''/'' @ leaf)) [''ni'', ''li'', ''ri'', ''si'']
      \<and> list_all (\<lambda>leaf. has_file_below i (root_raw_name r @ ''/'' @ leaf)) [''rf'', ''sf'']"
    by (cases r) (auto simp: validate_uuid_root_entries_def result_iffs require_files_Ok_iff
        require_below_Ok_iff split: list.splits)
  then show ?thesis by (simp only: pack_roots_singleton)
qed

subsection \<open>Dispatch\<close>

lemma suffix_last:
  "suffix_loop (e # es) name \<Longrightarrow>
   ascii_lower (last name) = e \<or> e = CHR ''i'' \<and> last name = CHR 0xB0 \<or> e = CHR ''k'' \<and> last name = CHR 0xAA"
  by (auto simp: ends_with_iff split: if_splits)

lemma suffixes_exclusive:
  "suffix_matches name ''.7z'' \<Longrightarrow> \<not> suffix_matches name ''.zip'' \<and> \<not> suffix_matches name ''.pk''"
  using suffix_last[of "CHR ''z''" "''7.''" name] suffix_last[of "CHR ''p''" "''iz.''" name]
    suffix_last[of "CHR ''k''" "''p.''" name]
  by (auto simp: suffix_matches_def ascii_lower_high simp del: suffix_loop.simps)

text \<open>Dispatch is consistent: a plan is given only for a known suffix over the container that
  the suffix announces; it is a Studio plan exactly when the archive holds a story document,
  never for a pack suffix; 7z archives verify the selected payloads and all others every
  payload; and the plain format and the plain structure go together.\<close>

theorem dispatch_consistent:
  assumes "dispatch name facts = Inr plan"
  shows "(facts_container facts = SevenZip_container \<longleftrightarrow> suffix_matches name ''.7z'')
    \<and> (facts_container facts = Zip_container \<longleftrightarrow>
        \<not> suffix_matches name ''.7z'' \<and> (suffix_matches name ''.zip'' \<or> suffix_matches name ''.pk''))
    \<and> (plan_structure plan = Studio \<longleftrightarrow> has_story_json facts)
    \<and> (plan_format plan = StudioZip \<longleftrightarrow> has_story_json facts \<and> suffix_matches name ''.zip'' \<and> \<not> suffix_matches name ''.7z'')
    \<and> (plan_integrity plan = SelectedSevenZipPayloads \<longleftrightarrow> plan_format plan = SevenZip)
    \<and> (plan_format plan = SevenZip \<longleftrightarrow> facts_container facts = SevenZip_container)
    \<and> (plan_format plan = PlainPk \<longleftrightarrow> plan_structure plan = Plain_structure)"
  using assms by (auto simp: dispatch_def Let_def split: if_splits)

theorem dispatch_consistent_witness:
  "\<exists>plan. dispatch ''A.V2.PK'' \<lparr>facts_container = Zip_container, has_story_json = False, has_uuid_bin = False\<rparr>
      = Inr plan \<and> plan_integrity plan = AllZipPayloads"
proof -
  let ?f = "\<lparr>facts_container = Zip_container, has_story_json = False, has_uuid_bin = False\<rparr>"
  have "dispatch ''A.V2.PK'' ?f =
      Inr \<lparr>plan_format = V2Pk, plan_structure = UuidRoot, plan_integrity = AllZipPayloads\<rparr>"
    by code_simp
  from dispatch_consistent[OF this] this show ?thesis by auto
qed

subsection \<open>Studio references\<close>

definition good_reference :: "inventory \<Rightarrow> limits \<Rightarrow> string \<Rightarrow> bool" where
  "good_reference i l reference \<longleftrightarrow>
     (\<exists>clean. validate_entry_name reference l = Inr clean \<and> starts_with ''assets/'' clean)
     \<and> has_file i reference"

lemma check_references_Ok_iff:
  "check_references i l seen refs = Inr b \<longleftrightarrow>
     list_all (\<lambda>r. r = [] \<or> good_reference i l r) refs \<and> b = (seen \<or> list_ex (\<lambda>r. r \<noteq> []) refs)"
  by (induction i l seen refs rule: check_references.induct)
    (auto simp: result_iffs good_reference_def split: if_splits)

text \<open>A Studio project is accepted exactly when the limits are valid, its identity parses, at
  least one node refers to an asset, every reference that is present is a safe name below the
  assets folder and is itself a regular file of the archive, and the thumbnail is present; the
  identity returned is the parsed one.\<close>

theorem studio_policy_correct:
  "validate_studio_policy i raw_uuid nodes l = Inr identity \<longleftrightarrow>
     limits_ok l \<and> parse_text raw_uuid = Inr identity
     \<and> list_all (\<lambda>r. r = [] \<or> good_reference i l r) (node_references nodes)
     \<and> list_ex (\<lambda>r. r \<noteq> []) (node_references nodes)
     \<and> has_file i ''thumbnail.png''"
  by (auto simp: validate_studio_policy_def validate_references_def result_iffs check_references_Ok_iff)

end
