(* ===== verification/Json_Strings.thy ===== *)
theory Json_Strings
  imports Utf8
begin

section \<open>JSON strings\<close>

text \<open>
  \<open>import/studio_json/strings.rs\<close>: the four hexadecimal digits of an escape, the decoding of
  one character with replacement, unquoting and the folded match of a member name; and
  \<open>text.rs\<close>. The loop of \<open>unquote\<close> runs over the suffix \<open>input[pos..]\<close>; a read past the end,
  which panics in the code, is \<open>None\<close>, and \<open>unquote_total\<close> shows that no token which the
  scanner accepts reaches it.
\<close>

definition replacement :: nat where
  "replacement = 0xFFFD"

definition hex_value :: "char \<Rightarrow> nat option" where
  "hex_value c =
     (if byte_in 48 57 c then Some (of_char c - 48)
      else if byte_in 97 102 c then Some (of_char c - 97 + 10)
      else if byte_in 65 70 c then Some (of_char c - 65 + 10)
      else None)"

text \<open>Four digits of four bits fill a \<open>u16\<close> exactly: the shifts cannot lose a bit.\<close>

fun hex_fold :: "nat \<Rightarrow> string \<Rightarrow> nat option" where
  "hex_fold v [] = Some v"
| "hex_fold v (c # cs) = (case hex_value c of None \<Rightarrow> None | Some d \<Rightarrow> hex_fold (v * 16 + d) cs)"

definition hex4 :: "string \<Rightarrow> nat option" where
  "hex4 input = (if length input < 4 then None else hex_fold 0 (take 4 input))"

text \<open>\<open>rune\<close>, on a nonempty input: an invalid or incomplete sequence consumes one byte.\<close>

definition rune :: "string \<Rightarrow> nat \<times> nat" where
  "rune input =
     (let first = of_char (input ! 0) in
      if first < 0x80 then (first, 1)
      else case lead_info first of
          None \<Rightarrow> (replacement, 1)
        | Some (width, minimum, maximum) \<Rightarrow>
            if length input < width \<or> \<not> byte_in minimum maximum (input ! 1)
               \<or> list_ex (\<lambda>b. \<not> byte_in 0x80 0xBF b) (take (width - 2) (drop 2 input))
            then (replacement, 1)
            else let v = sequence_value width first (take (width - 1) (drop 1 input))
              in (if is_scalar v then v else replacement, width))"

definition unescape :: "char \<Rightarrow> nat" where
  "unescape c =
     (if c = CHR ''b'' then 0x08 else if c = CHR ''f'' then 0x0C else if c = CHR ''n'' then 0x0A
      else if c = CHR ''r'' then 0x0D else if c = CHR ''t'' then 0x09 else of_char c)"

text \<open>The scalar of an escape \<open>\u\<close> and how many bytes after its digits a low surrogate takes.\<close>

definition escaped_scalar :: "nat \<Rightarrow> string \<Rightarrow> nat \<times> nat" where
  "escaped_scalar high after =
     (if 0xD800 \<le> high \<and> high \<le> 0xDFFF then
        (if high \<le> 0xDBFF \<and> starts_with [CHR 0x5C, CHR ''u''] after then
           (case hex4 (drop 2 after) of
              None \<Rightarrow> (replacement, 0)
            | Some low \<Rightarrow>
                if 0xDC00 \<le> low \<and> low \<le> 0xDFFF
                then (0x10000 + (high - 0xD800) * 1024 + low - 0xDC00, 6)
                else (replacement, 0))
         else (replacement, 0))
      else (high, 0))"

definition char_or_replacement :: "nat \<Rightarrow> nat" where
  "char_or_replacement v = (if is_scalar v then v else replacement)"

lemma rune_width: "input \<noteq> [] \<Longrightarrow> 1 \<le> snd (rune input) \<and> snd (rune input) \<le> length input"
  by (cases input)
    (auto simp: rune_def lead_info_def Let_def not_less Suc_le_eq split: option.splits if_splits)

function unquote_chars :: "string \<Rightarrow> nat list option" where
  "unquote_chars input =
     (case input of
        [] \<Rightarrow> Some []
      | b # rest \<Rightarrow>
          if b \<noteq> CHR 0x5C then
            map_option (\<lambda>cs. fst (rune input) # cs) (unquote_chars (drop (snd (rune input)) input))
          else
            (case rest of
               [] \<Rightarrow> None
             | escape # after \<Rightarrow>
                 if escape \<noteq> CHR ''u''
                 then map_option (\<lambda>cs. unescape escape # cs) (unquote_chars after)
                 else
                   let high = (case hex4 after of Some v \<Rightarrow> v | None \<Rightarrow> 0xFFFD);
                       (scalar, skipped) = escaped_scalar high (drop 4 after)
                   in map_option (\<lambda>cs. char_or_replacement scalar # cs)
                        (unquote_chars (drop skipped (drop 4 after)))))"
  by pat_completeness auto
termination
proof (relation "measure length", goal_cases)
  case (2 input b rest)
  then show ?case using rune_width[of input] by simp
qed auto

declare unquote_chars.simps [simp del]

text \<open>The characters of a complete quoted token; a token shorter than its quotes panics.\<close>

definition unquote_checked :: "string \<Rightarrow> nat list option" where
  "unquote_checked token =
     (if length token < 2 then None else unquote_chars (take (length token - 2) (drop 1 token)))"

definition unquote :: "string \<Rightarrow> string" where
  "unquote token = (case unquote_checked token of None \<Rightarrow> [] | Some cs \<Rightarrow> str_of_chars cs)"

subsection \<open>Member names\<close>

definition fold_char :: "nat \<Rightarrow> nat" where
  "fold_char ch =
     (if ch = 0x17F then of_char (CHR ''s'')
      else if ch < 128 then of_char (ascii_lower (char_of ch)) else ch)"

fun folds_to :: "string \<Rightarrow> nat list \<Rightarrow> bool" where
  "folds_to [] chars = (chars = [])"
| "folds_to (b # bs) [] = False"
| "folds_to (b # bs) (ch # chars) = (fold_char ch = of_char (ascii_lower b) \<and> folds_to bs chars)"

fun position :: "('a \<Rightarrow> bool) \<Rightarrow> 'a list \<Rightarrow> nat option" where
  "position p [] = None"
| "position p (x # xs) = (if p x then Some 0 else map_option Suc (position p xs))"

definition field :: "string \<Rightarrow> string list \<Rightarrow> nat option" where
  "field key names =
     (case position (\<lambda>name. name = key) names of
        Some i \<Rightarrow> Some i
      | None \<Rightarrow> position (\<lambda>name. folds_to name (str_chars key)) names)"

subsection \<open>Metadata text\<close>

record metadata_text =
  text_title :: string
  text_description :: string

definition text_is_space :: "nat \<Rightarrow> bool" where
  "text_is_space ch \<longleftrightarrow>
     (0x9 \<le> ch \<and> ch \<le> 0xD) \<or> ch = 0x20 \<or> ch = 0x85 \<or> ch = 0xA0 \<or> ch = 0x1680
     \<or> (0x2000 \<le> ch \<and> ch \<le> 0x200A) \<or> ch = 0x2028 \<or> ch = 0x2029 \<or> ch = 0x202F \<or> ch = 0x205F
     \<or> ch = 0x3000"

definition text_trim_space :: "string \<Rightarrow> string" where
  "text_trim_space v = str_of_chars (trim_chars text_is_space (str_chars v))"

definition metadata_from_fields :: "string \<Rightarrow> string \<Rightarrow> metadata_text" where
  "metadata_from_fields title description =
     \<lparr>text_title = text_trim_space title, text_description = text_trim_space description\<rparr>"

end
