(* ===== verification/Json_Scanner.thy ===== *)
theory Json_Scanner
  imports Json_Strings
begin

section \<open>The JSON scanner\<close>

text \<open>
  \<open>import/studio_json/scanner.rs\<close>: white space, the end of a string and of a number, the
  value scanner with its explicit bounded stack of frames, and the cursor over the contents of
  a container that was already scanned. Positions are indices into the whole input, as in the
  code; every loop carries its termination proof.
\<close>

datatype decode_failure = Syntax_failure nat | Type_failure string | Trailing_failure nat

definition max_depth :: usize where
  "max_depth = 10000"

datatype kind = Object_kind | Array_kind | String_kind | Null_kind | Other_kind

record span =
  span_raw :: string
  span_kind :: kind

datatype frame =
  ArrayFirst | ArrayNext | ArrayAfter | ObjectFirst | ObjectKey | ObjectColon | ObjectAfter

definition is_json_space :: "char \<Rightarrow> bool" where
  "is_json_space b \<longleftrightarrow> b = CHR '' '' \<or> b = CHR 0x09 \<or> b = CHR 0x0D \<or> b = CHR 0x0A"

function skip_while :: "(char \<Rightarrow> bool) \<Rightarrow> string \<Rightarrow> nat \<Rightarrow> nat" where
  "skip_while p input pos =
     (case get_at input pos of
        None \<Rightarrow> pos
      | Some b \<Rightarrow> if p b then skip_while p input (Suc pos) else pos)"
  by pat_completeness auto
termination
  by (relation "measure (\<lambda>(p, input, pos). length input - pos)") (auto simp: get_at_Some_iff)

declare skip_while.simps [simp del]

definition whitespace :: "string \<Rightarrow> nat \<Rightarrow> nat" where
  "whitespace input pos = skip_while is_json_space input pos"

definition syntax_at :: "nat \<Rightarrow> decode_failure" where
  "syntax_at offset = Syntax_failure offset"

subsection \<open>Strings\<close>

fun hex_digits_end :: "nat \<Rightarrow> string \<Rightarrow> nat \<Rightarrow> decode_failure + nat" where
  "hex_digits_end 0 input pos = Inr pos"
| "hex_digits_end (Suc n) input pos =
     (case get_at input pos of
        None \<Rightarrow> Inl (syntax_at pos)
      | Some b \<Rightarrow> if is_ascii_hexdigit b then hex_digits_end n input (Suc pos) else Inl (syntax_at pos))"

definition is_simple_escape :: "char \<Rightarrow> bool" where
  "is_simple_escape c \<longleftrightarrow> c \<in> set [CHR 0x22, CHR 0x5C, CHR ''/'', CHR ''b'', CHR ''f'', CHR ''n'', CHR ''r'', CHR ''t'']"

definition escape_end :: "string \<Rightarrow> nat \<Rightarrow> decode_failure + nat" where
  "escape_end input pos =
     (case get_at input pos of
        None \<Rightarrow> Inl (syntax_at pos)
      | Some escape \<Rightarrow>
          if is_simple_escape escape then Inr (Suc pos)
          else if escape = CHR ''u'' then hex_digits_end 4 input (Suc pos)
          else Inl (syntax_at pos))"

lemma hex_digits_end_pos: "hex_digits_end n input pos = Inr e \<Longrightarrow> e = pos + n"
  by (induction n input pos rule: hex_digits_end.induct) (auto split: option.splits if_splits)

lemma escape_end_pos: "escape_end input pos = Inr e \<Longrightarrow> pos < e"
  by (auto simp: escape_end_def dest: hex_digits_end_pos split: option.splits if_splits)

function string_loop :: "string \<Rightarrow> nat \<Rightarrow> decode_failure + nat" where
  "string_loop input pos =
     (case get_at input pos of
        None \<Rightarrow> Inl (syntax_at pos)
      | Some b \<Rightarrow>
          if b = CHR 0x22 then Inr (Suc pos)
          else if b = CHR 0x5C then
            (case escape_end input (Suc pos) of Inl e \<Rightarrow> Inl e | Inr pos' \<Rightarrow> string_loop input pos')
          else if of_char b \<le> (0x1F :: nat) then Inl (syntax_at pos)
          else string_loop input (Suc pos))"
  by pat_completeness auto
termination
  by (relation "measure (\<lambda>(input, pos). length input - pos)")
    (auto simp: get_at_Some_iff dest!: escape_end_pos)

declare string_loop.simps [simp del]

definition string_end :: "string \<Rightarrow> nat \<Rightarrow> decode_failure + nat" where
  "string_end input start =
     (if get_at input start \<noteq> Some (CHR 0x22) then Inl (syntax_at start)
      else string_loop input (start + 1))"

subsection \<open>Numbers\<close>

text \<open>One or more digits from a position on, as after the point and the exponent sign.\<close>

definition digits_end :: "string \<Rightarrow> nat \<Rightarrow> decode_failure + nat" where
  "digits_end input first =
     (let pos = skip_while is_ascii_digit input first in
      if pos = first then Inl (syntax_at pos) else Inr pos)"

definition integer_end :: "string \<Rightarrow> nat \<Rightarrow> decode_failure + nat" where
  "integer_end input pos =
     (case get_at input pos of
        None \<Rightarrow> Inl (syntax_at pos)
      | Some d \<Rightarrow>
          if d = CHR ''0'' then Inr (pos + 1)
          else if byte_in 49 57 d then Inr (skip_while is_ascii_digit input (pos + 1))
          else Inl (syntax_at pos))"

definition fraction_end :: "string \<Rightarrow> nat \<Rightarrow> decode_failure + nat" where
  "fraction_end input pos =
     (if get_at input pos = Some (CHR ''.'') then digits_end input (pos + 1) else Inr pos)"

definition exponent_end :: "string \<Rightarrow> nat \<Rightarrow> decode_failure + nat" where
  "exponent_end input pos =
     (if get_at input pos = Some (CHR ''e'') \<or> get_at input pos = Some (CHR ''E'') then
        let pos = pos + 1;
            first = (if get_at input pos = Some (CHR ''+'') \<or> get_at input pos = Some (CHR ''-'')
                     then pos + 1 else pos)
        in digits_end input first
      else Inr pos)"

definition number_end :: "string \<Rightarrow> nat \<Rightarrow> decode_failure + nat" where
  "number_end input start =
     (let pos = (if get_at input start = Some (CHR ''-'') then start + 1 else start) in
      and_then (integer_end input pos) (\<lambda>pos.
      and_then (fraction_end input pos) (\<lambda>pos. exponent_end input pos)))"

subsection \<open>Values\<close>

record scan_state =
  scan_pos :: nat
  scan_frames :: "frame list"
  need_value :: bool

definition value_kind :: "string \<Rightarrow> nat \<Rightarrow> kind" where
  "value_kind input start =
     (case get_at input start of
        None \<Rightarrow> Other_kind
      | Some b \<Rightarrow>
          if b = CHR 0x7B then Object_kind else if b = CHR 0x5B then Array_kind
          else if b = CHR 0x22 then String_kind else if b = CHR ''n'' then Null_kind
          else Other_kind)"

definition literal_end :: "string \<Rightarrow> nat \<Rightarrow> string \<Rightarrow> decode_failure + nat" where
  "literal_end input pos literal =
     (if starts_with literal (drop pos input) then Inr (pos + length literal) else Inl (syntax_at pos))"

text \<open>The start of a value: the new position, and the frame pushed for a container. The stack of
  frames has its top first.\<close>

definition begin_value :: "string \<Rightarrow> nat \<Rightarrow> decode_failure + nat \<times> frame list" where
  "begin_value input pos =
     (case get_at input pos of
        None \<Rightarrow> Inl (syntax_at pos)
      | Some b \<Rightarrow>
          if b = CHR 0x7B then Inr (pos + 1, [ObjectFirst])
          else if b = CHR 0x5B then Inr (pos + 1, [ArrayFirst])
          else
            and_then (if b = CHR 0x22 then string_end input pos
                      else if b = CHR ''n'' then literal_end input pos ''null''
                      else if b = CHR ''t'' then literal_end input pos ''true''
                      else if b = CHR ''f'' then literal_end input pos ''false''
                      else if b = CHR ''-'' \<or> byte_in 48 57 b then number_end input pos
                      else Inl (syntax_at pos)) (\<lambda>pos. Inr (pos, [])))"

text \<open>One step of the top frame: the new position, the frames that replace it and whether a value
  must follow.\<close>

definition frame_step ::
    "string \<Rightarrow> nat \<Rightarrow> frame \<Rightarrow> decode_failure + nat \<times> frame list \<times> bool" where
  "frame_step input pos frame =
     (let b = get_at input pos in
      case frame of
        ArrayFirst \<Rightarrow>
          if b = Some (CHR 0x5D) then Inr (pos + 1, [], False) else Inr (pos, [ArrayAfter], True)
      | ArrayNext \<Rightarrow> Inr (pos, [ArrayAfter], True)
      | ArrayAfter \<Rightarrow>
          if b = Some (CHR '','') then Inr (pos + 1, [ArrayNext], False)
          else if b = Some (CHR 0x5D) then Inr (pos + 1, [], False)
          else Inl (syntax_at pos)
      | ObjectFirst \<Rightarrow>
          if b = Some (CHR 0x7D) then Inr (pos + 1, [], False)
          else and_then (string_end input pos) (\<lambda>pos. Inr (pos, [ObjectColon], False))
      | ObjectKey \<Rightarrow> and_then (string_end input pos) (\<lambda>pos. Inr (pos, [ObjectColon], False))
      | ObjectColon \<Rightarrow>
          if b \<noteq> Some (CHR '':'') then Inl (syntax_at pos) else Inr (pos + 1, [ObjectAfter], True)
      | ObjectAfter \<Rightarrow>
          if b = Some (CHR '','') then Inr (pos + 1, [ObjectKey], False)
          else if b = Some (CHR 0x7D) then Inr (pos + 1, [], False)
          else Inl (syntax_at pos))"

text \<open>One turn of the loop, up to its final test.\<close>

definition scan_step :: "string \<Rightarrow> scan_state \<Rightarrow> decode_failure + scan_state" where
  "scan_step input s =
     (let pos = whitespace input (scan_pos s) in
      if need_value s then
        and_then (begin_value input pos) (\<lambda>(pos, pushed).
          let frames = pushed @ scan_frames s in
          if length frames > max_depth then Inl (syntax_at (pos - 1))
          else Inr \<lparr>scan_pos = pos, scan_frames = frames, need_value = False\<rparr>)
      else
        (case scan_frames s of
           [] \<Rightarrow> Inr (s\<lparr>scan_pos := pos\<rparr>)
         | frame # frames \<Rightarrow>
             and_then (frame_step input pos frame) (\<lambda>(pos, upper, need).
               Inr \<lparr>scan_pos = pos, scan_frames = upper @ frames, need_value = need\<rparr>)))"

definition scan_done :: "scan_state \<Rightarrow> bool" where
  "scan_done s \<longleftrightarrow> scan_frames s = [] \<and> \<not> need_value s"

subsection \<open>Lexical lemmas\<close>

lemma get_at_drop: "get_at input pos = Some b \<longleftrightarrow> drop pos input = b # drop (Suc pos) input"
  by (auto simp: get_at_def Cons_nth_drop_Suc dest: arg_cong[where f = length])
    (metis nth_via_drop)

lemma get_at_None_drop: "get_at input pos = None \<longleftrightarrow> drop pos input = []"
  by (simp add: get_at_def)

lemma drop_app: "drop pos input = xs @ ys \<Longrightarrow> drop (pos + length xs) input = ys"
  by (metis add.commute append_eq_conv_conj drop_drop)

lemma skip_while_takeWhile: "skip_while p input pos = pos + length (takeWhile p (drop pos input))"
proof (induction p input pos rule: skip_while.induct)
  case (1 p input pos)
  show ?case
  proof (cases "get_at input pos")
    case None
    then have "drop pos input = []" by (simp add: get_at_None_drop)
    with None show ?thesis by (subst skip_while.simps) simp
  next
    case (Some b)
    then have d: "drop pos input = b # drop (Suc pos) input" by (simp add: get_at_drop)
    show ?thesis
      using "1.IH"[OF Some] Some unfolding d by (subst skip_while.simps) simp
  qed
qed

lemma skip_while_ge: "pos \<le> skip_while p input pos"
  by (simp add: skip_while_takeWhile)

lemma skip_while_le: "pos \<le> length input \<Longrightarrow> skip_while p input pos \<le> length input"
  using length_takeWhile_le[of p "drop pos input"] by (simp add: skip_while_takeWhile)

lemma whitespace_ge: "pos \<le> whitespace input pos"
  by (simp add: whitespace_def skip_while_ge)

lemma whitespace_le: "pos \<le> length input \<Longrightarrow> whitespace input pos \<le> length input"
  by (simp add: whitespace_def skip_while_le)

lemma hex_digits_end_take:
  "hex_digits_end n input pos = Inr e \<longleftrightarrow>
     n \<le> length (drop pos input) \<and> list_all is_ascii_hexdigit (take n (drop pos input)) \<and> e = pos + n"
proof (induction n arbitrary: pos)
  case 0
  then show ?case by auto
next
  case (Suc n)
  show ?case
  proof (cases "get_at input pos")
    case None
    then have "drop pos input = []" by (simp add: get_at_None_drop)
    with None show ?thesis by simp
  next
    case (Some b)
    then have d: "drop pos input = b # drop (Suc pos) input" by (simp add: get_at_drop)
    show ?thesis
      unfolding hex_digits_end.simps Some d using Suc.IH[of "Suc pos"] by auto
  qed
qed

lemma hex_digits_end_Ok:
  "hex_digits_end n input pos = Inr e \<longleftrightarrow>
     (\<exists>hs tail. drop pos input = hs @ tail \<and> length hs = n \<and> list_all is_ascii_hexdigit hs \<and> e = pos + n)"
proof
  assume "hex_digits_end n input pos = Inr e"
  then show "\<exists>hs tail. drop pos input = hs @ tail \<and> length hs = n \<and> list_all is_ascii_hexdigit hs \<and> e = pos + n"
    unfolding hex_digits_end_take by (metis append_take_drop_id length_take min.absorb2)
qed (auto simp: hex_digits_end_take simp flip: length_drop)

text \<open>The rest of a string token: its body and the closing quote.\<close>

inductive string_rest :: "string \<Rightarrow> bool" where
  close: "string_rest [CHR 0x22]"
| plain: "\<lbrakk>b \<noteq> CHR 0x22; b \<noteq> CHR 0x5C; (0x1F :: nat) < of_char b; string_rest r\<rbrakk> \<Longrightarrow> string_rest (b # r)"
| simple: "\<lbrakk>is_simple_escape c; string_rest r\<rbrakk> \<Longrightarrow> string_rest (CHR 0x5C # c # r)"
| hex: "\<lbrakk>length hs = 4; list_all is_ascii_hexdigit hs; string_rest r\<rbrakk>
    \<Longrightarrow> string_rest (CHR 0x5C # CHR ''u'' # hs @ r)"

lemma escape_end_Ok:
  "escape_end input pos = Inr e \<longleftrightarrow>
     (\<exists>c tail. drop pos input = c # tail \<and> is_simple_escape c \<and> e = pos + 1)
     \<or> (\<exists>hs tail. drop pos input = CHR ''u'' # hs @ tail \<and> length hs = 4 \<and> list_all is_ascii_hexdigit hs \<and> e = pos + 5)"
proof (cases "get_at input pos")
  case None
  then have "drop pos input = []" by (simp add: get_at_None_drop)
  with None show ?thesis by (simp add: escape_end_def)
next
  case (Some c)
  then have d: "drop pos input = c # drop (Suc pos) input" by (simp add: get_at_drop)
  have u: "\<not> is_simple_escape (CHR ''u'')" by (simp add: is_simple_escape_def)
  show ?thesis
    unfolding escape_end_def Some d using u by (auto simp: hex_digits_end_Ok)
qed

lemma string_loop_sound:
  "string_loop input pos = Inr e \<Longrightarrow> \<exists>r tail. drop pos input = r @ tail \<and> string_rest r \<and> e = pos + length r"
proof (induction input pos rule: string_loop.induct)
  case (1 input pos)
  show ?case
  proof (cases "get_at input pos")
    case None
    with "1.prems" show ?thesis by (subst (asm) string_loop.simps) simp
  next
    case (Some b)
    then have d: "drop pos input = b # drop (Suc pos) input" by (simp add: get_at_drop)
    consider (close) "b = CHR 0x22" | (escape) "b = CHR 0x5C"
      | (plain) "b \<noteq> CHR 0x22" "b \<noteq> CHR 0x5C"
      by blast
    then show ?thesis
    proof cases
      case close
      with "1.prems" Some have "e = Suc pos" by (subst (asm) string_loop.simps) simp
      with d close show ?thesis
        by (intro exI[of _ "[CHR 0x22]"] exI[of _ "drop (Suc pos) input"]) (simp add: string_rest.close)
    next
      case escape
      with "1.prems" Some obtain p where p: "escape_end input (Suc pos) = Inr p" "string_loop input p = Inr e"
        by (subst (asm) string_loop.simps) (auto split: sum.splits)
      from "1.IH"(1)[OF Some _ escape p] escape
      obtain r tail where r: "drop p input = r @ tail" "string_rest r" "e = p + length r" by auto
      from p(1) show ?thesis
      proof (unfold escape_end_Ok, elim disjE exE conjE)
        fix c rest
        assume c: "drop (Suc pos) input = c # rest" "is_simple_escape c" "p = Suc pos + 1"
        then have "drop p input = rest" using drop_app[of "Suc pos" input "[c]" rest] by simp
        with c d r escape show ?thesis
          by (intro exI[of _ "CHR 0x5C # c # r"] exI[of _ tail]) (simp add: string_rest.simple)
      next
        fix hs rest
        assume h: "drop (Suc pos) input = CHR ''u'' # hs @ rest" "length hs = 4"
          "list_all is_ascii_hexdigit hs" "p = Suc pos + 5"
        then have "drop p input = rest"
          using drop_app[of "Suc pos" input "CHR ''u'' # hs" rest] by simp
        with h d r escape show ?thesis
          by (intro exI[of _ "CHR 0x5C # CHR ''u'' # hs @ r"] exI[of _ tail]) (simp add: string_rest.hex)
      qed
    next
      case plain
      with "1.prems" Some have le: "\<not> of_char b \<le> (0x1F :: nat)" and l: "string_loop input (Suc pos) = Inr e"
        by (subst (asm) string_loop.simps; simp split: if_splits)+
      from "1.IH"(2)[OF Some plain le l] obtain r tail
        where "drop (Suc pos) input = r @ tail" "string_rest r" "e = Suc pos + length r" by blast
      with d plain le show ?thesis
        by (intro exI[of _ "b # r"] exI[of _ tail]) (simp add: string_rest.plain)
    qed
  qed
qed

lemma string_loop_complete:
  "string_rest r \<Longrightarrow> drop pos input = r @ tail \<Longrightarrow> string_loop input pos = Inr (pos + length r)"
proof (induction r arbitrary: pos rule: string_rest.induct)
  case close
  then have "get_at input pos = Some (CHR 0x22)" by (metis append_Cons get_at_def drop_all
      list.distinct(1) not_less nth_via_drop)
  then show ?case by (subst string_loop.simps) simp
next
  case (plain b r)
  then have "get_at input pos = Some b" "drop (Suc pos) input = r @ tail"
    using drop_app[of pos input "[b]"] by (auto simp: get_at_drop)
  with plain show ?case by (subst string_loop.simps) simp
next
  case (simple c r)
  then have "get_at input pos = Some (CHR 0x5C)" "drop (Suc pos) input = c # r @ tail"
    "drop (Suc (Suc pos)) input = r @ tail"
    using drop_app[of pos input "[CHR 0x5C]"] drop_app[of pos input "[CHR 0x5C, c]"]
    by (auto simp: get_at_drop)
  moreover from this simple have "escape_end input (Suc pos) = Inr (Suc (Suc pos))"
    by (simp add: escape_end_Ok)
  ultimately show ?case using simple by (subst string_loop.simps) simp
next
  case (hex hs r)
  then have "get_at input pos = Some (CHR 0x5C)" "drop (Suc pos) input = CHR ''u'' # hs @ r @ tail"
    "drop (pos + 6) input = r @ tail"
    using drop_app[of pos input "[CHR 0x5C]"] drop_app[of pos input "CHR 0x5C # CHR ''u'' # hs"]
    by (auto simp: get_at_drop)
  moreover from this hex have "escape_end input (Suc pos) = Inr (pos + 6)"
    unfolding escape_end_Ok by auto
  ultimately show ?case using hex by (subst string_loop.simps) simp
qed

definition string_token :: "string \<Rightarrow> bool" where
  "string_token t \<longleftrightarrow> (\<exists>r. t = CHR 0x22 # r \<and> string_rest r)"

lemma string_end_Ok_iff:
  "string_end input pos = Inr e \<longleftrightarrow>
     (\<exists>t tail. drop pos input = t @ tail \<and> string_token t \<and> e = pos + length t)"
proof
  assume "string_end input pos = Inr e"
  then have q: "get_at input pos = Some (CHR 0x22)" and "string_loop input (Suc pos) = Inr e"
    by (auto simp: string_end_def split: if_splits)
  from string_loop_sound[OF this(2)] obtain r tail
    where r: "drop (Suc pos) input = r @ tail" "string_rest r" "e = Suc pos + length r" by blast
  with q have "drop pos input = (CHR 0x22 # r) @ tail" by (simp add: get_at_drop)
  moreover have "string_token (CHR 0x22 # r)" using r(2) by (simp add: string_token_def)
  moreover have "e = pos + length (CHR 0x22 # r)" using r(3) by simp
  ultimately show "\<exists>t tail. drop pos input = t @ tail \<and> string_token t \<and> e = pos + length t"
    by blast
next
  assume "\<exists>t tail. drop pos input = t @ tail \<and> string_token t \<and> e = pos + length t"
  then obtain r tail where r: "drop pos input = CHR 0x22 # r @ tail" "string_rest r" "e = Suc pos + length r"
    by (auto simp: string_token_def)
  then have "drop (Suc pos) input = r @ tail" using drop_app[of pos input "[CHR 0x22]"] by simp
  with r string_loop_complete[OF r(2) this] show "string_end input pos = Inr e"
    by (auto simp: string_end_def get_at_drop)
qed

lemma string_rest_nonempty: "string_rest r \<Longrightarrow> r \<noteq> []"
  by (induction rule: string_rest.induct) auto

lemma string_end_pos: "string_end input pos = Inr e \<Longrightarrow> pos < e \<and> e \<le> length input"
  using string_rest_nonempty
  by (auto simp: string_end_Ok_iff string_token_def dest!: arg_cong[where f = length])

subsection \<open>Progress of the value scanner\<close>

lemma digits_end_pos:
  "first \<le> length input \<Longrightarrow> digits_end input first = Inr e \<Longrightarrow> first < e \<and> e \<le> length input"
  using skip_while_ge[of first is_ascii_digit input] skip_while_le[of first input is_ascii_digit]
  by (auto simp: digits_end_def Let_def split: if_splits)

lemma integer_end_pos: "integer_end input pos = Inr e \<Longrightarrow> pos < e \<and> e \<le> length input"
  using skip_while_ge[of "pos + 1" is_ascii_digit input] skip_while_le[of "pos + 1" input is_ascii_digit]
  by (auto simp: integer_end_def get_at_Some_iff split: option.splits if_splits)

lemma fraction_end_pos:
  "pos \<le> length input \<Longrightarrow> fraction_end input pos = Inr e \<Longrightarrow> pos \<le> e \<and> e \<le> length input"
  using digits_end_pos[of "pos + 1" input e]
  by (auto simp: fraction_end_def get_at_Some_iff split: if_splits)

lemma exponent_end_pos:
  "pos \<le> length input \<Longrightarrow> exponent_end input pos = Inr e \<Longrightarrow> pos \<le> e \<and> e \<le> length input"
  using digits_end_pos[of "pos + 1" input e] digits_end_pos[of "pos + 1 + 1" input e]
  by (auto simp: exponent_end_def get_at_Some_iff Let_def split: if_splits)

lemma number_end_pos: "number_end input pos = Inr e \<Longrightarrow> pos < e \<and> e \<le> length input"
  by (auto simp: number_end_def Let_def result_iffs split: if_splits
      dest!: integer_end_pos fraction_end_pos[rotated] exponent_end_pos[rotated])

lemma literal_end_pos:
  "literal \<noteq> [] \<Longrightarrow> pos < length input \<Longrightarrow> literal_end input pos literal = Inr e \<Longrightarrow> pos < e \<and> e \<le> length input"
  by (auto simp: literal_end_def dest: starts_with_length split: if_splits)

lemma begin_value_pos: "begin_value input pos = Inr (e, pushed) \<Longrightarrow> pos < e \<and> e \<le> length input"
  by (auto simp: begin_value_def result_iffs get_at_Some_iff split: option.splits if_splits
      dest: string_end_pos number_end_pos literal_end_pos[rotated 2])

lemma frame_step_pos:
  "frame_step input pos frame = Inr (e, upper, need) \<Longrightarrow>
   pos \<le> e \<and> (e \<le> length input \<or> e = pos) \<and> (pos < e \<or> need)"
  by (cases frame)
    (auto simp: frame_step_def Let_def result_iffs get_at_Some_iff split: if_splits dest: string_end_pos)

definition scan_measure :: "string \<Rightarrow> scan_state \<Rightarrow> nat" where
  "scan_measure input s = 2 * (length input - scan_pos s) + (if need_value s then 0 else 1)"

lemma scan_step_decreases:
  assumes "scan_step input s = Inr s'" "\<not> scan_done s'"
  shows "scan_measure input s' < scan_measure input s"
proof (cases "need_value s")
  case True
  with assms whitespace_ge[of "scan_pos s" input] show ?thesis
    by (auto simp: scan_step_def Let_def result_iffs scan_measure_def split: if_splits
        dest!: begin_value_pos)
next
  case need: False
  show ?thesis
  proof (cases "scan_frames s")
    case Nil
    with assms need show ?thesis by (auto simp: scan_step_def scan_done_def Let_def)
  next
    case (Cons frame frames)
    with assms need whitespace_ge[of "scan_pos s" input] show ?thesis
      by (auto simp: scan_step_def Let_def result_iffs scan_measure_def dest!: frame_step_pos)
  qed
qed

function scan_loop :: "string \<Rightarrow> scan_state \<Rightarrow> decode_failure + nat" where
  "scan_loop input s =
     (case scan_step input s of
        Inl e \<Rightarrow> Inl e
      | Inr s' \<Rightarrow> if scan_done s' then Inr (scan_pos s') else scan_loop input s')"
  by pat_completeness auto
termination
  by (relation "measure (\<lambda>(input, s). scan_measure input s)") (auto intro: scan_step_decreases)

declare scan_loop.simps [simp del]

definition value_at :: "string \<Rightarrow> nat \<Rightarrow> decode_failure + span \<times> nat" where
  "value_at input offset =
     (let start = whitespace input offset in
      and_then (scan_loop input \<lparr>scan_pos = start, scan_frames = [], need_value = True\<rparr>) (\<lambda>pos.
        Inr (\<lparr>span_raw = take (pos - start) (drop start input), span_kind = value_kind input start\<rparr>, pos)))"

lemma scan_step_pos:
  "scan_step input s = Inr s' \<Longrightarrow> scan_pos s \<le> scan_pos s' \<and> (scan_pos s \<le> length input \<longrightarrow> scan_pos s' \<le> length input)
    \<and> (need_value s \<longrightarrow> scan_pos s < scan_pos s' \<and> scan_pos s' \<le> length input)"
  using whitespace_ge[of "scan_pos s" input] whitespace_le[of "scan_pos s" input]
  by (cases "need_value s"; cases "scan_frames s")
    (auto simp: scan_step_def Let_def result_iffs split: if_splits dest!: begin_value_pos frame_step_pos)

lemma scan_loop_pos:
  "scan_loop input s = Inr e \<Longrightarrow> need_value s \<or> scan_pos s \<le> length input \<Longrightarrow>
   scan_pos s \<le> e \<and> e \<le> length input \<and> (need_value s \<longrightarrow> scan_pos s < e)"
proof (induction input s rule: scan_loop.induct)
  case (1 input s)
  from "1.prems"(1) obtain s' where s': "scan_step input s = Inr s'"
    "if scan_done s' then e = scan_pos s' else scan_loop input s' = Inr e"
    by (subst (asm) scan_loop.simps) (auto split: sum.splits if_splits)
  note pos = scan_step_pos[OF s'(1)]
  show ?case
  proof (cases "scan_done s'")
    case True
    with s' pos "1.prems"(2) show ?thesis by auto
  next
    case False
    with s' have "scan_loop input s' = Inr e" by simp
    from "1.IH"[OF s'(1) False this] pos "1.prems"(2) show ?thesis by fastforce
  qed
qed

lemma value_at_pos:
  "value_at input offset = Inr (sp, e) \<Longrightarrow> offset < e \<and> e \<le> length input \<and> span_raw sp \<noteq> []"
  using whitespace_ge[of offset input]
  by (auto simp: value_at_def Let_def result_iffs dest!: scan_loop_pos)

subsection \<open>Cursors\<close>

record cursor =
  cur_input :: string
  cur_pos :: nat
  cur_first :: bool

definition cursor_new :: "span \<Rightarrow> cursor" where
  "cursor_new container =
     \<lparr>cur_input = take (length (span_raw container) - 2) (drop 1 (span_raw container)),
      cur_pos = 0, cur_first = True\<rparr>"

definition cursor_next :: "cursor \<Rightarrow> decode_failure + bool \<times> cursor" where
  "cursor_next c =
     (let pos = whitespace (cur_input c) (cur_pos c) in
      if pos = length (cur_input c) then Inr (False, c\<lparr>cur_pos := pos\<rparr>)
      else if \<not> cur_first c then
        if get_at (cur_input c) pos \<noteq> Some (CHR '','') then Inl (syntax_at pos)
        else Inr (True, c\<lparr>cur_pos := whitespace (cur_input c) (pos + 1), cur_first := False\<rparr>)
      else Inr (True, c\<lparr>cur_pos := pos, cur_first := False\<rparr>))"

definition cursor_element :: "cursor \<Rightarrow> decode_failure + span option \<times> cursor" where
  "cursor_element c =
     and_then (cursor_next c) (\<lambda>(found, c).
       if \<not> found then Inr (None, c)
       else and_then (value_at (cur_input c) (cur_pos c)) (\<lambda>(sp, e). Inr (Some sp, c\<lparr>cur_pos := e\<rparr>)))"

definition cursor_member :: "cursor \<Rightarrow> decode_failure + (string \<times> span) option \<times> cursor" where
  "cursor_member c =
     and_then (cursor_next c) (\<lambda>(found, c).
       if \<not> found then Inr (None, c)
       else and_then (string_end (cur_input c) (cur_pos c)) (\<lambda>e.
         let key = take (e - cur_pos c) (drop (cur_pos c) (cur_input c));
             pos = whitespace (cur_input c) e
         in if get_at (cur_input c) pos \<noteq> Some (CHR '':'') then Inl (syntax_at pos)
            else and_then (value_at (cur_input c) (pos + 1)) (\<lambda>(sp, e). Inr (Some (key, sp), c\<lparr>cur_pos := e\<rparr>))))"

lemma cursor_next_pos:
  "cursor_next c = Inr (found, c') \<Longrightarrow> cur_input c' = cur_input c \<and> cur_pos c \<le> cur_pos c'"
  using whitespace_ge[of "cur_pos c" "cur_input c"]
    whitespace_ge[of "whitespace (cur_input c) (cur_pos c) + 1" "cur_input c"]
  by (auto simp: cursor_next_def Let_def split: if_splits)

lemma cursor_element_pos:
  "cursor_element c = Inr (Some sp, c') \<Longrightarrow>
   cur_input c' = cur_input c \<and> cur_pos c < cur_pos c' \<and> cur_pos c' \<le> length (cur_input c)"
  by (auto simp: cursor_element_def result_iffs split: if_splits prod.splits
      dest!: cursor_next_pos value_at_pos)

lemma cursor_member_pos:
  "cursor_member c = Inr (Some kv, c') \<Longrightarrow>
   cur_input c' = cur_input c \<and> cur_pos c < cur_pos c' \<and> cur_pos c' \<le> length (cur_input c)"
proof -
  assume "cursor_member c = Inr (Some kv, c')"
  then obtain c1 e sp e' where "cursor_next c = Inr (True, c1)" "string_end (cur_input c1) (cur_pos c1) = Inr e"
    "value_at (cur_input c1) (whitespace (cur_input c1) e + 1) = Inr (sp, e')" "c' = c1\<lparr>cur_pos := e'\<rparr>"
    by (auto simp: cursor_member_def result_iffs Let_def split: if_splits prod.splits)
  then show ?thesis
    using cursor_next_pos[of c True c1] string_end_pos[of "cur_input c1" "cur_pos c1" e]
      value_at_pos[of "cur_input c1" "whitespace (cur_input c1) e + 1" sp e']
      whitespace_ge[of e "cur_input c1"]
    by simp
qed

end
