(* ===== verification/Studio_Json.thy ===== *)
theory Studio_Json
  imports Json_Scanner Import_Pack
begin

section \<open>Studio documents\<close>

text \<open>
  \<open>import/studio_json/mod.rs\<close> and \<open>optional.rs\<close>: the reduction of the scanned spans into
  the fixed schema, with the saved first type error, the hidden backing cells of shorter
  duplicates, and the projection against the inventory. The \<open>while let\<close> loops over a cursor
  are functions whose termination is the cursor's progress.
\<close>

record node =
  node_image :: string
  node_audio :: string

definition node_default :: node where
  "node_default = \<lparr>node_image = [], node_audio = []\<rparr>"

record story =
  story_uuid_text :: string
  story_title :: string
  story_description :: string
  story_cells :: "node list"
  story_length :: usize

definition story_default :: story where
  "story_default =
     \<lparr>story_uuid_text = [], story_title = [], story_description = [], story_cells = [], story_length = 0\<rparr>"

record studio_projection =
  proj_identity :: import_identity
  proj_text :: metadata_text

text \<open>The saved type error: the first one stays.\<close>

definition save_type :: "decode_failure option \<Rightarrow> string \<Rightarrow> decode_failure option" where
  "save_type error name = (case error of None \<Rightarrow> Some (Type_failure name) | Some e \<Rightarrow> Some e)"

definition string_field ::
    "span \<Rightarrow> string \<Rightarrow> string \<Rightarrow> decode_failure option \<Rightarrow> string \<times> decode_failure option" where
  "string_field v target name error =
     (case span_kind v of
        String_kind \<Rightarrow> (unquote (span_raw v), error)
      | Null_kind \<Rightarrow> (target, error)
      | _ \<Rightarrow> (target, save_type error name))"

subsection \<open>Loops over a cursor\<close>

function reduce_members ::
    "(string \<Rightarrow> span \<Rightarrow> 's \<Rightarrow> decode_failure + 's) \<Rightarrow> cursor \<Rightarrow> 's \<Rightarrow> decode_failure + 's" where
  "reduce_members f c s =
     (case cursor_member c of
        Inl e \<Rightarrow> Inl e
      | Inr (None, _) \<Rightarrow> Inr s
      | Inr (Some (key, v), c') \<Rightarrow>
          (case f key v s of Inl e \<Rightarrow> Inl e | Inr s' \<Rightarrow> reduce_members f c' s'))"
  by pat_completeness auto
termination
  by (relation "measure (\<lambda>(f, c, s). length (cur_input c) - cur_pos c)")
    (auto dest: cursor_member_pos)

declare reduce_members.simps [simp del]

function reduce_elements :: "(span \<Rightarrow> 's \<Rightarrow> decode_failure + 's) \<Rightarrow> cursor \<Rightarrow> 's \<Rightarrow> decode_failure + 's" where
  "reduce_elements f c s =
     (case cursor_element c of
        Inl e \<Rightarrow> Inl e
      | Inr (None, _) \<Rightarrow> Inr s
      | Inr (Some v, c') \<Rightarrow> (case f v s of Inl e \<Rightarrow> Inl e | Inr s' \<Rightarrow> reduce_elements f c' s'))"
  by pat_completeness auto
termination
  by (relation "measure (\<lambda>(f, c, s). length (cur_input c) - cur_pos c)")
    (auto dest: cursor_element_pos)

declare reduce_elements.simps [simp del]

subsection \<open>Nodes\<close>

type_synonym 's reduced = "'s \<times> decode_failure option"

definition node_member :: "string \<Rightarrow> span \<Rightarrow> node reduced \<Rightarrow> decode_failure + node reduced" where
  "node_member key v s =
     (let (target, error) = s in
      case field (unquote key) [''image'', ''audio''] of
        Some i \<Rightarrow>
          if i = 0 then
            let (t, e) = string_field v (node_image target) ''stageNodes.image'' error
            in Inr (target\<lparr>node_image := t\<rparr>, e)
          else
            let (t, e) = string_field v (node_audio target) ''stageNodes.audio'' error
            in Inr (target\<lparr>node_audio := t\<rparr>, e)
      | None \<Rightarrow> Inr (target, error))"

definition reduce_node :: "span \<Rightarrow> node reduced \<Rightarrow> decode_failure + node reduced" where
  "reduce_node v s =
     (case span_kind v of
        Null_kind \<Rightarrow> Inr s
      | Object_kind \<Rightarrow> reduce_members node_member (cursor_new v) s
      | _ \<Rightarrow> Inr (fst s, save_type (snd s) ''stageNodes''))"

text \<open>One element: the cells grow by a default cell when the index reaches their end.\<close>

definition nodes_element ::
    "span \<Rightarrow> nat \<times> node list \<times> decode_failure option
      \<Rightarrow> decode_failure + nat \<times> node list \<times> decode_failure option" where
  "nodes_element v s =
     (let (n, cells, error) = s;
          cells = (if n = length cells then cells @ [node_default] else cells) in
      and_then (reduce_node v (cells ! n, error)) (\<lambda>(cell, error).
        Inr (n + 1, cells[n := cell], error)))"

definition reduce_nodes :: "span \<Rightarrow> story reduced \<Rightarrow> decode_failure + story reduced" where
  "reduce_nodes v s =
     (let (story, error) = s in
      case span_kind v of
        Null_kind \<Rightarrow> Inr (story\<lparr>story_cells := [], story_length := 0\<rparr>, error)
      | Array_kind \<Rightarrow>
          and_then (reduce_elements nodes_element (cursor_new v) (0, story_cells story, error)) (\<lambda>(n, cells, error).
            Inr (story\<lparr>story_cells := (if n = 0 then [] else cells), story_length := n\<rparr>, error))
      | _ \<Rightarrow> Inr (story, save_type error ''stageNodes''))"

subsection \<open>Stories\<close>

definition story_member :: "string \<Rightarrow> span \<Rightarrow> story reduced \<Rightarrow> decode_failure + story reduced" where
  "story_member key v s =
     (let (story, error) = s in
      case field (unquote key) [''uuid'', ''title'', ''description'', ''stageNodes''] of
        Some i \<Rightarrow>
          if i = 0 then
            let (t, e) = string_field v (story_uuid_text story) ''uuid'' error
            in Inr (story\<lparr>story_uuid_text := t\<rparr>, e)
          else if i = 1 then
            let (t, e) = string_field v (story_title story) ''title'' error
            in Inr (story\<lparr>story_title := t\<rparr>, e)
          else if i = 2 then
            let (t, e) = string_field v (story_description story) ''description'' error
            in Inr (story\<lparr>story_description := t\<rparr>, e)
          else reduce_nodes v s
      | None \<Rightarrow> Inr s)"

definition finish_decode ::
    "string \<Rightarrow> nat \<Rightarrow> decode_failure option \<Rightarrow> decode_failure + unit" where
  "finish_decode input pos error =
     (case error of
        Some e \<Rightarrow> Inl e
      | None \<Rightarrow>
          let trailing = whitespace input pos in
          if trailing \<noteq> length input then Inl (Trailing_failure trailing) else Inr ())"

definition decode_story :: "string \<Rightarrow> decode_failure + story" where
  "decode_story input =
     and_then (value_at input 0) (\<lambda>(first, pos).
     and_then (case span_kind first of
         Null_kind \<Rightarrow> Inr (story_default, None)
       | Object_kind \<Rightarrow> reduce_members story_member (cursor_new first) (story_default, None)
       | _ \<Rightarrow> Inr (story_default, save_type None ''story'')) (\<lambda>(story, error).
     and_then (finish_decode input pos error) (\<lambda>_. Inr story)))"

text \<open>\<open>DecodeFailure\<close>'s \<open>Display\<close>; the decimal printing of an offset is a parameter of the model.\<close>

fun failure_text :: "(nat \<Rightarrow> string) \<Rightarrow> decode_failure \<Rightarrow> string" where
  "failure_text show_nat (Syntax_failure offset) = ''JSON syntax at byte '' @ show_nat offset"
| "failure_text show_nat (Type_failure name) = ''JSON type at '' @ name"
| "failure_text show_nat (Trailing_failure offset) = ''JSON trailing input at byte '' @ show_nat offset"

definition over_limit :: "string \<Rightarrow> limits \<Rightarrow> bool" where
  "over_limit payload l =
     (case i64_try_from (length payload) of None \<Rightarrow> True | Some n \<Rightarrow> n > max_metadata_bytes l)"

definition project_studio_json ::
    "(nat \<Rightarrow> string) \<Rightarrow> inventory \<Rightarrow> string \<Rightarrow> limits \<Rightarrow> validation_error + studio_projection" where
  "project_studio_json show_nat i metadata l =
     and_then (limits_validate l) (\<lambda>_.
       if over_limit metadata l then Inl (error_at MetadataLimit ''story.json'')
       else
         and_then (map_err (\<lambda>e. caused_by (failure_text show_nat e) (error_at MalformedMetadata ''story.json''))
           (decode_story metadata)) (\<lambda>story.
         let references = map (\<lambda>n. \<lparr>stage_image = node_image n, stage_audio = node_audio n\<rparr>)
               (take (story_length story) (story_cells story)) in
         and_then (validate_studio_policy i (story_uuid_text story) references l) (\<lambda>identity.
           Inr \<lparr>proj_identity = identity,
                proj_text = metadata_from_fields (story_title story) (story_description story)\<rparr>)))"

definition validate_studio_json ::
    "(nat \<Rightarrow> string) \<Rightarrow> inventory \<Rightarrow> string \<Rightarrow> limits \<Rightarrow> validation_error + import_identity" where
  "validate_studio_json show_nat i metadata l =
     and_then (project_studio_json show_nat i metadata l) (\<lambda>p. Inr (proj_identity p))"

subsection \<open>Optional metadata\<close>

record optional_fields =
  opt_uuid :: string
  opt_title :: string
  opt_description :: string

definition optional_default :: optional_fields where
  "optional_default = \<lparr>opt_uuid = [], opt_title = [], opt_description = []\<rparr>"

definition optional_entry :: string where
  "optional_entry = ''_metadata.json''"

definition optional_member ::
    "string \<Rightarrow> span \<Rightarrow> optional_fields reduced \<Rightarrow> decode_failure + optional_fields reduced" where
  "optional_member key v s =
     (let (fields, error) = s in
      case field (unquote key) [''uuid'', ''title'', ''description''] of
        Some i \<Rightarrow>
          if i = 0 then
            let (t, e) = string_field v (opt_uuid fields) ''uuid'' error
            in Inr (fields\<lparr>opt_uuid := t\<rparr>, e)
          else if i = 1 then
            let (t, e) = string_field v (opt_title fields) ''title'' error
            in Inr (fields\<lparr>opt_title := t\<rparr>, e)
          else
            let (t, e) = string_field v (opt_description fields) ''description'' error
            in Inr (fields\<lparr>opt_description := t\<rparr>, e)
      | None \<Rightarrow> Inr s)"

definition decode_optional :: "string \<Rightarrow> decode_failure + optional_fields" where
  "decode_optional input =
     and_then (value_at input 0) (\<lambda>(first, pos).
     and_then (case span_kind first of
         Null_kind \<Rightarrow> Inr (optional_default, None)
       | Object_kind \<Rightarrow> reduce_members optional_member (cursor_new first) (optional_default, None)
       | _ \<Rightarrow> Inr (optional_default, save_type None ''metadata'')) (\<lambda>(fields, error).
     and_then (finish_decode input pos error) (\<lambda>_. Inr fields)))"

definition project_optional_metadata ::
    "(nat \<Rightarrow> string) \<Rightarrow> inventory \<Rightarrow> string option \<Rightarrow> import_identity \<Rightarrow> limits
      \<Rightarrow> validation_error + metadata_text option" where
  "project_optional_metadata show_nat i payload primary l =
     and_then (limits_validate l) (\<lambda>_.
       if \<not> has_file i optional_entry then Inr None
       else case payload of
           None \<Rightarrow> Inr None
         | Some bytes \<Rightarrow>
             if over_limit bytes l then Inl (error_at MetadataLimit optional_entry)
             else
               and_then (map_err (\<lambda>e. caused_by (failure_text show_nat e) (error_at MalformedMetadata optional_entry))
                 (decode_optional bytes)) (\<lambda>fields.
               and_then (if opt_uuid fields = [] then Inr ()
                 else and_then (map_err (\<lambda>_. error_at InvalidUuid_code optional_entry) (parse_text (opt_uuid fields)))
                   (\<lambda>parsed. if id_typed parsed \<noteq> id_typed primary
                     then Inl (error_at InvalidUuid_code optional_entry) else Inr ())) (\<lambda>_.
                 Inr (Some (metadata_from_fields (opt_title fields) (opt_description fields))))))"

end
