(* ===== verification/Json_Tokens.thy ===== *)
theory Json_Tokens
  imports Studio_Json "HOL-Library.Code_Target_Nat"
begin

section \<open>Tokens of accepted documents\<close>

text \<open>
  What the scanner promises to the code behind it: a string token it delimits can be unquoted
  without an index out of range, its decoded text is a sequence of scalar values, and the logical
  length of a reduced story never exceeds its backing cells, so the slice of the policy check
  stays in range.
\<close>

inductive_cases string_rest_ConsE: "string_rest (b # s)"

lemma string_rest_plain: "string_rest (b # s) \<Longrightarrow> b \<noteq> CHR 0x22 \<Longrightarrow> b \<noteq> CHR 0x5C \<Longrightarrow> string_rest s"
  by (auto elim: string_rest_ConsE)

lemma string_rest_skip:
  "string_rest (xs @ s) \<Longrightarrow> CHR 0x22 \<notin> set xs \<Longrightarrow> CHR 0x5C \<notin> set xs \<Longrightarrow> string_rest s"
  by (induction xs) (auto dest: string_rest_plain)

lemma append_last_cases:
  assumes "xs @ [q] = ys @ s" "s \<noteq> []"
  obtains s' where "s = s' @ [q]" "xs = ys @ s'"
  using assms by (metis append_butlast_last_id append_assoc append_eq_append_conv2 butlast_append
      butlast_snoc last_appendR last_snoc)

lemma string_rest_backslash:
  "string_rest (CHR 0x5C # s) \<Longrightarrow>
     (\<exists>c r. s = c # r \<and> is_simple_escape c \<and> string_rest r)
     \<or> (\<exists>hs r. s = CHR ''u'' # hs @ r \<and> length hs = 4 \<and> list_all is_ascii_hexdigit hs \<and> string_rest r)"
  by (erule string_rest_ConsE) auto

lemma string_rest_escape:
  assumes "string_rest (CHR 0x5C # rest @ [CHR 0x22])"
  obtains (simple) c after where "rest = c # after" "is_simple_escape c" "string_rest (after @ [CHR 0x22])"
    | (hex) hs after where "rest = CHR ''u'' # hs @ after" "length hs = 4" "list_all is_ascii_hexdigit hs"
      "string_rest (after @ [CHR 0x22])"
proof -
  from assms consider (a) c r where "rest @ [CHR 0x22] = [c] @ r" "is_simple_escape c" "string_rest r"
    | (b) hs r where "rest @ [CHR 0x22] = (CHR ''u'' # hs) @ r" "length hs = 4"
      "list_all is_ascii_hexdigit hs" "string_rest r"
    using string_rest_backslash by (metis append_Cons append_Nil)
  then show ?thesis
  proof cases
    case a
    from a(3) have "r \<noteq> []" using string_rest_nonempty by auto
    with a(1) obtain s' where "r = s' @ [CHR 0x22]" "rest = [c] @ s'" by (rule append_last_cases)
    with a that(1) show ?thesis by simp
  next
    case b
    from b(4) have "r \<noteq> []" using string_rest_nonempty by auto
    with b(1) obtain s' where "r = s' @ [CHR 0x22]" "rest = (CHR ''u'' # hs) @ s'" by (rule append_last_cases)
    with b that(2) show ?thesis by simp
  qed
qed

lemma unquote_simple:
  "c \<noteq> CHR ''u'' \<Longrightarrow> unquote_chars (CHR 0x5C # c # after) = map_option (\<lambda>cs. unescape c # cs) (unquote_chars after)"
  by (subst unquote_chars.simps) simp

lemma unquote_hex:
  assumes "length hs = 4"
  shows "unquote_chars (CHR 0x5C # CHR ''u'' # hs @ after) =
    (let high = (case hex4 (hs @ after) of Some v \<Rightarrow> v | None \<Rightarrow> 0xFFFD) in
     map_option (\<lambda>cs. char_or_replacement (fst (escaped_scalar high after)) # cs)
       (unquote_chars (drop (snd (escaped_scalar high after)) after)))"
  using assms by (subst unquote_chars.simps) (simp add: Let_def split_beta)

text \<open>The bytes which \<open>rune\<close> consumes behind the first are continuation bytes.\<close>

lemma rune_continuation:
  assumes "input \<noteq> []" and "x \<in> set (take (snd (rune input) - 1) (drop 1 input))"
  shows "(0x80 :: nat) \<le> of_char x"
proof (cases "of_char (input ! 0) < (0x80 :: nat)")
  case True
  with assms show ?thesis by (simp add: rune_def Let_def)
next
  case False
  show ?thesis
  proof (cases "snd (rune input) = 1")
    case True
    with assms show ?thesis by simp
  next
    case wide: False
    with False obtain width minimum maximum where l: "lead_info (of_char (input ! 0)) = Some (width, minimum, maximum)"
      and ok: "width \<le> length input" "byte_in minimum maximum (input ! 1)"
        "\<forall>b \<in> set (take (width - 2) (drop 2 input)). byte_in 0x80 0xBF b"
      and w: "snd (rune input) = width"
      by (auto simp: rune_def Let_def list_ex_iff split: option.splits if_splits)
    from l have m: "0x80 \<le> minimum" "2 \<le> width" by (auto simp: lead_info_def split: if_splits)
    with ok(1) have "drop 1 input = input ! 1 # drop 2 input"
      by (metis Cons_nth_drop_Suc One_nat_def Suc_1 Suc_le_lessD le_trans)
    moreover have "width - 1 = Suc (width - 2)" using m(2) by simp
    ultimately have "x = input ! 1 \<or> x \<in> set (take (width - 2) (drop 2 input))"
      using assms(2) w by simp
    with ok(2,3) m(1) show ?thesis by (auto simp: byte_in_def)
  qed
qed

lemma hex_fold_digits: "list_all is_ascii_hexdigit hs \<Longrightarrow> hex_fold v hs \<noteq> None"
  by (induction hs arbitrary: v) (auto simp: hex_value_def is_ascii_hexdigit_def is_ascii_digit_def)

lemma string_rest_surrogate:
  assumes "string_rest (after @ [CHR 0x22])"
  shows "string_rest (drop (snd (escaped_scalar high after)) after @ [CHR 0x22])"
proof (cases "snd (escaped_scalar high after) = 0")
  case False
  then have six: "snd (escaped_scalar high after) = 6"
    and "starts_with [CHR 0x5C, CHR ''u''] after"
    by (auto simp: escaped_scalar_def split: if_splits option.splits)
  then obtain rest where "after = CHR 0x5C # CHR ''u'' # rest" by (auto simp: starts_with_iff)
  with assms have r: "string_rest (CHR 0x5C # (CHR ''u'' # rest) @ [CHR 0x22])" by simp
  from r show ?thesis
  proof (cases rule: string_rest_escape)
    case (simple c after')
    then show ?thesis by (auto simp: is_simple_escape_def)
  next
    case (hex hs after')
    with six \<open>after = _\<close> show ?thesis by simp
  qed
qed (simp add: assms)

lemma unquote_chars_total:
  "string_rest (body @ [CHR 0x22]) \<Longrightarrow> unquote_chars body \<noteq> None"
proof (induction body rule: length_induct)
  case (1 body)
  show ?case
  proof (cases body)
    case Nil
    then show ?thesis by (simp add: unquote_chars.simps)
  next
    case (Cons b rest)
    show ?thesis
    proof (cases "b = CHR 0x5C")
      case True
      with "1.prems" Cons have "string_rest (CHR 0x5C # rest @ [CHR 0x22])" by simp
      then show ?thesis
      proof (cases rule: string_rest_escape)
        case (simple c after)
        then have "c \<noteq> CHR ''u''" by (auto simp: is_simple_escape_def)
        moreover from simple Cons "1.IH" have "unquote_chars after \<noteq> None" by simp
        ultimately show ?thesis using Cons True simple(1) by (simp add: unquote_simple)
      next
        case (hex hs after)
        define high where "high = (case hex4 (hs @ after) of Some v \<Rightarrow> v | None \<Rightarrow> 0xFFFD)"
        from hex Cons "1.IH" string_rest_surrogate[OF hex(4), of high]
        have "unquote_chars (drop (snd (escaped_scalar high after)) after) \<noteq> None" by simp
        with Cons True hex(1,2) show ?thesis
          by (simp add: unquote_hex high_def[symmetric] Let_def)
      qed
    next
      case False
      let ?w = "snd (rune body)"
      have w: "1 \<le> ?w" "?w \<le> length body" using rune_width[of body] Cons by auto
      have b: "b \<noteq> CHR 0x22" using "1.prems" Cons by (auto elim: string_rest_ConsE simp: string_rest_nonempty)
      have "take ?w body = b # take (?w - 1) (drop 1 body)"
        using w Cons by (cases ?w) auto
      then have "CHR 0x22 \<notin> set (take ?w body)" "CHR 0x5C \<notin> set (take ?w body)"
        using rune_continuation[of body] b False Cons by fastforce+
      with "1.prems" string_rest_skip[of "take ?w body" "drop ?w body @ [CHR 0x22]"]
      have "string_rest (drop ?w body @ [CHR 0x22])" by (simp flip: append_assoc)
      moreover have "length (drop ?w body) < length body" using w Cons by simp
      ultimately have "unquote_chars (drop ?w body) \<noteq> None" using "1.IH" by blast
      with Cons False show ?thesis by (subst unquote_chars.simps) simp
    qed
  qed
qed

text \<open>Every string token which the scanner delimits, escapes and invalid UTF-8 included, is
  unquoted without reading past its end.\<close>

theorem unquote_never_panics:
  assumes "string_end input pos = Inr e"
  shows "unquote_checked (take (e - pos) (drop pos input)) \<noteq> None"
proof -
  from assms obtain t tail where t: "drop pos input = t @ tail" "string_token t" "e = pos + length t"
    unfolding string_end_Ok_iff by blast
  from t(2) obtain r where r: "t = CHR 0x22 # r" "string_rest r" by (auto simp: string_token_def)
  from r(2) have "\<exists>body. r = body @ [CHR 0x22]"
  proof induction
    case (plain b r)
    then show ?case by (metis append_Cons)
  next
    case (simple c r)
    then show ?case by (metis append_Cons)
  next
    case (hex hs r)
    then show ?case by (metis append_Cons append_assoc)
  qed auto
  then obtain body where "r = body @ [CHR 0x22]" ..
  with t r unquote_chars_total[of body] show ?thesis by (simp add: unquote_checked_def)
qed

definition sample_token :: string where
  "sample_token = [CHR 0x22, CHR 0x5C] @ ''ud83d'' @ [CHR 0x5C] @ ''ude00x'' @ [CHR 0xE2, CHR 0x22]"

theorem unquote_never_panics_witness:
  "unquote_checked (take (16 - 0) (drop 0 sample_token)) \<noteq> None"
  by (rule unquote_never_panics) code_simp

subsection \<open>Reductions keep invariants\<close>

lemma reduce_members_invariant:
  assumes step: "\<And>key v s s'. f key v s = Inr s' \<Longrightarrow> P s \<Longrightarrow> P s'"
    and run: "reduce_members f c s = Inr s'" and start: "P s"
  shows "P s'"
  using step run start
proof (induction f c s rule: reduce_members.induct)
  case (1 f c s)
  from "1.prems"(2) consider "s' = s"
    | key v c' t where "cursor_member c = Inr (Some (key, v), c')" "f key v s = Inr t"
        "reduce_members f c' t = Inr s'"
    by (subst (asm) reduce_members.simps) (auto split: sum.splits prod.splits option.splits)
  then show ?case
  proof cases
    case 2
    show ?thesis
      by (rule "1.IH"[OF 2(1) refl refl refl 2(2)]) (rule "1.prems"(1) 2(3) "1.prems"(1)[OF 2(2) "1.prems"(3)]; assumption?)+
  qed (simp add: "1.prems"(3))
qed

lemma reduce_elements_invariant:
  assumes step: "\<And>v s s'. f v s = Inr s' \<Longrightarrow> P s \<Longrightarrow> P s'"
    and run: "reduce_elements f c s = Inr s'" and start: "P s"
  shows "P s'"
  using step run start
proof (induction f c s rule: reduce_elements.induct)
  case (1 f c s)
  from "1.prems"(2) consider "s' = s"
    | v c' t where "cursor_element c = Inr (Some v, c')" "f v s = Inr t" "reduce_elements f c' t = Inr s'"
    by (subst (asm) reduce_elements.simps) (auto split: sum.splits prod.splits option.splits)
  then show ?case
  proof cases
    case 2
    show ?thesis
      by (rule "1.IH"[OF 2(1) refl refl 2(2)]) (rule "1.prems"(1) 2(3) "1.prems"(1)[OF 2(2) "1.prems"(3)]; assumption?)+
  qed (simp add: "1.prems"(3))
qed

definition cells_cover :: "story reduced \<Rightarrow> bool" where
  "cells_cover s \<longleftrightarrow> story_length (fst s) \<le> length (story_cells (fst s))"

lemma reduce_nodes_cover: "reduce_nodes v s = Inr s' \<Longrightarrow> cells_cover s \<Longrightarrow> cells_cover s'"
proof (cases "span_kind v = Array_kind")
  case True
  assume "reduce_nodes v s = Inr s'" "cells_cover s"
  with True obtain n cells error where
    e: "reduce_elements nodes_element (cursor_new v) (0, story_cells (fst s), snd s) = Inr (n, cells, error)"
    and s': "s' = (fst s\<lparr>story_cells := (if n = 0 then [] else cells), story_length := n\<rparr>, error)"
    by (auto simp: reduce_nodes_def and_then_Ok_iff split: prod.splits)
  have "(\<lambda>s. fst s \<le> length (fst (snd s))) (n, cells, error)"
    by (rule reduce_elements_invariant[OF _ e])
      (auto simp: nodes_element_def and_then_Ok_iff Let_def split: prod.splits if_splits)
  with s' show ?thesis by (simp add: cells_cover_def)
qed (auto simp: reduce_nodes_def cells_cover_def split: prod.splits kind.splits)

lemma story_member_cover: "story_member key v s = Inr s' \<Longrightarrow> cells_cover s \<Longrightarrow> cells_cover s'"
  using reduce_nodes_cover[of v s s']
  by (cases s) (auto simp: story_member_def Let_def cells_cover_def split: option.splits if_splits prod.splits)

text \<open>C22: The logical length of a decoded story never exceeds its cells, whatever duplicates,
  shorter arrays and nulls the document holds, so the slice handed to the policy is in range.\<close>

theorem story_cells_cover:
  assumes "decode_story input = Inr s"
  shows "story_length s \<le> length (story_cells s)"
proof -
  have default: "cells_cover (story_default, e)" for e by (simp add: cells_cover_def story_default_def)
  from assms obtain first error where
    "(case span_kind first of
         Null_kind \<Rightarrow> Inr (story_default, None)
       | Object_kind \<Rightarrow> reduce_members story_member (cursor_new first) (story_default, None)
       | _ \<Rightarrow> Inr (story_default, save_type None ''story'')) = (Inr (s, error) :: _ + _)"
    by (auto simp: decode_story_def and_then_Ok_iff)
  then have "cells_cover (s, error)"
    using reduce_members_invariant[of story_member cells_cover, OF story_member_cover] default
    by (cases "span_kind first") auto
  then show ?thesis by (simp add: cells_cover_def)
qed

definition sample_story :: string where
  "sample_story =
     CHR ''{'' # CHR 0x22 # ''stageNodes'' @ CHR 0x22 # '':[{},{}],'' @ CHR 0x22 # ''stageNodes'' @ CHR 0x22 # '':[null]}''"

theorem story_cells_cover_witness:
  "(case decode_story sample_story of Inl _ \<Rightarrow> False
    | Inr s \<Rightarrow> story_length s = 1 \<and> length (story_cells s) = 2 \<and> story_length s \<le> length (story_cells s))"
proof -
  have "decode_story sample_story = Inr (story_default\<lparr>story_cells := [node_default, node_default], story_length := 1\<rparr>)"
    by code_simp
  with story_cells_cover[OF this] show ?thesis by simp
qed

end
