(* ===== verification/Query_Data.thy ===== *)
theory Query_Data
  imports Utf8 "HOL-Library.Multiset"
begin

section \<open>Library queries\<close>

text \<open>
  \<open>collection_codec/mod.rs\<close> (the query value, its reading from a wire tree, the validation of
  references, the retirement of flags and the canonical passes) and \<open>collection_codec/runtime.rs\<close>
  (the runtime pass). The fields of one node are a record; a query is a node with its branches.
  The frozen Unicode primitives, which are table lookups, are the fields of \<open>text_env\<close>. The
  counter \<open>remaining\<close> is threaded through the recursion as the code threads its reference.
\<close>

datatype codec_error = Invalid | UnsupportedVersion | FrozenData

datatype query_input_error = InvalidQuery | FrozenData_input | ResourceOverflow

record boolean_filter =
  bf_definition :: i64
  bf_state :: string

record choice_filter =
  cf_definition :: i64
  cf_values :: "i64 list"

record query_node =
  broken_visibility :: string
  broken_state :: string
  include_broken :: bool
  q_name :: string
  languages :: "string list"
  compatibilities :: "string list"
  boolean_filters :: "boolean_filter list"
  choice_filters :: "choice_filter list"

datatype query = Query (root_node: query_node) (any_of: "query list")

definition node_empty :: query_node where
  "node_empty =
     \<lparr>broken_visibility = [], broken_state = [], include_broken = False, q_name = [],
      languages = [], compatibilities = [], boolean_filters = [], choice_filters = []\<rparr>"

definition query_default :: query where
  "query_default = Query node_empty []"

record query_request =
  criteria :: query
  page :: i64
  page_size :: i64
  sort_order :: string

definition request_default :: query_request where
  "request_default = \<lparr>criteria = query_default, page = 0, page_size = 0, sort_order = []\<rparr>"

record text_env =
  saved_text :: "string \<Rightarrow> codec_error + string"
  runtime_text :: "string \<Rightarrow> query_input_error + string"
  saved_language :: "string \<Rightarrow> codec_error + string"
  runtime_language :: "string \<Rightarrow> query_input_error + string"

definition max_nodes :: usize where
  "max_nodes = 50"

subsection \<open>Reading a wire tree\<close>

datatype wire =
  WNull | WBool bool | WNumber string | WString string | WArray "wire list" | WObject "(string \<times> wire) list"

text \<open>\<open>str::parse::<i64>\<close>: an optional sign, then one or more digits, within the signed range.\<close>

fun digits_value :: "int \<Rightarrow> string \<Rightarrow> int option" where
  "digits_value v [] = Some v"
| "digits_value v (c # cs) =
     (if is_ascii_digit c then digits_value (v * 10 + (of_char c - 48)) cs else None)"

definition parse_i64 :: "string \<Rightarrow> i64 option" where
  "parse_i64 raw =
     (let negative = starts_with ''-'' raw;
          digits = (if negative \<or> starts_with ''+'' raw then drop 1 raw else raw)
      in if digits = [] then None
         else case digits_value 0 digits of
             None \<Rightarrow> None
           | Some v \<Rightarrow> let v = (if negative then - v else v) in if i64_ok v then Some v else None)"

definition scalar_string :: "wire \<Rightarrow> string \<Rightarrow> codec_error + string" where
  "scalar_string v target =
     (case v of WNull \<Rightarrow> Inr target | WString s \<Rightarrow> Inr s | _ \<Rightarrow> Inl Invalid)"

definition scalar_integer :: "wire \<Rightarrow> i64 \<Rightarrow> codec_error + i64" where
  "scalar_integer v target =
     (case v of WNull \<Rightarrow> Inr target | WNumber raw \<Rightarrow> ok_or Invalid (parse_i64 raw) | _ \<Rightarrow> Inl Invalid)"

definition wire_array :: "(wire \<Rightarrow> codec_error + 'a) \<Rightarrow> wire \<Rightarrow> codec_error + 'a list" where
  "wire_array element v =
     (case v of WNull \<Rightarrow> Inr [] | WArray vs \<Rightarrow> collect_results element vs | _ \<Rightarrow> Inl Invalid)"

definition wire_object :: "wire \<Rightarrow> codec_error + (string \<times> wire) list" where
  "wire_object v = (case v of WNull \<Rightarrow> Inr [] | WObject fs \<Rightarrow> Inr fs | _ \<Rightarrow> Inl Invalid)"

text \<open>A loop over members with an accumulated value and early return.\<close>

fun fold_members :: "(string \<Rightarrow> wire \<Rightarrow> 's \<Rightarrow> 'e + 's) \<Rightarrow> (string \<times> wire) list \<Rightarrow> 's \<Rightarrow> 'e + 's" where
  "fold_members f [] s = Inr s"
| "fold_members f ((key, v) # members) s = and_then (f key v s) (fold_members f members)"

text \<open>\<open>unicode::ASCII_SIMPLE_FOLD\<close>: lower-case letters, the long s and the Kelvin sign reach capitals.\<close>

definition ascii_simple_fold :: "nat \<Rightarrow> char option" where
  "ascii_simple_fold ch =
     (if ch = 0x17F then Some (CHR ''S'') else if ch = 0x212A then Some (CHR ''K'')
      else if 65 \<le> ch \<and> ch \<le> 90 then Some (char_of ch)
      else if 97 \<le> ch \<and> ch \<le> 122 then Some (char_of (ch - 32)) else None)"

fun fold_key :: "nat list \<Rightarrow> string option" where
  "fold_key [] = Some []"
| "fold_key (ch # chars) =
     (case (case ascii_simple_fold ch of Some c \<Rightarrow> Some c | None \<Rightarrow> if ch < 128 then Some (char_of ch) else None) of
        None \<Rightarrow> None
      | Some c \<Rightarrow> map_option (\<lambda>cs. c # cs) (fold_key chars))"

definition ascii_field_key :: "string \<Rightarrow> string option" where
  "ascii_field_key value = fold_key (str_chars value)"

definition wire_field :: "string \<Rightarrow> codec_error + string" where
  "wire_field value = ok_or Invalid (ascii_field_key value)"

definition boolean_member :: "string \<Rightarrow> wire \<Rightarrow> boolean_filter \<Rightarrow> codec_error + boolean_filter" where
  "boolean_member key v f =
     and_then (wire_field key) (\<lambda>name.
       if name = ''DEFINITIONID'' then
         and_then (scalar_integer v (bf_definition f)) (\<lambda>n. Inr (f\<lparr>bf_definition := n\<rparr>))
       else if name = ''STATE'' then
         and_then (scalar_string v (bf_state f)) (\<lambda>s. Inr (f\<lparr>bf_state := s\<rparr>))
       else Inl Invalid)"

definition wire_boolean :: "wire \<Rightarrow> codec_error + boolean_filter" where
  "wire_boolean v =
     and_then (wire_object v) (\<lambda>members.
       fold_members boolean_member members \<lparr>bf_definition = 0, bf_state = []\<rparr>)"

definition choice_member :: "string \<Rightarrow> wire \<Rightarrow> choice_filter \<Rightarrow> codec_error + choice_filter" where
  "choice_member key v f =
     and_then (wire_field key) (\<lambda>name.
       if name = ''DEFINITIONID'' then
         and_then (scalar_integer v (cf_definition f)) (\<lambda>n. Inr (f\<lparr>cf_definition := n\<rparr>))
       else if name = ''VALUEIDS'' then
         and_then (wire_array (\<lambda>v. scalar_integer v 0) v) (\<lambda>ns. Inr (f\<lparr>cf_values := ns\<rparr>))
       else Inl Invalid)"

definition wire_choice :: "wire \<Rightarrow> codec_error + choice_filter" where
  "wire_choice v =
     and_then (wire_object v) (\<lambda>members.
       fold_members choice_member members \<lparr>cf_definition = 0, cf_values = []\<rparr>)"

text \<open>The members of a query node other than \<open>anyOf\<close>.\<close>

definition node_member :: "bool \<Rightarrow> string \<Rightarrow> string \<Rightarrow> wire \<Rightarrow> query_node \<Rightarrow> codec_error + query_node" where
  "node_member legacy_navigation name key v q =
     (if name = ''BROKENVISIBILITY'' then
        and_then (scalar_string v (broken_visibility q)) (\<lambda>s. Inr (q\<lparr>broken_visibility := s\<rparr>))
      else if name = ''BROKENSTATE'' then
        and_then (scalar_string v (broken_state q)) (\<lambda>s. Inr (q\<lparr>broken_state := s\<rparr>))
      else if name = ''INCLUDEBROKEN'' then
        (case v of WNull \<Rightarrow> Inr q | WBool b \<Rightarrow> Inr (q\<lparr>include_broken := b\<rparr>) | _ \<Rightarrow> Inl Invalid)
      else if name = ''NAME'' then
        and_then (scalar_string v (q_name q)) (\<lambda>s. Inr (q\<lparr>q_name := s\<rparr>))
      else if name = ''LANGUAGES'' \<or> name = ''COMPATIBILITIES'' then
        and_then (wire_array (\<lambda>v. scalar_string v []) v) (\<lambda>ss.
          Inr (if name = ''LANGUAGES'' then q\<lparr>languages := ss\<rparr> else q\<lparr>compatibilities := ss\<rparr>))
      else if name = ''BOOLEANFILTERS'' then
        and_then (wire_array wire_boolean v) (\<lambda>fs. Inr (q\<lparr>boolean_filters := fs\<rparr>))
      else if name = ''CHOICEFILTERS'' then
        and_then (wire_array wire_choice v) (\<lambda>fs. Inr (q\<lparr>choice_filters := fs\<rparr>))
      else if (name = ''PAGE'' \<or> name = ''PAGESIZE'') \<and> legacy_navigation then
        and_then (scalar_integer v 0) (\<lambda>_. Inr q)
      else if name = ''SORT'' \<and> legacy_navigation then
        and_then (scalar_string v []) (\<lambda>_. Inr q)
      else Inl Invalid)"

fun wire_query :: "wire \<Rightarrow> bool \<Rightarrow> codec_error + query"
  and wire_members :: "(string \<times> wire) list \<Rightarrow> bool \<Rightarrow> query \<Rightarrow> codec_error + query"
  and wire_queries :: "wire list \<Rightarrow> codec_error + query list" where
  "wire_query WNull legacy = Inr query_default"
| "wire_query (WObject members) legacy = wire_members members legacy query_default"
| "wire_query (WBool b) legacy = Inl Invalid"
| "wire_query (WNumber n) legacy = Inl Invalid"
| "wire_query (WString s) legacy = Inl Invalid"
| "wire_query (WArray vs) legacy = Inl Invalid"
| "wire_members [] legacy q = Inr q"
| "wire_members ((key, v) # members) legacy q =
     and_then (wire_field key) (\<lambda>name.
     and_then (if name = ''ANYOF''
         then (case v of
             WNull \<Rightarrow> Inr (Query (root_node q) [])
           | WArray vs \<Rightarrow> and_then (wire_queries vs) (\<lambda>branches. Inr (Query (root_node q) branches))
           | _ \<Rightarrow> Inl Invalid)
         else and_then (node_member legacy name key v (root_node q)) (\<lambda>n. Inr (Query n (any_of q)))) (\<lambda>q.
       wire_members members legacy q))"
| "wire_queries [] = Inr []"
| "wire_queries (v # vs) =
     and_then (wire_query v False) (\<lambda>q. and_then (wire_queries vs) (\<lambda>qs. Inr (q # qs)))"

end
