(* ===== verification/Query_Canonical.thy ===== *)
theory Query_Canonical
  imports Query_Data
begin

section \<open>Validation, retirement and canonical passes\<close>

text \<open>
  \<open>validate_references\<close>, \<open>retire\<close>, \<open>normalize_tree\<close>, \<open>canonical_membership\<close>,
  \<open>canonical_saved\<close> and the pipelines built from them in \<open>collection_codec/mod.rs\<close>, and the
  runtime pass of \<open>runtime.rs\<close>. \<open>BTreeSet\<close> iteration is the strictly sorted list of its
  elements; \<open>dedup\<close> is \<open>remdups_adj\<close> and \<open>sort_by_key\<close> the stable \<open>sort_key\<close>.
\<close>

definition query_budget :: "nat \<Rightarrow> codec_error + nat" where
  "query_budget remaining = (if remaining = 0 then Inl Invalid else Inr (remaining - 1))"

subsection \<open>References\<close>

definition saved_flags_ok :: "bool \<Rightarrow> query_node \<Rightarrow> bool" where
  "saved_flags_ok current n \<longleftrightarrow>
     broken_visibility n \<in> set [[], ''hide'', ''include'', ''only'']
     \<and> broken_state n \<in> set [[], ''ignored'', ''true'', ''false'']
     \<and> \<not> (current \<and> (include_broken n \<or> broken_visibility n \<noteq> [] \<or> broken_state n \<noteq> []))"

fun check_booleans :: "i64 set \<Rightarrow> boolean_filter list \<Rightarrow> codec_error + i64 set" where
  "check_booleans ids [] = Inr ids"
| "check_booleans ids (f # fs) =
     (if bf_definition f \<le> 0 \<or> bf_state f \<notin> set [''ignored'', ''true'', ''false''] then Inl Invalid
      else if bf_state f \<noteq> ''ignored'' then
        if bf_definition f \<in> ids then Inl Invalid
        else check_booleans (insert (bf_definition f) ids) fs
      else check_booleans ids fs)"

fun check_choices :: "i64 set \<Rightarrow> choice_filter list \<Rightarrow> codec_error + i64 set" where
  "check_choices ids [] = Inr ids"
| "check_choices ids (f # fs) =
     (if cf_definition f \<le> 0 \<or> cf_values f = [] \<or> list_ex (\<lambda>v. v \<le> 0) (cf_values f)
         \<or> cf_definition f \<in> ids
      then Inl Invalid
      else check_choices (insert (cf_definition f) ids) fs)"

fun validate_references :: "query \<Rightarrow> nat \<Rightarrow> bool \<Rightarrow> codec_error + nat"
  and validate_branches :: "query list \<Rightarrow> nat \<Rightarrow> bool \<Rightarrow> codec_error + nat" where
  "validate_references (Query n branches) remaining current =
     and_then (query_budget remaining) (\<lambda>remaining.
       if \<not> saved_flags_ok current n then Inl Invalid
       else
         and_then (check_booleans {} (boolean_filters n)) (\<lambda>ids.
         and_then (check_choices ids (choice_filters n)) (\<lambda>_.
           validate_branches branches remaining current)))"
| "validate_branches [] remaining current = Inr remaining"
| "validate_branches (q # qs) remaining current =
     and_then (validate_references q remaining current) (\<lambda>remaining.
       validate_branches qs remaining current)"

subsection \<open>Retirement\<close>

fun retire :: "i64 \<Rightarrow> i64 \<Rightarrow> query \<Rightarrow> query" where
  "retire version legacy_id (Query n branches) =
     (let n = (if version < 4 \<and> legacy_id > 0
               then n\<lparr>boolean_filters := filter (\<lambda>f. bf_definition f \<noteq> legacy_id) (boolean_filters n)\<rparr>
               else n);
          n = (if version < 5
               then n\<lparr>include_broken := False, broken_visibility := [], broken_state := []\<rparr>
               else n)
      in Query n (map (retire version legacy_id) branches))"

subsection \<open>Normalization\<close>

definition filter_groups :: "query_node \<Rightarrow> nat" where
  "filter_groups n =
     length (boolean_filters n) + length (choice_filters n)
     + (if languages n = [] then 0 else 1) + (if compatibilities n = [] then 0 else 1)"

definition known_compatibility :: "string \<Rightarrow> bool" where
  "known_compatibility v \<longleftrightarrow> v \<in> set [''compatible'', ''missing'', ''invalid'']"

definition node_limits :: "query_node \<Rightarrow> bool" where
  "node_limits n \<longleftrightarrow>
     length (str_chars (q_name n)) \<le> 200 \<and> filter_groups n \<le> 50
     \<and> length (languages n) \<le> 100 \<and> length (compatibilities n) \<le> 3"

definition dedup_values :: "choice_filter \<Rightarrow> choice_filter" where
  "dedup_values f = f\<lparr>cf_values := first_occurrences {} (cf_values f)\<rparr>"

definition normalize_fields :: "text_env \<Rightarrow> query_node \<Rightarrow> codec_error + query_node" where
  "normalize_fields env n =
     and_then (saved_text env (q_name n)) (\<lambda>name.
       let n = n\<lparr>q_name := name\<rparr> in
       if \<not> node_limits n then Inl Invalid
       else
         and_then (collect_results (saved_language env) (languages n)) (\<lambda>langs.
           let n = n\<lparr>languages := remdups_adj (sort langs)\<rparr> in
           if \<not> list_all known_compatibility (compatibilities n) then Inl Invalid
           else
             let n = n\<lparr>compatibilities := remdups_adj (sort (compatibilities n))\<rparr> in
             if list_ex (\<lambda>f. length (cf_values f) > 100) (choice_filters n) then Inl Invalid
             else Inr (n\<lparr>choice_filters := map dedup_values (choice_filters n)\<rparr>)))"

fun normalize_tree :: "text_env \<Rightarrow> query \<Rightarrow> nat \<Rightarrow> codec_error + query \<times> nat"
  and normalize_branches :: "text_env \<Rightarrow> query list \<Rightarrow> nat \<Rightarrow> codec_error + query list \<times> nat" where
  "normalize_tree env (Query n branches) remaining =
     and_then (query_budget remaining) (\<lambda>remaining.
     and_then (normalize_branches env branches remaining) (\<lambda>(branches, remaining).
     and_then (normalize_fields env n) (\<lambda>n. Inr (Query n branches, remaining))))"
| "normalize_branches env [] remaining = Inr ([], remaining)"
| "normalize_branches env (q # qs) remaining =
     and_then (normalize_tree env q remaining) (\<lambda>(q, remaining).
     and_then (normalize_branches env qs remaining) (\<lambda>(qs, remaining). Inr (q # qs, remaining)))"

subsection \<open>The canonical saved form\<close>

definition drop_ignored :: "query_node \<Rightarrow> query_node" where
  "drop_ignored n = n\<lparr>boolean_filters := filter (\<lambda>f. bf_state f \<noteq> ''ignored'') (boolean_filters n)\<rparr>"

definition sort_filters :: "query_node \<Rightarrow> query_node" where
  "sort_filters n =
     n\<lparr>boolean_filters := sort_key bf_definition (boolean_filters n),
       choice_filters := map (\<lambda>f. f\<lparr>cf_values := sort (cf_values f)\<rparr>)
         (sort_key cf_definition (choice_filters n))\<rparr>"

fun canonical_membership :: "text_env \<Rightarrow> query \<Rightarrow> nat \<Rightarrow> codec_error + query \<times> nat"
  and canonical_branches :: "text_env \<Rightarrow> query list \<Rightarrow> nat \<Rightarrow> codec_error + query list \<times> nat" where
  "canonical_membership env (Query n branches) remaining =
     and_then (query_budget remaining) (\<lambda>remaining.
     and_then (canonical_branches env branches remaining) (\<lambda>(branches, remaining).
     and_then (normalize_tree env (Query (drop_ignored n) branches) max_nodes) (\<lambda>(q, _).
       Inr (Query (sort_filters (root_node q)) (any_of q), remaining))))"
| "canonical_branches env [] remaining = Inr ([], remaining)"
| "canonical_branches env (q # qs) remaining =
     and_then (canonical_membership env q remaining) (\<lambda>(q, remaining).
     and_then (canonical_branches env qs remaining) (\<lambda>(qs, remaining). Inr (q # qs, remaining)))"

text \<open>The depth of the tree, which every pass preserves.\<close>

fun depth :: "query \<Rightarrow> nat" where
  "depth (Query n branches) = Suc (Max (set (0 # map depth branches)))"

lemma depth_branches: "q \<in> set branches \<Longrightarrow> depth q < depth (Query n branches)"
  by (simp add: less_Suc_eq_le)

lemma depth_cong: "map depth xs = map depth ys \<Longrightarrow> depth (Query n xs) = depth (Query m ys)"
  by simp

lemma normalize_depth:
  "normalize_tree env q remaining = Inr (q', r) \<Longrightarrow> depth q' = depth q"
  "normalize_branches env qs remaining = Inr (qs', r) \<Longrightarrow> map depth qs' = map depth qs"
proof (induction env q remaining and env qs remaining arbitrary: q' r and qs' r
    rule: normalize_tree_normalize_branches.induct)
  case (1 env n branches remaining)
  then obtain b r' branches' n' where b: "query_budget remaining = Inr b"
    and "normalize_branches env branches b = Inr (branches', r')" and q': "q' = Query n' branches'"
    by (auto simp: result_iffs)
  with "1.IH" have "map depth branches' = map depth branches" by blast
  then show ?case unfolding q' by (rule depth_cong)
next
  case (2 env remaining)
  then show ?case by simp
next
  case (3 env q qs remaining)
  then obtain h r1 t r2 where h: "normalize_tree env q remaining = Inr (h, r1)"
    and t: "normalize_branches env qs r1 = Inr (t, r2)" and qs': "qs' = h # t"
    by (auto simp: result_iffs)
  from "3.IH"(1)[OF h] "3.IH"(2)[OF t] show ?case by (simp add: qs')
qed

lemma canonical_depth:
  "canonical_membership env q remaining = Inr (q', r) \<Longrightarrow> depth q' = depth q"
  "canonical_branches env qs remaining = Inr (qs', r) \<Longrightarrow> map depth qs' = map depth qs"
proof (induction env q remaining and env qs remaining arbitrary: q' r and qs' r
    rule: canonical_membership_canonical_branches.induct)
  case (1 env n branches remaining)
  then obtain b r' branches' q r'' where b: "query_budget remaining = Inr b"
    and c: "canonical_branches env branches b = Inr (branches', r')"
    and q: "normalize_tree env (Query (drop_ignored n) branches') max_nodes = Inr (q, r'')"
    and q': "q' = Query (sort_filters (root_node q)) (any_of q)"
    by (auto simp: result_iffs)
  from "1.IH"[OF c] have "map depth branches' = map depth branches" .
  moreover from normalize_depth(1)[OF q] have "depth q = depth (Query n branches')" by simp
  ultimately have "depth q = depth (Query n branches)" using depth_cong by metis
  then show ?case unfolding q' by (cases q) simp
next
  case (2 env remaining)
  then show ?case by simp
next
  case (3 env q qs remaining)
  then obtain h r1 t r2 where h: "canonical_membership env q remaining = Inr (h, r1)"
    and t: "canonical_branches env qs r1 = Inr (t, r2)" and qs': "qs' = h # t"
    by (auto simp: result_iffs)
  from "3.IH"(1)[OF h] "3.IH"(2)[OF t] show ?case by (simp add: qs')
qed

end
