(* ===== verification/Query_Saved.thy ===== *)
theory Query_Saved
  imports Query_Canonical
begin

section \<open>Saved queries\<close>

text \<open>
  The canonical saved form of a query (\<open>canonical_saved\<close>), what every pass keeps of the
  references of a node, and what the validation of references decides. \<open>nodes\<close> lists the nodes
  of a query in the order in which the passes reach them.
\<close>

subsection \<open>The nodes of a query\<close>

fun nodes :: "query \<Rightarrow> query_node list" where
  "nodes (Query n branches) = n # concat (map nodes branches)"

definition active :: "query_node \<Rightarrow> boolean_filter list" where
  "active n = filter (\<lambda>f. bf_state f \<noteq> ''ignored'') (boolean_filters n)"

definition boolean_ok :: "boolean_filter \<Rightarrow> bool" where
  "boolean_ok f \<longleftrightarrow> 0 < bf_definition f \<and> bf_state f \<in> set [''ignored'', ''true'', ''false'']"

definition choice_ok :: "choice_filter \<Rightarrow> bool" where
  "choice_ok f \<longleftrightarrow> 0 < cf_definition f \<and> cf_values f \<noteq> [] \<and> (\<forall>v \<in> set (cf_values f). 0 < v)"

text \<open>What the validation of references demands of one node.\<close>

definition node_ok :: "bool \<Rightarrow> query_node \<Rightarrow> bool" where
  "node_ok current n \<longleftrightarrow>
     saved_flags_ok current n
     \<and> (\<forall>f \<in> set (boolean_filters n). boolean_ok f)
     \<and> (\<forall>f \<in> set (choice_filters n). choice_ok f)
     \<and> distinct (map bf_definition (active n) @ map cf_definition (choice_filters n))"

lemma query_budget_Ok_iff: "query_budget r = Inr r' \<longleftrightarrow> r = Suc r'"
  by (cases r) (auto simp: query_budget_def)

lemma check_booleans_Ok_iff:
  "check_booleans ids fs = Inr ids' \<longleftrightarrow>
     (\<forall>f \<in> set fs. boolean_ok f)
     \<and> distinct (map bf_definition (filter (\<lambda>f. bf_state f \<noteq> ''ignored'') fs))
     \<and> ids \<inter> bf_definition ` set (filter (\<lambda>f. bf_state f \<noteq> ''ignored'') fs) = {}
     \<and> ids' = ids \<union> bf_definition ` set (filter (\<lambda>f. bf_state f \<noteq> ''ignored'') fs)"
proof (induction fs arbitrary: ids)
  case Nil
  then show ?case by auto
next
  case (Cons f fs)
  consider "\<not> boolean_ok f" | "boolean_ok f" "bf_state f = ''ignored''"
    | "boolean_ok f" "bf_state f \<noteq> ''ignored''" by blast
  then show ?case
  proof cases
    case 1
    then have "check_booleans ids (f # fs) = Inl Invalid" by (auto simp: boolean_ok_def)
    with 1 show ?thesis by simp
  next
    case 2
    then have "check_booleans ids (f # fs) = check_booleans ids fs" by (auto simp: boolean_ok_def)
    with 2 Cons.IH show ?thesis by simp
  next
    case 3
    then have "check_booleans ids (f # fs) = (if bf_definition f \<in> ids then Inl Invalid
        else check_booleans (insert (bf_definition f) ids) fs)" by (auto simp: boolean_ok_def)
    with 3 Cons.IH show ?thesis by auto
  qed
qed

lemma check_choices_Ok_iff:
  "(\<exists>ids'. check_choices ids fs = Inr ids') \<longleftrightarrow>
     (\<forall>f \<in> set fs. choice_ok f) \<and> distinct (map cf_definition fs) \<and> ids \<inter> cf_definition ` set fs = {}"
proof (induction fs arbitrary: ids)
  case Nil
  then show ?case by simp
next
  case (Cons f fs)
  have "check_choices ids (f # fs) =
      (if choice_ok f \<and> cf_definition f \<notin> ids then check_choices (insert (cf_definition f) ids) fs
       else Inl Invalid)"
    by (auto simp: choice_ok_def list_ex_iff not_le)
  with Cons.IH show ?case by auto
qed

lemma check_filters_Ok_iff:
  "(\<exists>ids'. and_then (check_booleans {} (boolean_filters n)) (\<lambda>ids. check_choices ids (choice_filters n)) = Inr ids')
     \<and> saved_flags_ok current n \<longleftrightarrow> node_ok current n"
  by (auto simp: and_then_Ok_iff check_booleans_Ok_iff check_choices_Ok_iff node_ok_def active_def)

lemma validate_Ok_iff:
  "validate_references q r current = Inr r' \<longleftrightarrow>
     (\<forall>n \<in> set (nodes q). node_ok current n) \<and> r = length (nodes q) + r'"
  "validate_branches qs r current = Inr r' \<longleftrightarrow>
     (\<forall>n \<in> set (concat (map nodes qs)). node_ok current n) \<and> r = length (concat (map nodes qs)) + r'"
proof (induction q r current and qs r current arbitrary: r' and r'
    rule: validate_references_validate_branches.induct)
  case (1 n branches r current)
  have "validate_references (Query n branches) r current = Inr r' \<longleftrightarrow>
      (\<exists>b. query_budget r = Inr b \<and> saved_flags_ok current n
        \<and> (\<exists>ids'. and_then (check_booleans {} (boolean_filters n)) (\<lambda>ids. check_choices ids (choice_filters n)) = Inr ids')
        \<and> validate_branches branches b current = Inr r')"
    by (auto simp: and_then_Ok_iff)
  also have "\<dots> \<longleftrightarrow> (\<exists>b. r = Suc b \<and> node_ok current n \<and> validate_branches branches b current = Inr r')"
    using check_filters_Ok_iff query_budget_Ok_iff by metis
  finally show ?case using "1.IH" by (cases "saved_flags_ok current n") (auto simp: node_ok_def)
next
  case (2 r current)
  then show ?case by auto
next
  case (3 q qs r current)
  then show ?case by (auto simp: and_then_Ok_iff)
qed

lemma check_booleans_Err: "check_booleans ids fs = Inl e \<Longrightarrow> e = Invalid"
  by (induction ids fs rule: check_booleans.induct) (auto split: if_splits)

lemma check_choices_Err: "check_choices ids fs = Inl e \<Longrightarrow> e = Invalid"
  by (induction ids fs rule: check_choices.induct) (auto split: if_splits)

lemma validate_Err:
  "validate_references q r current = Inl e \<Longrightarrow> e = Invalid"
  "validate_branches qs r current = Inl e \<Longrightarrow> e = Invalid"
  by (induction q r current and qs r current rule: validate_references_validate_branches.induct)
    (auto simp: and_then_Err_iff query_budget_def dest: check_booleans_Err check_choices_Err
      split: if_splits)

text \<open>C23: The validation of saved references accepts a query exactly when every node of the
  tree has known flags (empty in the current version), positive definition identities, known
  states, nonempty positive choice values and no definition used by two active filters of the
  node, and the tree has no more nodes than the budget; what is left is the budget less the nodes.\<close>

theorem validate_references_correct:
  "validate_references q remaining current =
     (if list_all (node_ok current) (nodes q) \<and> length (nodes q) \<le> remaining
      then Inr (remaining - length (nodes q)) else Inl Invalid)"
proof (cases "validate_references q remaining current")
  case (Inl e)
  then have "\<not> (\<exists>r'. validate_references q remaining current = Inr r')" by simp
  then have "\<not> ((\<forall>n \<in> set (nodes q). node_ok current n) \<and> length (nodes q) \<le> remaining)"
    unfolding validate_Ok_iff(1) by (metis le_add_diff_inverse)
  moreover from Inl have "e = Invalid" by (rule validate_Err(1))
  ultimately show ?thesis using Inl by (auto simp: list_all_iff)
next
  case (Inr r')
  then show ?thesis using validate_Ok_iff(1)[of q remaining current r'] by (auto simp: list_all_iff)
qed

subsection \<open>The canonical saved form\<close>

lemma and_then_cong [fundef_cong]:
  "r = r' \<Longrightarrow> (\<And>x. r' = Inr x \<Longrightarrow> f x = g x) \<Longrightarrow> and_then r f = and_then r' g"
  by (cases r') auto

lemma collect_results_cong [fundef_cong]:
  "xs = ys \<Longrightarrow> (\<And>x. x \<in> set ys \<Longrightarrow> f x = g x) \<Longrightarrow> collect_results f xs = collect_results g ys"
  by (induction ys arbitrary: xs) auto

function canonical_saved :: "text_env \<Rightarrow> query \<Rightarrow> codec_error + query" where
  "canonical_saved env q =
     and_then (canonical_membership env q max_nodes) (\<lambda>(q', _).
     and_then (collect_results (canonical_saved env) (any_of q')) (\<lambda>branches.
       Inr (Query (root_node q') branches)))"
  by pat_completeness auto
termination
proof (relation "measure (depth \<circ> snd)", goal_cases)
  case (2 env q x q' r b)
  then have "depth q' = depth q" using canonical_depth(1) by auto
  with 2 depth_branches[of b "any_of q'" "root_node q'"] show ?case by simp
qed simp

declare canonical_saved.simps [simp del]

text \<open>What the passes keep of the references of a node: its flags, its active Boolean filters
  and, for every choice, the definition and the set of values.\<close>

definition choice_reference :: "choice_filter \<Rightarrow> i64 \<times> i64 set" where
  "choice_reference f = (cf_definition f, set (cf_values f))"

definition keeps_references :: "query_node \<Rightarrow> query_node \<Rightarrow> bool" where
  "keeps_references n n' \<longleftrightarrow>
     include_broken n' = include_broken n \<and> broken_visibility n' = broken_visibility n
     \<and> broken_state n' = broken_state n
     \<and> set (boolean_filters n') \<subseteq> set (boolean_filters n)
     \<and> mset (active n') = mset (active n)
     \<and> mset (map choice_reference (choice_filters n')) = mset (map choice_reference (choice_filters n))"

lemma keeps_references_refl: "keeps_references n n"
  by (simp add: keeps_references_def)

lemma keeps_references_trans:
  "keeps_references a b \<Longrightarrow> keeps_references b c \<Longrightarrow> keeps_references a c"
  by (auto simp: keeps_references_def)

text \<open>A node in the canonical saved form.\<close>

definition canonical_node :: "query_node \<Rightarrow> bool" where
  "canonical_node n \<longleftrightarrow>
     active n = boolean_filters n
     \<and> sorted (map bf_definition (boolean_filters n))
     \<and> sorted (map cf_definition (choice_filters n))
     \<and> (\<forall>f \<in> set (choice_filters n). sorted_wrt (<) (cf_values f) \<and> length (cf_values f) \<le> 100)
     \<and> sorted_wrt (<) (languages n)
     \<and> sorted_wrt (<) (compatibilities n) \<and> list_all known_compatibility (compatibilities n)"

lemma normalize_fields_keeps:
  assumes "normalize_fields env n = Inr n'"
  shows "keeps_references n n'"
proof -
  from assms have "boolean_filters n' = boolean_filters n"
    and c: "choice_filters n' = map dedup_values (choice_filters n)"
    and "include_broken n' = include_broken n" "broken_visibility n' = broken_visibility n"
    "broken_state n' = broken_state n"
    by (auto simp: normalize_fields_def and_then_Ok_iff Let_def split: if_splits)
  moreover have "choice_reference \<circ> dedup_values = choice_reference"
    by (auto simp: choice_reference_def dedup_values_def)
  ultimately show ?thesis by (simp add: keeps_references_def active_def)
qed

lemma normalize_fields_lists:
  assumes "normalize_fields env n = Inr n'"
  shows "sorted_wrt (<) (languages n')" "sorted_wrt (<) (compatibilities n')"
    "list_all known_compatibility (compatibilities n')"
    "\<forall>f \<in> set (choice_filters n'). distinct (cf_values f) \<and> length (cf_values f) \<le> 100"
    "boolean_filters n' = boolean_filters n"
  using assms
  by (auto simp: normalize_fields_def and_then_Ok_iff Let_def dedup_sort dedup_values_def
      list_all_iff list_ex_iff not_less split: if_splits)
    (meson length_first_occurrences_le order_trans)

text \<open>The lifting of a relation on nodes to the two node lists of a pass.\<close>

abbreviation keeps :: "query_node list \<Rightarrow> query_node list \<Rightarrow> bool" where
  "keeps \<equiv> list_all2 keeps_references"

lemma keeps_trans: "keeps xs ys \<Longrightarrow> keeps ys zs \<Longrightarrow> keeps xs zs"
  by (rule list_all2_trans[OF keeps_references_trans])

lemma keeps_refl: "keeps xs xs"
  by (rule list_all2_refl[OF keeps_references_refl])

lemma normalize_tree_keeps:
  "normalize_tree env q r = Inr (q', r') \<Longrightarrow>
     keeps (nodes q) (nodes q') \<and> r = length (nodes q) + r'"
  "normalize_branches env qs r = Inr (qs', r') \<Longrightarrow>
     keeps (concat (map nodes qs)) (concat (map nodes qs'))
     \<and> r = length (concat (map nodes qs)) + r'"
proof (induction env q r and env qs r arbitrary: q' r' and qs' r'
    rule: normalize_tree_normalize_branches.induct)
  case (1 env n branches r)
  then obtain b branches' n' where b: "query_budget r = Inr b"
    and bs: "normalize_branches env branches b = Inr (branches', r')"
    and n': "normalize_fields env n = Inr n'" and q': "q' = Query n' branches'"
    by (auto simp: and_then_Ok_iff)
  from "1.IH"[OF bs] b normalize_fields_keeps[OF n'] show ?case
    by (simp add: q' query_budget_Ok_iff)
next
  case (2 env r)
  then show ?case by simp
next
  case (3 env q qs r)
  then obtain h r1 t where h: "normalize_tree env q r = Inr (h, r1)"
    and t: "normalize_branches env qs r1 = Inr (t, r')" and qs': "qs' = h # t"
    by (auto simp: and_then_Ok_iff)
  from "3.IH"(1)[OF h] "3.IH"(2)[OF t] show ?case
    by (simp add: qs' list_all2_appendI)
qed

lemma drop_ignored_keeps: "keeps_references n (drop_ignored n)"
  by (auto simp: keeps_references_def drop_ignored_def active_def)

lemma sort_filters_keeps: "keeps_references n (sort_filters n)"
proof -
  have "choice_reference \<circ> (\<lambda>f. f\<lparr>cf_values := sort (cf_values f)\<rparr>) = choice_reference"
    by (auto simp: choice_reference_def)
  then show ?thesis
    by (simp add: keeps_references_def sort_filters_def active_def mset_filter)
qed

lemma canonical_membership_keeps:
  "canonical_membership env q r = Inr (q', r') \<Longrightarrow>
     keeps (nodes q) (nodes q') \<and> r = length (nodes q) + r'"
  "canonical_branches env qs r = Inr (qs', r') \<Longrightarrow>
     keeps (concat (map nodes qs)) (concat (map nodes qs'))
     \<and> r = length (concat (map nodes qs)) + r'"
proof (induction env q r and env qs r arbitrary: q' r' and qs' r'
    rule: canonical_membership_canonical_branches.induct)
  case (1 env n branches r)
  then obtain b branches' p s where b: "query_budget r = Inr b"
    and bs: "canonical_branches env branches b = Inr (branches', r')"
    and p: "normalize_tree env (Query (drop_ignored n) branches') max_nodes = Inr (p, s)"
    and q': "q' = Query (sort_filters (root_node p)) (any_of p)"
    by (auto simp: and_then_Ok_iff)
  from "1.IH"[OF bs] drop_ignored_keeps[of n]
  have "keeps (nodes (Query n branches)) (nodes (Query (drop_ignored n) branches'))" by simp
  moreover have "keeps (nodes (Query (drop_ignored n) branches')) (nodes p)"
    using normalize_tree_keeps(1)[OF p] by blast
  moreover have "keeps (nodes p) (nodes q')"
    using sort_filters_keeps[of "root_node p"] keeps_refl by (cases p) (simp add: q')
  ultimately have "keeps (nodes (Query n branches)) (nodes q')" using keeps_trans by blast
  then show ?case using "1.IH"[OF bs] b by (simp add: query_budget_Ok_iff)
next
  case (2 env r)
  then show ?case by simp
next
  case (3 env q qs r)
  then obtain h r1 t where h: "canonical_membership env q r = Inr (h, r1)"
    and t: "canonical_branches env qs r1 = Inr (t, r')" and qs': "qs' = h # t"
    by (auto simp: and_then_Ok_iff)
  from "3.IH"(1)[OF h] "3.IH"(2)[OF t] show ?case
    by (simp add: qs' list_all2_appendI)
qed

lemma canonical_membership_root:
  assumes "canonical_membership env q r = Inr (q', r')"
  shows "canonical_node (root_node q')"
proof (cases q)
  case (Query n branches)
  with assms obtain branches' p s where
    p: "normalize_tree env (Query (drop_ignored n) branches') max_nodes = Inr (p, s)"
    and q': "q' = Query (sort_filters (root_node p)) (any_of p)"
    by (auto simp: and_then_Ok_iff Query simp del: normalize_tree.simps)
  from p obtain n' where n': "normalize_fields env (drop_ignored n) = Inr n'" and "root_node p = n'"
    by (auto simp: and_then_Ok_iff)
  with q' have "root_node q' = sort_filters n'" by simp
  with normalize_fields_lists[OF n'] show ?thesis
    by (auto simp: canonical_node_def sort_filters_def active_def drop_ignored_def filter_id_conv
        strict_sorted_iff comp_def)
qed

lemma canonical_saved_Ok_iff:
  "canonical_saved env q = Inr q' \<longleftrightarrow>
     (\<exists>p r branches. canonical_membership env q max_nodes = Inr (p, r)
        \<and> list_all2 (\<lambda>b b'. canonical_saved env b = Inr b') (any_of p) branches
        \<and> q' = Query (root_node p) branches)"
  by (subst canonical_saved.simps) (auto simp: and_then_Ok_iff collect_results_Ok_iff)

lemma canonical_saved_keeps:
  assumes "canonical_saved env q = Inr q'"
  shows "keeps (nodes q) (nodes q') \<and> length (nodes q) \<le> max_nodes
    \<and> (\<forall>n \<in> set (nodes q'). canonical_node n)"
  using assms
proof (induction env q arbitrary: q' rule: canonical_saved.induct)
  case (1 env q)
  from "1.prems" obtain p r branches where p: "canonical_membership env q max_nodes = Inr (p, r)"
    and bs: "list_all2 (\<lambda>b b'. canonical_saved env b = Inr b') (any_of p) branches"
    and q': "q' = Query (root_node p) branches"
    using canonical_saved_Ok_iff[THEN iffD1] by blast
  from bs have all: "list_all2 (\<lambda>b b'. keeps (nodes b) (nodes b')
      \<and> (\<forall>n \<in> set (nodes b'). canonical_node n)) (any_of p) branches"
    by (rule list.rel_mono_strong) (use "1.IH"[OF p refl] in blast)
  then have "keeps (concat (map nodes (any_of p))) (concat (map nodes branches))"
    by (induction rule: list_all2_induct) (auto intro: list_all2_appendI)
  with keeps_references_refl have "keeps (nodes p) (nodes q')" by (cases p) (simp add: q')
  moreover from all have "\<forall>b' \<in> set branches. \<forall>n \<in> set (nodes b'). canonical_node n"
    by (induction rule: list_all2_induct) simp_all
  ultimately show ?case
    using canonical_membership_keeps(1)[OF p] canonical_membership_root[OF p] keeps_trans
    by (auto simp: q')
qed

text \<open>The references of a node decide its validity, apart from the ignored filters.\<close>

lemma keeps_references_node_ok:
  assumes keeps: "keeps_references n n'" and ok: "node_ok current n"
  shows "node_ok current n'"
proof -
  from keeps have flags: "saved_flags_ok current n' = saved_flags_ok current n"
    by (simp add: keeps_references_def saved_flags_ok_def)
  from keeps have choices: "choice_reference ` set (choice_filters n') = choice_reference ` set (choice_filters n)"
    unfolding keeps_references_def by (metis mset_eq_setD list.set_map)
  have "\<forall>f \<in> set (choice_filters n'). choice_ok f"
  proof
    fix f assume "f \<in> set (choice_filters n')"
    then have "choice_reference f \<in> choice_reference ` set (choice_filters n)" using choices by blast
    then obtain g where "g \<in> set (choice_filters n)" "choice_reference f = choice_reference g" by blast
    with ok show "choice_ok f" by (auto simp: node_ok_def choice_ok_def choice_reference_def)
  qed
  moreover have "mset (map bf_definition (active n') @ map cf_definition (choice_filters n'))
      = mset (map bf_definition (active n) @ map cf_definition (choice_filters n))"
  proof -
    have d: "map cf_definition fs = map fst (map choice_reference fs)" for fs
      by (simp add: choice_reference_def)
    show ?thesis using keeps unfolding d keeps_references_def mset_append mset_map by simp
  qed
  then have "distinct (map bf_definition (active n') @ map cf_definition (choice_filters n'))"
    using ok mset_eq_imp_distinct_iff unfolding node_ok_def by blast
  moreover have "\<forall>f \<in> set (boolean_filters n'). boolean_ok f"
    using ok keeps unfolding node_ok_def keeps_references_def by blast
  ultimately show ?thesis using ok flags unfolding node_ok_def by blast
qed

lemma keeps_all:
  assumes "keeps xs ys" and "\<forall>n \<in> set xs. node_ok current n"
  shows "\<forall>n \<in> set ys. node_ok current n"
  using assms by (induction rule: list_all2_induct) (auto intro: keeps_references_node_ok)

end
