(* ===== verification/Query_Parser.thy ===== *)
theory Query_Parser
  imports Query_Data Json_Strings
begin

section \<open>The wire parser of saved queries\<close>

text \<open>
  \<open>Parser\<close> of \<open>collection_codec/mod.rs\<close>. Its state, the bytes and an offset, is the suffix of
  the input from the offset on: a method takes the suffix and returns its result with the suffix
  where it leaves the parser. The loops of the code are recursive functions. \<open>value\<close> calls
  itself for members and elements, so it takes fuel, and \<open>None\<close> means that the fuel ran out:
  \<open>parse_value_total\<close> shows that twice the length of the input is always enough. The key
  folding table and the number syntax of \<open>serde_json\<close> are the parameters \<open>lower_key\<close> and
  \<open>number_ok\<close>.
\<close>

definition wire_space_byte :: "char \<Rightarrow> bool" where
  "wire_space_byte b \<longleftrightarrow> b \<in> set [CHR '' '', CHR 0x09, CHR 0x0D, CHR 0x0A]"

definition space :: "string \<Rightarrow> string" where
  "space rest = dropWhile wire_space_byte rest"

definition take_byte :: "char \<Rightarrow> string \<Rightarrow> string option" where
  "take_byte byte rest = (case rest of [] \<Rightarrow> None | b # bs \<Rightarrow> if b = byte then Some bs else None)"

definition hex_escape :: "string \<Rightarrow> codec_error + nat \<times> string" where
  "hex_escape rest =
     (if length rest < 4 then Inl Invalid
      else case hex_fold 0 (take 4 rest) of
          None \<Rightarrow> Inl Invalid
        | Some v \<Rightarrow> Inr (v, drop 4 rest))"

text \<open>The scalar of a \<open>\u\<close> escape whose first digits are read; a low surrogate that does not
  follow leaves the parser behind the first escape.\<close>

definition low_surrogate :: "string \<Rightarrow> (nat \<times> string) option" where
  "low_surrogate rest =
     (case take_byte (CHR 0x5C) rest of
        None \<Rightarrow> None
      | Some r \<Rightarrow>
          (case take_byte (CHR ''u'') r of
             None \<Rightarrow> None
           | Some r \<Rightarrow>
               (case hex_escape r of
                  Inl _ \<Rightarrow> None
                | Inr (second, r) \<Rightarrow>
                    if 0xDC00 \<le> second \<and> second \<le> 0xDFFF then Some (second, r) else None)))"

definition from_u32 :: "nat \<Rightarrow> codec_error + nat" where
  "from_u32 v = (if is_scalar v then Inr v else Inl FrozenData)"

definition surrogate_escape :: "nat \<Rightarrow> string \<Rightarrow> codec_error + nat \<times> string" where
  "surrogate_escape first rest =
     (if 0xD800 \<le> first \<and> first \<le> 0xDBFF then
        (case low_surrogate rest of
           Some (second, r) \<Rightarrow>
             and_then (from_u32 (0x10000 + (first - 0xD800) * 1024 + second - 0xDC00)) (\<lambda>c. Inr (c, r))
         | None \<Rightarrow> Inr (replacement, rest))
      else if 0xDC00 \<le> first \<and> first \<le> 0xDFFF then Inr (replacement, rest)
      else and_then (from_u32 first) (\<lambda>c. Inr (c, rest)))"

definition escape :: "char \<Rightarrow> string \<Rightarrow> codec_error + nat \<times> string" where
  "escape escaped rest =
     (if escaped \<in> set [CHR 0x22, CHR 0x5C, CHR 0x2F] then Inr (of_char escaped, rest)
      else if escaped = CHR ''b'' then Inr (0x08, rest)
      else if escaped = CHR ''f'' then Inr (0x0C, rest)
      else if escaped = CHR ''n'' then Inr (0x0A, rest)
      else if escaped = CHR ''r'' then Inr (0x0D, rest)
      else if escaped = CHR ''t'' then Inr (0x09, rest)
      else if escaped = CHR ''u'' then
        and_then (hex_escape rest) (\<lambda>(first, rest). surrogate_escape first rest)
      else Inl Invalid)"

text \<open>A character outside ASCII, from its first byte on: one replacement for every byte that
  starts no complete sequence.\<close>

definition raw_width :: "char \<Rightarrow> nat" where
  "raw_width b =
     (if byte_in 0xC2 0xDF b then 2 else if byte_in 0xE0 0xEF b then 3
      else if byte_in 0xF0 0xF4 b then 4 else 0)"

definition raw_character :: "string \<Rightarrow> nat \<times> string" where
  "raw_character from_byte =
     (let width = raw_width (hd from_byte) in
      if width \<noteq> 0 \<and> width \<le> length from_byte \<and> valid_utf8 (take width from_byte)
      then (hd (str_chars (take width from_byte)), drop width from_byte)
      else (replacement, drop 1 from_byte))"

lemma hex_escape_length: "hex_escape rest = Inr (v, r) \<Longrightarrow> length r < length rest"
  by (auto simp: hex_escape_def split: if_splits option.splits)

lemma take_byte_Some_iff: "take_byte b rest = Some r \<longleftrightarrow> rest = b # r"
  by (auto simp: take_byte_def split: list.splits)

lemma low_surrogate_length: "low_surrogate rest = Some (v, r) \<Longrightarrow> length r < length rest"
  by (auto simp: low_surrogate_def take_byte_Some_iff
      split: option.splits sum.splits if_splits dest!: hex_escape_length)

lemma surrogate_escape_length: "surrogate_escape first rest = Inr (c, r) \<Longrightarrow> length r \<le> length rest"
  by (auto simp: surrogate_escape_def and_then_Ok_iff
      split: option.splits if_splits dest!: low_surrogate_length)

lemma escape_length: "escape b rest = Inr (c, r) \<Longrightarrow> length r \<le> length rest"
  by (fastforce simp: escape_def and_then_Ok_iff
      split: if_splits dest!: hex_escape_length surrogate_escape_length)

lemma raw_character_length: "length (snd (raw_character (b # rest))) \<le> length rest"
  by (auto simp: raw_character_def Let_def)

text \<open>The loop of \<open>string\<close> behind the opening quote.\<close>

function string_chars :: "string \<Rightarrow> codec_error + nat list \<times> string" where
  "string_chars rest =
     (case rest of
        [] \<Rightarrow> Inl Invalid
      | byte # after \<Rightarrow>
          if byte = CHR 0x22 then Inr ([], after)
          else if byte = CHR 0x5C then
            (case after of
               [] \<Rightarrow> Inl Invalid
             | escaped # after \<Rightarrow>
                 (case escape escaped after of
                    Inl e \<Rightarrow> Inl e
                  | Inr (c, after) \<Rightarrow> and_then (string_chars after) (\<lambda>(cs, after). Inr (c # cs, after))))
          else if byte_in 0 0x1F byte then Inl Invalid
          else if byte_in 0x20 0x7F byte then
            and_then (string_chars after) (\<lambda>(cs, after). Inr (of_char byte # cs, after))
          else
            and_then (string_chars (snd (raw_character rest)))
              (\<lambda>(cs, after). Inr (fst (raw_character rest) # cs, after)))"
  by pat_completeness auto
termination
  by (relation "measure length")
    (auto dest: escape_length simp: raw_character_length less_Suc_eq_le le_SucI)

declare string_chars.simps [simp del]

definition wire_string :: "string \<Rightarrow> codec_error + string \<times> string" where
  "wire_string rest =
     and_then (ok_or Invalid (take_byte (CHR 0x22) rest)) (\<lambda>rest.
     and_then (string_chars rest) (\<lambda>(cs, rest). Inr (str_of_chars cs, rest)))"

subsection \<open>Values\<close>

record codec_env =
  texts :: text_env
  lower_key :: "string \<Rightarrow> codec_error + string"
  number_ok :: "string \<Rightarrow> bool"
  to_json :: "query \<Rightarrow> codec_error + string"

type_synonym 'a parsed = "(codec_error + 'a \<times> string) option"

abbreviation failed :: "'a parsed" where
  "failed \<equiv> Some (Inl Invalid)"

definition bind_parsed :: "(codec_error + 'a) option \<Rightarrow> ('a \<Rightarrow> (codec_error + 'b) option) \<Rightarrow> (codec_error + 'b) option" where
  "bind_parsed r f = (case r of None \<Rightarrow> None | Some (Inl e) \<Rightarrow> Some (Inl e) | Some (Inr x) \<Rightarrow> f x)"

definition number_byte :: "char \<Rightarrow> bool" where
  "number_byte c \<longleftrightarrow> is_ascii_digit c \<or> c \<in> set [CHR ''-'', CHR ''+'', CHR ''.'', CHR ''e'', CHR ''E'']"

definition wire_number :: "codec_env \<Rightarrow> string \<Rightarrow> codec_error + wire \<times> string" where
  "wire_number env rest =
     (let raw = takeWhile number_byte rest in
      if number_ok env raw then Inr (WNumber raw, dropWhile number_byte rest) else Inl Invalid)"

fun wire_literal :: "(string \<times> wire) list \<Rightarrow> string \<Rightarrow> codec_error + wire \<times> string" where
  "wire_literal [] rest = Inl Invalid"
| "wire_literal ((literal, v) # others) rest =
     (if starts_with literal rest then Inr (v, drop (length literal) rest) else wire_literal others rest)"

definition literals :: "(string \<times> wire) list" where
  "literals = [(''null'', WNull), (''true'', WBool True), (''false'', WBool False)]"

fun parse_value :: "codec_env \<Rightarrow> nat \<Rightarrow> nat \<Rightarrow> string \<Rightarrow> wire parsed"
  and parse_fields :: "codec_env \<Rightarrow> nat \<Rightarrow> nat \<Rightarrow> string set \<Rightarrow> string \<Rightarrow> (string \<times> wire) list parsed"
  and parse_elements :: "codec_env \<Rightarrow> nat \<Rightarrow> nat \<Rightarrow> string \<Rightarrow> wire list parsed" where
  "parse_value env 0 depth rest = None"
| "parse_value env (Suc fuel) depth rest =
     (if 128 < depth then failed
      else case space rest of
          [] \<Rightarrow> failed
        | b # after \<Rightarrow>
            if b = CHR 0x22 then
              Some (and_then (wire_string (b # after)) (\<lambda>(s, rest). Inr (WString s, rest)))
            else if b = CHR ''{'' then
              (case take_byte (CHR ''}'') (space after) of
                 Some rest \<Rightarrow> Some (Inr (WObject [], rest))
               | None \<Rightarrow> bind_parsed (parse_fields env fuel depth {} (space after))
                   (\<lambda>(fs, rest). Some (Inr (WObject fs, rest))))
            else if b = CHR ''['' then
              (case take_byte (CHR '']'') (space after) of
                 Some rest \<Rightarrow> Some (Inr (WArray [], rest))
               | None \<Rightarrow> bind_parsed (parse_elements env fuel depth (space after))
                   (\<lambda>(vs, rest). Some (Inr (WArray vs, rest))))
            else if b = CHR ''-'' \<or> is_ascii_digit b then Some (wire_number env (b # after))
            else Some (wire_literal literals (b # after)))"
| "parse_fields env 0 depth seen rest = None"
| "parse_fields env (Suc fuel) depth seen rest =
     bind_parsed (Some (wire_string (space rest))) (\<lambda>(key, rest).
     bind_parsed (Some (lower_key env key)) (\<lambda>folded.
       if folded \<in> seen then failed
       else case take_byte (CHR '':'') (space rest) of
           None \<Rightarrow> failed
         | Some rest \<Rightarrow>
             bind_parsed (parse_value env fuel (depth + 1) rest) (\<lambda>(v, rest).
               case take_byte (CHR ''}'') (space rest) of
                 Some rest \<Rightarrow> Some (Inr ([(key, v)], rest))
               | None \<Rightarrow>
                   (case take_byte (CHR '','') (space rest) of
                      None \<Rightarrow> failed
                    | Some rest \<Rightarrow>
                        bind_parsed (parse_fields env fuel depth (insert folded seen) rest)
                          (\<lambda>(fs, rest). Some (Inr ((key, v) # fs, rest)))))))"
| "parse_elements env 0 depth rest = None"
| "parse_elements env (Suc fuel) depth rest =
     bind_parsed (parse_value env fuel (depth + 1) rest) (\<lambda>(v, rest).
       case take_byte (CHR '']'') (space rest) of
         Some rest \<Rightarrow> Some (Inr ([v], rest))
       | None \<Rightarrow>
           (case take_byte (CHR '','') (space rest) of
              None \<Rightarrow> failed
            | Some rest \<Rightarrow>
                bind_parsed (parse_elements env fuel depth rest)
                  (\<lambda>(vs, rest). Some (Inr (v # vs, rest)))))"

lemma bind_parsed_Ok_iff:
  "bind_parsed r f = Some (Inr y) \<longleftrightarrow> (\<exists>x. r = Some (Inr x) \<and> f x = Some (Inr y))"
  by (auto simp: bind_parsed_def split: option.splits sum.splits)

lemma bind_parsed_None_iff:
  "bind_parsed r f = None \<longleftrightarrow> r = None \<or> (\<exists>x. r = Some (Inr x) \<and> f x = None)"
  by (auto simp: bind_parsed_def split: option.splits sum.splits)

subsection \<open>Progress\<close>

lemma space_length: "length (space rest) \<le> length rest"
  by (simp add: space_def length_dropWhile_le)

lemma string_chars_length: "string_chars rest = Inr (cs, r) \<Longrightarrow> length r < length rest"
proof (induction rest arbitrary: cs r rule: length_induct)
  case (1 rest)
  show ?case
  proof (cases rest)
    case Nil
    with "1.prems" show ?thesis by (simp add: string_chars.simps)
  next
    case (Cons byte after)
    have "r = after \<or> (\<exists>rest' cs'. length rest' \<le> length after \<and> string_chars rest' = Inr (cs', r))"
    proof (cases "byte = CHR 0x5C")
      case True
      with "1.prems" Cons obtain escaped after' c after'' cs' where a: "after = escaped # after'"
        "escape escaped after' = Inr (c, after'')" and s: "string_chars after'' = Inr (cs', r)"
        by (subst (asm) string_chars.simps) (auto simp: and_then_Ok_iff split: list.splits sum.splits)
      with escape_length[OF a(2)] have "length after'' \<le> length after" by simp
      with s show ?thesis by blast
    next
      case False
      with "1.prems" Cons raw_character_length[of byte after] show ?thesis
        by (subst (asm) string_chars.simps) (auto simp: and_then_Ok_iff split: if_splits)
    qed
    with "1.IH" Cons show ?thesis by (auto simp: less_Suc_eq_le)
  qed
qed

lemma wire_string_length: "wire_string rest = Inr (s, r) \<Longrightarrow> length r + 1 < length rest"
  by (auto simp: wire_string_def and_then_Ok_iff ok_or_Ok_iff take_byte_Some_iff
      dest: string_chars_length)

lemma space_Cons_length: "space rest = b # r \<Longrightarrow> length r < length rest"
  using space_length[of rest] by simp

lemma wire_literal_length:
  "wire_literal ls rest = Inr (v, r) \<Longrightarrow> list_all (\<lambda>(l, _). l \<noteq> []) ls \<Longrightarrow> length r < length rest"
  by (induction ls rest rule: wire_literal.induct)
    (auto simp: starts_with_iff split: if_splits)

lemma wire_number_length:
  "wire_number env (b # rest) = Inr (v, r) \<Longrightarrow> b = CHR ''-'' \<or> is_ascii_digit b \<Longrightarrow> length r < length (b # rest)"
  by (auto simp: wire_number_def number_byte_def Let_def less_Suc_eq_le length_dropWhile_le
      split: if_splits)

lemma parse_fields_Ok:
  assumes "parse_fields env (Suc fuel) depth seen rest = Some (Inr (fs, r))"
  obtains key r1 folded r2 v r3 where
    "wire_string (space rest) = Inr (key, r1)" "lower_key env key = Inr folded" "folded \<notin> seen"
    "space r1 = CHR '':'' # r2" "parse_value env fuel (depth + 1) r2 = Some (Inr (v, r3))"
    "space r3 = CHR ''}'' # r \<and> fs = [(key, v)]
     \<or> (\<exists>r4 fs'. space r3 = CHR '','' # r4
          \<and> parse_fields env fuel depth (insert folded seen) r4 = Some (Inr (fs', r))
          \<and> fs = (key, v) # fs')"
  using assms
  by (auto simp: bind_parsed_Ok_iff take_byte_Some_iff split: if_splits option.splits)

lemma parse_elements_Ok:
  assumes "parse_elements env (Suc fuel) depth rest = Some (Inr (vs, r))"
  obtains v r3 where "parse_value env fuel (depth + 1) rest = Some (Inr (v, r3))"
    "space r3 = CHR '']'' # r \<and> vs = [v]
     \<or> (\<exists>r4 vs'. space r3 = CHR '','' # r4
          \<and> parse_elements env fuel depth r4 = Some (Inr (vs', r)) \<and> vs = v # vs')"
  using assms
  by (auto simp: bind_parsed_Ok_iff take_byte_Some_iff split: option.splits)

text \<open>The shapes of an accepted value.\<close>

lemma parse_value_Ok:
  assumes "parse_value env (Suc fuel) depth rest = Some (Inr (v, r))"
  obtains (scalar) b after where "space rest = b # after" "length r < length (b # after)"
      "depth \<le> 128" "(\<exists>s. v = WString s) \<or> (\<exists>n. v = WNumber n \<and> number_ok env n) \<or> v \<in> {WNull, WBool True, WBool False}"
    | (empty) b after c where "space rest = b # after" "space after = c # r" "depth \<le> 128"
      "v = WObject [] \<or> v = WArray []"
    | (fields) b after fs where "space rest = b # after" "depth \<le> 128"
      "parse_fields env fuel depth {} (space after) = Some (Inr (fs, r))" "v = WObject fs"
    | (elements) b after vs where "space rest = b # after" "depth \<le> 128"
      "parse_elements env fuel depth (space after) = Some (Inr (vs, r))" "v = WArray vs"
proof -
  from assms obtain b after where depth: "depth \<le> 128" and b: "space rest = b # after"
    by (auto split: if_splits list.splits)
  consider "b = CHR 0x22" | "b = CHR ''{''" | "b = CHR ''[''"
    | "b = CHR ''-'' \<or> is_ascii_digit b" "b \<noteq> CHR 0x22" "b \<noteq> CHR ''{''" "b \<noteq> CHR ''[''"
    | "\<not> (b = CHR ''-'' \<or> is_ascii_digit b)" "b \<noteq> CHR 0x22" "b \<noteq> CHR ''{''" "b \<noteq> CHR ''[''"
    by blast
  then show ?thesis
  proof cases
    case 1
    with assms depth b obtain s where "wire_string (b # after) = Inr (s, r)" "v = WString s"
      by (auto simp: and_then_Ok_iff)
    with scalar[OF b] depth wire_string_length[of "b # after" s r] show ?thesis by simp
  next
    case 2
    with assms depth b empty[OF b] fields[OF b] show ?thesis
      by (auto simp: bind_parsed_Ok_iff take_byte_Some_iff split: option.splits)
  next
    case 3
    with assms depth b empty[OF b] elements[OF b] show ?thesis
      by (auto simp: bind_parsed_Ok_iff take_byte_Some_iff split: option.splits)
  next
    case 4
    with assms depth b have w: "wire_number env (b # after) = Inr (v, r)" by simp
    then have "\<exists>n. v = WNumber n \<and> number_ok env n"
      by (auto simp: wire_number_def Let_def split: if_splits)
    with scalar[OF b] depth wire_number_length[OF w 4(1)] show ?thesis by blast
  next
    case 5
    with assms depth b have w: "wire_literal literals (b # after) = Inr (v, r)" by simp
    then have "v \<in> {WNull, WBool True, WBool False}"
      by (auto simp: literals_def split: if_splits)
    with scalar[OF b] depth wire_literal_length[OF w] show ?thesis by (simp add: literals_def)
  qed
qed

lemma parse_length:
  "\<forall>depth rest v r. parse_value env fuel depth rest = Some (Inr (v, r)) \<longrightarrow> length r < length rest"
  "\<forall>depth seen rest fs r. parse_fields env fuel depth seen rest = Some (Inr (fs, r)) \<longrightarrow> length r < length rest"
  "\<forall>depth rest vs r. parse_elements env fuel depth rest = Some (Inr (vs, r)) \<longrightarrow> length r < length rest"
proof (induction fuel)
  case (Suc fuel)
  {
    case 1
    show ?case
    proof (intro allI impI)
      fix depth rest v r
      assume "parse_value env (Suc fuel) depth rest = Some (Inr (v, r))"
      then show "length r < length rest"
      proof (cases rule: parse_value_Ok)
        case (scalar b after)
        then show ?thesis using space_length[of rest] by simp
      next
        case (empty b after c)
        then show ?thesis using space_length[of rest] space_length[of after] by simp
      next
        case (fields b after fs)
        with Suc.IH(2) have "length r < length (space after)" by blast
        with fields(1) show ?thesis using space_length[of rest] space_length[of after] by simp
      next
        case (elements b after vs)
        with Suc.IH(3) have "length r < length (space after)" by blast
        with elements(1) show ?thesis using space_length[of rest] space_length[of after] by simp
      qed
    qed
  next
    case 2
    show ?case
    proof (intro allI impI)
      fix depth seen rest fs r
      assume "parse_fields env (Suc fuel) depth seen rest = Some (Inr (fs, r))"
      then obtain key r1 folded r2 v r3 where k: "wire_string (space rest) = Inr (key, r1)"
        "space r1 = CHR '':'' # r2" and v: "parse_value env fuel (depth + 1) r2 = Some (Inr (v, r3))"
        and tl: "space r3 = CHR ''}'' # r \<and> fs = [(key, v)]
          \<or> (\<exists>r4 fs'. space r3 = CHR '','' # r4
          \<and> parse_fields env fuel depth (insert folded seen) r4 = Some (Inr (fs', r))
          \<and> fs = (key, v) # fs')"
        by (rule parse_fields_Ok)
      from wire_string_length[OF k(1)] space_length[of rest] space_Cons_length[OF k(2)]
      have "length r2 < length rest" by simp
      moreover from v Suc.IH(1) have "length r3 < length r2" by blast
      moreover from tl Suc.IH(2) have "length r < length r3" by (meson less_trans space_Cons_length)
      ultimately show "length r < length rest" by simp
    qed
  next
    case 3
    show ?case
    proof (intro allI impI)
      fix depth rest vs r
      assume "parse_elements env (Suc fuel) depth rest = Some (Inr (vs, r))"
      then obtain v r3 where v: "parse_value env fuel (depth + 1) rest = Some (Inr (v, r3))"
        and tl: "space r3 = CHR '']'' # r \<and> vs = [v]
        \<or> (\<exists>r4 vs'. space r3 = CHR '','' # r4
          \<and> parse_elements env fuel depth r4 = Some (Inr (vs', r)) \<and> vs = v # vs')"
        by (rule parse_elements_Ok)
      from v Suc.IH(1) have "length r3 < length rest" by blast
      moreover from tl Suc.IH(3) have "length r < length r3" by (meson less_trans space_Cons_length)
      ultimately show "length r < length rest" by simp
    qed
  }
qed simp_all

lemma parse_value_length: "parse_value env fuel depth rest = Some (Inr (v, r)) \<Longrightarrow> length r < length rest"
  using parse_length(1) by blast

text \<open>Fuel is never the reason for a result once it covers the recursion: a value needs two
  units for each byte that is left, a list of elements one more.\<close>

lemma parse_total:
  "\<forall>depth rest. 2 * length rest < fuel \<longrightarrow> parse_value env fuel depth rest \<noteq> None"
  "\<forall>depth seen rest. 2 * length rest < fuel \<longrightarrow> parse_fields env fuel depth seen rest \<noteq> None"
  "\<forall>depth rest. 2 * length rest + 1 < fuel \<longrightarrow> parse_elements env fuel depth rest \<noteq> None"
proof (induction fuel)
  case (Suc fuel)
  {
    case 1
    show ?case
    proof (intro allI impI)
      fix depth and rest :: string
      assume fuel: "2 * length rest < Suc fuel"
      show "parse_value env (Suc fuel) depth rest \<noteq> None"
      proof (cases "space rest")
        case (Cons b after)
        then have "length (space after) < length rest"
          using space_Cons_length[OF Cons] space_length[of after] by simp
        with fuel Suc.IH(2,3) have "parse_fields env fuel depth {} (space after) \<noteq> None"
          "parse_elements env fuel depth (space after) \<noteq> None" by auto
        with Cons show ?thesis
          by (auto simp: bind_parsed_None_iff simp del: not_None_eq split: option.splits)
      qed simp
    qed
  next
    case 2
    show ?case
    proof (intro allI impI)
      fix depth seen and rest :: string
      assume fuel: "2 * length rest < Suc fuel"
      have v: "parse_value env fuel (depth + 1) r2 \<noteq> None"
        if "wire_string (space rest) = Inr (key, r1)" "space r1 = c # r2" for key r1 c r2
      proof -
        from that wire_string_length[OF that(1)] space_length[of rest] space_Cons_length[OF that(2)]
        have "length r2 < length rest" by simp
        with fuel Suc.IH(1) show ?thesis by auto
      qed
      moreover have "parse_fields env fuel depth seen' r4 \<noteq> None"
        if "wire_string (space rest) = Inr (key, r1)" "space r1 = c # r2"
          "parse_value env fuel (depth + 1) r2 = Some (Inr (v, r3))" "space r3 = c' # r4"
        for key r1 c r2 v r3 c' r4 seen'
      proof -
        from wire_string_length[OF that(1)] space_length[of rest] space_Cons_length[OF that(2)]
          parse_value_length[OF that(3)] space_Cons_length[OF that(4)]
        have "length r4 < length rest" by simp
        with fuel Suc.IH(2) show ?thesis by auto
      qed
      ultimately show "parse_fields env (Suc fuel) depth seen rest \<noteq> None"
        by (auto simp: bind_parsed_None_iff take_byte_Some_iff simp del: not_None_eq
            split: option.splits if_splits)
    qed
  next
    case 3
    show ?case
    proof (intro allI impI)
      fix depth and rest :: string
      assume fuel: "2 * length rest + 1 < Suc fuel"
      with Suc.IH(1) have "parse_value env fuel (depth + 1) rest \<noteq> None" by auto
      moreover have "parse_elements env fuel depth r4 \<noteq> None"
        if "parse_value env fuel (depth + 1) rest = Some (Inr (v, r3))" "space r3 = c # r4" for v r3 c r4
      proof -
        from parse_value_length[OF that(1)] space_Cons_length[OF that(2)]
        have "length r4 < length rest" by simp
        with fuel Suc.IH(3) show ?thesis by auto
      qed
      ultimately show "parse_elements env (Suc fuel) depth rest \<noteq> None"
        by (auto simp: bind_parsed_None_iff take_byte_Some_iff simp del: not_None_eq
            split: option.splits)
    qed
  }
qed simp_all

end
