(* ===== verification/Query_Codec.thy ===== *)
theory Query_Codec
  imports Query_Saved Query_Parser "HOL-Library.Code_Target_Nat"
begin

section \<open>Decoding, migration and encoding of saved queries\<close>

text \<open>
  \<open>decode_payload\<close>, \<open>decode_references\<close>, \<open>decode\<close>, \<open>migrate\<close>, \<open>encode\<close> and \<open>payload\<close> of
  \<open>collection_codec/mod.rs\<close>. \<open>serde_json::to_string\<close> on the derived serializer is the
  parameter \<open>to_json\<close>; the escapes which \<open>payload\<close> adds to its output are modelled.
\<close>

definition max_bytes :: usize where
  "max_bytes = 262144"

definition is_object :: "wire \<Rightarrow> bool" where
  "is_object v = (case v of WObject _ \<Rightarrow> True | _ \<Rightarrow> False)"

definition parse_fuel :: "string \<Rightarrow> nat" where
  "parse_fuel input = Suc (2 * length input)"

definition decode_payload :: "codec_env \<Rightarrow> i64 \<Rightarrow> string \<Rightarrow> (codec_error + query) option" where
  "decode_payload env version input =
     (if version < 1 \<or> 5 < version then Some (Inl UnsupportedVersion)
      else if length input < 2 \<or> max_bytes < length input then Some (Inl Invalid)
      else bind_parsed (parse_value env (parse_fuel input) 0 input) (\<lambda>(v, rest).
        if space rest \<noteq> [] \<or> \<not> is_object v then Some (Inl Invalid)
        else Some (and_then (wire_query v (version = 1)) (\<lambda>q.
          and_then (validate_references q max_nodes (version = 5)) (\<lambda>_. Inr q)))))"

record references =
  ref_booleans :: "boolean_filter list"
  ref_choices :: "choice_filter list"

definition kept_boolean :: "i64 \<Rightarrow> i64 \<Rightarrow> boolean_filter \<Rightarrow> bool" where
  "kept_boolean version legacy f \<longleftrightarrow>
     bf_state f \<noteq> ''ignored'' \<and> \<not> (version < 4 \<and> legacy > 0 \<and> bf_definition f = legacy)"

fun collect_references :: "i64 \<Rightarrow> i64 \<Rightarrow> query \<Rightarrow> references \<Rightarrow> references"
  and collect_branches :: "i64 \<Rightarrow> i64 \<Rightarrow> query list \<Rightarrow> references \<Rightarrow> references" where
  "collect_references version legacy (Query n branches) refs =
     collect_branches version legacy branches
       (refs\<lparr>ref_booleans := ref_booleans refs @ filter (kept_boolean version legacy) (boolean_filters n),
         ref_choices := ref_choices refs @ choice_filters n\<rparr>)"
| "collect_branches version legacy [] refs = refs"
| "collect_branches version legacy (q # qs) refs =
     collect_branches version legacy qs (collect_references version legacy q refs)"

definition decode_references :: "codec_env \<Rightarrow> i64 \<Rightarrow> string \<Rightarrow> i64 \<Rightarrow> (codec_error + references) option" where
  "decode_references env version input legacy_id =
     bind_parsed (decode_payload env version input) (\<lambda>q.
       Some (Inr (collect_references version legacy_id q \<lparr>ref_booleans = [], ref_choices = []\<rparr>)))"

definition decode :: "codec_env \<Rightarrow> i64 \<Rightarrow> string \<Rightarrow> i64 \<Rightarrow> (codec_error + query) option" where
  "decode env version input legacy_id =
     bind_parsed (decode_payload env version input) (\<lambda>q.
       Some (canonical_saved (texts env) (retire version legacy_id q)))"

subsection \<open>Payloads\<close>

definition escaped_unit :: "nat \<Rightarrow> string" where
  "escaped_unit c =
     (if c = 0x3C then CHR 0x5C # ''u003c'' else if c = 0x3E then CHR 0x5C # ''u003e''
      else if c = 0x26 then CHR 0x5C # ''u0026'' else if c = 0x2028 then CHR 0x5C # ''u2028''
      else if c = 0x2029 then CHR 0x5C # ''u2029'' else encode_utf8 c)"

text \<open>The replacements of five distinct characters by ASCII text without them are one pass
  over the characters.\<close>

definition html_escape :: "string \<Rightarrow> string" where
  "html_escape s = concat (map escaped_unit (str_chars s))"

definition payload :: "codec_env \<Rightarrow> query \<Rightarrow> codec_error + string" where
  "payload env q =
     and_then (map_err (\<lambda>_. FrozenData) (to_json env q)) (\<lambda>json.
       let p = html_escape json in if max_bytes < length p then Inl Invalid else Inr p)"

definition migrate :: "codec_env \<Rightarrow> i64 \<Rightarrow> string \<Rightarrow> i64 \<Rightarrow> (codec_error + string \<times> query) option" where
  "migrate env version input legacy_id =
     bind_parsed (decode env version input legacy_id) (\<lambda>q. Some (
       and_then (canonical_saved (texts env) q) (\<lambda>q.
       and_then (validate_references q max_nodes True) (\<lambda>_.
       and_then (payload env q) (\<lambda>p. Inr (p, q))))))"

definition encode :: "codec_env \<Rightarrow> query \<Rightarrow> codec_error + string" where
  "encode env q =
     and_then (canonical_saved (texts env) q) (\<lambda>q.
     and_then (validate_references q max_nodes True) (\<lambda>_. payload env q))"

subsection \<open>Retirement\<close>

definition retire_node :: "i64 \<Rightarrow> i64 \<Rightarrow> query_node \<Rightarrow> query_node" where
  "retire_node version legacy_id n =
     (let n = (if version < 4 \<and> legacy_id > 0
               then n\<lparr>boolean_filters := filter (\<lambda>f. bf_definition f \<noteq> legacy_id) (boolean_filters n)\<rparr>
               else n)
      in if version < 5
         then n\<lparr>include_broken := False, broken_visibility := [], broken_state := []\<rparr> else n)"

lemma retire_Query:
  "retire version legacy_id (Query n branches) =
     Query (retire_node version legacy_id n) (map (retire version legacy_id) branches)"
  by (simp add: retire_node_def Let_def)

lemma nodes_retire: "nodes (retire version legacy_id q) = map (retire_node version legacy_id) (nodes q)"
proof (induction q)
  case (Query n branches)
  then have "map (nodes \<circ> retire version legacy_id) branches
      = map (\<lambda>q. map (retire_node version legacy_id) (nodes q)) branches" by simp
  then show ?case by (simp add: retire_Query map_concat comp_def del: retire.simps cong: map_cong)
qed

lemma distinct_filter_append:
  "distinct (map f (filter r xs) @ ds) \<Longrightarrow> distinct (map f (filter (\<lambda>x. p x \<and> r x) xs) @ ds)"
proof -
  have "distinct (map f ys @ ds) \<Longrightarrow> distinct (map f (filter p ys) @ ds)" for ys
    by (auto simp: distinct_map_filter)
  from this[of "filter r xs"] show "distinct (map f (filter r xs) @ ds) \<Longrightarrow> ?thesis"
    by (simp add: conj_commute)
qed

lemma retire_node_ok:
  assumes "node_ok (version = 5) n" "version \<le> 5"
  shows "node_ok True (retire_node version legacy_id n)"
  using assms distinct_filter_append[of bf_definition "\<lambda>f. bf_state f \<noteq> ''ignored''" "boolean_filters n"
      "map cf_definition (choice_filters n)" "\<lambda>f. bf_definition f \<noteq> legacy_id"]
  unfolding node_ok_def active_def retire_node_def saved_flags_ok_def Let_def
  by (auto simp del: distinct_append)

lemma decode_node_ok:
  assumes "decode env version input legacy_id = Some (Inr q)"
  shows "\<exists>p. canonical_saved (texts env) p = Inr q \<and> (\<forall>n \<in> set (nodes p). node_ok True n)"
proof -
  from assms obtain p where p: "decode_payload env version input = Some (Inr p)"
    and c: "canonical_saved (texts env) (retire version legacy_id p) = Inr q"
    by (auto simp: decode_def bind_parsed_Ok_iff)
  from p have "version \<le> 5" "\<forall>n \<in> set (nodes p). node_ok (version = 5) n"
    by (auto simp: decode_payload_def bind_parsed_Ok_iff and_then_Ok_iff validate_Ok_iff
        split: if_splits)
  then have "\<forall>n \<in> set (nodes (retire version legacy_id p)). node_ok True n"
    by (auto simp: nodes_retire intro: retire_node_ok)
  with c show ?thesis by blast
qed


text \<open>An environment in which every frozen table is the identity, for concrete inputs.\<close>

definition plain_env :: codec_env where
  "plain_env =
     \<lparr>texts = \<lparr>saved_text = Inr, runtime_text = Inr, saved_language = Inr, runtime_language = Inr\<rparr>,
      lower_key = Inr, number_ok = (\<lambda>raw. raw \<noteq> []), to_json = (\<lambda>_. Inr ''{}'')\<rparr>"

definition sample_saved :: string where
  "sample_saved =
     [CHR ''{'', CHR 0x22] @ ''booleanFilters'' @ [CHR 0x22] @ '':[{'' @ [CHR 0x22] @ ''definitionId'' @ [CHR 0x22]
     @ '':7,'' @ [CHR 0x22] @ ''state'' @ [CHR 0x22, CHR '':'', CHR 0x22] @ ''true'' @ [CHR 0x22] @ ''}]}''"

definition sample_query :: query where
  "sample_query =
     Query (node_empty\<lparr>boolean_filters := [\<lparr>bf_definition = 7, bf_state = ''true''\<rparr>]\<rparr>) []"

lemma decode_sample: "decode plain_env 5 sample_saved 0 = Some (Inr sample_query)"
  by code_simp


text \<open>C39: Reading a saved payload always returns: no input makes the wire parser run out of the
  fuel it is given.\<close>

theorem decode_payload_total: "decode_payload env version input \<noteq> None"
proof -
  have "parse_value env (parse_fuel input) 0 input \<noteq> None"
    using parse_total(1)[of "parse_fuel input" env] unfolding parse_fuel_def by blast
  then show ?thesis
    by (auto simp: decode_payload_def bind_parsed_None_iff simp del: not_None_eq split: if_splits)
qed

text \<open>Once a payload decodes, its migration can only fail in the second canonical pass or in
  the serialization: the final validation of references never rejects, because the canonical
  passes keep the references of every node.\<close>

theorem migrate_after_decode:
  assumes "decode env version input legacy_id = Some (Inr q)"
  shows "migrate env version input legacy_id =
    Some (and_then (canonical_saved (texts env) q) (\<lambda>q'.
      and_then (payload env q') (\<lambda>p. Inr (p, q'))))"
proof (cases "canonical_saved (texts env) q")
  case (Inl e)
  with assms show ?thesis by (simp add: migrate_def bind_parsed_def)
next
  case (Inr q')
  from decode_node_ok[OF assms] obtain p where c: "canonical_saved (texts env) p = Inr q"
    and ok: "\<forall>n \<in> set (nodes p). node_ok True n" by blast
  from canonical_saved_keeps[OF c] keeps_all ok have "\<forall>n \<in> set (nodes q). node_ok True n" by blast
  with canonical_saved_keeps[OF Inr] keeps_all have "\<forall>n \<in> set (nodes q'). node_ok True n" by blast
  moreover from canonical_saved_keeps[OF Inr] have "length (nodes q') \<le> max_nodes"
    using list_all2_lengthD[of keeps_references "nodes q" "nodes q'"] by simp
  ultimately obtain r where "validate_references q' max_nodes True = Inr r"
    using validate_Ok_iff(1)[of q' max_nodes True "max_nodes - length (nodes q')"] by auto
  with assms Inr show ?thesis by (simp add: migrate_def bind_parsed_def)
qed

theorem migrate_after_decode_witness:
  "migrate plain_env 5 sample_saved 0 =
    Some (and_then (canonical_saved (texts plain_env) sample_query) (\<lambda>q'.
      and_then (payload plain_env q') (\<lambda>p. Inr (p, q'))))"
  by (rule migrate_after_decode[OF decode_sample])

subsection \<open>Reference inspection\<close>

lemma collect_references_nodes:
  "collect_references version legacy q refs =
     refs\<lparr>ref_booleans := ref_booleans refs @ concat (map (filter (kept_boolean version legacy) \<circ> boolean_filters) (nodes q)),
       ref_choices := ref_choices refs @ concat (map choice_filters (nodes q))\<rparr>"
  "collect_branches version legacy qs refs =
     refs\<lparr>ref_booleans := ref_booleans refs @ concat (map (filter (kept_boolean version legacy) \<circ> boolean_filters) (concat (map nodes qs))),
       ref_choices := ref_choices refs @ concat (map choice_filters (concat (map nodes qs)))\<rparr>"
  by (induction version legacy q refs and version legacy qs refs
      rule: collect_references_collect_branches.induct) simp_all

lemma active_retire_node:
  "active (retire_node version legacy n) = filter (kept_boolean version legacy) (boolean_filters n)"
  by (auto simp: active_def retire_node_def kept_boolean_def Let_def intro!: filter_cong)

lemma keeps_booleans:
  "keeps xs ys \<Longrightarrow> mset (concat (map active xs)) = mset (concat (map active ys))"
  by (induction rule: list_all2_induct) (auto simp: keeps_references_def)

lemma keeps_choices:
  "keeps xs ys \<Longrightarrow> mset (map choice_reference (concat (map choice_filters xs)))
     = mset (map choice_reference (concat (map choice_filters ys)))"
  by (induction rule: list_all2_induct) (auto simp: keeps_references_def)

text \<open>C38: Inspecting the references of a payload which decodes succeeds and finds exactly the
  references of the decoded query: the same Boolean filters and, for every choice, the same
  definition with the same values, although inspection skips retirement and normalization.\<close>

theorem references_agree_with_decode:
  assumes "decode env version input legacy_id = Some (Inr q)"
  shows "\<exists>refs. decode_references env version input legacy_id = Some (Inr refs)
    \<and> mset (ref_booleans refs) = mset (concat (map boolean_filters (nodes q)))
    \<and> mset (map choice_reference (ref_choices refs))
      = mset (map choice_reference (concat (map choice_filters (nodes q))))"
proof -
  from assms obtain p where p: "decode_payload env version input = Some (Inr p)"
    and c: "canonical_saved (texts env) (retire version legacy_id p) = Inr q"
    by (auto simp: decode_def bind_parsed_Ok_iff)
  define refs where "refs = collect_references version legacy_id p \<lparr>ref_booleans = [], ref_choices = []\<rparr>"
  have k: "keeps (map (retire_node version legacy_id) (nodes p)) (nodes q)"
    using canonical_saved_keeps[OF c] by (simp add: nodes_retire)
  have "concat (map active (nodes q)) = concat (map boolean_filters (nodes q))"
    using canonical_saved_keeps[OF c] by (auto simp: canonical_node_def intro!: arg_cong[where f = concat])
  with keeps_booleans[OF k] have "mset (ref_booleans refs) = mset (concat (map boolean_filters (nodes q)))"
    by (simp add: refs_def collect_references_nodes comp_def active_retire_node)
  moreover have "choice_filters \<circ> retire_node version legacy_id = choice_filters"
    by (auto simp: retire_node_def Let_def)
  with keeps_choices[OF k] have "mset (map choice_reference (ref_choices refs))
      = mset (map choice_reference (concat (map choice_filters (nodes q))))"
    by (simp add: refs_def collect_references_nodes)
  ultimately show ?thesis
    using p by (auto simp: decode_references_def bind_parsed_def refs_def)
qed

theorem references_agree_with_decode_witness:
  "\<exists>refs. decode_references plain_env 5 sample_saved 0 = Some (Inr refs)
    \<and> mset (ref_booleans refs) = mset (concat (map boolean_filters (nodes sample_query)))
    \<and> mset (map choice_reference (ref_choices refs))
      = mset (map choice_reference (concat (map choice_filters (nodes sample_query))))"
  by (rule references_agree_with_decode[OF decode_sample])

subsection \<open>Safe payloads\<close>

lemma encode_utf8_ascii_byte:
  "is_scalar c \<Longrightarrow> b \<in> set (encode_utf8 c) \<Longrightarrow> (of_char b :: nat) < 0x80 \<Longrightarrow> c = of_char b"
  by (auto simp: encode_utf8_def is_scalar_def of_char_char_of_small split: if_splits)

lemma escaped_unit_safe:
  "is_scalar c \<Longrightarrow> b \<in> set (escaped_unit c) \<Longrightarrow> b \<notin> {CHR ''<'', CHR ''>'', CHR ''&''}"
  by (auto simp: escaped_unit_def dest!: encode_utf8_ascii_byte split: if_splits)

text \<open>A serialized payload is within the size limit and contains none of the bytes that
  could open markup.\<close>

theorem payload_safe:
  assumes "payload env q = Inr p"
  shows "length p \<le> 262144 \<and> set p \<inter> {CHR ''<'', CHR ''>'', CHR ''&''} = {}"
proof -
  from assms obtain json where "p = html_escape json" and "length p \<le> max_bytes"
    by (auto simp: payload_def and_then_Ok_iff Let_def split: if_splits)
  moreover have "set (html_escape json) \<inter> {CHR ''<'', CHR ''>'', CHR ''&''} = {}"
    using escaped_unit_safe str_chars_scalar[of json]
    by (fastforce simp: html_escape_def list_all_iff)
  ultimately show ?thesis by (simp add: max_bytes_def)
qed

theorem payload_safe_witness:
  "length ''{}'' \<le> 262144 \<and> set ''{}'' \<inter> {CHR ''<'', CHR ''>'', CHR ''&''} = {}"
  by (rule payload_safe[of plain_env sample_query]) code_simp

end
