(* ===== verification/Query_Runtime.thy ===== *)
theory Query_Runtime
  imports Query_Saved "HOL-Library.Code_Target_Nat"
begin

section \<open>The runtime pass\<close>

text \<open>
  \<open>collection_codec/runtime.rs\<close>: the one pass over a request before it runs. Unlike the saved
  codec it rejects the retired flags, visits the branches before the navigation and the node, and
  counts ignored filters as uses of their definition. A \<open>BTreeSet\<close> collected into a vector is the
  strictly sorted list of its elements.
\<close>

record navigation_fields =
  nav_page :: i64
  nav_page_size :: i64
  nav_sort :: string

definition normalize_navigation :: "navigation_fields \<Rightarrow> query_input_error + navigation_fields" where
  "normalize_navigation v =
     (let v = (if nav_page v = 0 then v\<lparr>nav_page := 1\<rparr> else v);
          v = (if nav_page_size v = 0 then v\<lparr>nav_page_size := 24\<rparr> else v);
          v = (if nav_sort v = [] then v\<lparr>nav_sort := ''name_asc''\<rparr> else v)
      in if nav_page v < 1 \<or> nav_page_size v < 1 \<or> 100 < nav_page_size v
            \<or> nav_sort v \<notin> set [''name_asc'', ''imported_desc'']
         then Inl InvalidQuery else Inr v)"

definition retired_values :: "query_node \<Rightarrow> bool" where
  "retired_values n \<longleftrightarrow> include_broken n \<or> broken_visibility n \<noteq> [] \<or> broken_state n \<noteq> []"

definition runtime_budget :: "nat \<Rightarrow> query_input_error + nat" where
  "runtime_budget remaining = (if remaining = 0 then Inl InvalidQuery else Inr (remaining - 1))"

text \<open>The chain of \<open>checked_add\<close> on the numbers of filters.\<close>

definition checked_groups :: "query_node \<Rightarrow> nat option" where
  "checked_groups n =
     Option.bind (u64_checked_add (length (boolean_filters n)) (length (choice_filters n))) (\<lambda>g.
     Option.bind (u64_checked_add g (if languages n = [] then 0 else 1)) (\<lambda>g.
     u64_checked_add g (if compatibilities n = [] then 0 else 1)))"

fun runtime_booleans :: "i64 set \<Rightarrow> boolean_filter list \<Rightarrow> query_input_error + i64 set" where
  "runtime_booleans ids [] = Inr ids"
| "runtime_booleans ids (f # fs) =
     (if bf_definition f \<le> 0 \<or> bf_state f \<notin> set [''ignored'', ''true'', ''false''] \<or> bf_definition f \<in> ids
      then Inl InvalidQuery
      else runtime_booleans (insert (bf_definition f) ids) fs)"

fun runtime_values :: "i64 set \<Rightarrow> i64 list \<Rightarrow> query_input_error + i64 list" where
  "runtime_values seen [] = Inr []"
| "runtime_values seen (v # vs) =
     (if v \<le> 0 then Inl InvalidQuery
      else if v \<in> seen then runtime_values seen vs
      else and_then (runtime_values (insert v seen) vs) (\<lambda>vs. Inr (v # vs)))"

fun runtime_choices :: "i64 set \<Rightarrow> choice_filter list \<Rightarrow> query_input_error + choice_filter list" where
  "runtime_choices ids [] = Inr []"
| "runtime_choices ids (f # fs) =
     (if cf_definition f \<le> 0 \<or> cf_values f = [] \<or> 100 < length (cf_values f) \<or> cf_definition f \<in> ids
      then Inl InvalidQuery
      else and_then (runtime_values {} (cf_values f)) (\<lambda>vs.
           and_then (runtime_choices (insert (cf_definition f) ids) fs) (\<lambda>fs.
             Inr (f\<lparr>cf_values := vs\<rparr> # fs))))"

definition runtime_fields :: "text_env \<Rightarrow> query_node \<Rightarrow> query_input_error + query_node" where
  "runtime_fields env n =
     and_then (runtime_text env (q_name n)) (\<lambda>name.
       let n = n\<lparr>q_name := name\<rparr> in
       case checked_groups n of
         None \<Rightarrow> Inl ResourceOverflow
       | Some groups \<Rightarrow>
           if 200 < length (str_chars (q_name n)) \<or> 50 < groups
              \<or> 100 < length (languages n) \<or> 3 < length (compatibilities n)
           then Inl InvalidQuery
           else and_then (collect_results (runtime_language env) (languages n)) (\<lambda>langs.
             if \<not> list_all known_compatibility (compatibilities n) then Inl InvalidQuery
             else and_then (runtime_booleans {} (boolean_filters n)) (\<lambda>ids.
               and_then (runtime_choices ids (choice_filters n)) (\<lambda>choices.
                 Inr (n\<lparr>languages := remdups_adj (sort langs),
                   compatibilities := remdups_adj (sort (compatibilities n)),
                   choice_filters := choices\<rparr>)))))"

text \<open>The result carries the navigation of the root; a branch has none.\<close>

definition runtime_navigation ::
  "navigation_fields option \<Rightarrow> query_input_error + navigation_fields option" where
  "runtime_navigation nav =
     (case nav of None \<Rightarrow> Inr None | Some v \<Rightarrow> and_then (normalize_navigation v) (\<lambda>v. Inr (Some v)))"

fun normalize_node :: "text_env \<Rightarrow> query \<Rightarrow> nat \<Rightarrow> navigation_fields option
    \<Rightarrow> query_input_error + query \<times> nat \<times> navigation_fields option"
  and normalize_nodes :: "text_env \<Rightarrow> query list \<Rightarrow> nat \<Rightarrow> query_input_error + query list \<times> nat" where
  "normalize_node env (Query n branches) remaining nav =
     (if retired_values n then Inl InvalidQuery
      else and_then (runtime_budget remaining) (\<lambda>remaining.
        and_then (normalize_nodes env branches remaining) (\<lambda>(branches, remaining).
        and_then (runtime_navigation nav) (\<lambda>nav.
        and_then (runtime_fields env n) (\<lambda>n. Inr (Query n branches, remaining, nav))))))"
| "normalize_nodes env [] remaining = Inr ([], remaining)"
| "normalize_nodes env (q # qs) remaining =
     and_then (normalize_node env q remaining None) (\<lambda>(q, remaining, _).
     and_then (normalize_nodes env qs remaining) (\<lambda>(qs, remaining). Inr (q # qs, remaining)))"

definition normalize_request :: "text_env \<Rightarrow> query_request \<Rightarrow> query_input_error + query_request" where
  "normalize_request env request =
     and_then (normalize_node env (criteria request) 50
         (Some \<lparr>nav_page = page request, nav_page_size = page_size request, nav_sort = sort_order request\<rparr>))
       (\<lambda>(q, _, nav).
         case nav of None \<Rightarrow> Inr (request\<lparr>criteria := q\<rparr>)
         | Some v \<Rightarrow> Inr (request\<lparr>criteria := q, page := nav_page v, page_size := nav_page_size v,
             sort_order := nav_sort v\<rparr>))"

subsection \<open>What an accepted request satisfies\<close>

definition runtime_node :: "query_node \<Rightarrow> bool" where
  "runtime_node n \<longleftrightarrow>
     \<not> retired_values n \<and> length (str_chars (q_name n)) \<le> 200
     \<and> sorted_wrt (<) (languages n) \<and> length (languages n) \<le> 100
     \<and> sorted_wrt (<) (compatibilities n) \<and> list_all known_compatibility (compatibilities n)
     \<and> (\<forall>f \<in> set (boolean_filters n). boolean_ok f)
     \<and> (\<forall>f \<in> set (choice_filters n). choice_ok f \<and> distinct (cf_values f) \<and> length (cf_values f) \<le> 100)
     \<and> distinct (map bf_definition (boolean_filters n) @ map cf_definition (choice_filters n))
     \<and> length (boolean_filters n) + length (choice_filters n) \<le> 50"

lemma runtime_booleans_Ok_iff:
  "runtime_booleans ids fs = Inr ids' \<longleftrightarrow>
     (\<forall>f \<in> set fs. boolean_ok f) \<and> distinct (map bf_definition fs)
     \<and> ids \<inter> bf_definition ` set fs = {} \<and> ids' = ids \<union> bf_definition ` set fs"
proof (induction fs arbitrary: ids)
  case Nil
  then show ?case by auto
next
  case (Cons f fs)
  have "runtime_booleans ids (f # fs) =
      (if boolean_ok f \<and> bf_definition f \<notin> ids then runtime_booleans (insert (bf_definition f) ids) fs
       else Inl InvalidQuery)"
    by (auto simp: boolean_ok_def)
  with Cons.IH show ?case by auto
qed

lemma runtime_values_Ok_iff:
  "runtime_values seen vs = Inr vs' \<longleftrightarrow> (\<forall>v \<in> set vs. 0 < v) \<and> vs' = first_occurrences seen vs"
  by (induction seen vs arbitrary: vs' rule: runtime_values.induct) (auto simp: and_then_Ok_iff)

lemma runtime_choices_Ok:
  "runtime_choices ids fs = Inr fs' \<Longrightarrow>
     fs' = map dedup_values fs \<and> (\<forall>f \<in> set fs. choice_ok f \<and> length (cf_values f) \<le> 100)
     \<and> distinct (map cf_definition fs) \<and> ids \<inter> cf_definition ` set fs = {}"
proof (induction fs arbitrary: ids fs')
  case (Cons f fs)
  then obtain rest where f: "0 < cf_definition f" "cf_values f \<noteq> []" "length (cf_values f) \<le> 100"
      "cf_definition f \<notin> ids" "\<forall>v \<in> set (cf_values f). 0 < v"
    and rest: "runtime_choices (insert (cf_definition f) ids) fs = Inr rest"
    and fs': "fs' = dedup_values f # rest"
    by (auto simp: and_then_Ok_iff runtime_values_Ok_iff dedup_values_def split: if_splits)
  from Cons.IH[OF rest] f fs' show ?case by (auto simp: choice_ok_def)
qed simp

lemma runtime_fields_Ok:
  assumes "runtime_fields env n = Inr n'" "\<not> retired_values n"
  shows "runtime_node n'" "boolean_filters n' = boolean_filters n"
proof -
  from assms obtain name langs groups ids choices where
    g: "checked_groups (n\<lparr>q_name := name\<rparr>) = Some groups" "groups \<le> 50"
    and lim: "length (str_chars name) \<le> 200" "length (languages n) \<le> 100"
    and l: "collect_results (runtime_language env) (languages n) = Inr langs"
    and c: "list_all known_compatibility (compatibilities n)"
    and b: "runtime_booleans {} (boolean_filters n) = Inr ids"
    and ch: "runtime_choices ids (choice_filters n) = Inr choices"
    and n': "n' = n\<lparr>q_name := name, languages := remdups_adj (sort langs),
                   compatibilities := remdups_adj (sort (compatibilities n)),
                   choice_filters := choices\<rparr>"
    by (auto simp: runtime_fields_def and_then_Ok_iff Let_def not_less split: option.splits if_splits)
  have "length (boolean_filters n) + length (choice_filters n) \<le> 50"
    using g by (auto simp: checked_groups_def u64_checked_add_Some_iff bind_eq_Some_conv split: if_splits)
  moreover have "length (remdups_adj (sort langs)) \<le> 100"
    using remdups_adj_length[of "sort langs"] collect_results_length[OF l] lim(2) by simp
  moreover have "cf_definition \<circ> dedup_values = cf_definition"
    by (auto simp: dedup_values_def)
  moreover have "\<forall>f \<in> set choices. choice_ok f \<and> distinct (cf_values f) \<and> length (cf_values f) \<le> 100"
  proof
    fix f assume "f \<in> set choices"
    then obtain g where g: "g \<in> set (choice_filters n)" "f = dedup_values g"
      using runtime_choices_Ok[OF ch] by auto
    then have "choice_ok g" "length (cf_values g) \<le> 100" using runtime_choices_Ok[OF ch] by auto
    moreover have "first_occurrences {} (cf_values g) = [] \<longleftrightarrow> cf_values g = []"
      using set_first_occurrences[of "{}" "cf_values g"] by (metis Diff_empty set_empty)
    moreover have "length (first_occurrences {} (cf_values g)) \<le> 100"
      using length_first_occurrences_le[of "{}" "cf_values g"] \<open>length (cf_values g) \<le> 100\<close> by simp
    ultimately show "choice_ok f \<and> distinct (cf_values f) \<and> length (cf_values f) \<le> 100"
      by (simp add: g(2) dedup_values_def choice_ok_def)
  qed
  moreover have "length choices = length (choice_filters n)"
    using runtime_choices_Ok[OF ch] by simp
  ultimately show "runtime_node n'"
    using lim(1) c assms(2) runtime_choices_Ok[OF ch] runtime_booleans_Ok_iff[THEN iffD1, OF b]
    by (simp add: n' runtime_node_def retired_values_def dedup_sort list_all_iff)
  show "boolean_filters n' = boolean_filters n" by (simp add: n')
qed

lemma runtime_budget_Ok_iff: "runtime_budget r = Inr r' \<longleftrightarrow> r = Suc r'"
  by (cases r) (auto simp: runtime_budget_def)

lemma normalize_node_Ok:
  "normalize_node env q r nav = Inr (q', r', nav') \<Longrightarrow>
     (\<forall>n \<in> set (nodes q'). runtime_node n) \<and> r = length (nodes q') + r'
     \<and> map boolean_filters (nodes q') = map boolean_filters (nodes q)
     \<and> runtime_navigation nav = Inr nav'"
  "normalize_nodes env qs r = Inr (qs', r') \<Longrightarrow>
     (\<forall>n \<in> set (concat (map nodes qs')). runtime_node n) \<and> r = length (concat (map nodes qs')) + r'
     \<and> map boolean_filters (concat (map nodes qs')) = map boolean_filters (concat (map nodes qs))"
proof (induction env q r nav and env qs r arbitrary: q' r' nav' and qs' r'
    rule: normalize_node_normalize_nodes.induct)
  case (1 env n branches r nav)
  then obtain b branches' n' where b: "\<not> retired_values n" "runtime_budget r = Inr b"
    and bs: "normalize_nodes env branches b = Inr (branches', r')"
    and nav: "runtime_navigation nav = Inr nav'"
    and n': "runtime_fields env n = Inr n'" and q': "q' = Query n' branches'"
    by (auto simp: and_then_Ok_iff split: if_splits)
  from "1.IH"[OF b bs] b(2) nav runtime_fields_Ok[OF n' b(1)] show ?case
    by (auto simp: q' runtime_budget_Ok_iff)
next
  case (2 env r)
  then show ?case by simp
next
  case (3 env q qs r)
  then obtain h r1 nav t where h: "normalize_node env q r None = Inr (h, r1, nav)"
    and t: "normalize_nodes env qs r1 = Inr (t, r')" and qs': "qs' = h # t"
    by (auto simp: and_then_Ok_iff)
  from "3.IH"(1)[OF h] "3.IH"(2)[OF h refl refl t] show ?case by (auto simp: qs')
qed

lemma normalize_request_Ok:
  assumes "normalize_request env request = Inr request'"
  shows "1 \<le> page request' \<and> 1 \<le> page_size request' \<and> page_size request' \<le> 100
    \<and> sort_order request' \<in> {''name_asc'', ''imported_desc''}
    \<and> length (nodes (criteria request')) \<le> 50 \<and> list_all runtime_node (nodes (criteria request'))
    \<and> map boolean_filters (nodes (criteria request')) = map boolean_filters (nodes (criteria request))"
proof -
  let ?nav = "Some \<lparr>nav_page = page request, nav_page_size = page_size request, nav_sort = sort_order request\<rparr>"
  from assms obtain q r nav where n: "normalize_node env (criteria request) 50 ?nav = Inr (q, r, nav)"
    and r: "(case nav of None \<Rightarrow> Inr (request\<lparr>criteria := q\<rparr>)
         | Some v \<Rightarrow> Inr (request\<lparr>criteria := q, page := nav_page v, page_size := nav_page_size v,
             sort_order := nav_sort v\<rparr>)) = (Inr request' :: query_input_error + query_request)"
    by (auto simp: normalize_request_def and_then_Ok_iff)
  from normalize_node_Ok(1)[OF n] obtain v where v: "nav = Some v" "normalize_navigation (the ?nav) = Inr v"
    by (auto simp: runtime_navigation_def and_then_Ok_iff)
  from v(2) have "1 \<le> nav_page v" "1 \<le> nav_page_size v" "nav_page_size v \<le> 100"
    "nav_sort v \<in> {''name_asc'', ''imported_desc''}"
    unfolding normalize_navigation_def Let_def by (auto simp: not_less not_le split: if_splits)
  with normalize_node_Ok(1)[OF n] r v(1) show ?thesis by (auto simp: list_all_iff)
qed

text \<open>A request accepted by the runtime pass has a page of at least one, a page size between
  one and a hundred, a known order, at most fifty query nodes, and every node within its limits:
  no retired value, positive definitions used once, positive distinct choice values, ordered
  languages and compatibilities. The Boolean filters of every node are the caller's, in order.\<close>

theorem normalize_request_sound:
  assumes "normalize_request env request = Inr request'"
  shows "1 \<le> page request' \<and> 1 \<le> page_size request' \<and> page_size request' \<le> 100
    \<and> sort_order request' \<in> {''name_asc'', ''imported_desc''}
    \<and> length (nodes (criteria request')) \<le> 50 \<and> list_all runtime_node (nodes (criteria request'))
    \<and> map boolean_filters (nodes (criteria request')) = map boolean_filters (nodes (criteria request))"
  using normalize_request_Ok[OF assms] .

text \<open>A request with every default, in an environment of identity tables.\<close>

definition plain_texts :: text_env where
  "plain_texts = \<lparr>saved_text = Inr, runtime_text = Inr, saved_language = Inr, runtime_language = Inr\<rparr>"

definition normalized_default :: query_request where
  "normalized_default = request_default\<lparr>page := 1, page_size := 24, sort_order := ''name_asc''\<rparr>"

theorem normalize_request_sound_witness:
  "1 \<le> page normalized_default \<and> 1 \<le> page_size normalized_default \<and> page_size normalized_default \<le> 100
    \<and> sort_order normalized_default \<in> {''name_asc'', ''imported_desc''}
    \<and> length (nodes (criteria normalized_default)) \<le> 50
    \<and> list_all runtime_node (nodes (criteria normalized_default))
    \<and> map boolean_filters (nodes (criteria normalized_default)) = map boolean_filters (nodes (criteria request_default))"
  by (rule normalize_request_sound[of plain_texts]) code_simp

end
