(* ===== verification/Query_Url.thy ===== *)
theory Query_Url
  imports Query_Codec Query_Runtime Import_Names Ordered_Map
begin

section \<open>Library addresses\<close>

text \<open>
  \<open>collection_codec/url.rs\<close>: the legacy address \<open>#/library?...\<close> and the persisted request
  text. The module has one error, \<open>InvalidHash\<close>, so results are sums over \<open>unit\<close>-like
  \<open>invalid_hash\<close>. \<open>String::from_utf8_lossy\<close> is written out: one replacement for each maximal
  invalid prefix. \<open>serde_json\<close> values of a browser history entry are the datatype \<open>json\<close>, whose
  accessors are the documented ones.
\<close>

datatype invalid_hash = InvalidHash

datatype scope =
  In_library | In_collection i64 | In_shelf i64 (shelf_manual_order: bool) | In_custom

record location =
  loc_scope :: scope
  loc_request :: query_request

abbreviation invalid_hash :: "'e + 'a \<Rightarrow> invalid_hash + 'a" where
  "invalid_hash \<equiv> map_err (\<lambda>_. InvalidHash)"

subsection \<open>Percent decoding\<close>

text \<open>How many bytes one invalid sequence takes, as the chunk iterator of the standard library.\<close>

definition continuation :: "string \<Rightarrow> nat \<Rightarrow> bool" where
  "continuation s i \<longleftrightarrow> i < length s \<and> byte_in 0x80 0xBF (s ! i)"

definition invalid_width :: "string \<Rightarrow> nat" where
  "invalid_width s =
     (case lead_info (of_char (s ! 0)) of
        None \<Rightarrow> 1
      | Some (width, lo, hi) \<Rightarrow>
          if \<not> (1 < length s \<and> byte_in lo hi (s ! 1)) then 1
          else if \<not> continuation s 2 then 2 else 3)"

lemma invalid_width_pos: "1 \<le> invalid_width s"
  by (simp add: invalid_width_def split: option.splits)

function lossy_chars :: "string \<Rightarrow> nat list" where
  "lossy_chars s =
     (if s = [] then []
      else case utf8_next s of
          Some (c, width) \<Rightarrow> c # lossy_chars (drop width s)
        | None \<Rightarrow> replacement # lossy_chars (drop (invalid_width s) s))"
  by pat_completeness auto
termination
  by (relation "measure length")
    (use invalid_width_pos in \<open>force simp: Suc_le_eq dest: utf8_next_width\<close>)+

declare lossy_chars.simps [simp del]

definition from_utf8_lossy :: "string \<Rightarrow> string" where
  "from_utf8_lossy s = str_of_chars (lossy_chars s)"

fun percent_bytes :: "string \<Rightarrow> invalid_hash + string" where
  "percent_bytes [] = Inr []"
| "percent_bytes (c # cs) =
     (if c = CHR ''+'' then and_then (percent_bytes cs) (\<lambda>r. Inr (CHR '' '' # r))
      else if c = CHR ''%'' then
        (case cs of
           h # l # rest \<Rightarrow>
             (case (hex_value h, hex_value l) of
                (Some a, Some b) \<Rightarrow> and_then (percent_bytes rest) (\<lambda>r. Inr (char_of (16 * a + b) # r))
              | _ \<Rightarrow> Inl InvalidHash)
         | _ \<Rightarrow> Inl InvalidHash)
      else and_then (percent_bytes cs) (\<lambda>r. Inr (c # r)))"

definition percent_decode :: "string \<Rightarrow> invalid_hash + string" where
  "percent_decode input = and_then (percent_bytes input) (\<lambda>bytes. Inr (from_utf8_lossy bytes))"

subsection \<open>Parameters\<close>

fun split_once :: "char \<Rightarrow> string \<Rightarrow> (string \<times> string) option" where
  "split_once sep [] = None"
| "split_once sep (c # cs) =
     (if c = sep then Some ([], cs)
      else map_option (\<lambda>(a, b). (c # a, b)) (split_once sep cs))"

type_synonym params = "(string, string list) btree_map"

definition all_of :: "params \<Rightarrow> string \<Rightarrow> string list" where
  "all_of params key = (case bt_get params key of None \<Rightarrow> [] | Some vs \<Rightarrow> vs)"

definition one :: "params \<Rightarrow> string \<Rightarrow> bool \<Rightarrow> invalid_hash + string" where
  "one params key required =
     (case bt_get params key of
        None \<Rightarrow> if \<not> required then Inr [] else Inl InvalidHash
      | Some vs \<Rightarrow> if length vs = 1 \<and> vs ! 0 \<noteq> [] then Inr (vs ! 0) else Inl InvalidHash)"

definition integer :: "string \<Rightarrow> invalid_hash + i64" where
  "integer v = ok_or InvalidHash (parse_i64 v)"

definition known_keys :: "string list" where
  "known_keys = [''v'', ''any'', ''includeBroken'', ''brokenVisibility'', ''brokenState'', ''name'',
     ''page'', ''size'', ''sort'', ''language'', ''compatibility'', ''bool'', ''choice'']"

definition add_pair :: "string \<Rightarrow> params \<Rightarrow> invalid_hash + params" where
  "add_pair pair params =
     (if CHR '';'' \<in> set pair then Inl InvalidHash
      else
        let (key, v) = (case split_once (CHR ''='') pair of None \<Rightarrow> (pair, []) | Some kv \<Rightarrow> kv) in
        and_then (percent_decode key) (\<lambda>key.
          if key \<notin> set known_keys then Inl InvalidHash
          else and_then (percent_decode v) (\<lambda>v. Inr (bt_insert key (all_of params key @ [v]) params))))"

fun add_pairs :: "string list \<Rightarrow> params \<Rightarrow> invalid_hash + params" where
  "add_pairs [] params = Inr params"
| "add_pairs (pair # pairs) params = and_then (add_pair pair params) (add_pairs pairs)"

subsection \<open>Persisted nodes\<close>

record url_state =
  url_request :: query_request
  url_fields :: "(string \<times> wire) list"
  url_children :: "query list"

definition url_start :: url_state where
  "url_start = \<lparr>url_request = request_default, url_fields = [], url_children = []\<rparr>"

definition url_scalar :: "string \<Rightarrow> string \<Rightarrow> wire \<Rightarrow> url_state \<Rightarrow> invalid_hash + url_state" where
  "url_scalar name key v st =
     (let r = url_request st in
      if name = ''PAGE'' then
        and_then (invalid_hash (scalar_integer v (page r))) (\<lambda>n. Inr (st\<lparr>url_request := r\<lparr>page := n\<rparr>\<rparr>))
      else if name = ''PAGESIZE'' then
        and_then (invalid_hash (scalar_integer v (page_size r))) (\<lambda>n. Inr (st\<lparr>url_request := r\<lparr>page_size := n\<rparr>\<rparr>))
      else if name = ''SORT'' then
        and_then (invalid_hash (scalar_string v (sort_order r))) (\<lambda>s. Inr (st\<lparr>url_request := r\<lparr>sort_order := s\<rparr>\<rparr>))
      else Inr (st\<lparr>url_fields := url_fields st @ [(key, v)]\<rparr>))"

definition url_navigation_ok :: "query_request \<Rightarrow> bool" where
  "url_navigation_ok r \<longleftrightarrow>
     0 \<le> page r \<and> 0 \<le> page_size r \<and> page_size r \<le> 100
     \<and> sort_order r \<in> set [[], ''name_asc'', ''imported_desc'']"

definition url_finish :: "url_state \<Rightarrow> invalid_hash + query_request" where
  "url_finish st =
     (if \<not> url_navigation_ok (url_request st) then Inl InvalidHash
      else and_then (invalid_hash (wire_query (WObject (url_fields st)) False)) (\<lambda>q.
        Inr ((url_request st)\<lparr>criteria := Query (root_node q) (url_children st)\<rparr>)))"

definition url_budget :: "nat \<Rightarrow> invalid_hash + nat" where
  "url_budget remaining = (if remaining = 0 then Inl InvalidHash else Inr (remaining - 1))"

fun url_node :: "wire \<Rightarrow> nat \<Rightarrow> invalid_hash + query_request \<times> nat"
  and url_members :: "(string \<times> wire) list \<Rightarrow> nat \<Rightarrow> url_state \<Rightarrow> invalid_hash + url_state \<times> nat"
  and url_nodes :: "wire list \<Rightarrow> nat \<Rightarrow> invalid_hash + query list \<times> nat" where
  "url_node v remaining =
     and_then (url_budget remaining) (\<lambda>remaining.
     and_then (case v of
         WNull \<Rightarrow> Inr (url_start, remaining)
       | WObject members \<Rightarrow> url_members members remaining url_start
       | _ \<Rightarrow> Inl InvalidHash) (\<lambda>(st, remaining).
     and_then (url_finish st) (\<lambda>r. Inr (r, remaining))))"
| "url_members [] remaining st = Inr (st, remaining)"
| "url_members ((key, v) # members) remaining st =
     and_then (invalid_hash (wire_field key)) (\<lambda>name.
     and_then (if name = ''ANYOF'' then
         (case v of
            WNull \<Rightarrow> Inr (st\<lparr>url_children := []\<rparr>, remaining)
          | WArray vs \<Rightarrow>
              and_then (url_nodes vs remaining) (\<lambda>(qs, remaining). Inr (st\<lparr>url_children := qs\<rparr>, remaining))
          | _ \<Rightarrow> Inl InvalidHash)
       else and_then (url_scalar name key v st) (\<lambda>st. Inr (st, remaining))) (\<lambda>(st, remaining).
     url_members members remaining st))"
| "url_nodes [] remaining = Inr ([], remaining)"
| "url_nodes (v # vs) remaining =
     and_then (url_node v remaining) (\<lambda>(r, remaining).
     and_then (url_nodes vs remaining) (\<lambda>(qs, remaining). Inr (criteria r # qs, remaining)))"

subsection \<open>Requests\<close>

text \<open>The parser on a whole input; the fuel is always enough, by \<open>parse_total\<close>.\<close>

definition parse_wire :: "codec_env \<Rightarrow> string \<Rightarrow> codec_error + wire" where
  "parse_wire env input =
     (case parse_value env (parse_fuel input) 0 input of
        None \<Rightarrow> Inl FrozenData
      | Some (Inl e) \<Rightarrow> Inl e
      | Some (Inr (v, rest)) \<Rightarrow> if space rest \<noteq> [] then Inl Invalid else Inr v)"

definition url_canonical :: "codec_env \<Rightarrow> query_request \<Rightarrow> invalid_hash + query_request" where
  "url_canonical env r =
     and_then (invalid_hash (normalize_request (texts env) r)) (\<lambda>r.
       let q = criteria r in Inr (r\<lparr>criteria := Query (sort_filters (root_node q)) (any_of q)\<rparr>))"

fun without_flags :: "query \<Rightarrow> query" where
  "without_flags (Query n branches) =
     Query (n\<lparr>include_broken := False, broken_visibility := [], broken_state := []\<rparr>)
       (map without_flags branches)"

definition url_branches :: "codec_env \<Rightarrow> string \<Rightarrow> invalid_hash + query list" where
  "url_branches env any =
     (if any = [] then Inr []
      else and_then (invalid_hash (parse_wire env any)) (\<lambda>v.
        case v of
          WNull \<Rightarrow> Inr []
        | WArray vs \<Rightarrow> and_then (url_nodes vs 49) (\<lambda>(qs, _). Inr qs)
        | _ \<Rightarrow> Inl InvalidHash))"

definition url_number :: "params \<Rightarrow> string \<Rightarrow> invalid_hash + i64" where
  "url_number params key =
     and_then (one params key False) (\<lambda>v. if v \<noteq> [] then integer v else Inr 0)"

definition url_boolean :: "string \<Rightarrow> invalid_hash + boolean_filter" where
  "url_boolean v =
     and_then (ok_or InvalidHash (split_once (CHR '':'') v)) (\<lambda>(definition, state).
     and_then (integer definition) (\<lambda>n. Inr \<lparr>bf_definition = n, bf_state = state\<rparr>))"

definition url_choice :: "string \<Rightarrow> invalid_hash + choice_filter" where
  "url_choice v =
     and_then (ok_or InvalidHash (split_once (CHR '':'') v)) (\<lambda>(definition, ids).
     and_then (integer definition) (\<lambda>n.
     and_then (collect_results integer (split_on (CHR '','') ids)) (\<lambda>ids.
       Inr \<lparr>cf_definition = n, cf_values = ids\<rparr>)))"

definition url_flags_ok :: "string \<Rightarrow> string \<Rightarrow> string \<Rightarrow> string \<Rightarrow> bool" where
  "url_flags_ok version include visibility state \<longleftrightarrow>
     \<not> ((include \<noteq> [] \<and> include \<noteq> ''true'')
        \<or> (version = ''1'' \<and> (visibility \<noteq> [] \<or> state \<noteq> []))
        \<or> (version \<noteq> ''1'' \<and> include \<noteq> []))"

text \<open>The request which the parameters of an address spell, and its version.\<close>

definition url_parameters :: "codec_env \<Rightarrow> params \<Rightarrow> invalid_hash + string \<times> query_request" where
  "url_parameters env params =
     and_then (one params ''v'' True) (\<lambda>version.
       if version \<notin> set [''1'', ''2'', ''3''] then Inl InvalidHash else
     and_then (one params ''any'' False) (\<lambda>any.
     and_then (url_branches env any) (\<lambda>branches.
     and_then (one params ''includeBroken'' False) (\<lambda>include.
     and_then (one params ''brokenVisibility'' False) (\<lambda>visibility.
     and_then (one params ''brokenState'' False) (\<lambda>state.
       if \<not> url_flags_ok version include visibility state then Inl InvalidHash else
     and_then (one params ''name'' False) (\<lambda>name.
     and_then (url_number params ''page'') (\<lambda>page.
     and_then (url_number params ''size'') (\<lambda>size.
     and_then (one params ''sort'' False) (\<lambda>sort.
     and_then (collect_results url_boolean (all_of params ''bool'')) (\<lambda>booleans.
     and_then (collect_results url_choice (all_of params ''choice'')) (\<lambda>choices.
       Inr (version,
         \<lparr>criteria = Query
            \<lparr>broken_visibility = visibility, broken_state = state, include_broken = (include = ''true''),
             q_name = name, languages = all_of params ''language'',
             compatibilities = all_of params ''compatibility'',
             boolean_filters = booleans, choice_filters = choices\<rparr> branches,
          page = page, page_size = size, sort_order = sort\<rparr>)))))))))))))"

definition url_decode :: "codec_env \<Rightarrow> string \<Rightarrow> i64 \<Rightarrow> invalid_hash + query_request" where
  "url_decode env hash legacy_broken_id =
     (if length hash > 262144 then Inl InvalidHash
      else if hash = [] then url_canonical env request_default
      else and_then (ok_or InvalidHash (split_once (CHR ''?'') hash)) (\<lambda>(path, encoded).
        if path \<noteq> ''#/library'' then Inl InvalidHash
        else
          and_then (add_pairs (filter (\<lambda>p. p \<noteq> []) (split_on (CHR ''&'') encoded)) []) (\<lambda>params.
          and_then (url_parameters env params) (\<lambda>(version, r).
          and_then (invalid_hash (validate_references (criteria r) 50 False)) (\<lambda>_.
          and_then (url_canonical env (r\<lparr>criteria := without_flags (criteria r)\<rparr>)) (\<lambda>_.
            url_canonical env
              (if version \<noteq> ''3''
               then r\<lparr>criteria := retire (if version = ''1'' then 3 else 4) legacy_broken_id (criteria r)\<rparr>
               else r)))))))"

definition restore_request :: "codec_env \<Rightarrow> string \<Rightarrow> invalid_hash + query_request" where
  "restore_request env bytes =
     (if length bytes > 262144 then Inl InvalidHash
      else and_then (invalid_hash (parse_wire env bytes)) (\<lambda>v.
        and_then (url_node v 50) (\<lambda>(r, _).
        and_then (invalid_hash (normalize_request (texts env) r)) (\<lambda>_. Inr r))))"

text \<open>The serializer of a request with its navigation members is the parameter \<open>to_bytes\<close>.\<close>

definition request_bytes ::
    "codec_env \<Rightarrow> (query_request \<Rightarrow> invalid_hash + string) \<Rightarrow> query_request \<Rightarrow> invalid_hash + string" where
  "request_bytes env to_bytes r =
     and_then (to_bytes r) (\<lambda>bytes. and_then (restore_request env bytes) (\<lambda>_. Inr bytes))"

subsection \<open>Browser history\<close>

datatype json =
  JNull | JBool bool | JInteger i64 | JNumber | JString string | JArray "json list"
  | JObject "(string \<times> json) list"

definition json_index :: "json \<Rightarrow> string \<Rightarrow> json" where
  "json_index v key =
     (case v of JObject ms \<Rightarrow> (case map_of ms key of Some x \<Rightarrow> x | None \<Rightarrow> JNull) | _ \<Rightarrow> JNull)"

definition json_str :: "json \<Rightarrow> string option" where
  "json_str v = (case v of JString s \<Rightarrow> Some s | _ \<Rightarrow> None)"

definition history_id :: "json \<Rightarrow> i64 option" where
  "history_id v =
     (case v of JInteger n \<Rightarrow> if n > 0 \<and> n \<le> 9007199254740991 then Some n else None | _ \<Rightarrow> None)"

definition has_membership :: "query \<Rightarrow> bool" where
  "has_membership q \<longleftrightarrow>
     (let n = root_node q in
      q_name n \<noteq> [] \<or> any_of q \<noteq> [] \<or> languages n \<noteq> [] \<or> compatibilities n \<noteq> []
      \<or> boolean_filters n \<noteq> [] \<or> choice_filters n \<noteq> [])"

definition fallback :: "query \<Rightarrow> scope" where
  "fallback q = (if has_membership q then In_custom else In_library)"

definition history_scope :: "string \<Rightarrow> json \<Rightarrow> query \<Rightarrow> scope" where
  "history_scope hash state q =
     (let entry = json_index state ''collectionQuery''; group = json_index entry ''group'' in
      if json_str (json_index entry ''hash'') = Some hash then
        if json_str (json_index group ''kind'') = Some ''shelf'' then
          (case history_id (json_index group ''id'') of
             Some n \<Rightarrow> In_shelf n (json_index group ''manualOrder'' \<noteq> JBool False)
           | None \<Rightarrow> fallback q)
        else
          (case history_id (if json_index entry ''collectionId'' = JNull then json_index entry ''shelfId''
                            else json_index entry ''collectionId'') of
             Some n \<Rightarrow> In_collection n
           | None \<Rightarrow>
               (case json_str (json_index entry ''scope'') of
                  Some s \<Rightarrow> if s = ''all'' then In_library else if s = ''custom'' then In_custom
                    else fallback q
                | None \<Rightarrow> fallback q))
      else fallback q)"

definition decode_history ::
    "codec_env \<Rightarrow> (string \<Rightarrow> json option) \<Rightarrow> string \<Rightarrow> string \<Rightarrow> i64 \<Rightarrow> invalid_hash + location" where
  "decode_history env parse_json hash history legacy_broken_id =
     and_then (url_decode env hash legacy_broken_id) (\<lambda>r.
       if length history > 262144 then Inl InvalidHash
       else and_then (ok_or InvalidHash (parse_json history)) (\<lambda>state.
         Inr \<lparr>loc_scope = history_scope hash state (criteria r), loc_request = r\<rparr>))"

subsection \<open>What an accepted address satisfies\<close>

lemma sort_key_Nil_iff [simp]: "sort_key f xs = [] \<longleftrightarrow> xs = []"
  by (metis length_0_conv length_sort)

lemma sort_filters_runtime_node:
  assumes "runtime_node n"
  shows "runtime_node (sort_filters n)"
proof -
  have m: "mset (map bf_definition (boolean_filters (sort_filters n))
        @ map cf_definition (choice_filters (sort_filters n)))
      = mset (map bf_definition (boolean_filters n) @ map cf_definition (choice_filters n))"
    by (simp add: sort_filters_def image_mset.compositionality comp_def)
  with assms have "distinct (map bf_definition (boolean_filters (sort_filters n))
      @ map cf_definition (choice_filters (sort_filters n)))"
    using mset_eq_imp_distinct_iff[OF m] unfolding runtime_node_def by blast
  with assms show ?thesis
    by (auto simp: runtime_node_def sort_filters_def retired_values_def choice_ok_def)
qed

definition request_ok :: "query_request \<Rightarrow> bool" where
  "request_ok r \<longleftrightarrow>
     1 \<le> page r \<and> 1 \<le> page_size r \<and> page_size r \<le> 100
     \<and> sort_order r \<in> set [''name_asc'', ''imported_desc'']
     \<and> length (nodes (criteria r)) \<le> 50 \<and> list_all runtime_node (nodes (criteria r))"

definition root_sorted :: "query_request \<Rightarrow> bool" where
  "root_sorted r \<longleftrightarrow>
     sorted (map bf_definition (boolean_filters (root_node (criteria r))))
     \<and> sorted (map cf_definition (choice_filters (root_node (criteria r))))
     \<and> list_all (\<lambda>f. sorted (cf_values f)) (choice_filters (root_node (criteria r)))"

lemma url_canonical_ok:
  assumes "url_canonical env r = Inr r'"
  shows "request_ok r' \<and> root_sorted r'"
proof -
  from assms obtain r1 where n: "normalize_request (texts env) r = Inr r1"
    and r': "r' = r1\<lparr>criteria := Query (sort_filters (root_node (criteria r1))) (any_of (criteria r1))\<rparr>"
    by (auto simp: url_canonical_def result_iffs Let_def)
  from normalize_request_Ok[OF n] have "request_ok r'"
    by (cases "criteria r1") (auto simp: r' request_ok_def sort_filters_runtime_node)
  moreover have "root_sorted r'"
    by (simp add: r' root_sorted_def sort_filters_def list_all_iff comp_def)
  ultimately show ?thesis by simp
qed

text \<open>An address which decodes gives a request that is ready to run: its page is at least
  one, its page size between one and a hundred, its order known, its tree of at most fifty nodes
  within every runtime limit and free of retired flags, and the filters of its root are ordered.\<close>

theorem url_decode_ready:
  assumes "url_decode env hash legacy_broken_id = Inr r"
  shows "request_ok r \<and> root_sorted r"
  using assms
  by (auto simp: url_decode_def result_iffs split: if_splits prod.splits dest: url_canonical_ok)

definition sample_address :: string where
  "sample_address = ''#/library?v=1&bool=7:true&choice=3:2,1&page=2&name=a+b%20c''"

theorem url_decode_ready_witness:
  "(case url_decode plain_env sample_address 0 of Inl _ \<Rightarrow> False
    | Inr r \<Rightarrow> page r = 2 \<and> q_name (root_node (criteria r)) = ''a b c'' \<and> request_ok r \<and> root_sorted r)"
proof -
  define r where "r = request_default\<lparr>page := 2, page_size := 24, sort_order := ''name_asc'',
    criteria := Query (node_empty\<lparr>q_name := ''a b c'',
      boolean_filters := [\<lparr>bf_definition = 7, bf_state = ''true''\<rparr>],
      choice_filters := [\<lparr>cf_definition = 3, cf_values = [1, 2]\<rparr>]\<rparr>) []\<rparr>"
  have "url_decode plain_env sample_address 0 = Inr r" unfolding r_def by code_simp
  with url_decode_ready[OF this] show ?thesis by (simp add: r_def)
qed

lemma history_id_Some: "history_id v = Some n \<Longrightarrow> 0 < n \<and> n \<le> 9007199254740991"
  by (cases v) (auto simp: history_id_def split: if_splits)

lemma fallback_simps [simp]: "fallback q \<noteq> In_collection n" "fallback q \<noteq> In_shelf n m"
  by (simp_all add: fallback_def)

text \<open>A scope which takes an identity from the entry.\<close>

fun scope_identity :: "scope \<Rightarrow> i64 option" where
  "scope_identity (In_collection n) = Some n"
| "scope_identity (In_shelf n _) = Some n"
| "scope_identity _ = None"

lemma fallback_identity [simp]: "scope_identity (fallback q) = None"
  by (simp add: fallback_def)

lemma history_scope_identity:
  assumes "scope_identity (history_scope hash state q) = Some n"
  shows "0 < n \<and> n \<le> 9007199254740991
    \<and> json_str (json_index (json_index state ''collectionQuery'') ''hash'') = Some hash"
  using assms unfolding history_scope_def Let_def
  by (auto split: if_split_asm option.split_asm dest: history_id_Some)

text \<open>The identities of a history entry count only when the entry records the same address:
  a collection or shelf identity of the decoded location is positive and exactly representable in
  the browser, and comes from an entry whose recorded hash is the decoded one.\<close>

theorem history_identity_guard:
  assumes "decode_history env parse_json hash history legacy = Inr l"
    and "scope_identity (loc_scope l) = Some n"
  shows "0 < n \<and> n \<le> 9007199254740991
    \<and> map_option (\<lambda>s. json_str (json_index (json_index s ''collectionQuery'') ''hash'')) (parse_json history)
      = Some (Some hash)"
proof -
  from assms(1) obtain r state where "parse_json history = Some state"
    and "l = \<lparr>loc_scope = history_scope hash state (criteria r), loc_request = r\<rparr>"
    by (auto simp: decode_history_def result_iffs split: if_splits)
  with assms(2) history_scope_identity show ?thesis by auto
qed

text \<open>A history entry of the sample address which selects a collection.\<close>

definition sample_history :: json where
  "sample_history = JObject [(''collectionQuery'',
     JObject [(''hash'', JString sample_address), (''collectionId'', JInteger 12)])]"

theorem history_identity_guard_witness:
  "\<exists>l. decode_history plain_env (\<lambda>_. Some sample_history) sample_address [] 0 = Inr l
    \<and> scope_identity (loc_scope l) = Some 12 \<and> (0::int) < 12
    \<and> map_option (\<lambda>s. json_str (json_index (json_index s ''collectionQuery'') ''hash'')) (Some sample_history)
      = Some (Some sample_address)"
proof -
  obtain l where l: "decode_history plain_env (\<lambda>_. Some sample_history) sample_address [] 0 = Inr l"
    "scope_identity (loc_scope l) = Some 12"
  proof -
    have "(case decode_history plain_env (\<lambda>_. Some sample_history) sample_address [] 0 of
        Inl _ \<Rightarrow> False | Inr l \<Rightarrow> scope_identity (loc_scope l) = Some 12)" by code_simp
    then show thesis using that by (auto split: sum.splits)
  qed
  with history_identity_guard[OF l] show ?thesis by auto
qed

end
