(* ===== verification/Transition_Systems.thy ===== *)
theory Transition_Systems
  imports Prelude
begin

section \<open>Transition systems and their invariants\<close>

text \<open>
  The contract by which a component with state is proved safe: its start states satisfy a
  predicate and every step keeps it. The components with state (navigation, the lifecycle of the
  application, the terminal recorder of a job) interpret these locales on their own step relations;
  a property of every reachable state is then a fact of the interpretation.
\<close>

inductive reachable :: "('s \<Rightarrow> bool) \<Rightarrow> ('s \<Rightarrow> 'a \<Rightarrow> 's \<Rightarrow> bool) \<Rightarrow> 's \<Rightarrow> bool"
  for start step where
  reach_start: "start s \<Longrightarrow> reachable start step s"
| reach_step: "reachable start step s \<Longrightarrow> step s a t \<Longrightarrow> reachable start step t"

text \<open>A run: the labels of the steps from one state to another, in order.\<close>

inductive run :: "('s \<Rightarrow> 'a \<Rightarrow> 's \<Rightarrow> bool) \<Rightarrow> 's \<Rightarrow> 'a list \<Rightarrow> 's \<Rightarrow> bool"
  for step where
  run_nil: "run step s [] s"
| run_cons: "step s a t \<Longrightarrow> run step t as u \<Longrightarrow> run step s (a # as) u"

inductive_cases run_NilE: "run step s [] u"
inductive_cases run_ConsE: "run step s (a # as) u"

inductive_simps run_Nil_simp: "run step s [] u"
inductive_simps run_Cons_simp: "run step s (a # as) u"

lemma run_append: "run step s (as @ bs) u \<longleftrightarrow> (\<exists>t. run step s as t \<and> run step t bs u)"
  by (induction as arbitrary: s) (auto simp: run_Nil_simp run_Cons_simp)

lemma run_reachable: "run step s as t \<Longrightarrow> reachable start step s \<Longrightarrow> reachable start step t"
  by (induction rule: run.induct) (auto intro: reach_step)

locale safe_system =
  fixes start :: "'s \<Rightarrow> bool" and step :: "'s \<Rightarrow> 'a \<Rightarrow> 's \<Rightarrow> bool" and good :: "'s \<Rightarrow> bool"
  assumes start_good: "start s \<Longrightarrow> good s"
    and step_good: "step s a t \<Longrightarrow> good s \<Longrightarrow> good t"
begin

lemma run_good: "run step s as t \<Longrightarrow> good s \<Longrightarrow> good t"
  by (induction rule: run.induct) (auto intro: step_good)

lemma reachable_good: "reachable start step s \<Longrightarrow> good s"
  by (induction rule: reachable.induct) (auto intro: start_good step_good)

lemma reachable_step_good: "reachable start step s \<Longrightarrow> step s a t \<Longrightarrow> good s \<and> good t"
  using reachable_good reach_step by metis

end

text \<open>A counter that no step lowers and that the labels in \<open>counts\<close> raise.\<close>

locale versioned_system = safe_system start step good
  for start :: "'s \<Rightarrow> bool" and step :: "'s \<Rightarrow> 'a \<Rightarrow> 's \<Rightarrow> bool" and good +
  fixes version :: "'s \<Rightarrow> nat" and counts :: "'s \<Rightarrow> 'a \<Rightarrow> bool"
  assumes version_mono: "step s a t \<Longrightarrow> good s \<Longrightarrow> version s \<le> version t"
    and version_counts: "step s a t \<Longrightarrow> good s \<Longrightarrow> counts s a \<Longrightarrow> version s < version t"
begin

lemma run_version_mono: "run step s as t \<Longrightarrow> good s \<Longrightarrow> version s \<le> version t"
proof (induction rule: run.induct)
  case (run_cons s a t as u)
  then show ?case using version_mono step_good le_trans by blast
qed simp

lemma run_version_less:
  assumes "run step s as t" "step t a u" "run step u bs v" "good s" "counts t a"
  shows "version s < version v"
proof -
  have "good t" using assms run_good by blast
  then have "good u" using assms step_good by blast
  have "version s \<le> version t" using assms run_version_mono by blast
  also have "\<dots> < version u" using assms \<open>good t\<close> version_counts by blast
  also have "\<dots> \<le> version v" using assms \<open>good u\<close> run_version_mono by blast
  finally show ?thesis .
qed

end

end
