(* ===== verification/Navigation.thy ===== *)
theory Navigation
  imports Query_Url Transition_Systems Vocabulary
begin

section \<open>Navigation\<close>

text \<open>
  \<open>navigation.rs\<close>: a bounded history of frames with a position, a revision and the identity of the
  current location. \<open>Arc::new(())\<close> is a token: an operation that allocates one takes it as its
  first argument, and the caller supplies a token of its own each time. \<open>serde_json\<close> on the wire
  structures and on one request are the functions of \<open>nav_env\<close>.
\<close>

definition max_history :: usize where
  "max_history = 100"

definition max_state_bytes :: usize where
  "max_state_bytes = 8 * 1024 * 1024"

datatype presentation = List_view | SmallCovers | LargeCovers

record nav_frame =
  frame_location :: location
  frame_selection :: "i64 list"

record navigation =
  nav_library :: string
  nav_generation :: nat
  nav_revision :: nat
  nav_identity :: nat
  nav_frames :: "nav_frame list"
  nav_position :: usize
  nav_presentation :: presentation

record query_stamp =
  stamp_library :: string
  stamp_generation :: nat
  stamp_revision :: nat
  stamp_identity :: nat

datatype invalid_navigation = InvalidNavigation

record 'v wire_frame =
  wire_kind :: string
  wire_id :: "i64 option"
  wire_manual_order :: "bool option"
  wire_request :: 'v
  wire_selection :: "i64 list"

record 'v wire_state =
  wire_version :: i64
  wire_library_id :: string
  wire_frames :: "'v wire_frame list"
  wire_position :: usize
  wire_presentation :: presentation

record 'v nav_env =
  nav_codec :: codec_env
  to_bytes :: "query_request \<Rightarrow> invalid_hash + string"
  value_of_bytes :: "string \<Rightarrow> 'v option"
  bytes_of_value :: "'v \<Rightarrow> string option"
  show_state :: "'v wire_state \<Rightarrow> string option"
  read_state :: "string \<Rightarrow> 'v wire_state option"
  show_library :: "string \<Rightarrow> string"

abbreviation invalid_nav :: "'e + 'a \<Rightarrow> invalid_navigation + 'a" where
  "invalid_nav \<equiv> map_err (\<lambda>_. InvalidNavigation)"

definition validate_selection :: "i64 list \<Rightarrow> invalid_navigation + unit" where
  "validate_selection ids =
     (if rejects_repeat (\<lambda>i. i \<le> 0) (\<lambda>i. i) {} ids then Inl InvalidNavigation else Inr ())"

subsection \<open>The wire form\<close>

fun scope_fields :: "scope \<Rightarrow> string \<times> i64 option \<times> bool option" where
  "scope_fields In_library = (''library'', None, None)"
| "scope_fields In_custom = (''custom'', None, None)"
| "scope_fields (In_collection n) = (''collection'', Some n, None)"
| "scope_fields (In_shelf n m) = (''shelf'', Some n, Some m)"

definition scope_of_fields :: "string \<Rightarrow> i64 option \<Rightarrow> bool option \<Rightarrow> invalid_navigation + scope" where
  "scope_of_fields kind ident manual =
     (case (ident, manual) of
        (None, None) \<Rightarrow>
          if kind = ''library'' then Inr In_library
          else if kind = ''custom'' then Inr In_custom else Inl InvalidNavigation
      | (Some n, None) \<Rightarrow>
          if kind = ''collection'' then and_then (invalid_nav (group_id_new n)) (\<lambda>n. Inr (In_collection n))
          else Inl InvalidNavigation
      | (Some n, Some m) \<Rightarrow>
          if kind = ''shelf'' then and_then (invalid_nav (group_id_new n)) (\<lambda>n. Inr (In_shelf n m))
          else Inl InvalidNavigation
      | _ \<Rightarrow> Inl InvalidNavigation)"

definition wire_frame_of :: "'v nav_env \<Rightarrow> nav_frame \<Rightarrow> invalid_navigation + 'v wire_frame" where
  "wire_frame_of env f =
     and_then (validate_selection (frame_selection f)) (\<lambda>_.
       let (kind, ident, manual) = scope_fields (loc_scope (frame_location f)) in
       and_then (invalid_nav (request_bytes (nav_codec env) (to_bytes env) (loc_request (frame_location f)))) (\<lambda>bytes.
       and_then (ok_or InvalidNavigation (value_of_bytes env bytes)) (\<lambda>v.
         Inr \<lparr>wire_kind = kind, wire_id = ident, wire_manual_order = manual,
              wire_request = v, wire_selection = frame_selection f\<rparr>)))"

definition nav_encode :: "'v nav_env \<Rightarrow> navigation \<Rightarrow> invalid_navigation + string" where
  "nav_encode env n =
     (if nav_frames n = [] \<or> length (nav_frames n) > max_history \<or> nav_position n \<ge> length (nav_frames n)
      then Inl InvalidNavigation
      else
        and_then (collect_results (wire_frame_of env) (nav_frames n)) (\<lambda>frames.
        and_then (ok_or InvalidNavigation (show_state env
            \<lparr>wire_version = 1, wire_library_id = show_library env (nav_library n),
             wire_frames = frames, wire_position = nav_position n,
             wire_presentation = nav_presentation n\<rparr>)) (\<lambda>bytes.
          if length bytes > max_state_bytes then Inl InvalidNavigation else Inr bytes)))"

definition frame_of_wire :: "'v nav_env \<Rightarrow> 'v wire_frame \<Rightarrow> invalid_navigation + nav_frame" where
  "frame_of_wire env w =
     and_then (validate_selection (wire_selection w)) (\<lambda>_.
     and_then (scope_of_fields (wire_kind w) (wire_id w) (wire_manual_order w)) (\<lambda>sc.
     and_then (ok_or InvalidNavigation (bytes_of_value env (wire_request w))) (\<lambda>bytes.
     and_then (invalid_nav (restore_request (nav_codec env) bytes)) (\<lambda>r.
       Inr \<lparr>frame_location = \<lparr>loc_scope = sc, loc_request = r\<rparr>, frame_selection = wire_selection w\<rparr>))))"

definition nav_decode ::
    "'v nav_env \<Rightarrow> nat \<Rightarrow> string \<Rightarrow> string \<Rightarrow> nat \<Rightarrow> invalid_navigation + navigation" where
  "nav_decode env token bytes expected generation =
     (if length bytes > max_state_bytes \<or> generation = 0 then Inl InvalidNavigation
      else and_then (ok_or InvalidNavigation (read_state env bytes)) (\<lambda>w.
        if wire_version w \<noteq> 1 \<or> wire_library_id w \<noteq> show_library env expected
           \<or> wire_frames w = [] \<or> length (wire_frames w) > max_history
           \<or> wire_position w \<ge> length (wire_frames w)
        then Inl InvalidNavigation
        else and_then (collect_results (frame_of_wire env) (wire_frames w)) (\<lambda>frames.
          Inr \<lparr>nav_library = expected, nav_generation = generation, nav_revision = 1,
               nav_identity = token, nav_frames = frames, nav_position = wire_position w,
               nav_presentation = wire_presentation w\<rparr>)))"

subsection \<open>Operations\<close>

definition nav_new ::
    "'v nav_env \<Rightarrow> nat \<Rightarrow> string \<Rightarrow> nat \<Rightarrow> location \<Rightarrow> invalid_navigation + navigation" where
  "nav_new env token library generation loc =
     (if generation = 0 then Inl InvalidNavigation
      else
        let n = \<lparr>nav_library = library, nav_generation = generation, nav_revision = 1,
                 nav_identity = token,
                 nav_frames = [\<lparr>frame_location = loc, frame_selection = []\<rparr>],
                 nav_position = 0, nav_presentation = List_view\<rparr>
        in and_then (nav_encode env n) (\<lambda>_. Inr n))"

definition nav_current :: "navigation \<Rightarrow> nav_frame" where
  "nav_current n = nav_frames n ! nav_position n"

definition set_presentation :: "presentation \<Rightarrow> navigation \<Rightarrow> navigation" where
  "set_presentation mode n = n\<lparr>nav_presentation := mode\<rparr>"

definition nav_stamp :: "navigation \<Rightarrow> query_stamp" where
  "nav_stamp n =
     \<lparr>stamp_library = nav_library n, stamp_generation = nav_generation n,
      stamp_revision = nav_revision n, stamp_identity = nav_identity n\<rparr>"

definition nav_accepts :: "navigation \<Rightarrow> query_stamp \<Rightarrow> bool" where
  "nav_accepts n stamp \<longleftrightarrow> nav_stamp n = stamp"

definition next_revision :: "navigation \<Rightarrow> invalid_navigation + nat" where
  "next_revision n = ok_or InvalidNavigation (u64_checked_add (nav_revision n) 1)"

definition nav_push :: "'v nav_env \<Rightarrow> nat \<Rightarrow> nav_frame \<Rightarrow> navigation \<Rightarrow> invalid_navigation + navigation" where
  "nav_push env token frame n =
     (let kept = take (nav_position n + 1) (nav_frames n) @ [frame];
          frames = (if length kept > max_history then tl kept else kept) in
      and_then (next_revision n) (\<lambda>revision.
        let next = n\<lparr>nav_frames := frames, nav_position := length frames - 1,
            nav_revision := revision, nav_identity := token\<rparr>
        in and_then (nav_encode env next) (\<lambda>_. Inr next)))"

definition nav_replace :: "'v nav_env \<Rightarrow> nat \<Rightarrow> nav_frame \<Rightarrow> navigation \<Rightarrow> invalid_navigation + navigation" where
  "nav_replace env token frame n =
     and_then (next_revision n) (\<lambda>revision.
       let next = n\<lparr>nav_frames := (nav_frames n)[nav_position n := frame],
           nav_revision := revision, nav_identity := token\<rparr>
       in and_then (nav_encode env next) (\<lambda>_. Inr next))"

definition nav_select :: "'v nav_env \<Rightarrow> i64 list \<Rightarrow> navigation \<Rightarrow> invalid_navigation + navigation" where
  "nav_select env selection n =
     (let next = n\<lparr>nav_frames := (nav_frames n)[nav_position n := (nav_current n)\<lparr>frame_selection := selection\<rparr>]\<rparr>
      in and_then (nav_encode env next) (\<lambda>_. Inr next))"

definition can_back :: "navigation \<Rightarrow> bool" where
  "can_back n \<longleftrightarrow> nav_position n > 0"

definition can_forward :: "navigation \<Rightarrow> bool" where
  "can_forward n \<longleftrightarrow> nav_position n + 1 < length (nav_frames n)"

definition nav_back :: "nat \<Rightarrow> navigation \<Rightarrow> invalid_navigation + bool \<times> navigation" where
  "nav_back token n =
     (if nav_position n = 0 then Inr (False, n)
      else and_then (next_revision n) (\<lambda>revision.
        Inr (True, n\<lparr>nav_position := nav_position n - 1, nav_revision := revision, nav_identity := token\<rparr>)))"

definition nav_forward :: "nat \<Rightarrow> navigation \<Rightarrow> invalid_navigation + bool \<times> navigation" where
  "nav_forward token n =
     (if nav_position n + 1 = length (nav_frames n) then Inr (False, n)
      else and_then (next_revision n) (\<lambda>revision.
        Inr (True, n\<lparr>nav_position := nav_position n + 1, nav_revision := revision, nav_identity := token\<rparr>)))"

subsection \<open>Navigation as a transition system\<close>

datatype nav_op = Push nav_frame | Replace nav_frame | Select "i64 list" | Back | Forward | Present presentation

definition nav_start :: "'v nav_env \<Rightarrow> navigation \<Rightarrow> bool" where
  "nav_start env n \<longleftrightarrow>
     (\<exists>token library generation loc. nav_new env token library generation loc = Inr n)
     \<or> (\<exists>token bytes expected generation. nav_decode env token bytes expected generation = Inr n)"

inductive nav_step :: "'v nav_env \<Rightarrow> navigation \<Rightarrow> nav_op \<Rightarrow> navigation \<Rightarrow> bool" for env where
  op_push: "nav_push env token f n = Inr n' \<Longrightarrow> nav_step env n (Push f) n'"
| op_replace: "nav_replace env token f n = Inr n' \<Longrightarrow> nav_step env n (Replace f) n'"
| op_select: "nav_select env ids n = Inr n' \<Longrightarrow> nav_step env n (Select ids) n'"
| op_back: "nav_back token n = Inr (moved, n') \<Longrightarrow> nav_step env n Back n'"
| op_forward: "nav_forward token n = Inr (moved, n') \<Longrightarrow> nav_step env n Forward n'"
| op_present: "nav_step env n (Present mode) (set_presentation mode n)"

inductive_cases nav_step_cases: "nav_step env n a n'"

definition nav_inv :: "navigation \<Rightarrow> bool" where
  "nav_inv n \<longleftrightarrow>
     nav_frames n \<noteq> [] \<and> length (nav_frames n) \<le> 100 \<and> nav_position n < length (nav_frames n)
     \<and> list_all (\<lambda>f. distinct (frame_selection f) \<and> list_all (\<lambda>i. 0 < i) (frame_selection f)) (nav_frames n)"

definition nav_counts :: "navigation \<Rightarrow> nav_op \<Rightarrow> bool" where
  "nav_counts n a =
     (case a of Push _ \<Rightarrow> True | Replace _ \<Rightarrow> True | Back \<Rightarrow> can_back n
      | Forward \<Rightarrow> nav_position n + 1 \<noteq> length (nav_frames n) | _ \<Rightarrow> False)"

lemma validate_selection_Ok_iff:
  "validate_selection ids = Inr u \<longleftrightarrow> distinct ids \<and> list_all (\<lambda>i. 0 < i) ids"
  by (auto simp: validate_selection_def not_rejects_repeat_empty list_all_iff not_le not_less rejects_repeat_iff)

lemma wire_frames_selection:
  "collect_results (wire_frame_of env) frames = Inr ws \<Longrightarrow>
     list_all (\<lambda>f. distinct (frame_selection f) \<and> list_all (\<lambda>i. 0 < i) (frame_selection f)) frames"
  by (induction frames arbitrary: ws)
    (auto simp: and_then_Ok_iff wire_frame_of_def validate_selection_Ok_iff)

lemma frame_of_wire_selection:
  "frame_of_wire env w = Inr f \<Longrightarrow> distinct (frame_selection f) \<and> list_all (\<lambda>i. 0 < i) (frame_selection f)"
  by (auto simp: frame_of_wire_def and_then_Ok_iff validate_selection_Ok_iff)

lemma nav_encode_inv: "nav_encode env n = Inr bytes \<Longrightarrow> nav_inv n"
  by (auto simp: nav_encode_def and_then_Ok_iff nav_inv_def max_history_def
      split: if_splits dest: wire_frames_selection)

lemma nav_decode_inv:
  fixes env :: "'v nav_env"
  assumes "nav_decode env token bytes expected generation = Inr n"
  shows "nav_inv n"
proof -
  from assms obtain w :: "'v wire_state" and frames where w: "wire_frames w \<noteq> []" "length (wire_frames w) \<le> 100"
      "wire_position w < length (wire_frames w)"
    and f: "list_all2 (\<lambda>w f. frame_of_wire env w = Inr f) (wire_frames w) frames"
    and n: "n = \<lparr>nav_library = expected, nav_generation = generation, nav_revision = 1,
      nav_identity = token, nav_frames = frames, nav_position = wire_position w,
      nav_presentation = wire_presentation w\<rparr>"
    by (auto simp: nav_decode_def and_then_Ok_iff collect_results_Ok_iff max_history_def not_le not_less
        split: if_splits)
  from f have "length frames = length (wire_frames w)" by (simp add: list_all2_lengthD)
  moreover from f have "list_all (\<lambda>f. distinct (frame_selection f) \<and> list_all (\<lambda>i. 0 < i) (frame_selection f)) frames"
    by (induction rule: list_all2_induct) (simp_all add: frame_of_wire_selection)
  ultimately show ?thesis using w by (auto simp: nav_inv_def n)
qed

lemma nav_start_inv: "nav_start env n \<Longrightarrow> nav_inv n"
  by (auto simp: nav_start_def nav_new_def and_then_Ok_iff Let_def
      split: if_splits dest: nav_encode_inv nav_decode_inv)

lemma next_revision_Ok_iff:
  "next_revision n = Inr r \<longleftrightarrow> r = Suc (nav_revision n) \<and> r \<le> u64_max"
  by (auto simp: next_revision_def result_iffs u64_checked_add_Some_iff)

lemma nav_step_inv: "nav_step env n a n' \<Longrightarrow> nav_inv n \<Longrightarrow> nav_inv n'"
proof (induction rule: nav_step.induct)
  case (op_back token n moved n')
  then show ?case by (auto simp: nav_back_def and_then_Ok_iff nav_inv_def split: if_splits)
next
  case (op_forward token n moved n')
  then show ?case by (auto simp: nav_forward_def and_then_Ok_iff nav_inv_def split: if_splits)
next
  case (op_present n mode)
  then show ?case by (simp add: set_presentation_def nav_inv_def)
qed (auto simp: nav_push_def nav_replace_def nav_select_def and_then_Ok_iff Let_def dest!: nav_encode_inv)

lemma nav_step_revision:
  assumes "nav_step env n a n'"
  shows "nav_revision n \<le> nav_revision n' \<and> (nav_counts n a \<longrightarrow> nav_revision n < nav_revision n')"
  using assms
  by (cases rule: nav_step.cases)
    (auto simp: nav_push_def nav_replace_def nav_select_def nav_back_def nav_forward_def
      set_presentation_def nav_counts_def can_back_def and_then_Ok_iff Let_def next_revision_Ok_iff
      split: if_splits)

interpretation nav: versioned_system "nav_start env" "nav_step env" nav_inv nav_revision nav_counts
  for env :: "'v nav_env"
  by unfold_locales (use nav_start_inv nav_step_inv nav_step_revision in blast)+

subsection \<open>Concrete states\<close>

text \<open>An environment whose serializers write fixed texts, a new navigation and one visit.\<close>

definition plain_nav :: "string nav_env" where
  "plain_nav =
     \<lparr>nav_codec = plain_env, to_bytes = (\<lambda>_. Inr ''{}''), value_of_bytes = Some, bytes_of_value = Some,
      show_state = (\<lambda>_. Some ''state''), read_state = (\<lambda>_. None), show_library = (\<lambda>l. l)\<rparr>"

definition sample_location :: location where
  "sample_location = \<lparr>loc_scope = In_library, loc_request = request_default\<rparr>"

definition sample_visit :: nav_frame where
  "sample_visit =
     \<lparr>frame_location = \<lparr>loc_scope = In_collection 3, loc_request = request_default\<rparr>, frame_selection = [5, 4]\<rparr>"

definition sample_nav0 :: navigation where
  "sample_nav0 =
     \<lparr>nav_library = ''lib'', nav_generation = 1, nav_revision = 1, nav_identity = 0,
      nav_frames = [\<lparr>frame_location = sample_location, frame_selection = []\<rparr>],
      nav_position = 0, nav_presentation = List_view\<rparr>"

definition sample_nav1 :: navigation where
  "sample_nav1 = sample_nav0\<lparr>nav_frames := nav_frames sample_nav0 @ [sample_visit],
     nav_position := 1, nav_revision := 2, nav_identity := 1\<rparr>"

definition sample_nav2 :: navigation where
  "sample_nav2 = sample_nav1\<lparr>nav_position := 0, nav_revision := 3, nav_identity := 2\<rparr>"

definition sample_nav3 :: navigation where
  "sample_nav3 = sample_nav1\<lparr>nav_revision := 4, nav_identity := 3\<rparr>"

lemma sample_new: "nav_new plain_nav 0 ''lib'' 1 sample_location = Inr sample_nav0"
  by code_simp

lemma sample_push: "nav_push plain_nav 1 sample_visit sample_nav0 = Inr sample_nav1"
  by code_simp

lemma sample_back: "nav_back 2 sample_nav1 = Inr (True, sample_nav2)"
  by code_simp

lemma sample_forward: "nav_forward 3 sample_nav2 = Inr (True, sample_nav3)"
  by code_simp

lemma sample_reachable: "reachable (nav_start plain_nav) (nav_step plain_nav) sample_nav0"
  by (rule reach_start) (use sample_new in \<open>auto simp: nav_start_def\<close>)

subsection \<open>Properties\<close>

text \<open>C20: Every navigation which the code can reach, from a new or a decoded state and by any
  accepted operations, has between one and a hundred frames, its position at one of them, and
  selections of positive distinct identities: no frame access is out of range.\<close>

theorem navigation_in_bounds:
  assumes "reachable (nav_start env) (nav_step env) n"
  shows "nav_frames n \<noteq> [] \<and> length (nav_frames n) \<le> 100 \<and> nav_position n < length (nav_frames n)
    \<and> list_all (\<lambda>f. distinct (frame_selection f) \<and> list_all (\<lambda>i. 0 < i) (frame_selection f)) (nav_frames n)"
  using nav.reachable_good[OF assms] by (simp add: nav_inv_def)

theorem navigation_in_bounds_witness:
  "nav_frames sample_nav1 \<noteq> [] \<and> length (nav_frames sample_nav1) \<le> 100
    \<and> nav_position sample_nav1 < length (nav_frames sample_nav1)
    \<and> list_all (\<lambda>f. distinct (frame_selection f) \<and> list_all (\<lambda>i. 0 < i) (frame_selection f)) (nav_frames sample_nav1)"
  by (rule navigation_in_bounds[of plain_nav])
    (rule reach_step[OF sample_reachable op_push[OF sample_push]])

text \<open>A stamp taken from a navigation is refused for ever after an operation that changed the
  location: whatever follows it, no later state accepts the earlier stamp.\<close>

theorem stale_stamps_refused:
  assumes "reachable (nav_start env) (nav_step env) n"
    and "run (nav_step env) n as t" and "nav_step env t a u" and "nav_counts t a"
    and "run (nav_step env) u bs v"
  shows "\<not> nav_accepts v (nav_stamp n)"
proof -
  have "nav_revision n < nav_revision v"
    using nav.run_version_less[OF assms(2,3,5) nav.reachable_good[OF assms(1)] assms(4)] .
  then show ?thesis by (auto simp: nav_accepts_def nav_stamp_def)
qed

theorem stale_stamps_refused_witness: "\<not> nav_accepts sample_nav2 (nav_stamp sample_nav0)"
proof (rule stale_stamps_refused[OF sample_reachable run_nil op_push[OF sample_push]])
  show "nav_counts sample_nav0 (Push sample_visit)" by (simp add: nav_counts_def)
  show "run (nav_step plain_nav) sample_nav1 [Back] sample_nav2"
    by (simp add: run_Cons_simp run_Nil_simp op_back[OF sample_back])
qed

text \<open>Going back after visiting a frame shows the frame that was current before, and going
  forward again the visited one, also when the visit dropped the oldest frame of a full history.\<close>

theorem back_after_push:
  assumes "nav_inv n" and push: "nav_push env t1 frame n = Inr n1"
    and backward: "nav_back t2 n1 = Inr (moved, n2)"
    and forward: "nav_forward t3 n2 = Inr (moved', n3)"
  shows "moved \<and> nav_current n2 = nav_current n \<and> moved' \<and> nav_current n3 = frame
    \<and> nav_frames n3 = nav_frames n1 \<and> nav_position n3 = nav_position n1"
proof -
  define kept where "kept = take (nav_position n + 1) (nav_frames n) @ [frame]"
  define frames where "frames = (if length kept > max_history then tl kept else kept)"
  have p: "nav_position n < length (nav_frames n)" "length (nav_frames n) \<le> 100"
    using assms(1) by (auto simp: nav_inv_def)
  then have len: "length kept = nav_position n + 2" by (simp add: kept_def)
  from push have n1: "nav_frames n1 = frames" "nav_position n1 = length frames - 1"
    by (auto simp: nav_push_def and_then_Ok_iff Let_def frames_def kept_def)
  have nth: "kept ! nav_position n = nav_frames n ! nav_position n" "kept ! (nav_position n + 1) = frame"
    using p by (simp_all add: kept_def nth_append)
  have f: "frames ! (length frames - 2) = nav_frames n ! nav_position n"
      "frames ! (length frames - 1) = frame" "2 \<le> length frames"
    using nth len p by (auto simp: frames_def max_history_def nth_tl)
  from backward have n2: "moved" "nav_frames n2 = frames" "nav_position n2 = length frames - 2"
    using f(3) n1 by (auto simp: nav_back_def and_then_Ok_iff split: if_splits)
  from forward have "moved'" "nav_frames n3 = frames" "nav_position n3 = length frames - 1"
    using f(3) n2 by (auto simp: nav_forward_def and_then_Ok_iff split: if_splits)
  with n1 n2 f show ?thesis by (simp add: nav_current_def)
qed

theorem back_after_push_witness:
  "nav_current sample_nav2 = nav_current sample_nav0 \<and> nav_current sample_nav3 = sample_visit"
proof -
  have "nav_inv sample_nav0" by code_simp
  from back_after_push[OF this sample_push sample_back sample_forward] show ?thesis by simp
qed

end
