(* ===== verification/Handover.thy ===== *)
theory Handover
  imports Navigation
begin

section \<open>Preference handover\<close>

text \<open>
  \<open>handover.rs\<close>: the one-time transfer of preferences from the compatibility release. The
  document parser of \<open>serde_json\<close> and the job identity parser of the \<open>uuid\<close> crate with its
  canonical print are the parameters \<open>read_document\<close> and \<open>canonical_job\<close> (the print of what
  the text parses to). Each frame takes a token from the supplied list.
\<close>

datatype invalid_handover = InvalidHandover

record legacy_frame =
  legacy_hash :: string
  legacy_kind :: string
  legacy_id :: "i64 option"
  legacy_manual_order :: "bool option"

record handover_state =
  ho_presentation :: presentation
  ho_dismissed :: "string list"
  ho_sync_hidden :: bool
  ho_frames :: "legacy_frame list"
  ho_position :: usize

record handover_document =
  doc_format :: string
  doc_version :: nat
  doc_library :: string
  doc_legacy_broken :: i64
  doc_state :: handover_state

record preferences =
  pref_navigation :: navigation
  pref_dismissed :: "string list"
  pref_sync_hidden :: bool

definition max_safe_id :: i64 where
  "max_safe_id = 9007199254740991"

abbreviation invalid_handover :: "'e + 'a \<Rightarrow> invalid_handover + 'a" where
  "invalid_handover \<equiv> map_err (\<lambda>_. InvalidHandover)"

text \<open>The dismissed operations, which the code collects into an ordered set.\<close>

fun dismissed_set :: "(string \<Rightarrow> string option) \<Rightarrow> string list \<Rightarrow> string list \<Rightarrow> invalid_handover + string list" where
  "dismissed_set canonical_job [] seen = Inr (sort seen)"
| "dismissed_set canonical_job (i # ids) seen =
     and_then (ok_or InvalidHandover (canonical_job i)) (\<lambda>printed.
       if printed \<noteq> i \<or> i \<in> set seen then Inl InvalidHandover
       else dismissed_set canonical_job ids (i # seen))"

definition legacy_location ::
    "'v nav_env \<Rightarrow> i64 \<Rightarrow> legacy_frame \<Rightarrow> invalid_handover + location" where
  "legacy_location env legacy_broken f =
     (if (case legacy_id f of None \<Rightarrow> False | Some i \<Rightarrow> \<not> (i > 0 \<and> i \<le> max_safe_id))
      then Inl InvalidHandover
      else
        and_then (invalid_handover (scope_of_fields (legacy_kind f) (legacy_id f) (legacy_manual_order f))) (\<lambda>sc.
        and_then (invalid_handover (url_decode (nav_codec env) (legacy_hash f) legacy_broken)) (\<lambda>r.
          Inr \<lparr>loc_scope = sc, loc_request = r\<rparr>)))"

fun visit_frames ::
    "'v nav_env \<Rightarrow> i64 \<Rightarrow> (nat \<times> legacy_frame) list \<Rightarrow> navigation \<Rightarrow> invalid_handover + navigation" where
  "visit_frames env legacy_broken [] n = Inr n"
| "visit_frames env legacy_broken ((token, f) # fs) n =
     and_then (legacy_location env legacy_broken f) (\<lambda>loc.
     and_then (invalid_handover
         (nav_push env token \<lparr>frame_location = loc, frame_selection = []\<rparr> n)) (\<lambda>n.
       visit_frames env legacy_broken fs n))"

definition open_frames ::
    "'v nav_env \<Rightarrow> string \<Rightarrow> nat \<Rightarrow> i64 \<Rightarrow> (nat \<times> legacy_frame) list \<Rightarrow> invalid_handover + navigation" where
  "open_frames env library generation legacy_broken fs =
     (case fs of
        [] \<Rightarrow> Inl InvalidHandover
      | (token, f) # fs \<Rightarrow>
          and_then (legacy_location env legacy_broken f) (\<lambda>loc.
          and_then (invalid_handover (nav_new env token library generation loc)) (\<lambda>n.
            visit_frames env legacy_broken fs n)))"

fun step_back :: "nat list \<Rightarrow> navigation \<Rightarrow> invalid_handover + navigation" where
  "step_back [] n = Inr n"
| "step_back (token # tokens) n =
     and_then (invalid_handover (nav_back token n)) (\<lambda>(_, n). step_back tokens n)"

definition document_ok :: "'v nav_env \<Rightarrow> string \<Rightarrow> handover_document \<Rightarrow> bool" where
  "document_ok env library d \<longleftrightarrow>
     (let s = doc_state d in
      \<not> (doc_format d \<noteq> ''librairii.preference-handover'' \<or> doc_version d \<noteq> 1
         \<or> doc_library d \<noteq> show_library env library
         \<or> doc_legacy_broken d < 0 \<or> max_safe_id < doc_legacy_broken d
         \<or> ho_frames s = [] \<or> length (ho_frames s) > max_history
         \<or> ho_position s \<ge> length (ho_frames s) \<or> length (ho_dismissed s) > 4096))"

text \<open>The tokens are the identities of the allocations, one for each frame and each step back.\<close>

definition handover_decode ::
    "'v nav_env \<Rightarrow> (string \<Rightarrow> handover_document option) \<Rightarrow> (string \<Rightarrow> string option)
      \<Rightarrow> (nat \<Rightarrow> nat) \<Rightarrow> string \<Rightarrow> string \<Rightarrow> nat \<Rightarrow> invalid_handover + preferences" where
  "handover_decode env read_document canonical_job tokens bytes library generation =
     (if length bytes > max_state_bytes then Inl InvalidHandover
      else and_then (ok_or InvalidHandover (read_document bytes)) (\<lambda>d.
        let s = doc_state d; count = length (ho_frames s) in
        if \<not> document_ok env library d then Inl InvalidHandover
        else
          and_then (dismissed_set canonical_job (ho_dismissed s) []) (\<lambda>dismissed.
          and_then (open_frames env library generation (doc_legacy_broken d)
              (zip (map tokens [0..<count]) (ho_frames s))) (\<lambda>n.
          and_then (step_back (map tokens [count..<count + (count - (ho_position s + 1))]) n) (\<lambda>n.
            let n = set_presentation (ho_presentation s) n in
            and_then (invalid_handover (nav_encode env n)) (\<lambda>_.
              Inr \<lparr>pref_navigation = n, pref_dismissed = dismissed, pref_sync_hidden = ho_sync_hidden s\<rparr>))))))"

subsection \<open>The transferred history\<close>

abbreviation visits :: "'v nav_env \<Rightarrow> i64 \<Rightarrow> legacy_frame \<Rightarrow> nav_frame \<Rightarrow> bool" where
  "visits env legacy_broken f g \<equiv>
     legacy_location env legacy_broken f = Inr (frame_location g) \<and> frame_selection g = []"

lemma push_at_end:
  assumes "nav_push env token frame n = Inr n'" "nav_position n + 1 = length (nav_frames n)"
    and "length (nav_frames n) < 100"
  shows "nav_frames n' = nav_frames n @ [frame] \<and> nav_position n' + 1 = length (nav_frames n')"
  using assms by (auto simp: nav_push_def and_then_Ok_iff Let_def max_history_def)

lemma visit_frames_append:
  assumes "visit_frames env lb fs n = Inr n'"
    and "list_all2 (visits env lb) past (nav_frames n)" "nav_position n + 1 = length (nav_frames n)"
    and "length past + length fs \<le> 100"
  shows "list_all2 (visits env lb) (past @ map snd fs) (nav_frames n')
    \<and> nav_position n' + 1 = length (nav_frames n')"
  using assms
proof (induction env lb fs n arbitrary: past rule: visit_frames.induct)
  case (2 env lb token f fs n)
  then obtain loc m where loc: "legacy_location env lb f = Inr loc"
    and push: "nav_push env token \<lparr>frame_location = loc, frame_selection = []\<rparr> n = Inr m"
    and rest: "visit_frames env lb fs m = Inr n'"
    by (auto simp: result_iffs)
  have len: "length (nav_frames n) = length past" using "2.prems"(2) by (simp add: list_all2_lengthD)
  with "2.prems"(4) have "length (nav_frames n) < 100" by simp
  note at_end = push_at_end[OF push "2.prems"(3) this]
  with "2.prems"(2) loc have "list_all2 (visits env lb) (past @ [f]) (nav_frames m)"
    by (simp add: list_all2_appendI)
  from "2.IH"[OF loc _ rest this] push at_end "2.prems"(4) show ?case by auto
qed simp

lemma step_back_position:
  "step_back tokens n = Inr n' \<Longrightarrow> length tokens \<le> nav_position n \<Longrightarrow>
     nav_frames n' = nav_frames n \<and> nav_position n' + length tokens = nav_position n"
proof (induction tokens n rule: step_back.induct)
  case (2 token tokens n)
  then obtain moved m where m: "nav_back token n = Inr (moved, m)" "step_back tokens m = Inr n'"
    by (auto simp: result_iffs)
  then have f: "nav_frames m = nav_frames n" "Suc (nav_position m) = nav_position n"
    using "2.prems"(2) by (auto simp: nav_back_def and_then_Ok_iff split: if_splits)
  have "nav_frames n' = nav_frames m \<and> nav_position n' + length tokens = nav_position m"
    using "2.IH" m f "2.prems"(2) by auto
  with f show ?case by simp
qed simp

text \<open>A transfer which is accepted restores the recorded history: one frame for every legacy
  frame in order, each at the location its address and kind spell and without a selection, and the
  recorded position is the current one.\<close>

theorem handover_restores_history:
  assumes "handover_decode env read_document canonical_job tokens bytes library generation = Inr p"
    and "read_document bytes = Some d"
  shows "list_all2 (visits env (doc_legacy_broken d)) (ho_frames (doc_state d)) (nav_frames (pref_navigation p))
    \<and> nav_position (pref_navigation p) = ho_position (doc_state d)"
proof -
  let ?s = "doc_state d" and ?lb = "doc_legacy_broken d"
  let ?count = "length (ho_frames ?s)"
  from assms obtain n1 n2 where ok: "document_ok env library d"
    and o: "open_frames env library generation ?lb (zip (map tokens [0..<?count]) (ho_frames ?s)) = Inr n1"
    and b: "step_back (map tokens [?count..<?count + (?count - (ho_position ?s + 1))]) n1 = Inr n2"
    and p: "pref_navigation p = set_presentation (ho_presentation ?s) n2"
    by (auto simp: handover_decode_def Let_def result_iffs split: if_splits)
  from ok have c: "?count \<le> 100" "ho_position ?s < ?count"
    by (auto simp: document_ok_def Let_def max_history_def)
  then obtain f fs where fs: "ho_frames ?s = f # fs" by (cases "ho_frames ?s") auto
  then obtain token ts where ts: "map tokens [0..<?count] = token # ts" "length ts = length fs"
    by (cases "map tokens [0..<?count]") (auto dest: arg_cong[where f = length])
  with o fs obtain loc n0 where loc: "legacy_location env ?lb f = Inr loc"
    and new: "nav_new env token library generation loc = Inr n0"
    and v: "visit_frames env ?lb (zip ts fs) n0 = Inr n1"
    by (auto simp: open_frames_def result_iffs)
  from new have n0: "nav_frames n0 = [\<lparr>frame_location = loc, frame_selection = []\<rparr>]" "nav_position n0 = 0"
    by (auto simp: nav_new_def and_then_Ok_iff Let_def split: if_splits)
  have "list_all2 (visits env ?lb) ([f] @ map snd (zip ts fs)) (nav_frames n1)
      \<and> nav_position n1 + 1 = length (nav_frames n1)"
    by (rule visit_frames_append[OF v]) (use n0 loc fs c ts in simp_all)
  then have n1: "list_all2 (visits env ?lb) (ho_frames ?s) (nav_frames n1)" "nav_position n1 + 1 = ?count"
    using fs ts(2) by (auto dest: list_all2_lengthD)
  from step_back_position[OF b] n1(2) c(2)
  have "nav_frames n2 = nav_frames n1 \<and> nav_position n2 = ho_position ?s"
    by (simp add: le_diff_conv) linarith
  with n1(1) p show ?thesis by (simp add: set_presentation_def)
qed

text \<open>A document with two frames whose first one is current.\<close>

definition sample_document :: handover_document where
  "sample_document =
     \<lparr>doc_format = ''librairii.preference-handover'', doc_version = 1, doc_library = ''lib'',
      doc_legacy_broken = 0,
      doc_state = \<lparr>ho_presentation = SmallCovers, ho_dismissed = [''job''], ho_sync_hidden = True,
        ho_frames = [\<lparr>legacy_hash = [], legacy_kind = ''library'', legacy_id = None, legacy_manual_order = None\<rparr>,
          \<lparr>legacy_hash = [], legacy_kind = ''shelf'', legacy_id = Some 4, legacy_manual_order = Some True\<rparr>],
        ho_position = 0\<rparr>\<rparr>"

theorem handover_restores_history_witness:
  "\<exists>p. handover_decode plain_nav (\<lambda>_. Some sample_document) Some (\<lambda>i. i) [] ''lib'' 1 = Inr p
    \<and> list_all2 (visits plain_nav 0) (ho_frames (doc_state sample_document)) (nav_frames (pref_navigation p))
    \<and> nav_position (pref_navigation p) = 0"
proof -
  have "(case handover_decode plain_nav (\<lambda>_. Some sample_document) Some (\<lambda>i. i) [] ''lib'' 1 of
      Inl _ \<Rightarrow> False | Inr p \<Rightarrow> True)" by code_simp
  then obtain p where p: "handover_decode plain_nav (\<lambda>_. Some sample_document) Some (\<lambda>i. i) [] ''lib'' 1 = Inr p"
    by (auto split: sum.splits)
  from handover_restores_history[OF p refl] p show ?thesis by (auto simp: sample_document_def)
qed

end
