(* ===== verification/Shelves.thy ===== *)
theory Shelves
  imports Ordered_Map Vocabulary "HOL-Library.Code_Target_Nat"
begin

section \<open>Shelves and dismissed warnings\<close>

text \<open>
  \<open>shelves.rs\<close> and \<open>shelves/warnings.rs\<close>. A \<open>BTreeSet\<close> of texts is the strictly sorted list of
  its elements. The parser of the \<open>uuid\<close> crate followed by its canonical print is the parameter
  \<open>canonical\<close>: the text of the identity a spelling denotes, or \<open>None\<close>. \<open>serde_json\<close> on the wire
  structure is \<open>print_wire\<close> and \<open>read_wire\<close>.
\<close>

datatype shelf_error = InvalidName | DuplicateName | NotFound | InvalidInput | StaleReview

fun shelf_error_code :: "shelf_error \<Rightarrow> string" where
  "shelf_error_code InvalidName = ''shelf.invalid_name''"
| "shelf_error_code DuplicateName = ''shelf.duplicate_name''"
| "shelf_error_code NotFound = ''shelf.not_found''"
| "shelf_error_code InvalidInput = ''shelf.invalid_input''"
| "shelf_error_code StaleReview = ''shelf.stale_review''"

record shelf =
  shelf_id :: i64
  shelf_name :: string
  shelf_position :: i64
  shelf_revision :: i64
  shelf_count :: i64
  shelf_broken_count :: i64
  shelf_unavailable_count :: i64
  shelf_source_count :: i64

record shelf_source =
  source_id :: i64
  source_collection :: "i64 option"
  source_name :: string
  source_active :: bool

record shelf_member =
  member_uuid :: string
  member_position :: i64
  member_retained :: bool
  member_cached_title :: string
  member_origins :: "shelf_source list"

text \<open>\<open>unique_uuids\<close>: only canonical spellings, the first of each.\<close>

fun unique_uuids_from :: "(string \<Rightarrow> string option) \<Rightarrow> string set \<Rightarrow> string list \<Rightarrow> shelf_error + string list" where
  "unique_uuids_from canonical seen [] = Inr []"
| "unique_uuids_from canonical seen (v # vs) =
     (case canonical v of
        None \<Rightarrow> Inl InvalidInput
      | Some printed \<Rightarrow>
          if printed \<noteq> v then Inl InvalidInput
          else if v \<in> seen then unique_uuids_from canonical seen vs
          else and_then (unique_uuids_from canonical (insert v seen) vs) (\<lambda>us. Inr (v # us)))"

definition unique_uuids :: "(string \<Rightarrow> string option) \<Rightarrow> string list \<Rightarrow> shelf_error + string list" where
  "unique_uuids canonical vs = unique_uuids_from canonical {} vs"

definition parse_uuids :: "(string \<Rightarrow> string option) \<Rightarrow> string list \<Rightarrow> shelf_error + string list" where
  "parse_uuids canonical vs =
     and_then (unique_uuids canonical vs) (\<lambda>us.
       collect_results (\<lambda>u. ok_or InvalidInput (canonical u)) us)"

record story_reference =
  ref_identity :: string
  ref_stored :: string

definition from_stored :: "(string \<Rightarrow> string option) \<Rightarrow> string \<Rightarrow> shelf_error + story_reference" where
  "from_stored canonical stored =
     (if length stored \<noteq> 36 then Inl InvalidInput
      else and_then (ok_or InvalidInput (canonical stored)) (\<lambda>identity.
        Inr \<lparr>ref_identity = identity, ref_stored = stored\<rparr>))"

definition reference_of_identity :: "string \<Rightarrow> story_reference" where
  "reference_of_identity identity = \<lparr>ref_identity = identity, ref_stored = identity\<rparr>"

definition member_identity :: "(string \<Rightarrow> string option) \<Rightarrow> shelf_member \<Rightarrow> shelf_error + string" where
  "member_identity canonical m = ok_or InvalidInput (canonical (member_uuid m))"

definition member_reference :: "(string \<Rightarrow> string option) \<Rightarrow> shelf_member \<Rightarrow> shelf_error + story_reference" where
  "member_reference canonical m = from_stored canonical (member_uuid m)"

lemma unique_uuids_from_Ok_iff:
  "unique_uuids_from canonical seen vs = Inr us \<longleftrightarrow>
     list_all (\<lambda>v. canonical v = Some v) vs \<and> us = first_occurrences seen vs"
  by (induction canonical seen vs arbitrary: us rule: unique_uuids_from.induct)
    (auto simp: and_then_Ok_iff split: option.splits)

subsection \<open>Dismissed warnings\<close>

definition max_entries :: usize where
  "max_entries = 1024"

definition max_wire_bytes :: usize where
  "max_wire_bytes = 1024 * 1024"

record warnings =
  warn_library :: string
  warn_entries :: "(i64, string) btree_map"
  warn_removals :: "(i64, string list) btree_map"

record warning_entry =
  we_shelf_id :: i64
  we_snapshot :: string
  we_removals :: "string list"

record warning_wire =
  ww_version :: nat
  ww_library :: string
  ww_entries :: "warning_entry list"

definition ordered_set :: "string list \<Rightarrow> string list" where
  "ordered_set xs = remdups_adj (sort xs)"

definition warnings_new :: "string \<Rightarrow> warnings" where
  "warnings_new library = \<lparr>warn_library = library, warn_entries = [], warn_removals = []\<rparr>"

definition needs_prompt :: "warnings \<Rightarrow> i64 \<Rightarrow> string \<Rightarrow> bool" where
  "needs_prompt w shelf key \<longleftrightarrow> bt_get (warn_entries w) shelf \<noteq> Some key"

definition needs_prompt_for_members :: "warnings \<Rightarrow> i64 \<Rightarrow> string \<Rightarrow> string list \<Rightarrow> bool" where
  "needs_prompt_for_members w shelf key removals =
     (case bt_get (warn_removals w) shelf of
        None \<Rightarrow> needs_prompt w shelf key
      | Some known \<Rightarrow> list_ex (\<lambda>u. u \<notin> set known) removals)"

definition acknowledge :: "warnings \<Rightarrow> i64 \<Rightarrow> string \<Rightarrow> shelf_error + warnings" where
  "acknowledge w shelf key =
     (if bt_get (warn_entries w) shelf = None \<and> length (warn_entries w) \<ge> max_entries
      then Inl InvalidInput
      else Inr (w\<lparr>warn_entries := bt_insert shelf key (warn_entries w),
                  warn_removals := bt_remove shelf (warn_removals w)\<rparr>))"

definition acknowledge_members ::
    "(string \<Rightarrow> string option) \<Rightarrow> warnings \<Rightarrow> i64 \<Rightarrow> string \<Rightarrow> string list \<Rightarrow> shelf_error + warnings" where
  "acknowledge_members canonical w shelf key removals =
     and_then (collect_results (from_stored canonical) removals) (\<lambda>_.
     and_then (acknowledge w shelf key) (\<lambda>w.
       Inr (w\<lparr>warn_removals := bt_insert shelf (ordered_set removals) (warn_removals w)\<rparr>)))"

definition forget :: "warnings \<Rightarrow> i64 \<Rightarrow> bool \<times> warnings" where
  "forget w shelf =
     (bt_get (warn_entries w) shelf \<noteq> None,
      w\<lparr>warn_removals := bt_remove shelf (warn_removals w),
        warn_entries := bt_remove shelf (warn_entries w)\<rparr>)"

definition wire_entry :: "warnings \<Rightarrow> i64 \<times> string \<Rightarrow> warning_entry" where
  "wire_entry w e =
     (case e of (i, k) \<Rightarrow>
       \<lparr>we_shelf_id = i, we_snapshot = k,
        we_removals = (case bt_get (warn_removals w) i of None \<Rightarrow> [] | Some us \<Rightarrow> us)\<rparr>)"

definition warnings_encode ::
    "(string \<Rightarrow> string) \<Rightarrow> (warning_wire \<Rightarrow> string option) \<Rightarrow> warnings \<Rightarrow> shelf_error + string" where
  "warnings_encode show_library print_wire w =
     and_then (ok_or InvalidInput (print_wire
         \<lparr>ww_version = 1, ww_library = show_library (warn_library w),
          ww_entries = map (wire_entry w) (warn_entries w)\<rparr>)) (\<lambda>bytes.
       if length bytes > max_wire_bytes then Inl InvalidInput else Inr bytes)"

definition decode_entry ::
    "(string \<Rightarrow> string option) \<Rightarrow> warning_entry \<Rightarrow> warnings \<Rightarrow> shelf_error + warnings" where
  "decode_entry canonical e w =
     and_then (collect_results (from_stored canonical) (we_removals e)) (\<lambda>_.
       let w = (if we_removals e \<noteq> []
                then w\<lparr>warn_removals := bt_insert (we_shelf_id e) (ordered_set (we_removals e)) (warn_removals w)\<rparr>
                else w)
       in if we_shelf_id e \<le> 0 \<or> bt_get (warn_entries w) (we_shelf_id e) \<noteq> None then Inl InvalidInput
          else Inr (w\<lparr>warn_entries := bt_insert (we_shelf_id e) (we_snapshot e) (warn_entries w)\<rparr>))"

fun decode_entries ::
    "(string \<Rightarrow> string option) \<Rightarrow> warning_entry list \<Rightarrow> warnings \<Rightarrow> shelf_error + warnings" where
  "decode_entries canonical [] w = Inr w"
| "decode_entries canonical (e # es) w = and_then (decode_entry canonical e w) (decode_entries canonical es)"

definition warnings_decode ::
    "(string \<Rightarrow> string option) \<Rightarrow> (string \<Rightarrow> string) \<Rightarrow> (string \<Rightarrow> warning_wire option) \<Rightarrow> string \<Rightarrow> string
      \<Rightarrow> shelf_error + warnings" where
  "warnings_decode canonical show_library read_wire bytes library =
     (if length bytes > max_wire_bytes then Inl InvalidInput
      else and_then (ok_or InvalidInput (read_wire bytes)) (\<lambda>wire.
        if ww_version wire \<noteq> 1 \<or> ww_library wire \<noteq> show_library library
           \<or> length (ww_entries wire) > max_entries
        then Inl InvalidInput
        else decode_entries canonical (ww_entries wire) (warnings_new library)))"

subsection \<open>The persisted form\<close>

definition removals_ok :: "(string \<Rightarrow> string option) \<Rightarrow> string list \<Rightarrow> bool" where
  "removals_ok canonical us \<longleftrightarrow>
     sorted_wrt (<) us \<and> list_all (\<lambda>u. length u = 36 \<and> canonical u \<noteq> None) us"

definition warnings_inv :: "(string \<Rightarrow> string option) \<Rightarrow> warnings \<Rightarrow> bool" where
  "warnings_inv canonical w \<longleftrightarrow>
     bt_inv (warn_entries w) \<and> bt_inv (warn_removals w)
     \<and> length (warn_entries w) \<le> 1024 \<and> (\<forall>i \<in> dom (bt_get (warn_entries w)). 0 < i)
     \<and> dom (bt_get (warn_removals w)) \<subseteq> dom (bt_get (warn_entries w))
     \<and> (\<forall>us \<in> ran (bt_get (warn_removals w)). removals_ok canonical us)"

text \<open>What the wire form keeps of the removals: an empty set is written like no set at all.\<close>

definition written_removals :: "(i64, string list) btree_map \<Rightarrow> (i64, string list) btree_map" where
  "written_removals m = filter (\<lambda>(_, us). us \<noteq> []) m"

lemma from_stored_all_iff:
  "(\<exists>rs. collect_results (from_stored canonical) us = Inr rs)
     \<longleftrightarrow> list_all (\<lambda>u. length u = 36 \<and> canonical u \<noteq> None) us"
  by (induction us) (auto simp: and_then_Ok_iff from_stored_def ok_or_Ok_iff)

lemma ordered_set_sorted [simp]: "sorted_wrt (<) (ordered_set us)"
  by (simp add: ordered_set_def dedup_sort)

lemma ordered_set_eq: "sorted_wrt (<) us \<Longrightarrow> ordered_set us = us"
  by (simp add: ordered_set_def dedup_sort_eq)

text \<open>The state after some entries: the entries themselves and their nonempty removals.\<close>

definition decoded :: "warnings \<Rightarrow> i64 set \<Rightarrow> warnings \<Rightarrow> bool" where
  "decoded w keys v \<longleftrightarrow>
     warn_library v = warn_library w \<and> bt_inv (warn_entries v) \<and> bt_inv (warn_removals v)
     \<and> bt_get (warn_entries v) = bt_get (warn_entries w) |` keys
     \<and> bt_get (warn_removals v) = bt_get (written_removals (warn_removals w)) |` keys"

lemma written_removals_get:
  assumes "bt_inv m"
  shows "bt_inv (written_removals m)"
    and "bt_get (written_removals m) i = (case bt_get m i of Some us \<Rightarrow> if us = [] then None else Some us | None \<Rightarrow> None)"
proof -
  have "sorted_wrt (<) (map fst m) \<Longrightarrow> sorted_wrt (<) (map fst (filter p m))" for p :: "i64 \<times> string list \<Rightarrow> bool"
    by (induction m) auto
  with assms show "bt_inv (written_removals m)" by (simp add: bt_inv_def written_removals_def)
  from assms have "distinct (map fst m)" by (simp add: bt_inv_def strict_sorted_iff)
  then show "bt_get (written_removals m) i = (case bt_get m i of Some us \<Rightarrow> if us = [] then None else Some us | None \<Rightarrow> None)"
    by (induction m i rule: bt_get.induct)
      (auto simp: written_removals_def bt_get_map_of map_of_eq_None_iff split: option.splits)
qed

lemma decode_entry_step:
  assumes w: "warnings_inv canonical w" and v: "decoded w keys v"
    and i: "bt_get (warn_entries w) i = Some k" "i \<notin> keys"
  shows "\<exists>v'. decode_entry canonical (wire_entry w (i, k)) v = Inr v' \<and> decoded w (insert i keys) v'"
proof -
  define us where "us = (case bt_get (warn_removals w) i of None \<Rightarrow> [] | Some us \<Rightarrow> us)"
  have inv: "bt_inv (warn_removals w)" using w by (simp add: warnings_inv_def)
  have us: "removals_ok canonical us"
    using w by (auto simp: us_def warnings_inv_def removals_ok_def ran_def split: option.splits)
  then obtain rs where rs: "collect_results (from_stored canonical) us = Inr rs"
    using from_stored_all_iff[of canonical us] by (auto simp: removals_ok_def)
  have "0 < i" using w i(1) by (auto simp: warnings_inv_def)
  have written: "bt_get (written_removals (warn_removals w)) i = (if us = [] then None else Some us)"
    by (simp add: written_removals_get(2)[OF inv] us_def split: option.splits)
  define v' where "v' = v\<lparr>warn_removals := (if us \<noteq> [] then bt_insert i us (warn_removals v) else warn_removals v),
      warn_entries := bt_insert i k (warn_entries v)\<rparr>"
  have "bt_get (warn_entries v) i = None" using v i(2) by (simp add: decoded_def restrict_map_def)
  then have "decode_entry canonical (wire_entry w (i, k)) v = Inr v'"
    using rs \<open>0 < i\<close> us
    by (simp add: decode_entry_def wire_entry_def us_def[symmetric] v'_def removals_ok_def ordered_set_eq)
  moreover have "decoded w (insert i keys) v'"
    using v i written
    by (auto simp: decoded_def v'_def bt_inv_insert bt_get_insert fun_eq_iff restrict_map_def)
  ultimately show ?thesis by blast
qed

lemma restrict_map_superset: "dom m \<subseteq> A \<Longrightarrow> m |` A = m"
proof
  fix x assume "dom m \<subseteq> A"
  then show "(m |` A) x = m x" by (cases "m x") (auto simp: restrict_map_def)
qed

lemma decode_entries_all:
  assumes w: "warnings_inv canonical w"
  shows "\<lbrakk>decoded w keys v; distinct (map fst es); fst ` set es \<inter> keys = {};
      \<forall>(i, k) \<in> set es. bt_get (warn_entries w) i = Some k\<rbrakk>
    \<Longrightarrow> \<exists>v'. decode_entries canonical (map (wire_entry w) es) v = Inr v' \<and> decoded w (keys \<union> fst ` set es) v'"
proof (induction es arbitrary: v keys)
  case (Cons e es)
  obtain i k where e: "e = (i, k)" by fastforce
  with Cons.prems obtain v1 where v1: "decode_entry canonical (wire_entry w (i, k)) v = Inr v1"
    "decoded w (insert i keys) v1"
    using decode_entry_step[OF w, of keys v i k] by auto
  have "\<exists>v'. decode_entries canonical (map (wire_entry w) es) v1 = Inr v'
      \<and> decoded w (insert i keys \<union> fst ` set es) v'"
    by (rule Cons.IH[OF v1(2)]) (use Cons.prems e in auto)
  moreover have "insert i keys \<union> fst ` set es = keys \<union> fst ` set (e # es)" by (simp add: e)
  ultimately show ?case using v1(1) by (simp add: e)
qed simp

text \<open>Dismissed warnings survive a restart: what is written reads back as the same library,
  the same acknowledged snapshots and the same sets of removals, where an empty set of removals is
  written, and therefore read back, as no set.\<close>

theorem warnings_round_trip:
  assumes inv: "warnings_inv canonical w"
    and serde: "\<And>wire b. print_wire wire = Some b \<Longrightarrow> read_wire b = Some wire"
    and enc: "warnings_encode show_library print_wire w = Inr bytes"
  shows "warnings_decode canonical show_library read_wire bytes (warn_library w)
    = Inr (w\<lparr>warn_removals := written_removals (warn_removals w)\<rparr>)"
proof -
  let ?wire = "\<lparr>ww_version = 1, ww_library = show_library (warn_library w),
    ww_entries = map (wire_entry w) (warn_entries w)\<rparr> :: warning_wire"
  from enc have b: "print_wire ?wire = Some bytes" "length bytes \<le> max_wire_bytes"
    by (auto simp: warnings_encode_def result_iffs split: if_splits)
  have e: "bt_inv (warn_entries w)" "length (warn_entries w) \<le> max_entries"
    using inv by (auto simp: warnings_inv_def max_entries_def)
  have new: "decoded w {} (warnings_new (warn_library w))"
    by (auto simp: decoded_def warnings_new_def bt_inv_def)
  have "\<exists>v. decode_entries canonical (map (wire_entry w) (warn_entries w)) (warnings_new (warn_library w)) = Inr v
      \<and> decoded w ({} \<union> fst ` set (warn_entries w)) v"
    by (rule decode_entries_all[OF inv new])
      (use btm.entries_set[OF e(1)] btm.entries_distinct[OF e(1)] in auto)
  then obtain v where v: "decode_entries canonical (map (wire_entry w) (warn_entries w)) (warnings_new (warn_library w)) = Inr v"
    "decoded w (dom (bt_get (warn_entries w))) v"
    using btm.keys_dom[OF e(1)] by auto
  have r: "bt_inv (warn_removals w)" "dom (bt_get (warn_removals w)) \<subseteq> dom (bt_get (warn_entries w))"
    using inv by (auto simp: warnings_inv_def)
  have "dom (bt_get (written_removals (warn_removals w))) \<subseteq> dom (bt_get (warn_entries w))"
    using r(2) by (auto simp: dom_def written_removals_get(2)[OF r(1)] split: option.splits if_splits)
  with v(2) have "bt_get (warn_removals v) = bt_get (written_removals (warn_removals w))"
      "bt_get (warn_entries v) = bt_get (warn_entries w)"
    by (simp_all add: decoded_def restrict_map_superset)
  then have "warn_removals v = written_removals (warn_removals w)" "warn_entries v = warn_entries w"
    using v(2) e(1) written_removals_get(1)[OF r(1)] btm.entries_canonical
    unfolding decoded_def by blast+
  then have "v = w\<lparr>warn_removals := written_removals (warn_removals w)\<rparr>"
    using v(2) by (simp add: decoded_def)
  with b e(2) v(1) serde[OF b(1)] show ?thesis by (simp add: warnings_decode_def)
qed

text \<open>Two shelves, one of them dismissed without removals.\<close>

definition sample_uuid :: string where
  "sample_uuid = ''AABBCCDD-1234-5678-9012-AABBCCDDEEFF''"

definition sample_warnings :: warnings where
  "sample_warnings =
     \<lparr>warn_library = ''lib'', warn_entries = [(2, ''k2''), (5, ''k5'')],
      warn_removals = [(2, [sample_uuid]), (5, [])]\<rparr>"

definition sample_wire :: warning_wire where
  "sample_wire =
     \<lparr>ww_version = 1, ww_library = ''lib'',
      ww_entries = [\<lparr>we_shelf_id = 2, we_snapshot = ''k2'', we_removals = [sample_uuid]\<rparr>,
        \<lparr>we_shelf_id = 5, we_snapshot = ''k5'', we_removals = []\<rparr>]\<rparr>"

theorem warnings_round_trip_witness:
  "warnings_decode Some (\<lambda>l. l) (\<lambda>b. if b = ''w'' then Some sample_wire else None) ''w'' ''lib''
    = Inr (sample_warnings\<lparr>warn_removals := [(2, [sample_uuid])]\<rparr>)"
proof -
  have inv: "warnings_inv Some sample_warnings"
    by (auto simp: warnings_inv_def sample_warnings_def sample_uuid_def bt_inv_def removals_ok_def
        ran_def dom_def split: if_splits)
  have enc: "warnings_encode (\<lambda>l. l) (\<lambda>w. if w = sample_wire then Some ''w'' else None) sample_warnings = Inr ''w''"
    by (simp add: warnings_encode_def sample_warnings_def sample_wire_def wire_entry_def max_wire_bytes_def)
  have serde: "(if w = sample_wire then Some ''w'' else None) = Some b \<Longrightarrow>
      (if b = ''w'' then Some sample_wire else None) = Some w" for w b
    by (auto split: if_splits)
  show ?thesis
    using warnings_round_trip[OF inv serde enc]
    by (simp add: sample_warnings_def written_removals_def)
qed

end
