(* ===== verification/Lifecycle.thy ===== *)
theory Lifecycle
  imports Transition_Systems
begin

section \<open>Library command admission and drain\<close>

text \<open>
  \<open>librairii-app/src/lifecycle.rs\<close>: the gate that admits uses of a library, and the switch
  that closes intake, drains the admitted uses and reopens the library or sends it to recovery.

  A \<open>LibraryGeneration\<close> is an \<open>Arc<()>\<close> compared by address: the model gives each new
  one a fresh number. A poisoned mutex is the field \<open>poisoned\<close>; \<open>lock()\<close> then fails, except
  in the two \<open>Drop\<close>s, which take the inner state. \<open>begin_switch\<close> releases the mutex between
  its parts, so it is modelled part by part (close intake, first idle query, the wait on the
  condition variable, second idle query) and \<open>gate_step\<close> interleaves the parts with the uses that
  other threads hold. The world of the step relation records the values the callers own:
  every \<open>LibraryUse\<close> not dropped yet and every switch in progress, with the part it has reached.
\<close>

datatype phase = Active | Draining | Recovery

datatype lifecycle_error = Gate_busy | Recovery_required

definition lifecycle_error_text :: "lifecycle_error \<Rightarrow> string" where
  "lifecycle_error_text e =
     (case e of Gate_busy \<Rightarrow> ''settings.busy'' | Recovery_required \<Rightarrow> ''settings.library_missing'')"

record gate =
  gate_phase :: phase
  gate_uses :: usize
  gate_mutators :: usize
  gate_generation :: nat
  poisoned :: bool

record library_use =
  use_generation :: nat
  use_mutation :: bool

definition gate_new :: "nat \<Rightarrow> gate" where
  "gate_new token =
     \<lparr>gate_phase = Active, gate_uses = 0, gate_mutators = 0, gate_generation = token, poisoned = False\<rparr>"

text \<open>\<open>self.state.lock().map_err(|_| LifecycleError::RecoveryRequired)?\<close>\<close>

definition lock :: "gate \<Rightarrow> lifecycle_error + gate" where
  "lock g = (if poisoned g then Inl Recovery_required else Inr g)"

definition phase_of :: "gate \<Rightarrow> lifecycle_error + phase" where
  "phase_of g = and_then (lock g) (\<lambda>g. Inr (gate_phase g))"

definition enter_kind :: "gate \<Rightarrow> bool \<Rightarrow> lifecycle_error + (library_use \<times> gate)" where
  "enter_kind g mutation =
     and_then (lock g) (\<lambda>g.
       if gate_phase g \<noteq> Active then Inl Gate_busy
       else and_then (ok_or Gate_busy (u64_checked_add (gate_uses g) 1)) (\<lambda>uses.
         and_then (ok_or Gate_busy (u64_checked_add (gate_mutators g) (if mutation then 1 else 0))) (\<lambda>mutators.
           Inr (\<lparr>use_generation = gate_generation g, use_mutation = mutation\<rparr>,
                g\<lparr>gate_uses := uses, gate_mutators := mutators\<rparr>))))"

definition enter :: "gate \<Rightarrow> lifecycle_error + (library_use \<times> gate)" where
  "enter g = enter_kind g False"

definition enter_mutation :: "gate \<Rightarrow> lifecycle_error + (library_use \<times> gate)" where
  "enter_mutation g = enter_kind g True"

definition gate_accepts :: "gate \<Rightarrow> nat \<Rightarrow> bool" where
  "gate_accepts g generation =
     (case lock g of Inl _ \<Rightarrow> False
      | Inr g \<Rightarrow> gate_phase g = Active \<and> gate_generation g = generation)"

text \<open>\<open>impl Drop for LibraryUse\<close>; the subtraction of \<open>nat\<close> stops at 0, as \<open>saturating_sub\<close>.\<close>

definition drop_use :: "gate \<Rightarrow> library_use \<Rightarrow> gate" where
  "drop_use g u =
     g\<lparr>gate_uses := gate_uses g - 1, gate_mutators := gate_mutators g - (if use_mutation u then 1 else 0)\<rparr>"

subsection \<open>The parts of a switch\<close>

definition close_intake :: "gate \<Rightarrow> lifecycle_error + gate" where
  "close_intake g =
     and_then (lock g) (\<lambda>g.
       if gate_phase g \<noteq> Active \<or> gate_mutators g \<noteq> 0 then Inl Gate_busy
       else Inr (g\<lparr>gate_phase := Draining\<rparr>))"

text \<open>\<open>impl Drop for Switch\<close>\<close>

definition drop_switch :: "gate \<Rightarrow> bool \<Rightarrow> gate" where
  "drop_switch g settled = (if settled then g else g\<lparr>gate_phase := Recovery\<rparr>)"

definition restore_unchanged :: "gate \<Rightarrow> (lifecycle_error + unit) \<times> gate" where
  "restore_unchanged g =
     (case lock g of Inl e \<Rightarrow> (Inl e, drop_switch g False)
      | Inr g \<Rightarrow> (Inr (), drop_switch (g\<lparr>gate_phase := Active\<rparr>) True))"

definition idle_query :: "gate \<Rightarrow> bool \<Rightarrow> (lifecycle_error + unit) \<times> gate" where
  "idle_query g idle =
     (if idle then (Inr (), g)
      else (case restore_unchanged g of (Inl e, g) \<Rightarrow> (Inl e, g) | (Inr _, g) \<Rightarrow> (Inl Gate_busy, g)))"

definition wait_over :: "gate \<Rightarrow> bool" where
  "wait_over g \<longleftrightarrow> \<not> poisoned g \<and> \<not> gate_uses g \<noteq> 0"

definition begin_recovery :: "gate \<Rightarrow> lifecycle_error + gate" where
  "begin_recovery g =
     and_then (lock g) (\<lambda>g.
       if gate_phase g \<noteq> Recovery \<or> gate_uses g \<noteq> 0 then Inl Gate_busy
       else Inr (g\<lparr>gate_phase := Draining\<rparr>))"

definition activated :: "gate \<Rightarrow> nat \<Rightarrow> (lifecycle_error + nat) \<times> gate" where
  "activated g token =
     (case lock g of Inl e \<Rightarrow> (Inl e, drop_switch g False)
      | Inr g \<Rightarrow>
        let g = g\<lparr>gate_generation := token, gate_phase := Active\<rparr> in
        (Inr (gate_generation g), drop_switch g True))"

subsection \<open>Threads on one gate\<close>

datatype switch_part = First_query | Waiting | Second_query | Switching

record world =
  world_gate :: gate
  held :: "library_use list"
  switches :: "switch_part list"
  next_token :: nat

datatype gate_event = Entered bool | Released nat | Closed_intake | Queried nat bool | Drained nat
  | Began_recovery | Activated nat | Unsettled nat

definition without :: "nat \<Rightarrow> 'a list \<Rightarrow> 'a list" where
  "without i xs = take i xs @ drop (Suc i) xs"

inductive gate_step :: "world \<Rightarrow> gate_event \<Rightarrow> world \<Rightarrow> bool" where
  gate_enter: "enter_kind (world_gate w) mutation = Inr (u, g) \<Longrightarrow>
     gate_step w (Entered mutation) (w\<lparr>world_gate := g, held := held w @ [u]\<rparr>)"
| gate_release: "i < length (held w) \<Longrightarrow>
     gate_step w (Released i)
       (w\<lparr>world_gate := drop_use (world_gate w) (held w ! i), held := without i (held w)\<rparr>)"
| gate_close: "close_intake (world_gate w) = Inr g \<Longrightarrow>
     gate_step w Closed_intake (w\<lparr>world_gate := g, switches := switches w @ [First_query]\<rparr>)"
| gate_first: "i < length (switches w) \<Longrightarrow> switches w ! i = First_query \<Longrightarrow>
     idle_query (world_gate w) idle = (r, g) \<Longrightarrow>
     gate_step w (Queried i idle)
       (w\<lparr>world_gate := g,
          switches := (case r of Inl _ \<Rightarrow> without i (switches w) | Inr _ \<Rightarrow> (switches w)[i := Waiting])\<rparr>)"
| gate_drained: "i < length (switches w) \<Longrightarrow> switches w ! i = Waiting \<Longrightarrow> wait_over (world_gate w) \<Longrightarrow>
     gate_step w (Drained i) (w\<lparr>switches := (switches w)[i := Second_query]\<rparr>)"
| gate_second: "i < length (switches w) \<Longrightarrow> switches w ! i = Second_query \<Longrightarrow>
     idle_query (world_gate w) idle = (r, g) \<Longrightarrow>
     gate_step w (Queried i idle)
       (w\<lparr>world_gate := g,
          switches := (case r of Inl _ \<Rightarrow> without i (switches w) | Inr _ \<Rightarrow> (switches w)[i := Switching])\<rparr>)"
| gate_recovery: "begin_recovery (world_gate w) = Inr g \<Longrightarrow>
     gate_step w Began_recovery (w\<lparr>world_gate := g, switches := switches w @ [Switching]\<rparr>)"
| gate_activated: "i < length (switches w) \<Longrightarrow> switches w ! i = Switching \<Longrightarrow>
     activated (world_gate w) (next_token w) = (r, g) \<Longrightarrow>
     gate_step w (Activated i)
       (w\<lparr>world_gate := g, switches := without i (switches w), next_token := Suc (next_token w)\<rparr>)"
| gate_unsettled: "i < length (switches w) \<Longrightarrow>
     gate_step w (Unsettled i)
       (w\<lparr>world_gate := drop_switch (world_gate w) False, switches := without i (switches w)\<rparr>)"

definition world_start :: "world \<Rightarrow> bool" where
  "world_start w \<longleftrightarrow> w = \<lparr>world_gate = gate_new 0, held = [], switches = [], next_token = 1\<rparr>"

inductive_cases gate_stepE: "gate_step w a w'"

subsection \<open>The counters, the one switch and the generation\<close>

lemma length_without: "i < length xs \<Longrightarrow> length (without i xs) = length xs - 1"
  by (simp add: without_def)

lemma filter_without:
  assumes "i < length xs"
  shows "length (filter P (without i xs)) = length (filter P xs) - (if P (xs ! i) then 1 else 0)"
  using arg_cong[OF id_take_nth_drop[OF assms], of "\<lambda>ys. length (filter P ys)"]
  by (simp add: without_def)

lemma without_0 [simp]: "without 0 (x # xs) = xs"
  by (simp add: without_def)

lemma set_without: "set (without i xs) \<subseteq> set xs"
  by (auto simp: without_def dest: in_set_takeD in_set_dropD)

lemma list_all_without: "list_all P xs \<Longrightarrow> list_all P (without i xs)"
  using set_without by (fastforce simp: list_all_iff)

definition gate_inv :: "world \<Rightarrow> bool" where
  "gate_inv w \<longleftrightarrow>
     \<not> poisoned (world_gate w)
     \<and> gate_uses (world_gate w) = length (held w)
     \<and> gate_mutators (world_gate w) = length (filter use_mutation (held w))
     \<and> list_all (\<lambda>u. use_generation u = gate_generation (world_gate w)) (held w)
     \<and> gate_generation (world_gate w) < next_token w
     \<and> length (switches w) \<le> 1
     \<and> (gate_phase (world_gate w) = Draining \<longleftrightarrow> switches w \<noteq> [])
     \<and> (gate_phase (world_gate w) \<noteq> Active \<longrightarrow> gate_mutators (world_gate w) = 0)
     \<and> (Second_query \<in> set (switches w) \<or> Switching \<in> set (switches w) \<longrightarrow> held w = [])"

lemmas gate_op_defs = enter_kind_def close_intake_def begin_recovery_def activated_def idle_query_def
  restore_unchanged_def drop_switch_def lock_def wait_over_def drop_use_def

lemma one_switch:
  "length xs \<le> 1 \<Longrightarrow> i < length xs \<Longrightarrow> i = 0 \<and> xs = [xs ! 0]"
  by (cases xs) auto

lemma gate_inv_switch:
  assumes "gate_inv w" "i < length (switches w)"
  shows "i = 0" "switches w = [switches w ! i]" "gate_phase (world_gate w) = Draining"
    "filter use_mutation (held w) = []"
proof -
  have one: "length (switches w) \<le> 1" using assms by (simp add: gate_inv_def)
  show "i = 0" "switches w = [switches w ! i]" using one_switch[OF one assms(2)] by auto
  then show "gate_phase (world_gate w) = Draining" using assms by (auto simp: gate_inv_def)
  then show "filter use_mutation (held w) = []" using assms by (auto simp: gate_inv_def)
qed

lemma enter_kind_Ok_iff:
  "enter_kind g mutation = Inr (u, g') \<longleftrightarrow>
     \<not> poisoned g \<and> gate_phase g = Active
     \<and> Suc (gate_uses g) \<le> u64_max \<and> gate_mutators g + (if mutation then 1 else 0) \<le> u64_max
     \<and> u = \<lparr>use_generation = gate_generation g, use_mutation = mutation\<rparr>
     \<and> g' = g\<lparr>gate_uses := Suc (gate_uses g),
               gate_mutators := gate_mutators g + (if mutation then 1 else 0)\<rparr>"
  by (auto simp: enter_kind_def lock_def result_iffs u64_checked_add_def split: if_splits)

lemma gate_step_inv: "gate_step w a w' \<Longrightarrow> gate_inv w \<Longrightarrow> gate_inv w'"
proof (induction rule: gate_step.induct)
  case (gate_enter w mutation u g)
  then show ?case by (auto simp: enter_kind_Ok_iff gate_inv_def)
next
  case (gate_release i w)
  then show ?case
    by (auto simp: gate_inv_def drop_use_def length_without filter_without list_all_without)
next
  case (gate_close w g)
  then show ?case by (auto simp: gate_inv_def gate_op_defs split: if_splits)
next
  case (gate_first i w idle r g)
  note sw = gate_inv_switch[OF gate_first.prems gate_first.hyps(1)]
  with gate_first show ?case
    by (auto simp: gate_inv_def gate_op_defs without_def split: if_splits)
next
  case (gate_drained i w)
  note sw = gate_inv_switch[OF gate_drained.prems gate_drained.hyps(1)]
  with gate_drained show ?case by (auto simp: gate_inv_def gate_op_defs)
next
  case (gate_second i w idle r g)
  note sw = gate_inv_switch[OF gate_second.prems gate_second.hyps(1)]
  with gate_second show ?case
    by (auto simp: gate_inv_def gate_op_defs without_def split: if_splits)
next
  case (gate_recovery w g)
  then show ?case by (auto simp: gate_inv_def gate_op_defs split: if_splits)
next
  case (gate_activated i w r g)
  note sw = gate_inv_switch[OF gate_activated.prems gate_activated.hyps(1)]
  with gate_activated show ?case
    by (auto simp: gate_inv_def gate_op_defs without_def Let_def split: if_splits)
next
  case (gate_unsettled i w)
  note sw = gate_inv_switch[OF gate_unsettled.prems gate_unsettled.hyps(1)]
  with gate_unsettled show ?case by (auto simp: gate_inv_def gate_op_defs without_def)
qed

lemma world_start_inv: "world_start w \<Longrightarrow> gate_inv w"
  by (simp add: world_start_def gate_inv_def gate_new_def)

lemma gate_step_generation:
  "gate_step w a w' \<Longrightarrow> gate_inv w \<Longrightarrow>
     gate_generation (world_gate w) \<le> gate_generation (world_gate w')
     \<and> ((\<exists>i. a = Activated i) \<longrightarrow> gate_generation (world_gate w) < gate_generation (world_gate w'))"
  by (induction rule: gate_step.induct)
    (auto simp: gate_inv_def gate_op_defs result_iffs Let_def split: if_splits)

interpretation gate: versioned_system world_start gate_step gate_inv
  "\<lambda>w. gate_generation (world_gate w)" "\<lambda>w a. \<exists>i. a = Activated i"
  by unfold_locales (use world_start_inv gate_step_inv gate_step_generation in blast)+

lemma gate_inv_accepts:
  "gate_inv w \<Longrightarrow> gate_phase (world_gate w) = Active \<Longrightarrow>
     list_all (\<lambda>u. gate_accepts (world_gate w) (use_generation u)) (held w)"
  by (auto simp: gate_inv_def gate_accepts_def lock_def list_all_iff)

lemma gate_inv_switching:
  "gate_inv w \<Longrightarrow> Switching \<in> set (switches w) \<Longrightarrow>
     switches w = [Switching] \<and> held w = [] \<and> gate_uses (world_gate w) = 0
     \<and> gate_phase (world_gate w) = Draining"
  by (cases "switches w") (auto simp: gate_inv_def)

lemma intake_closed:
  "gate_inv w \<Longrightarrow> switches w \<noteq> [] \<Longrightarrow>
     enter (world_gate w) = Inl Gate_busy \<and> enter_mutation (world_gate w) = Inl Gate_busy
     \<and> close_intake (world_gate w) = Inl Gate_busy \<and> begin_recovery (world_gate w) = Inl Gate_busy"
  by (auto simp: gate_inv_def enter_def enter_mutation_def gate_op_defs)

lemma gate_step_while_switching:
  assumes "gate_step w a w'" "gate_inv w" "switches w \<noteq> []"
  shows "length (held w') \<le> length (held w)"
  using assms
  by (cases rule: gate_step.cases) (auto simp: gate_inv_def enter_kind_Ok_iff length_without)

text \<open>Releasing the uses in turn empties the gate, and the wait then ends.\<close>

lemma release_all:
  "run gate_step w (replicate (length (held w)) (Released 0))
     (w\<lparr>world_gate := fold (\<lambda>u g. drop_use g u) (held w) (world_gate w), held := []\<rparr>)"
proof (induction "held w" arbitrary: w)
  case Nil
  then have "w\<lparr>world_gate := world_gate w, held := []\<rparr> = w" by simp
  with Nil[symmetric] show ?case by (simp add: run_Nil_simp del: world.surjective)
next
  case (Cons u us)
  let ?v = "w\<lparr>world_gate := drop_use (world_gate w) u, held := us\<rparr>"
  have step: "gate_step w (Released 0) ?v"
    using gate_release[of 0 w] Cons(2)[symmetric] by simp
  have "run gate_step ?v (replicate (length (held ?v)) (Released 0))
     (?v\<lparr>world_gate := fold (\<lambda>u g. drop_use g u) (held ?v) (world_gate ?v), held := []\<rparr>)"
    using Cons(1)[of ?v] by simp
  with step Cons(2)[symmetric] show ?case by (auto simp: run_Cons_simp)
qed

lemma drop_uses_phase [simp]:
  "gate_phase (fold (\<lambda>u g. drop_use g u) us g) = gate_phase g"
  "poisoned (fold (\<lambda>u g. drop_use g u) us g) = poisoned g"
  "gate_uses (fold (\<lambda>u g. drop_use g u) us g) = gate_uses g - length us"
  by (induction us arbitrary: g) (simp_all add: drop_use_def)

lemma drain_run:
  assumes "gate_inv w" "switches w = [Waiting]"
  shows "\<exists>w'. run gate_step w (replicate (length (held w)) (Released 0) @ [Drained 0, Queried 0 True]) w'
    \<and> switches w' = [Switching] \<and> held w' = [] \<and> gate_uses (world_gate w') = 0"
proof -
  define v where "v = w\<lparr>world_gate := fold (\<lambda>u g. drop_use g u) (held w) (world_gate w), held := []\<rparr>"
  let ?d = "v\<lparr>switches := [Second_query]\<rparr>" and ?s = "v\<lparr>switches := [Switching]\<rparr>"
  have "gate_step v (Drained 0) ?d"
    using gate_drained[of 0 v] assms by (simp add: v_def wait_over_def gate_inv_def)
  moreover have "gate_step ?d (Queried 0 True) ?s"
    using gate_second[of 0 ?d True "Inr ()" "world_gate v"] by (simp add: idle_query_def)
  ultimately have "run gate_step v [Drained 0, Queried 0 True] ?s"
    by (blast intro: run_cons run_nil)
  with release_all[of w] have "run gate_step w (replicate (length (held w)) (Released 0) @ [Drained 0, Queried 0 True]) ?s"
    unfolding run_append v_def by blast
  moreover have "gate_uses (world_gate ?s) = 0" using assms by (simp add: v_def gate_inv_def)
  ultimately show ?thesis by (auto simp: v_def intro!: exI)
qed

subsection \<open>Concrete worlds\<close>

definition world0 :: world where
  "world0 = \<lparr>world_gate = gate_new 0, held = [], switches = [], next_token = 1\<rparr>"

definition world1 :: world where
  "world1 = \<lparr>world_gate = (gate_new 0)\<lparr>gate_uses := 1\<rparr>,
     held = [\<lparr>use_generation = 0, use_mutation = False\<rparr>], switches = [], next_token = 1\<rparr>"

definition world2 :: world where
  "world2 = world1\<lparr>world_gate := (gate_new 0)\<lparr>gate_uses := 1, gate_phase := Draining\<rparr>,
     switches := [Waiting]\<rparr>"

definition world3 :: world where
  "world3 = \<lparr>world_gate = (gate_new 0)\<lparr>gate_phase := Draining\<rparr>, held = [], switches = [Switching],
     next_token = 1\<rparr>"

definition world4 :: world where
  "world4 = \<lparr>world_gate = gate_new 1, held = [], switches = [], next_token = 2\<rparr>"

lemmas world_defs = world0_def world1_def world2_def world3_def world4_def gate_new_def

lemma world1_step: "gate_step world0 (Entered False) world1"
  using gate_enter[of world0 False "\<lparr>use_generation = 0, use_mutation = False\<rparr>"
      "(gate_new 0)\<lparr>gate_uses := 1\<rparr>"]
  by (simp add: enter_kind_Ok_iff world_defs u64_max_def)

lemma world2_run: "run gate_step world1 [Closed_intake, Queried 0 True] world2"
proof -
  let ?c = "world1\<lparr>world_gate := (gate_new 0)\<lparr>gate_uses := 1, gate_phase := Draining\<rparr>,
     switches := [First_query]\<rparr>"
  have "gate_step world1 Closed_intake ?c"
    using gate_close[of world1 "(gate_new 0)\<lparr>gate_uses := 1, gate_phase := Draining\<rparr>"]
    by (simp add: world_defs close_intake_def lock_def)
  moreover have "gate_step ?c (Queried 0 True) world2"
    using gate_first[of 0 ?c True "Inr ()" "(gate_new 0)\<lparr>gate_uses := 1, gate_phase := Draining\<rparr>"]
    by (simp add: world_defs idle_query_def)
  ultimately show ?thesis by (blast intro: run_cons run_nil)
qed

lemma world3_run: "run gate_step world2 [Released 0, Drained 0, Queried 0 True] world3"
proof -
  let ?r = "world3\<lparr>switches := [Waiting]\<rparr>" and ?d = "world3\<lparr>switches := [Second_query]\<rparr>"
  have "gate_step world2 (Released 0) ?r"
    using gate_release[of 0 world2] by (simp add: world_defs drop_use_def without_def)
  moreover have "gate_step ?r (Drained 0) ?d"
    using gate_drained[of 0 ?r] by (simp add: world_defs wait_over_def)
  moreover have "gate_step ?d (Queried 0 True) world3"
    using gate_second[of 0 ?d True "Inr ()" "world_gate world3"] by (simp add: world_defs idle_query_def)
  ultimately show ?thesis by (blast intro: run_cons run_nil)
qed

lemma world4_step: "gate_step world3 (Activated 0) world4"
  using gate_activated[of 0 world3 "Inr 1" "gate_new 1"]
  by (simp add: world_defs activated_def lock_def drop_switch_def Let_def without_def numeral_2_eq_2)

lemma world0_reachable: "reachable world_start gate_step world0"
  by (rule reach_start) (simp add: world_start_def world0_def)

lemma world2_reachable: "reachable world_start gate_step world2"
  using run_reachable[OF world2_run] reach_step[OF world0_reachable world1_step] by blast

lemma world3_reachable: "reachable world_start gate_step world3"
  using run_reachable[OF world3_run world2_reachable] .

subsection \<open>What the gate promises\<close>



text \<open>C33: Once a switch has been activated, a generation token from before it (of a query, a preparation
  or a use admitted earlier) is never accepted again, whatever the threads do in between.
\<close>

theorem stale_generation_refused:
  assumes "reachable world_start gate_step w" and "run gate_step w as v"
    and "gate_step v (Activated i) u" and "run gate_step u bs z"
  shows "\<not> gate_accepts (world_gate z) (gate_generation (world_gate w))"
proof -
  have "gate_generation (world_gate w) < gate_generation (world_gate z)"
    using gate.run_version_less[OF assms(2-4) gate.reachable_good[OF assms(1)]] by blast
  then show ?thesis by (auto simp: gate_accepts_def lock_def)
qed

theorem stale_generation_refused_witness:
  "\<not> gate_accepts (world_gate world4) (gate_generation (world_gate world2))"
  using stale_generation_refused[OF world2_reachable world3_run world4_step run_nil] .

text \<open>C34: A switch that waits for the drain cannot be starved: while it is in progress no step of any
  thread adds a use, and from every reachable waiting state the release of the uses held, one after
  the other, lets the wait end and hands out the guard over an empty gate.
\<close>

theorem drain_completes:
  assumes "reachable world_start gate_step w" and "switches w = [Waiting]" and "gate_step w a w'"
  shows "length (held w') \<le> length (held w)
    \<and> (\<exists>v. run gate_step w (replicate (length (held w)) (Released 0) @ [Drained 0, Queried 0 True]) v
         \<and> switches v = [Switching] \<and> held v = [] \<and> gate_uses (world_gate v) = 0)"
proof
  have inv: "gate_inv w" using gate.reachable_good[OF assms(1)] .
  show "length (held w') \<le> length (held w)"
    using gate_step_while_switching[OF assms(3) inv] assms(2) by simp
  show "\<exists>v. run gate_step w (replicate (length (held w)) (Released 0) @ [Drained 0, Queried 0 True]) v
     \<and> switches v = [Switching] \<and> held v = [] \<and> gate_uses (world_gate v) = 0"
    using drain_run[OF inv assms(2)] .
qed

lemma world2_unsettled:
  "gate_step world2 (Unsettled 0)
     (world2\<lparr>world_gate := drop_switch (world_gate world2) False, switches := without 0 (switches world2)\<rparr>)"
  by (rule gate_unsettled) (simp add: world_defs)

theorem drain_completes_witness:
  "\<exists>v. run gate_step world2 [Released 0, Drained 0, Queried 0 True] v
       \<and> switches v = [Switching] \<and> held v = [] \<and> gate_uses (world_gate v) = 0"
  using drain_completes[OF world2_reachable _ world2_unsettled] by (simp add: world2_def world1_def)

end
