(* ===== verification/Job_Progress.thy ===== *)
theory Job_Progress
  imports Operation_History Operation_Policy
begin

section \<open>Job inputs and worker progress\<close>

text \<open>
  \<open>librairii-app/src/jobs/model.rs\<close>: the worker configuration, the identity of an item, the
  items of a job and the count an admission requires. \<open>librairii-app/src/jobs/progress.rs\<close>:
  the one slot a worker overwrites with its latest progress, and the consumer's projection of one
  operation, whose saved terminal state is never overwritten. A \<open>JobId\<close> is its text; the
  memory measurements (\<open>size_of\<close>, \<open>capacity\<close>) are not modelled.
\<close>

subsection \<open>model.rs\<close>

record configuration =
  workers :: usize

definition configuration_default :: configuration where
  "configuration_default = \<lparr>workers = 2\<rparr>"

definition configuration_new :: "usize \<Rightarrow> configuration option" where
  "configuration_new n = (if 1 \<le> n \<and> n \<le> 8 then Some \<lparr>workers = n\<rparr> else None)"

definition capacity :: "configuration \<Rightarrow> usize" where
  "capacity c = workers c * 2"

record item_key =
  key_job :: string
  key_row :: i64

record job_item =
  item_key :: item_key
  item_order :: history_key
  item_ordinal :: usize
  item_kind :: operation_kind
  item_payload :: bytes
  item_generation :: nat
  total_bytes :: i64
  cancel_requested :: bool

record start_input =
  start_job :: string
  start_kind :: operation_kind
  start_items :: "job_item list"

definition start_count_ok :: "start_input \<Rightarrow> bool" where
  "start_count_ok s =
     (case start_kind s of
        Import \<Rightarrow> 1 \<le> length (start_items s) \<and> length (start_items s) \<le> 1000
      | MetadataSync \<Rightarrow> length (start_items s) = 1
      | Export \<Rightarrow> start_items s \<noteq> [])"

record completed_item =
  done_item :: job_item
  done_fact :: string
  done_errors :: "string list"

subsection \<open>progress.rs\<close>

record stamp =
  stamp_gen :: nat
  stamp_item :: item_key

record progress_value =
  val_stamp :: stamp
  val_revision :: nat
  val_completed :: i64
  val_total :: i64

record slot =
  slot_stamp :: stamp
  latest :: progress_value
  pending :: bool
  saved_bytes :: i64
  sealed :: bool

definition slot_new :: "stamp \<Rightarrow> i64 \<Rightarrow> slot" where
  "slot_new s n =
     \<lparr>slot_stamp = s,
      latest = \<lparr>val_stamp = s, val_revision = 0, val_completed = 0, val_total = n\<rparr>,
      pending = False, saved_bytes = 0, sealed = False\<rparr>"

text \<open>\<open>Slot::replace\<close>: the returned flag, and the slot afterwards.\<close>

definition slot_replace :: "slot \<Rightarrow> progress_value \<Rightarrow> bool \<Rightarrow> bool \<times> slot" where
  "slot_replace s v export =
     (if sealed s
         \<or> val_stamp v \<noteq> slot_stamp s
         \<or> val_total v \<noteq> val_total (latest s)
         \<or> val_revision v \<le> val_revision (latest s)
         \<or> isl (advance \<lparr>prg_completed = val_completed (latest s), prg_total = val_total (latest s)\<rparr>
              Running_item (val_completed v))
      then (False, s)
      else (True, s\<lparr>latest := v,
        pending := pending s \<or> export
          \<and> (i64_sub (val_completed v) (saved_bytes s) \<ge> 256 * 1024 \<or> val_completed v = val_total v)\<rparr>))"

record snapshot =
  snap_generation :: nat
  snap_query :: nat
  snap_job :: string
  snap_revision :: nat
  observation :: operation_observation

record projection =
  proj_generation :: nat
  proj_query :: nat
  proj_job :: string
  current :: "snapshot option"

definition projection_apply :: "projection \<Rightarrow> snapshot \<Rightarrow> bool \<times> projection" where
  "projection_apply p next =
     (if snap_generation next \<noteq> proj_generation p \<or> snap_query next \<noteq> proj_query p
         \<or> snap_job next \<noteq> proj_job p
      then (False, p)
      else if (case current p of None \<Rightarrow> False | Some c \<Rightarrow>
           is_saved_terminal (observation c)
           \<or> snap_revision next \<le> snap_revision c \<and> \<not> is_saved_terminal (observation next))
      then (False, p)
      else (True, p\<lparr>current := Some next\<rparr>))"

definition saved_terminal :: "projection \<Rightarrow> operation_state option" where
  "saved_terminal p =
     (case current p of None \<Rightarrow> None
      | Some s \<Rightarrow> if is_saved_terminal (observation s) then Some (obs_state (observation s)) else None)"

subsection \<open>Publishing in order\<close>

text \<open>A consumer applies what reaches it; a worker publishes its values one after the other.\<close>

definition project_all :: "projection \<Rightarrow> snapshot list \<Rightarrow> projection" where
  "project_all = foldl (\<lambda>p s. snd (projection_apply p s))"

definition publish_all :: "slot \<Rightarrow> bool \<Rightarrow> progress_value list \<Rightarrow> slot" where
  "publish_all s export = foldl (\<lambda>s v. snd (slot_replace s v export)) s"

definition slot_ok :: "slot \<Rightarrow> bool" where
  "slot_ok s \<longleftrightarrow>
     val_stamp (latest s) = slot_stamp s
     \<and> 0 \<le> val_completed (latest s) \<and> val_completed (latest s) \<le> val_total (latest s)"

lemma advance_ok_iff:
  "isl (advance p Running_item n) \<longleftrightarrow> \<not> (0 \<le> prg_completed p \<and> prg_completed p \<le> n \<and> n \<le> prg_total p)"
  by (auto simp: advance_def)

lemma slot_new_ok: "0 \<le> n \<Longrightarrow> slot_ok (slot_new st n)"
  by (simp add: slot_ok_def slot_new_def)

lemma slot_replace_ok:
  "slot_ok s \<Longrightarrow> slot_replace s v export = (b, s') \<Longrightarrow>
     slot_ok s' \<and> slot_stamp s' = slot_stamp s \<and> val_total (latest s') = val_total (latest s)
     \<and> val_completed (latest s) \<le> val_completed (latest s')
     \<and> val_revision (latest s) \<le> val_revision (latest s') \<and> (pending s \<longrightarrow> pending s')"
  by (auto simp: slot_replace_def slot_ok_def advance_ok_iff split: if_splits)

lemma publish_all_ok:
  "slot_ok s \<Longrightarrow> slot_ok (publish_all s export vs) \<and> slot_stamp (publish_all s export vs) = slot_stamp s
     \<and> val_total (latest (publish_all s export vs)) = val_total (latest s)
     \<and> val_completed (latest s) \<le> val_completed (latest (publish_all s export vs))
     \<and> val_revision (latest s) \<le> val_revision (latest (publish_all s export vs))"
proof (induction vs arbitrary: s)
  case Nil
  then show ?case by (simp add: publish_all_def)
next
  case (Cons v vs)
  obtain b s' where r: "slot_replace s v export = (b, s')" by (cases "slot_replace s v export")
  have "publish_all s export (v # vs) = publish_all s' export vs" by (simp add: publish_all_def r)
  with Cons.IH[of s'] slot_replace_ok[OF Cons.prems r] show ?case by auto
qed

lemma projection_saved_fixed:
  "saved_terminal p = Some t \<Longrightarrow> projection_apply p s = (False, p)"
  by (auto simp: saved_terminal_def projection_apply_def split: option.splits if_splits)

lemma project_all_saved_fixed:
  "saved_terminal p = Some t \<Longrightarrow> project_all p ss = p"
  by (induction ss) (simp_all add: project_all_def projection_saved_fixed)

lemma projection_apply_identity:
  "projection_apply p s = (b, p') \<Longrightarrow>
     proj_generation p' = proj_generation p \<and> proj_query p' = proj_query p \<and> proj_job p' = proj_job p"
  by (auto simp: projection_apply_def split: if_splits)

lemma projection_terminal_accepted:
  assumes "saved_terminal p = None" "is_saved_terminal (observation s)"
    "snap_generation s = proj_generation p" "snap_query s = proj_query p" "snap_job s = proj_job p"
  shows "projection_apply p s = (True, p\<lparr>current := Some s\<rparr>)"
  using assms by (auto simp: projection_apply_def saved_terminal_def split: option.splits if_splits)

lemma project_all_append: "project_all p (xs @ ys) = project_all (project_all p xs) ys"
  by (simp add: project_all_def)

lemma project_all_identity:
  "proj_generation (project_all p ss) = proj_generation p \<and> proj_query (project_all p ss) = proj_query p
     \<and> proj_job (project_all p ss) = proj_job p"
proof (induction ss arbitrary: p)
  case (Cons s ss)
  obtain b p' where "projection_apply p s = (b, p')" by (cases "projection_apply p s")
  with Cons.IH[of p'] projection_apply_identity[of p s b p'] show ?case by (simp add: project_all_def)
qed (simp add: project_all_def)

definition sample_snapshot :: "nat \<Rightarrow> operation_state \<Rightarrow> snapshot" where
  "sample_snapshot n state =
     \<lparr>snap_generation = 1, snap_query = 1, snap_job = ''j'', snap_revision = n,
      observation = \<lparr>obs_state = state, obs_kind = StoredSnapshot\<rparr>\<rparr>"

definition sample_projection :: projection where
  "sample_projection = \<lparr>proj_generation = 1, proj_query = 1, proj_job = ''j'', current = None\<rparr>"

text \<open>Whatever snapshots reach a projection before and after it, in any order, a saved terminal
  observation of its own job, generation and query is shown unless an earlier saved one already is,
  and from then on no snapshot changes what the projection shows.
\<close>

theorem saved_terminal_wins:
  assumes "is_saved_terminal (observation s)" "snap_generation s = proj_generation p"
    "snap_query s = proj_query p" "snap_job s = proj_job p"
  shows "(saved_terminal (project_all p earlier) = None \<longrightarrow>
            current (project_all p (earlier @ s # later)) = Some s)
    \<and> saved_terminal (project_all p (earlier @ [s])) \<noteq> None
    \<and> project_all p (earlier @ s # later) = project_all p (earlier @ [s])"
proof -
  let ?q = "project_all p earlier"
  have step: "project_all p (earlier @ s # rest) = project_all (snd (projection_apply ?q s)) rest" for rest
    by (simp add: project_all_def)
  show ?thesis
  proof (cases "saved_terminal ?q")
    case None
    have id: "snap_generation s = proj_generation ?q" "snap_query s = proj_query ?q" "snap_job s = proj_job ?q"
      using assms project_all_identity[of p earlier] by simp_all
    have a: "projection_apply ?q s = (True, ?q\<lparr>current := Some s\<rparr>)"
      using projection_terminal_accepted[OF None assms(1) id] .
    have t: "saved_terminal (?q\<lparr>current := Some s\<rparr>) = Some (obs_state (observation s))"
      using assms(1) by (simp add: saved_terminal_def)
    have "project_all p (earlier @ s # rest) = ?q\<lparr>current := Some s\<rparr>" for rest
      using step[of rest] a project_all_saved_fixed[OF t, of rest] by simp
    then show ?thesis by (simp add: t)
  next
    case (Some t)
    have "project_all p (earlier @ s # rest) = ?q" for rest
      using step[of rest] projection_saved_fixed[OF Some] project_all_saved_fixed[OF Some] by simp
    then show ?thesis by (simp add: Some)
  qed
qed

theorem saved_terminal_wins_witness:
  "current (project_all sample_projection ([sample_snapshot 7 Running] @ sample_snapshot 3 Succeeded
     # [sample_snapshot 9 Running])) = Some (sample_snapshot 3 Succeeded)"
  using saved_terminal_wins[of "sample_snapshot 3 Succeeded" sample_projection "[sample_snapshot 7 Running]"
      "[sample_snapshot 9 Running]"]
  by (simp add: sample_snapshot_def sample_projection_def is_saved_terminal_def is_terminal_def
      project_all_def projection_apply_def saved_terminal_def)

end
