(* ===== verification/Job_Terminal.thy ===== *)
theory Job_Terminal
  imports Job_Progress Transition_Systems
begin

section \<open>The terminal recorder of a job item\<close>

text \<open>
  \<open>librairii-app/src/jobs/terminal.rs\<close>: the driver that saves the fact of a completed item,
  then the finish of its operation, retries a write that the store reports as not applied, reads
  back after an unknown answer, escalates to an interruption after three failed writes and keeps
  reconciling the interruption until the store confirms a saved state. \<open>jobs/runtime.rs\<close>,
  \<open>drive_terminal\<close>: the loop that waits until an action is ready on the virtual clock, performs it
  and hands the answer to the driver. The callbacks are the environment of the loop: a step of the
  system may carry any answer. \<open>Witness::bytes\<close> and \<open>diagnostic_bytes\<close> measure memory and
  are not modelled.
\<close>

definition retry_delay :: nat where
  "retry_delay = 10"

definition reconcile_delay :: nat where
  "reconcile_delay = 1000"

definition cause_bytes :: usize where
  "cause_bytes = 1024"

datatype pace_error = Regression | Overflow

definition checked_tick :: "nat \<Rightarrow> nat \<Rightarrow> pace_error + nat" where
  "checked_tick tick next =
     (if next < tick then Inl Regression
      else and_then (ok_or Overflow (u64_checked_add next reconcile_delay)) (\<lambda>_. Inr next))"

subsection \<open>Diagnostics\<close>

record cause =
  cause_text :: string
  original_bytes :: usize
  truncated :: bool

text \<open>\<open>str::is_char_boundary\<close>: the ends, and every byte that does not continue a sequence.\<close>

definition is_char_boundary :: "string \<Rightarrow> usize \<Rightarrow> bool" where
  "is_char_boundary text i \<longleftrightarrow>
     i = 0 \<or> i = length text \<or> (i < length text \<and> \<not> byte_in 128 191 (text ! i))"

fun cause_end :: "string \<Rightarrow> usize \<Rightarrow> usize" where
  "cause_end text 0 = 0"
| "cause_end text (Suc i) = (if is_char_boundary text (Suc i) then Suc i else cause_end text i)"

definition cause_new :: "string \<Rightarrow> cause" where
  "cause_new text =
     (let stop = cause_end text (min (length text) cause_bytes) in
      \<lparr>cause_text = take stop text, original_bytes = length text, truncated = (stop \<noteq> length text)\<rparr>)"

subsection \<open>Commands and answers\<close>

record finish_intent =
  fin_state :: operation_state
  fin_counts :: counts
  fin_outcome :: raw_outcome
  fin_at :: "string option"

definition intent_valid :: "finish_intent \<Rightarrow> bool" where
  "intent_valid f \<longleftrightarrow>
     is_terminal (fin_state f) \<and> fin_state f \<noteq> Interrupted \<and> \<not> isl (counts_validate (fin_counts f))
     \<and> completed (fin_counts f) = total (fin_counts f)"

datatype job_command = CompleteItem string | Finish finish_intent | Interrupt raw_outcome

definition is_complete_item :: "job_command \<Rightarrow> bool" where
  "is_complete_item c = (case c of CompleteItem _ \<Rightarrow> True | _ \<Rightarrow> False)"

definition is_interrupt :: "job_command \<Rightarrow> bool" where
  "is_interrupt c = (case c of Interrupt _ \<Rightarrow> True | _ \<Rightarrow> False)"

record job_witness =
  wit_stamp :: stamp
  wit_command :: job_command

record applied =
  app_witness :: job_witness
  app_observation :: operation_observation
  next_finish :: "finish_intent option"

datatype attempt = Applied applied | Attempt_not_applied job_witness cause | Unknown job_witness cause

datatype readback = Matches applied | DifferentSavedTerminal job_witness operation_observation
  | Readback_not_applied job_witness cause | Unavailable cause | Contradictory cause

record resolution =
  res_stamp :: stamp
  res_observation :: operation_observation
  different_terminal :: bool

datatype action = Write | Readback | ClockBlocked

record driver =
  drv_witness :: job_witness
  attempts :: nat
  due :: nat
  drv_action :: action
  reconciling :: bool
  provisional :: bool
  latest_retry :: "cause option"
  latest_readback :: "cause option"
  drv_resolution :: "resolution option"
  acknowledged_complete :: bool

definition driver_new :: "completed_item \<Rightarrow> nat \<Rightarrow> driver" where
  "driver_new c now =
     \<lparr>drv_witness =
        \<lparr>wit_stamp = \<lparr>stamp_gen = item_generation (done_item c), stamp_item = item_key (done_item c)\<rparr>,
         wit_command = CompleteItem (done_fact c)\<rparr>,
      attempts = 0, due = now, drv_action = Write, reconciling = False, provisional = False,
      latest_retry = None, latest_readback = None, drv_resolution = None,
      acknowledged_complete = False\<rparr>"

definition ready :: "driver \<Rightarrow> nat \<Rightarrow> action option" where
  "ready d now =
     (if drv_resolution d = None \<and> drv_action d \<noteq> ClockBlocked \<and> now \<ge> due d
      then Some (drv_action d) else None)"

text \<open>The attempt counter is a \<open>u8\<close>: the increment wraps at 256.\<close>

definition before_write :: "driver \<Rightarrow> driver" where
  "before_write d = (if \<not> reconciling d then d\<lparr>attempts := (attempts d + 1) mod 256\<rparr> else d)"

definition defer_action :: "driver \<Rightarrow> nat \<Rightarrow> nat \<Rightarrow> action \<Rightarrow> driver" where
  "defer_action d now delay a =
     (case u64_checked_add now delay of
        Some t \<Rightarrow> d\<lparr>due := t, drv_action := a\<rparr>
      | None \<Rightarrow> d\<lparr>drv_action := ClockBlocked,
                  latest_readback := Some (cause_new ''virtual persistence deadline overflow'')\<rparr>)"

definition uncertain :: "driver \<Rightarrow> nat \<Rightarrow> cause \<Rightarrow> bool \<Rightarrow> driver" where
  "uncertain d now c immediate =
     defer_action (d\<lparr>latest_readback := Some c\<rparr>) now (if immediate then 0 else reconcile_delay) Readback"

definition set_command :: "driver \<Rightarrow> job_command \<Rightarrow> driver" where
  "set_command d c = d\<lparr>drv_witness := (drv_witness d)\<lparr>wit_command := c\<rparr>\<rparr>"

definition persistence_failed :: raw_outcome where
  "persistence_failed =
     \<lparr>code = Some ''persistence_failed'', message = Some ''Operation progress could not be saved.''\<rparr>"

definition not_applied :: "driver \<Rightarrow> nat \<Rightarrow> cause \<Rightarrow> driver" where
  "not_applied d now c =
     (if acknowledged_complete d \<and> is_complete_item (wit_command (drv_witness d))
      then uncertain d now (cause_new ''nonapplication contradicts acknowledged completion'') False
      else let d = d\<lparr>latest_retry := Some c\<rparr> in
        if reconciling d then defer_action d now reconcile_delay Write
        else if attempts d < 3 then defer_action d now retry_delay Write
        else if is_interrupt (wit_command (drv_witness d))
        then defer_action (d\<lparr>provisional := True, reconciling := True\<rparr>) now reconcile_delay Write
        else defer_action ((set_command d (Interrupt persistence_failed))\<lparr>attempts := 0\<rparr>) now 0 Write)"

definition resolve :: "driver \<Rightarrow> operation_observation \<Rightarrow> bool \<Rightarrow> driver" where
  "resolve d obs different =
     d\<lparr>drv_resolution := Some \<lparr>res_stamp = wit_stamp (drv_witness d), res_observation = obs,
                                different_terminal = different\<rparr>\<rparr>"

definition applied_answer :: "driver \<Rightarrow> nat \<Rightarrow> applied \<Rightarrow> driver" where
  "applied_answer d now a =
     (if app_witness a \<noteq> drv_witness d \<or> obs_kind (app_observation a) \<noteq> StoredSnapshot
      then uncertain d now (cause_new ''applied response identity/provenance mismatch'') False
      else let command = wit_command (drv_witness d);
               d = (if is_complete_item command then d\<lparr>acknowledged_complete := True\<rparr> else d) in
        if is_saved_terminal (app_observation a) then
          resolve d (app_observation a)
            (case command of
               Finish intent \<Rightarrow> obs_state (app_observation a) \<noteq> fin_state intent
             | Interrupt _ \<Rightarrow> obs_state (app_observation a) \<noteq> Interrupted
             | CompleteItem _ \<Rightarrow> False)
        else if is_complete_item command then
          (case next_finish a of
             Some intent \<Rightarrow>
               if \<not> intent_valid intent
               then uncertain d now (cause_new ''invalid supplied finish intent'') False
               else defer_action ((set_command d (Finish intent))\<lparr>attempts := 0, reconciling := False\<rparr>)
                      now 0 Write
           | None \<Rightarrow> resolve d (app_observation a) False)
        else uncertain d now (cause_new ''terminal command returned nonterminal observation'') False)"

definition attempt_mismatch :: "driver \<Rightarrow> nat \<Rightarrow> driver" where
  "attempt_mismatch d now = uncertain d now (cause_new ''attempt command identity mismatch'') True"

definition accept_attempt :: "driver \<Rightarrow> nat \<Rightarrow> attempt \<Rightarrow> driver" where
  "accept_attempt d now response =
     (case response of
        Applied a \<Rightarrow> applied_answer d now a
      | Attempt_not_applied w c \<Rightarrow>
          if w = drv_witness d
          then if reconciling d
            then defer_action (d\<lparr>latest_retry := Some c\<rparr>) now 0 Readback
            else not_applied d now c
          else attempt_mismatch d now
      | Unknown w c \<Rightarrow>
          if w = drv_witness d then defer_action (d\<lparr>latest_retry := Some c\<rparr>) now 0 Readback
          else attempt_mismatch d now)"

definition readback_mismatch :: "driver \<Rightarrow> nat \<Rightarrow> driver" where
  "readback_mismatch d now =
     uncertain d now (cause_new ''readback command identity/provenance mismatch'') False"

definition accept_readback :: "driver \<Rightarrow> nat \<Rightarrow> readback \<Rightarrow> driver" where
  "accept_readback d now response =
     (case response of
        Matches a \<Rightarrow> applied_answer d now a
      | DifferentSavedTerminal w obs \<Rightarrow>
          if w = drv_witness d \<and> is_saved_terminal obs then resolve d obs True
          else readback_mismatch d now
      | Readback_not_applied w c \<Rightarrow>
          if w = drv_witness d then not_applied d now c else readback_mismatch d now
      | Unavailable c \<Rightarrow> uncertain d now c False
      | Contradictory c \<Rightarrow> uncertain d now c False)"

definition fenced :: "driver \<Rightarrow> bool" where
  "fenced d \<longleftrightarrow> provisional d \<or> latest_retry d \<noteq> None \<or> latest_readback d \<noteq> None"

subsection \<open>The driving loop\<close>

text \<open>
  \<open>Handle::advance_persistence_time\<close> moves the clock; \<open>drive_terminal\<close> performs the ready
  action. The clock may move while the callback runs: the answer is accepted at the tick the clock
  shows afterwards.
\<close>

record drive =
  drv :: driver
  tick :: nat

datatype drive_event = Advanced nat | Wrote nat attempt | Read_back nat readback

inductive drive_step :: "drive \<Rightarrow> drive_event \<Rightarrow> drive \<Rightarrow> bool" where
  drive_advance: "checked_tick (tick s) t = Inr now \<Longrightarrow> drive_step s (Advanced t) (s\<lparr>tick := now\<rparr>)"
| drive_write: "ready (drv s) (tick s) = Some Write \<Longrightarrow> checked_tick (tick s) t = Inr now \<Longrightarrow>
     drive_step s (Wrote t response)
       (s\<lparr>drv := accept_attempt (before_write (drv s)) now response, tick := now\<rparr>)"
| drive_read: "ready (drv s) (tick s) = Some Readback \<Longrightarrow> checked_tick (tick s) t = Inr now \<Longrightarrow>
     drive_step s (Read_back t response)
       (s\<lparr>drv := accept_readback (drv s) now response, tick := now\<rparr>)"

definition drive_start :: "completed_item \<Rightarrow> drive \<Rightarrow> bool" where
  "drive_start c s \<longleftrightarrow> checked_tick 0 (tick s) = Inr (tick s) \<and> drv s = driver_new c (tick s)"

subsection \<open>The invariant of the loop\<close>

definition command_ok :: "completed_item \<Rightarrow> bool \<Rightarrow> job_command \<Rightarrow> bool" where
  "command_ok c acknowledged command =
     (case command of
        CompleteItem f \<Rightarrow> f = done_fact c
      | Finish i \<Rightarrow> intent_valid i \<and> acknowledged
      | Interrupt out \<Rightarrow> out = persistence_failed)"

definition resolution_ok :: "stamp \<Rightarrow> bool \<Rightarrow> resolution option \<Rightarrow> bool" where
  "resolution_ok s acknowledged res =
     (case res of None \<Rightarrow> True
      | Some r \<Rightarrow> res_stamp r = s \<and> obs_kind (res_observation r) = StoredSnapshot
          \<and> (is_saved_terminal (res_observation r) \<or> acknowledged))"

definition stamp_of :: "completed_item \<Rightarrow> stamp" where
  "stamp_of c = \<lparr>stamp_gen = item_generation (done_item c), stamp_item = item_key (done_item c)\<rparr>"

definition driver_core :: "completed_item \<Rightarrow> driver \<Rightarrow> bool" where
  "driver_core c d \<longleftrightarrow>
     attempts d \<le> 3 \<and> reconciling d = provisional d
     \<and> (reconciling d \<longrightarrow> is_interrupt (wit_command (drv_witness d)))
     \<and> wit_stamp (drv_witness d) = stamp_of c
     \<and> command_ok c (acknowledged_complete d) (wit_command (drv_witness d))
     \<and> resolution_ok (stamp_of c) (acknowledged_complete d) (drv_resolution d)"

lemma command_ok_simps [simp]:
  "command_ok c b (CompleteItem f) \<longleftrightarrow> f = done_fact c"
  "command_ok c b (Finish i) \<longleftrightarrow> intent_valid i \<and> b"
  "command_ok c b (Interrupt out) \<longleftrightarrow> out = persistence_failed"
  by (simp_all add: command_ok_def)

lemma command_ok_mono: "command_ok c b x \<Longrightarrow> command_ok c True x"
  by (cases x) auto

lemma resolution_ok_simps [simp]:
  "resolution_ok st b None"
  "resolution_ok st b (Some r) \<longleftrightarrow> res_stamp r = st \<and> obs_kind (res_observation r) = StoredSnapshot
     \<and> (is_saved_terminal (res_observation r) \<or> b)"
  by (simp_all add: resolution_ok_def)

lemma resolution_ok_mono: "resolution_ok st b x \<Longrightarrow> resolution_ok st True x"
  by (cases x) auto

lemma is_kind_simps [simp]:
  "is_complete_item (CompleteItem f)" "\<not> is_complete_item (Finish i)" "\<not> is_complete_item (Interrupt out)"
  "\<not> is_interrupt (CompleteItem f)" "\<not> is_interrupt (Finish i)" "is_interrupt (Interrupt out)"
  by (simp_all add: is_complete_item_def is_interrupt_def)

definition driver_ok :: "completed_item \<Rightarrow> nat \<Rightarrow> driver \<Rightarrow> bool" where
  "driver_ok c now d \<longleftrightarrow>
     driver_core c d \<and> due d \<le> now + 1000 \<and> drv_action d \<noteq> ClockBlocked
     \<and> (drv_action d = Write \<and> \<not> reconciling d \<and> drv_resolution d = None \<longrightarrow> attempts d < 3)"

definition drive_inv :: "completed_item \<Rightarrow> drive \<Rightarrow> bool" where
  "drive_inv c s \<longleftrightarrow> tick s + 1000 \<le> u64_max \<and> driver_ok c (tick s) (drv s)"

lemma checked_tick_Ok_iff:
  "checked_tick t next = Inr now \<longleftrightarrow> now = next \<and> t \<le> next \<and> next + 1000 \<le> u64_max"
  by (auto simp: checked_tick_def result_iffs u64_checked_add_Some_iff reconcile_delay_def)

lemma defer_in_time:
  "now + 1000 \<le> u64_max \<Longrightarrow> delay \<le> 1000 \<Longrightarrow>
     defer_action d now delay a = d\<lparr>due := now + delay, drv_action := a\<rparr>"
  by (simp add: defer_action_def u64_checked_add_def)

lemma uncertain_in_time:
  "now + 1000 \<le> u64_max \<Longrightarrow> uncertain d now cs immediate =
     d\<lparr>latest_readback := Some cs, due := now + (if immediate then 0 else 1000), drv_action := Readback\<rparr>"
  by (simp add: uncertain_def defer_in_time reconcile_delay_def)

lemma uncertain_ok:
  "driver_core c d \<Longrightarrow> now + 1000 \<le> u64_max \<Longrightarrow> driver_ok c now (uncertain d now cs immediate)"
  by (simp add: uncertain_in_time driver_ok_def driver_core_def)

lemma not_applied_ok:
  assumes "driver_core c d" "now + 1000 \<le> u64_max"
  shows "driver_ok c now (not_applied d now cs)"
proof (cases "acknowledged_complete d \<and> is_complete_item (wit_command (drv_witness d))")
  case True
  then show ?thesis using assms by (simp add: not_applied_def uncertain_ok)
next
  case False
  then show ?thesis using assms
    by (auto simp: not_applied_def Let_def defer_in_time retry_delay_def reconcile_delay_def
        driver_ok_def driver_core_def set_command_def)
qed

lemma applied_answer_ok:
  assumes "driver_core c d" "now + 1000 \<le> u64_max" "due d \<le> now + 1000" "drv_action d \<noteq> ClockBlocked"
  shows "driver_ok c now (applied_answer d now a)"
proof (cases "app_witness a \<noteq> drv_witness d \<or> obs_kind (app_observation a) \<noteq> StoredSnapshot")
  case True
  then show ?thesis using assms by (simp add: applied_answer_def uncertain_ok)
next
  case False
  define e where "e = (if is_complete_item (wit_command (drv_witness d)) then d\<lparr>acknowledged_complete := True\<rparr> else d)"
  have core: "driver_core c e"
    using assms(1) by (auto simp: e_def driver_core_def intro: command_ok_mono resolution_ok_mono)
  have e: "due e \<le> now + 1000" "drv_action e \<noteq> ClockBlocked" "wit_command (drv_witness e) = wit_command (drv_witness d)"
    using assms by (auto simp: e_def)
  have res: "driver_ok c now (resolve e (app_observation a) b)"
    if "is_saved_terminal (app_observation a) \<or> acknowledged_complete e" for b
    using core e that False by (simp add: driver_ok_def driver_core_def resolve_def)
  have ack: "is_complete_item (wit_command (drv_witness d)) \<Longrightarrow> acknowledged_complete e" by (simp add: e_def)
  have fin: "driver_ok c now (defer_action ((set_command e (Finish i))\<lparr>attempts := 0, reconciling := False\<rparr>) now 0 Write)"
    if "intent_valid i" "is_complete_item (wit_command (drv_witness d))" for i
  proof -
    have "\<not> reconciling e" using core that e(3)
      by (cases "wit_command (drv_witness d)") (auto simp: driver_core_def)
    then show ?thesis using core that ack[OF that(2)] assms(2)
      by (simp add: defer_in_time set_command_def driver_ok_def driver_core_def)
  qed
  show ?thesis using False res fin ack uncertain_ok[OF core assms(2)]
    by (cases "is_complete_item (wit_command (drv_witness d))")
      (auto simp: applied_answer_def Let_def e_def split: option.splits)
qed

lemma before_write_core:
  "driver_ok c now d \<Longrightarrow> ready d now' = Some Write \<Longrightarrow>
     driver_core c (before_write d) \<and> due (before_write d) = due d \<and> drv_action (before_write d) = Write"
  by (auto simp: driver_ok_def driver_core_def before_write_def ready_def split: if_splits)

lemma accept_attempt_ok:
  assumes "driver_core c d" "now + 1000 \<le> u64_max" "due d \<le> now + 1000" "drv_action d \<noteq> ClockBlocked"
  shows "driver_ok c now (accept_attempt d now r)"
proof (cases r)
  case (Applied a)
  then show ?thesis using applied_answer_ok[OF assms] by (simp add: accept_attempt_def)
next
  case (Attempt_not_applied w cs)
  then show ?thesis using not_applied_ok[OF assms(1,2)] uncertain_ok[OF assms(1,2)] assms
    by (auto simp: accept_attempt_def attempt_mismatch_def defer_in_time driver_ok_def driver_core_def)
next
  case (Unknown w cs)
  then show ?thesis using uncertain_ok[OF assms(1,2)] assms
    by (auto simp: accept_attempt_def attempt_mismatch_def defer_in_time driver_ok_def driver_core_def)
qed

lemma accept_readback_ok:
  assumes "driver_core c d" "now + 1000 \<le> u64_max" "due d \<le> now + 1000" "drv_action d \<noteq> ClockBlocked"
  shows "driver_ok c now (accept_readback d now r)"
proof (cases r)
  case (Matches a)
  then show ?thesis using applied_answer_ok[OF assms] by (simp add: accept_readback_def)
next
  case (DifferentSavedTerminal w obs)
  then show ?thesis using uncertain_ok[OF assms(1,2)] assms
    by (auto simp: accept_readback_def readback_mismatch_def resolve_def is_saved_terminal_def
        driver_ok_def driver_core_def)
next
  case (Readback_not_applied w cs)
  then show ?thesis using not_applied_ok[OF assms(1,2)] uncertain_ok[OF assms(1,2)]
    by (simp add: accept_readback_def readback_mismatch_def)
qed (use uncertain_ok[OF assms(1,2)] in \<open>simp_all add: accept_readback_def\<close>)

lemma drive_step_inv: "drive_step s e s' \<Longrightarrow> drive_inv c s \<Longrightarrow> drive_inv c s'"
proof (induction rule: drive_step.induct)
  case (drive_advance s t now)
  then show ?case by (auto simp: drive_inv_def checked_tick_Ok_iff driver_ok_def)
next
  case (drive_write s t now response)
  then have ok: "driver_ok c (tick s) (drv s)" "now + 1000 \<le> u64_max" "tick s \<le> now"
    by (auto simp: drive_inv_def checked_tick_Ok_iff)
  have b: "driver_core c (before_write (drv s))" "due (before_write (drv s)) \<le> now + 1000"
      "drv_action (before_write (drv s)) \<noteq> ClockBlocked"
    using before_write_core[OF ok(1) drive_write.hyps(1)] ok by (auto simp: driver_ok_def)
  from accept_attempt_ok[OF b(1) ok(2) b(2,3)] ok show ?case by (simp add: drive_inv_def)
next
  case (drive_read s t now response)
  then have ok: "driver_ok c (tick s) (drv s)" "now + 1000 \<le> u64_max" "tick s \<le> now"
    by (auto simp: drive_inv_def checked_tick_Ok_iff)
  then have b: "driver_core c (drv s)" "due (drv s) \<le> now + 1000" "drv_action (drv s) \<noteq> ClockBlocked"
    by (auto simp: driver_ok_def)
  from accept_readback_ok[OF b(1) ok(2) b(2,3)] ok show ?case by (simp add: drive_inv_def)
qed

lemma drive_start_inv: "drive_start c s \<Longrightarrow> drive_inv c s"
  by (simp add: drive_start_def checked_tick_Ok_iff drive_inv_def driver_ok_def driver_core_def
      driver_new_def stamp_of_def)

interpretation drive: safe_system "drive_start c" drive_step "drive_inv c" for c
  by unfold_locales (use drive_start_inv drive_step_inv in blast)+

subsection \<open>Cutting a text at a character boundary\<close>

lemma encode_utf8_bytes:
  assumes "is_scalar c"
  shows "\<not> byte_in 128 191 (encode_utf8 c ! 0)" "0 < length (encode_utf8 c)" "length (encode_utf8 c) \<le> 4"
    "0 < i \<Longrightarrow> i < length (encode_utf8 c) \<Longrightarrow> byte_in 128 191 (encode_utf8 c ! i)"
proof -
  have b: "c < 0x110000" using assms by (auto simp: is_scalar_def)
  then have "192 + c div 64 < 256" if "c < 2048" using that by simp
  moreover have "c div 64 mod 64 < 64" "c mod 64 < 64" "c div 4096 mod 64 < 64" by simp_all
  moreover have "224 + c div 4096 < 256" if "c < 65536" using that by simp
  moreover have "240 + c div 262144 < 256" using b by simp
  ultimately show "\<not> byte_in 128 191 (encode_utf8 c ! 0)" "0 < length (encode_utf8 c)"
      "length (encode_utf8 c) \<le> 4"
      "0 < i \<Longrightarrow> i < length (encode_utf8 c) \<Longrightarrow> byte_in 128 191 (encode_utf8 c ! i)"
    by (auto simp: encode_utf8_def byte_in_def of_char_char_of_small less_Suc_eq numeral_eq_Suc[of "num.Bit0 num.One"]
        split: if_splits)
qed

lemma str_of_chars_Cons: "str_of_chars (c # cs) = encode_utf8 c @ str_of_chars cs"
  by (simp add: str_of_chars_def)

lemma boundary_Cons:
  assumes "is_scalar c"
  shows "is_char_boundary (encode_utf8 c @ rest) i \<Longrightarrow> i \<noteq> 0 \<Longrightarrow>
      length (encode_utf8 c) \<le> i \<and> is_char_boundary rest (i - length (encode_utf8 c))"
  using encode_utf8_bytes[OF assms]
  by (cases "i < length (encode_utf8 c)") (auto simp: is_char_boundary_def nth_append)

lemma boundary_is_prefix:
  "list_all is_scalar cs \<Longrightarrow> is_char_boundary (str_of_chars cs) i \<Longrightarrow>
     \<exists>k. take i (str_of_chars cs) = str_of_chars (take k cs)"
proof (induction cs arbitrary: i)
  case Nil
  then show ?case by (simp add: str_of_chars_def)
next
  case (Cons c cs)
  show ?case
  proof (cases "i = 0")
    case True
    then show ?thesis by (intro exI[of _ 0]) (simp add: str_of_chars_def)
  next
    case False
    have c: "is_scalar c" "list_all is_scalar cs" using Cons.prems by simp_all
    let ?n = "length (encode_utf8 c)"
    have i: "?n \<le> i" "is_char_boundary (str_of_chars cs) (i - ?n)"
      using boundary_Cons[OF c(1)] Cons.prems(2) False by (auto simp: str_of_chars_Cons)
    from Cons.IH[OF c(2) i(2)] obtain k where "take (i - ?n) (str_of_chars cs) = str_of_chars (take k cs)" ..
    then show ?thesis using i(1) by (intro exI[of _ "Suc k"]) (simp add: str_of_chars_Cons)
  qed
qed

lemma boundary_append:
  "is_char_boundary rest j \<Longrightarrow> 0 < j \<Longrightarrow> is_char_boundary (pre @ rest) (length pre + j)"
  by (auto simp: is_char_boundary_def nth_append)

lemma boundary_start:
  "list_all is_scalar cs \<Longrightarrow> is_char_boundary (pre @ str_of_chars cs) (length pre)"
  using encode_utf8_bytes(1) encode_utf8_nonempty
  by (cases cs) (simp_all add: is_char_boundary_def nth_append str_of_chars_Cons str_of_chars_def)

lemma boundary_near:
  "list_all is_scalar cs \<Longrightarrow> i \<le> length (str_of_chars cs) \<Longrightarrow>
     \<exists>j. j \<le> i \<and> i \<le> j + 3 \<and> is_char_boundary (str_of_chars cs) j"
proof (induction cs arbitrary: i)
  case Nil
  then show ?case by (simp add: str_of_chars_def is_char_boundary_def)
next
  case (Cons c cs)
  let ?n = "length (encode_utf8 c)"
  have c: "is_scalar c" "list_all is_scalar cs" using Cons.prems by simp_all
  show ?case
  proof (cases "i < ?n")
    case True
    then show ?thesis using encode_utf8_bytes(3)[OF c(1)]
      by (intro exI[of _ 0]) (simp add: is_char_boundary_def)
  next
    case False
    then have "i - ?n \<le> length (str_of_chars cs)" using Cons.prems by (simp add: str_of_chars_Cons)
    from Cons.IH[OF c(2) this] obtain j where j: "j \<le> i - ?n" "i - ?n \<le> j + 3"
      "is_char_boundary (str_of_chars cs) j" by blast
    have "is_char_boundary (str_of_chars (c # cs)) (?n + j)"
    proof (cases "j = 0")
      case True
      then show ?thesis using boundary_start[OF c(2)] by (simp add: str_of_chars_Cons)
    next
      case False
      then show ?thesis using boundary_append[OF j(3), of "encode_utf8 c"] j \<open>i - ?n \<le> length (str_of_chars cs)\<close>
        by (auto simp: str_of_chars_Cons)
    qed
    then show ?thesis using j False by (intro exI[of _ "?n + j"]) auto
  qed
qed

lemma cause_end_boundary: "is_char_boundary text (cause_end text i) \<and> cause_end text i \<le> i"
  by (induction i) (auto simp: is_char_boundary_def)

lemma cause_end_maximal: "j \<le> i \<Longrightarrow> is_char_boundary text j \<Longrightarrow> j \<le> cause_end text i"
  by (induction i) (auto simp: le_Suc_eq)

text \<open>C40: A diagnostic keeps a prefix of its text of at most 1024 bytes that is itself valid UTF-8, cut
  no more than three bytes below the limit and only when the text is longer, and records the
  original length and whether it was cut; the slice never falls inside a character.
\<close>

theorem cause_is_bounded:
  assumes "valid_utf8 text"
  shows "(\<exists>rest. text = cause_text (cause_new text) @ rest \<and> (truncated (cause_new text) \<longleftrightarrow> rest \<noteq> []))
    \<and> valid_utf8 (cause_text (cause_new text)) \<and> length (cause_text (cause_new text)) \<le> 1024
    \<and> original_bytes (cause_new text) = length text
    \<and> (truncated (cause_new text) \<longleftrightarrow> 1024 < length text)
    \<and> min (length text) 1024 \<le> length (cause_text (cause_new text)) + 3"
proof -
  from assms obtain cs where cs: "list_all is_scalar cs" "text = str_of_chars cs"
    by (auto simp: valid_utf8_iff)
  define lim where "lim = min (length text) 1024"
  define stop where "stop = cause_end text lim"
  have new: "cause_new text = \<lparr>cause_text = take stop text, original_bytes = length text,
      truncated = (stop \<noteq> length text)\<rparr>"
    by (simp add: cause_new_def stop_def lim_def cause_bytes_def Let_def)
  have stop: "is_char_boundary text stop" "stop \<le> lim"
    using cause_end_boundary[of "text" lim] by (simp_all add: stop_def)
  have lim: "lim \<le> length text" "lim \<le> 1024" by (simp_all add: lim_def)
  obtain k where k: "take stop text = str_of_chars (take k cs)"
    using boundary_is_prefix[OF cs(1)] stop(1) unfolding cs(2) by blast
  have valid: "valid_utf8 (take stop text)"
    unfolding k using cs(1) by (intro valid_utf8_str_of_chars) (auto simp: list_all_iff dest: in_set_takeD)
  obtain j where j: "j \<le> lim" "lim \<le> j + 3" "is_char_boundary text j"
    using boundary_near[OF cs(1), of lim] lim(1) unfolding cs(2) by blast
  have near: "lim \<le> stop + 3" using cause_end_maximal[OF j(1,3)] j(2) by (simp add: stop_def)
  have whole: "lim = length text \<Longrightarrow> stop = length text"
    using cause_end_maximal[of "length text" lim "text"] stop(2) by (simp add: stop_def is_char_boundary_def)
  have "stop \<noteq> length text \<longleftrightarrow> 1024 < length text"
    using whole stop(2) lim by (cases "length text \<le> 1024") (auto simp: lim_def)
  moreover have "text = take stop text @ drop stop text" by simp
  moreover have "stop \<noteq> length text \<longleftrightarrow> drop stop text \<noteq> []" using stop(2) lim(1) by auto
  ultimately show ?thesis using valid near stop(2) lim
    by (auto simp: new lim_def[symmetric] intro!: exI[of _ "drop stop text"])
qed

theorem cause_is_bounded_witness:
  "valid_utf8 (cause_text (cause_new ''abc'')) \<and> \<not> truncated (cause_new ''abc'')"
proof -
  have "valid_utf8 ''abc''"
    using valid_utf8_str_of_chars[of "[97, 98, 99]"]
    by (simp add: str_of_chars_def encode_utf8_def is_scalar_def char_of_def bit_simps)
  from cause_is_bounded[OF this] show ?thesis by simp
qed

subsection \<open>A store that refuses every write\<close>

text \<open>The writes at the moments they fall due, each answered as not applied.\<close>

fun refused :: "cause \<Rightarrow> nat \<Rightarrow> driver \<Rightarrow> driver" where
  "refused cs 0 d = d"
| "refused cs (Suc n) d =
     refused cs n (accept_attempt (before_write d) (due d) (Attempt_not_applied (drv_witness d) cs))"

lemma refused_retry:
  assumes "\<not> reconciling d" "attempts d < 2" "\<not> acknowledged_complete d" "due d + 1000 \<le> u64_max"
  shows "refused cs (Suc n) d =
    refused cs n (d\<lparr>attempts := attempts d + 1, due := due d + 10, drv_action := Write, latest_retry := Some cs\<rparr>)"
  using assms
  by (cases d) (simp add: accept_attempt_def before_write_def not_applied_def defer_in_time retry_delay_def Let_def)

lemma refused_third:
  assumes "\<not> reconciling d" "attempts d = 2" "\<not> acknowledged_complete d" "due d + 1000 \<le> u64_max"
  shows "refused cs (Suc n) d =
    (if is_interrupt (wit_command (drv_witness d))
     then refused cs n (d\<lparr>attempts := 3, due := due d + 1000, drv_action := Write, latest_retry := Some cs,
            provisional := True, reconciling := True\<rparr>)
     else refused cs n ((set_command d (Interrupt persistence_failed))\<lparr>attempts := 0, due := due d,
            drv_action := Write, latest_retry := Some cs\<rparr>))"
  using assms
  by (cases d) (simp add: accept_attempt_def before_write_def not_applied_def defer_in_time reconcile_delay_def
      set_command_def Let_def)


definition sample_item :: job_item where
  "sample_item =
     \<lparr>item_key = \<lparr>key_job = ''j'', key_row = 1\<rparr>, item_order = HistoryKey ''t'' ''j'', item_ordinal = 0,
      item_kind = Import, item_payload = [], item_generation = 1, total_bytes = 10, cancel_requested = False\<rparr>"

definition sample_done :: completed_item where
  "sample_done = \<lparr>done_item = sample_item, done_fact = ''fact'', done_errors = []\<rparr>"


subsection \<open>What the recorder promises\<close>

lemma drive_sound:
  "reachable (drive_start c) drive_step s \<Longrightarrow> drive_inv c s"
  by (rule drive.reachable_good)


definition sample_drive :: drive where
  "sample_drive = \<lparr>drv = driver_new sample_done 0, tick = 0\<rparr>"

lemma sample_drive_reachable: "reachable (drive_start sample_done) drive_step sample_drive"
  by (rule reach_start) (simp add: drive_start_def sample_drive_def checked_tick_Ok_iff u64_max_def)

lemma sample_write_reachable:
  "reachable (drive_start sample_done) drive_step
     (sample_drive\<lparr>drv := accept_attempt (before_write (drv sample_drive)) 5 response, tick := 5\<rparr>)"
  by (rule reach_step[OF sample_drive_reachable drive_write[of sample_drive 5 5]])
    (simp_all add: sample_drive_def driver_new_def ready_def checked_tick_Ok_iff u64_max_def)


definition saved_answer :: "driver \<Rightarrow> applied" where
  "saved_answer d =
     \<lparr>app_witness = drv_witness d, app_observation = \<lparr>obs_state = Succeeded, obs_kind = StoredSnapshot\<rparr>,
      next_finish = None\<rparr>"

lemma saved_answer_resolves:
  "\<exists>b. drv_resolution (applied_answer d now (saved_answer d))
     = Some \<lparr>res_stamp = wit_stamp (drv_witness d), res_observation = \<lparr>obs_state = Succeeded, obs_kind = StoredSnapshot\<rparr>,
             different_terminal = b\<rparr>"
  by (simp add: applied_answer_def saved_answer_def is_saved_terminal_def is_terminal_def resolve_def Let_def)

lemma before_write_witness [simp]: "drv_witness (before_write d) = drv_witness d"
  by (simp add: before_write_def)

lemma recorder_resolves_when_due:
  assumes "drive_inv c s" "drv_resolution (drv s) = None" "due (drv s) \<le> tick s"
  shows "\<exists>e s' r. drive_step s e s' \<and> drv_resolution (drv s') = Some r \<and> is_saved_terminal (res_observation r)"
proof -
  have t: "checked_tick (tick s) (tick s) = Inr (tick s)"
    using assms(1) by (simp add: checked_tick_Ok_iff drive_inv_def)
  have saved: "is_saved_terminal \<lparr>obs_state = Succeeded, obs_kind = StoredSnapshot\<rparr>"
    by (simp add: is_saved_terminal_def is_terminal_def)
  consider "ready (drv s) (tick s) = Some Write" | "ready (drv s) (tick s) = Some Readback"
    using assms by (cases "drv_action (drv s)") (auto simp: ready_def drive_inv_def driver_ok_def)
  then show ?thesis
  proof cases
    case 1
    let ?b = "before_write (drv s)"
    have "drive_step s (Wrote (tick s) (Applied (saved_answer ?b)))
        (s\<lparr>drv := accept_attempt ?b (tick s) (Applied (saved_answer ?b)), tick := tick s\<rparr>)"
      using 1 t by (rule drive_write)
    then show ?thesis using saved_answer_resolves[of ?b "tick s"] saved
      by (auto simp: accept_attempt_def intro!: exI)
  next
    case 2
    have "drive_step s (Read_back (tick s) (Matches (saved_answer (drv s))))
        (s\<lparr>drv := accept_readback (drv s) (tick s) (Matches (saved_answer (drv s))), tick := tick s\<rparr>)"
      using 2 t by (rule drive_read)
    then show ?thesis using saved_answer_resolves[of "drv s" "tick s"] saved
      by (auto simp: accept_readback_def intro!: exI)
  qed
qed

text \<open>C35: The recorder is never stuck: from every state it can reach without a resolution, as long as
  the clock can still show its deadline, moving the clock there and one answer of a store that has
  saved the operation resolve it with a saved terminal state.
\<close>

theorem recorder_can_resolve:
  assumes "reachable (drive_start c) drive_step s" and "drv_resolution (drv s) = None"
    and "due (drv s) + 1000 \<le> u64_max"
  shows "\<exists>e s' r. run drive_step s [Advanced (max (tick s) (due (drv s))), e] s'
    \<and> drv_resolution (drv s') = Some r \<and> is_saved_terminal (res_observation r)"
proof -
  let ?t = "max (tick s) (due (drv s))"
  let ?m = "s\<lparr>tick := ?t\<rparr>"
  have inv: "drive_inv c s" using drive_sound[OF assms(1)] .
  have step: "drive_step s (Advanced ?t) ?m"
    using inv assms(3) by (intro drive_advance) (auto simp: checked_tick_Ok_iff drive_inv_def)
  obtain e s' r where s': "drive_step ?m e s'" "drv_resolution (drv s') = Some r" "is_saved_terminal (res_observation r)"
    using recorder_resolves_when_due[OF drive_step_inv[OF step inv]] assms(2) by auto
  then have "run drive_step s [Advanced ?t, e] s'"
    using step by (blast intro: run_cons run_nil)
  with s'(2,3) show ?thesis by blast
qed

theorem recorder_can_resolve_witness:
  "\<exists>e s' r. run drive_step sample_drive [Advanced 0, e] s'
     \<and> drv_resolution (drv s') = Some r \<and> is_saved_terminal (res_observation r)"
  using recorder_can_resolve[OF sample_drive_reachable]
  by (simp add: sample_drive_def driver_new_def u64_max_def)

end
