(* ===== verification/Tagging.thy ===== *)
theory Tagging
  imports Unicode_Tables
begin

section \<open>Tag keys, selections and age bands\<close>

text \<open>
  \<open>librairii-core/src/tagging/mod.rs\<close>: the errors of tagging, the catalog data, the normalization
  of keys and labels, the validated selection of stories, and the age bands with the search for the
  one band that covers a range. The compatibility decomposition of a key and the mark predicate come
  from the large frozen normalization tables and are arguments of \<open>normalize_key\<close>. The color check
  rests on floating-point powers of the platform and is not modelled.
\<close>

datatype tag_error =
  InvalidProjectionConfig | DerivedFacetDrift | DeletePlanStale | SavedQueryInvalid | InvalidAssignment
  | TagStoryNotFound | AssignmentKind | DerivedAssignment | InvalidDefinition | DuplicateDefinition
  | DefinitionNotFound | ProtectedDefinition | InvalidTagOrder | InvalidTagValue | DuplicateValue
  | ValueNotFound | ValuesNotAllowed

fun tag_error_code :: "tag_error \<Rightarrow> string" where
  "tag_error_code InvalidProjectionConfig = ''tagging.invalid_projection_config''"
| "tag_error_code DerivedFacetDrift = ''tagging.derived_facet_drift''"
| "tag_error_code DeletePlanStale = ''tagging.delete_plan_stale''"
| "tag_error_code SavedQueryInvalid = ''tagging.saved_collection_query_invalid''"
| "tag_error_code InvalidAssignment = ''tagging.invalid_assignment''"
| "tag_error_code TagStoryNotFound = ''tagging.story_not_found''"
| "tag_error_code AssignmentKind = ''tagging.assignment_kind''"
| "tag_error_code DerivedAssignment = ''tagging.derived_assignment''"
| "tag_error_code InvalidDefinition = ''tagging.invalid_definition''"
| "tag_error_code DuplicateDefinition = ''tagging.duplicate_definition''"
| "tag_error_code DefinitionNotFound = ''tagging.definition_not_found''"
| "tag_error_code ProtectedDefinition = ''tagging.protected_definition''"
| "tag_error_code InvalidTagOrder = ''tagging.invalid_order''"
| "tag_error_code InvalidTagValue = ''tagging.invalid_value''"
| "tag_error_code DuplicateValue = ''tagging.duplicate_value''"
| "tag_error_code ValueNotFound = ''tagging.value_not_found''"
| "tag_error_code ValuesNotAllowed = ''tagging.values_not_allowed''"

datatype tag_kind = Boolean_kind | Choice_kind

definition tag_kind_str :: "tag_kind \<Rightarrow> string" where
  "tag_kind_str k = (case k of Boolean_kind \<Rightarrow> ''boolean'' | Choice_kind \<Rightarrow> ''choice'')"

record tag_definition =
  def_id :: i64
  def_key :: string
  def_normalized_key :: string
  def_label :: string
  def_color :: string
  def_kind :: tag_kind
  def_source :: string
  def_presentation :: string
  def_position :: i64
  protected :: bool

record tag_value =
  value_id :: i64
  value_definition :: i64
  value_key :: string
  value_normalized_key :: string
  value_label :: string
  value_position :: i64

subsection \<open>Keys and labels\<close>

definition is_key_char :: "nat \<Rightarrow> bool" where
  "is_key_char c = list_ex (in_ranges c) [letter_table, digit_table]"

text \<open>The loop over the characters, with the output and the pending separator; 45 is the hyphen.\<close>

fun key_loop :: "(nat \<Rightarrow> bool) \<Rightarrow> nat list \<Rightarrow> nat list \<Rightarrow> bool \<Rightarrow> nat list" where
  "key_loop is_mark [] out separator = out"
| "key_loop is_mark (c # cs) out separator =
     (if is_mark c then key_loop is_mark cs out separator
      else if is_key_char c
      then key_loop is_mark cs ((if separator \<and> out \<noteq> [] then out @ [45] else out) @ [c]) False
      else key_loop is_mark cs out True)"

definition normalize_key ::
    "(string \<Rightarrow> 'e + string) \<Rightarrow> (nat \<Rightarrow> bool) \<Rightarrow> string \<Rightarrow> tag_error + string" where
  "normalize_key decomposition is_mark value =
     and_then (map_err (\<lambda>_. InvalidDefinition) (decomposition (tag_trim value))) (\<lambda>value.
       let out = key_loop is_mark (str_chars value) [] False in
       if out = [] \<or> length out > 64 then Inl InvalidDefinition else Inr (str_of_chars out))"

definition normalize_label :: "string \<Rightarrow> tag_error + string" where
  "normalize_label value =
     (let value = tag_trim value in
      if value = [] \<or> length (str_chars value) > 80 then Inl InvalidDefinition else Inr value)"

subsection \<open>Selections\<close>

definition story_ids :: "i64 list \<Rightarrow> tag_error + i64 list" where
  "story_ids ids =
     (if ids = [] \<or> length ids > 1000 \<or> list_ex (\<lambda>id. id \<le> 0) ids then Inl InvalidAssignment
      else Inr (remdups_adj (sort ids)))"

subsection \<open>Age bands\<close>

record age_band =
  band_key :: string
  band_label :: string
  minimum :: i64
  maximum :: i64

text \<open>The labels hold an en dash, the UTF-8 bytes E2 80 93.\<close>

definition en_dash :: string where
  "en_dash = encode_utf8 0x2013"

definition age_default :: "age_band list" where
  "age_default =
     [\<lparr>band_key = ''3-5'', band_label = ''3'' @ en_dash @ ''5 years'', minimum = 3, maximum = 5\<rparr>,
      \<lparr>band_key = ''6-8'', band_label = ''6'' @ en_dash @ ''8 years'', minimum = 6, maximum = 8\<rparr>]"

definition band_rejected :: "age_band \<Rightarrow> bool" where
  "band_rejected b \<longleftrightarrow>
     band_key b = [] \<or> length (str_chars (band_key b)) > 64
     \<or> \<not> list_all (\<lambda>c. is_ascii_lower c \<or> is_ascii_digit c \<or> c = CHR ''-'') (band_key b)
     \<or> band_label b = [] \<or> tag_trim (band_label b) \<noteq> band_label b
     \<or> length (str_chars (band_label b)) > 80 \<or> minimum b < 0 \<or> maximum b < minimum b"

definition bands_clash :: "age_band \<Rightarrow> age_band \<Rightarrow> bool" where
  "bands_clash a b \<longleftrightarrow>
     band_key a = band_key b \<or> (minimum b \<le> maximum a \<and> minimum a \<le> maximum b)"

fun validate_bands :: "age_band list \<Rightarrow> age_band list \<Rightarrow> tag_error + unit" where
  "validate_bands earlier [] = Inr ()"
| "validate_bands earlier (b # bs) =
     (if band_rejected b then Inl InvalidProjectionConfig
      else if list_ex (\<lambda>a. bands_clash a b) earlier then Inl InvalidProjectionConfig
      else validate_bands (earlier @ [b]) bs)"

definition validate_ages :: "age_band list \<Rightarrow> tag_error + unit" where
  "validate_ages bands =
     (if bands = [] \<or> length bands > 32 then Inl InvalidProjectionConfig else validate_bands [] bands)"

definition matching_band :: "age_band list \<Rightarrow> i64 option \<Rightarrow> i64 option \<Rightarrow> nat option" where
  "matching_band bands lo hi =
     (case (lo, hi) of
        (Some lo, Some hi) \<Rightarrow>
          if lo > hi then None
          else (case filter (\<lambda>(i, b). lo \<ge> minimum b \<and> hi \<le> maximum b) (enumerate 0 bands) of
              [] \<Rightarrow> None
            | [(i, b)] \<Rightarrow> Some i
            | _ \<Rightarrow> None)
      | _ \<Rightarrow> None)"

subsection \<open>Keys are words joined by hyphens\<close>

text \<open>The reference: the maximal runs of letters and digits, joined by single hyphens.\<close>

function words :: "('a \<Rightarrow> bool) \<Rightarrow> 'a list \<Rightarrow> 'a list list" where
  "words p [] = []"
| "words p (c # cs) =
     (if p c then (c # takeWhile p cs) # words p (dropWhile p cs) else words p cs)"
  by pat_completeness auto
termination
  by (relation "measure (\<lambda>(p, cs). length cs)") (auto simp: length_dropWhile_le le_imp_less_Suc)

definition hyphened :: "nat list list \<Rightarrow> nat list" where
  "hyphened ws = concat (map (\<lambda>w. 45 # w) ws)"

definition join_words :: "nat list list \<Rightarrow> nat list" where
  "join_words ws = (case ws of [] \<Rightarrow> [] | w # ws \<Rightarrow> w @ hyphened ws)"

definition key_char :: "nat \<Rightarrow> bool" where
  "key_char c = list_ex (range_has c) (letter_table @ digit_table)"

lemma is_key_char_iff: "is_key_char c = key_char c"
  using in_ranges_iff[OF letter_table_ascending, of c] in_ranges_iff[OF digit_table_ascending, of c]
  by (simp add: is_key_char_def key_char_def)

lemma key_loop_unmarked:
  "key_loop is_mark cs out separator = key_loop (\<lambda>_. False) (filter (\<lambda>c. \<not> is_mark c) cs) out separator"
  by (induction cs arbitrary: out separator) simp_all

lemma key_loop_words:
  "key_loop (\<lambda>_. False) cs out separator =
     (if out = [] then join_words (words is_key_char cs)
      else if separator then out @ hyphened (words is_key_char cs)
      else out @ takeWhile is_key_char cs @ hyphened (words is_key_char (dropWhile is_key_char cs)))"
  by (induction cs arbitrary: out separator) (simp_all add: hyphened_def join_words_def)

text \<open>A tag key is refused when its decomposition fails, when nothing is left of it or when more than
  64 characters are; otherwise it is the maximal runs of letters and digits of the decomposed text,
  marks removed, joined by single hyphens, where a character is a letter or digit when it lies in some
  range of the frozen tables: the binary search of the code decides exactly that.
\<close>

theorem normalize_key_correct:
  "normalize_key decomposition is_mark value =
     (case decomposition (tag_trim value) of
        Inl _ \<Rightarrow> Inl InvalidDefinition
      | Inr v \<Rightarrow>
          let key = join_words (words key_char (filter (\<lambda>c. \<not> is_mark c) (str_chars v))) in
          if key = [] \<or> 64 < length key then Inl InvalidDefinition else Inr (str_of_chars key))"
proof -
  have "is_key_char = key_char" using is_key_char_iff by blast
  then show ?thesis
    by (cases "decomposition (tag_trim value)")
      (simp_all add: normalize_key_def key_loop_unmarked[of is_mark] key_loop_words Let_def)
qed

subsection \<open>The one covering band\<close>

lemma validate_bands_Ok_iff:
  "validate_bands earlier bs = Inr u \<longleftrightarrow>
     list_all (\<lambda>b. \<not> band_rejected b \<and> list_all (\<lambda>a. \<not> bands_clash a b) earlier) bs
     \<and> sorted_wrt (\<lambda>a b. \<not> bands_clash a b) bs"
  by (induction earlier bs rule: validate_bands.induct)
    (auto simp: list_all_iff list_ex_iff split: if_splits)

lemma bands_unique:
  assumes "sorted_wrt (\<lambda>a b. \<not> bands_clash a b) bands" "lo \<le> hi" "i < length bands" "j < length bands"
    "minimum (bands ! i) \<le> lo" "hi \<le> maximum (bands ! i)" "minimum (bands ! j) \<le> lo" "hi \<le> maximum (bands ! j)"
  shows "i = j"
proof -
  have "\<not> a < b" if "a < length bands" "b < length bands" "minimum (bands ! a) \<le> lo" "hi \<le> maximum (bands ! a)"
      "minimum (bands ! b) \<le> lo" "hi \<le> maximum (bands ! b)" for a b
    using sorted_wrt_nth_less[OF assms(1), of a b] that assms(2) by (auto simp: bands_clash_def)
  with assms show ?thesis by (metis linorder_neqE_nat)
qed

lemma filter_single:
  assumes "distinct xs" "\<And>y. y \<in> set xs \<Longrightarrow> P y \<longleftrightarrow> y = x" "x \<in> set xs"
  shows "filter P xs = [x]"
proof -
  have "set (filter P xs) = {x}" using assms by auto
  moreover have "distinct (filter P xs)" using assms(1) by simp
  ultimately show ?thesis by (metis distinct_card distinct_length_2_or_more empty_set
      insert_not_empty length_Suc_conv list.set_intros(1) remdups_id_iff_distinct set_ConsD singletonD
      list.exhaust list.set_intros(2))
qed

definition covers :: "age_band list \<Rightarrow> int \<Rightarrow> int \<Rightarrow> nat \<Rightarrow> bool" where
  "covers bands lo hi i \<longleftrightarrow> i < length bands \<and> minimum (bands ! i) \<le> lo \<and> hi \<le> maximum (bands ! i)"

text \<open>Under a validated configuration, the band found for a range of ages is exactly the one that
  covers it: the search finds an index if and only if the range is complete and ordered and the band at
  that index contains it, so the ambiguous case never arises.
\<close>

theorem matching_band_exact:
  assumes "validate_ages bands = Inr ()"
  shows "matching_band bands (Some lo) (Some hi) = Some i \<longleftrightarrow> lo \<le> hi \<and> covers bands lo hi i"
proof (cases "lo \<le> hi")
  case False
  then show ?thesis by (simp add: matching_band_def)
next
  case True
  have sorted: "sorted_wrt (\<lambda>a b. \<not> bands_clash a b) bands"
    using assms by (simp add: validate_ages_def validate_bands_Ok_iff split: if_splits)
  let ?P = "\<lambda>(i, b). minimum b \<le> lo \<and> hi \<le> maximum b"
  let ?f = "filter ?P (enumerate 0 bands)"
  have mem: "(k, b) \<in> set ?f \<longleftrightarrow> covers bands lo hi k \<and> b = bands ! k" for k b
    by (auto simp: in_set_enumerate_eq covers_def)
  have unique: "covers bands lo hi k \<Longrightarrow> covers bands lo hi j \<Longrightarrow> k = j" for k j
    using bands_unique[OF sorted True] by (auto simp: covers_def)
  have match: "matching_band bands (Some lo) (Some hi) = (case ?f of [] \<Rightarrow> None | [(i, b)] \<Rightarrow> Some i | _ \<Rightarrow> None)"
    using True by (simp add: matching_band_def)
  show ?thesis
  proof
    assume "matching_band bands (Some lo) (Some hi) = Some i"
    then obtain b where "?f = [(i, b)]" unfolding match by (auto split: list.splits prod.splits)
    then have "(i, b) \<in> set ?f" by simp
    then show "lo \<le> hi \<and> covers bands lo hi i" using mem True by blast
  next
    assume c: "lo \<le> hi \<and> covers bands lo hi i"
    have "?f = [(i, bands ! i)]"
    proof (rule filter_single)
      show "(i, bands ! i) \<in> set (enumerate 0 bands)" using mem[of i "bands ! i"] c by auto
      show "?P y \<longleftrightarrow> y = (i, bands ! i)" if "y \<in> set (enumerate 0 bands)" for y
      proof
        assume "?P y"
        then have "y \<in> set ?f" using that by simp
        then have "covers bands lo hi (fst y) \<and> snd y = bands ! fst y"
          using mem[of "fst y" "snd y"] by simp
        with unique[of "fst y" i] c show "y = (i, bands ! i)" by (cases y) auto
      next
        assume "y = (i, bands ! i)"
        then show "?P y" using c by (simp add: covers_def)
      qed
    qed simp
    then show "matching_band bands (Some lo) (Some hi) = Some i" unfolding match by simp
  qed
qed

lemma default_bands_valid: "validate_ages age_default = Inr ()"
  by code_simp

theorem matching_band_exact_witness: "matching_band age_default (Some 4) (Some 5) = Some 0"
  using matching_band_exact[OF default_bands_valid, of 4 5 0] by (simp add: covers_def age_default_def)

subsection \<open>A selection is a set of stories\<close>

lemma story_ids_Ok_iff:
  "story_ids ids = Inr out \<longleftrightarrow>
     ids \<noteq> [] \<and> length ids \<le> 1000 \<and> list_all (\<lambda>id. 0 < id) ids
     \<and> sorted_wrt (<) out \<and> set out = set ids"
proof -
  have "sorted_wrt (<) out \<and> set out = set ids \<longleftrightarrow> out = remdups_adj (sort ids)"
    using dedup_sort[of ids] strict_sorted_equal[of out "remdups_adj (sort ids)"] by auto
  then show ?thesis
    by (auto simp: story_ids_def list_ex_iff list_all_iff not_le not_less)
qed

lemma normalize_label_idem: "normalize_label value = Inr v \<Longrightarrow> normalize_label v = Inr v"
  by (auto simp: normalize_label_def Let_def tag_trim_idem split: if_splits)

end
