(* ===== verification/Operation_Ports.thy ===== *)
theory Operation_Ports
  imports Query_Url Import_Names Operation_History Operation_Policy
begin

section \<open>Operation snapshots and terminal commands\<close>

text \<open>
  \<open>librairii-app/src/ports/operations.rs\<close>: native paths and their display text, the stored header
  and items of an operation with their immutable scopes, and the terminal commands with the values
  the store keeps. A path is its bytes. The store itself is an interface of the source, a trait that
  the storage crate implements, and its replies are data only.
\<close>

subsection \<open>Native paths\<close>

type_synonym operation_path = bytes

text \<open>\<open>Utf8Error::valid_up_to\<close>: the length of the longest prefix of whole sequences.\<close>

function valid_up_to :: "bytes \<Rightarrow> nat" where
  "valid_up_to s =
     (if s = [] then 0
      else (case utf8_next s of None \<Rightarrow> 0 | Some (c, w) \<Rightarrow> w + valid_up_to (drop w s)))"
  by pat_completeness auto
termination
  by (relation "measure length") (auto dest: utf8_next_width)

declare valid_up_to.simps [simp del]

definition replacement_char :: string where
  "replacement_char = encode_utf8 0xFFFD"

function display_native_text :: "bytes \<Rightarrow> string" where
  "display_native_text s =
     (if s = [] then []
      else if valid_utf8 s then s
      else take (valid_up_to s) s @ replacement_char @ display_native_text (drop (Suc (valid_up_to s)) s))"
  by pat_completeness auto
termination
  by (relation "measure length") auto

declare display_native_text.simps [simp del]

lemma valid_up_to_prefix: "valid_utf8 (take (valid_up_to s) s)"
proof (induction s rule: valid_up_to.induct)
  case (1 s)
  show ?case
  proof (cases "s = [] \<or> utf8_next s = None")
    case True
    then show ?thesis by (auto simp: valid_up_to.simps[of s] valid_utf8_def)
  next
    case False
    then obtain c w where n: "s \<noteq> []" "utf8_next s = Some (c, w)" by auto
    have "valid_utf8 (take w s)"
      using utf8_next_sound[OF n(2)] valid_utf8_str_of_chars[of "[c]"] by (simp add: str_of_chars_def)
    moreover have "valid_utf8 (take (valid_up_to (drop w s)) (drop w s))" using 1[OF n refl] .
    ultimately have "valid_utf8 (take w s @ take (valid_up_to (drop w s)) (drop w s))"
      by (rule valid_utf8_append)
    then show ?thesis by (simp add: valid_up_to.simps[of s] n take_add)
  qed
qed

lemma display_native_text_valid: "valid_utf8 (display_native_text s)"
proof (induction s rule: display_native_text.induct)
  case (1 s)
  have "valid_utf8 replacement_char"
    using valid_utf8_str_of_chars[of "[0xFFFD]"] by (simp add: replacement_char_def str_of_chars_def is_scalar_def)
  with 1 show ?case
    by (subst display_native_text.simps)
      (auto simp: valid_utf8_append valid_up_to_prefix, simp add: valid_utf8_def)
qed

lemma display_native_text_id: "display_native_text s = s \<longleftrightarrow> valid_utf8 s"
proof
  assume "valid_utf8 s"
  then show "display_native_text s = s" by (subst display_native_text.simps) simp
next
  assume "display_native_text s = s"
  then show "valid_utf8 s" using display_native_text_valid[of s] by simp
qed

subsection \<open>Stored rows and their immutable scopes\<close>

record operation_header =
  hdr_identity :: stored_operation_identity
  hdr_kind :: operation_kind
  hdr_state :: operation_state
  hdr_scope :: stored_export_scope
  hdr_destination :: "operation_path option"
  hdr_counts :: counts
  hdr_total_bytes :: i64
  hdr_cancel_requested :: bool
  hdr_outcome :: raw_outcome

record operation_scope =
  scp_identity :: history_key
  scp_kind :: operation_kind
  scp_export :: stored_export_scope
  scp_destination :: "operation_path option"
  scp_items :: i64
  scp_bytes :: i64

definition header_scope :: "operation_header \<Rightarrow> operation_scope" where
  "header_scope h =
     \<lparr>scp_identity = history_key_of (hdr_identity h), scp_kind = hdr_kind h, scp_export = hdr_scope h,
      scp_destination = hdr_destination h, scp_items = total (hdr_counts h), scp_bytes = hdr_total_bytes h\<rparr>"

record operation_item =
  itm_operation :: string
  itm_identity :: stored_item_identity
  itm_title :: "string option"
  itm_source :: string
  itm_output :: "operation_path option"
  itm_archive_path :: "operation_path option"
  itm_archive_hash :: "string option"
  itm_skip_code :: "string option"
  itm_state :: item_state
  itm_progress :: progress
  itm_outcome :: raw_outcome

record item_scope =
  isc_operation :: string
  isc_id :: i64
  isc_resolved :: "i64 option"
  isc_uuid :: "string option"
  isc_title :: "string option"
  isc_source :: string
  isc_output :: "operation_path option"
  isc_archive_path :: "operation_path option"
  isc_archive_hash :: "string option"
  isc_skip_code :: "string option"
  isc_bytes :: i64

definition item_scope_of :: "operation_item \<Rightarrow> item_scope" where
  "item_scope_of i =
     \<lparr>isc_operation = itm_operation i, isc_id = item_id (itm_identity i),
      isc_resolved = resolved_story_id (itm_identity i), isc_uuid = story_uuid_text (itm_identity i),
      isc_title = itm_title i, isc_source = itm_source i, isc_output = itm_output i,
      isc_archive_path = itm_archive_path i, isc_archive_hash = itm_archive_hash i,
      isc_skip_code = itm_skip_code i, isc_bytes = prg_total (itm_progress i)\<rparr>"

record operation_snapshot =
  snap_operation :: operation_header
  snap_items :: "operation_item list"

subsection \<open>Terminal commands\<close>

definition null_if_empty :: "raw_outcome \<Rightarrow> raw_outcome" where
  "null_if_empty out =
     (let nonempty = (\<lambda>t. case t of Some v \<Rightarrow> if v \<noteq> [] then Some v else None | None \<Rightarrow> None) in
      \<lparr>code = nonempty (code out), message = nonempty (message out)\<rparr>)"

record complete_item_command =
  cic_generation :: nat
  cic_operation :: operation_scope
  cic_item :: item_scope
  cic_story_id :: i64
  cic_state :: item_state
  cic_bytes :: i64
  cic_outcome :: raw_outcome

definition stored_story_id :: "complete_item_command \<Rightarrow> i64 option" where
  "stored_story_id c = (if cic_story_id c = 0 then None else Some (cic_story_id c))"

definition stored_outcome :: "complete_item_command \<Rightarrow> raw_outcome" where
  "stored_outcome c = null_if_empty (cic_outcome c)"

record finish_command =
  fic_generation :: nat
  fic_operation :: operation_scope
  fic_state :: operation_state
  fic_outcome :: raw_outcome
  fic_at :: string

definition finish_stored_outcome :: "finish_command \<Rightarrow> raw_outcome" where
  "finish_stored_outcome c = null_if_empty (fic_outcome c)"

record interrupt_command =
  inc_generation :: nat
  inc_operation :: operation_scope
  inc_code :: string
  inc_message :: string
  inc_at :: string

datatype command_witness =
  Complete_witness complete_item_command | Finish_witness finish_command
  | Interrupt_witness interrupt_command

subsection \<open>Replies of the store\<close>

record sibling_counts =
  sib_items :: i64
  sib_terminal :: i64

record terminal_view =
  view_operation :: operation_header
  view_item :: "operation_item option"
  view_siblings :: sibling_counts

datatype non_admission =
  QueueFull | IntakeClosed | InvalidCommand | WrongGeneration | AuthorityUnavailable

datatype unknown_outcome = AcknowledgementLost | Outcome_unavailable | Outcome_missing | Outcome_contradictory

datatype attempt_disposition =
  NotAdmitted non_admission | Committed "terminal_view option" | AlreadyMatching terminal_view
  | ProvenNotCommitted | TerminalConflict terminal_view | Unknown_attempt unknown_outcome

datatype readback_disposition =
  Read_not_admitted non_admission | MatchesApplied terminal_view | ProvenNotApplied terminal_view
  | Read_conflict terminal_view | Unknown_read unknown_outcome

text \<open>What an interruption changes leaves both scopes alone: they stay the identity of the work.\<close>

lemma scope_ignores_live_state:
  "header_scope (h\<lparr>hdr_state := st, hdr_cancel_requested := b, hdr_outcome := out,
     hdr_counts := (hdr_counts h)\<lparr>completed := n\<rparr>\<rparr>) = header_scope h"
  "item_scope_of (i\<lparr>itm_state := ist, itm_outcome := out,
     itm_progress := (itm_progress i)\<lparr>prg_completed := n\<rparr>\<rparr>) = item_scope_of i"
  by (simp_all add: header_scope_def item_scope_of_def)

lemma null_if_empty_idem: "null_if_empty (null_if_empty out) = null_if_empty out"
  by (cases out) (auto simp: null_if_empty_def Let_def split: option.splits)

end
