(* ===== verification/Job_Creation.thy ===== *)
theory Job_Creation
  imports Operation_Ports
begin

section \<open>Creating an operation and showing it\<close>

text \<open>
  \<open>librairii-app/src/ports/creation.rs\<close>: the immutable input of a new operation with its
  validation, and the legacy JSON envelope of a stored operation; \<open>ports/history.rs\<close>: the envelope of
  a history page; \<open>native_jobs/mod.rs\<close>: the intake that admits a validated input. The bytes an input
  retains depend on the allocator's capacities and are an argument \<open>retained\<close>; the uuid parser and the
  JSON readers of the stored id and name lists belong to the crates \<open>uuid\<close> and \<open>serde_json\<close> and are
  arguments too.
\<close>

datatype input_error = Invalid_input | Resource_limit

definition input_error_text :: "input_error \<Rightarrow> string" where
  "input_error_text e =
     (case e of Invalid_input \<Rightarrow> ''operations.invalid_request'' | Resource_limit \<Rightarrow> ''operations.resource_limit'')"

record planned_item =
  plan_state :: item_state
  plan_outcome :: raw_outcome

record new_item =
  new_story_id :: i64
  new_story_uuid :: string
  new_story_title :: string
  new_source_name :: string
  new_output_name :: operation_path
  new_archive_path :: operation_path
  new_archive_hash :: string
  new_skip_code :: string
  new_total_bytes :: i64
  planned :: "planned_item option"

record new_operation =
  new_id :: string
  new_kind :: operation_kind
  new_source :: "export_source option"
  new_destination :: "operation_path option"
  new_items :: "new_item list"

definition stored_output_name :: "new_item \<Rightarrow> operation_path option" where
  "stored_output_name i = (if new_output_name i \<noteq> [] then Some (new_output_name i) else None)"

definition stored_archive_path :: "new_item \<Rightarrow> operation_path option" where
  "stored_archive_path i = (if new_archive_path i \<noteq> [] then Some (new_archive_path i) else None)"

definition stored_archive_hash :: "new_item \<Rightarrow> string option" where
  "stored_archive_hash i = (if new_archive_hash i \<noteq> [] then Some (new_archive_hash i) else None)"

definition valid_relative :: "string \<Rightarrow> bool" where
  "valid_relative path \<longleftrightarrow>
     path \<noteq> [] \<and> path \<noteq> ''.'' \<and> \<not> starts_with ''/'' path \<and> \<not> starts_with ''../'' path
     \<and> \<not> list_ex (\<lambda>p. p = [] \<or> p = ''.'' \<or> (p = ''..'' \<and> path \<noteq> ''..'')) (split_on (CHR ''/'') path)"

definition valid_hash :: "string \<Rightarrow> bool" where
  "valid_hash hash \<longleftrightarrow>
     length hash = 64 \<and> list_all (\<lambda>b. is_ascii_digit b \<or> byte_in 97 102 b) hash"

subsection \<open>Validation\<close>

definition present_text :: "string option \<Rightarrow> bool" where
  "present_text t = (case t of Some s \<Rightarrow> s \<noteq> [] | None \<Rightarrow> False)"

definition known_skip :: "string \<Rightarrow> bool" where
  "known_skip s \<longleftrightarrow> s = ''story_marked_broken'' \<or> s = ''story_unavailable''"

definition plan_rejected :: "new_item \<Rightarrow> planned_item \<Rightarrow> bool" where
  "plan_rejected i p \<longleftrightarrow>
     \<not> (plan_state p = Skipped_item \<or> plan_state p = Conflicted_item)
     \<or> new_total_bytes i \<noteq> 0
     \<or> \<not> present_text (code (plan_outcome p))
     \<or> \<not> present_text (message (plan_outcome p))
     \<or> (new_skip_code i \<noteq> []
        \<and> (\<not> known_skip (new_skip_code i) \<or> code (plan_outcome p) \<noteq> Some (new_skip_code i)))"

definition skip_rejected :: "new_item \<Rightarrow> bool" where
  "skip_rejected i \<longleftrightarrow> \<not> known_skip (new_skip_code i) \<or> new_total_bytes i \<noteq> 0 \<or> new_story_id i < 0"

definition copy_rejected :: "new_item \<Rightarrow> bool" where
  "copy_rejected i \<longleftrightarrow>
     \<not> valid_output_name (display_native_text (new_output_name i))
     \<or> \<not> valid_relative (display_native_text (new_archive_path i))
     \<or> \<not> valid_hash (new_archive_hash i)"

fun validate_items ::
    "(string \<Rightarrow> 'u option) \<Rightarrow> operation_kind \<Rightarrow> i64 \<Rightarrow> i64 set \<Rightarrow> string set \<Rightarrow> new_item list \<Rightarrow> input_error + i64" where
  "validate_items parse_uuid kind acc ids uuids [] = Inr acc"
| "validate_items parse_uuid kind acc ids uuids (i # items) =
     (if (\<not> text_present (new_source_name i) \<and> \<not> (planned i \<noteq> None \<and> new_source_name i \<noteq> []))
         \<or> new_total_bytes i < 0
      then Inl Invalid_input
      else and_then (ok_or Invalid_input (i64_checked_add acc (new_total_bytes i))) (\<lambda>acc.
        if kind \<noteq> Export then
          if planned i \<noteq> None then Inl Invalid_input
          else validate_items parse_uuid kind acc ids uuids items
        else if parse_uuid (new_story_uuid i) = None \<or> \<not> text_present (new_story_title i)
          \<or> new_story_uuid i \<in> uuids
        then Inl Invalid_input
        else let uuids = insert (new_story_uuid i) uuids in
          (case planned i of
             Some p \<Rightarrow>
               if plan_rejected i p then Inl Invalid_input
               else validate_items parse_uuid kind acc ids uuids items
           | None \<Rightarrow>
               if new_skip_code i \<noteq> [] then
                 if skip_rejected i then Inl Invalid_input
                 else validate_items parse_uuid kind acc ids uuids items
               else if new_story_id i \<le> 0 \<or> new_story_id i \<in> ids \<or> copy_rejected i
               then Inl Invalid_input
               else validate_items parse_uuid kind acc (insert (new_story_id i) ids) uuids items)))"

definition destination_ok :: "operation_path option \<Rightarrow> bool" where
  "destination_ok d =
     (case d of None \<Rightarrow> False
      | Some p \<Rightarrow> CHR 0x00 \<notin> set p \<and> (if valid_utf8 p then text_present p else p \<noteq> []))"

definition validate_new ::
    "(new_operation \<Rightarrow> input_error + usize) \<Rightarrow> (string \<Rightarrow> 'u option) \<Rightarrow> new_operation \<Rightarrow> input_error + i64" where
  "validate_new retained parse_uuid n =
     and_then (retained n) (\<lambda>_.
       if CHR 0x00 \<in> set (new_id n) \<or> length (str_chars (new_id n)) \<noteq> 36 \<or> new_items n = []
       then Inl Invalid_input
       else and_then (validate_items parse_uuid (new_kind n) 0 {} {} (new_items n)) (\<lambda>held.
         if new_kind n = Export then
           and_then (ok_or Invalid_input (new_source n)) (\<lambda>source.
           and_then (map_err (\<lambda>_. Invalid_input) (validate_source source)) (\<lambda>_.
             if \<not> destination_ok (new_destination n) then Inl Invalid_input else Inr held))
         else if new_source n \<noteq> None \<or> new_destination n \<noteq> None then Inl Invalid_input
         else Inr 0))"

text \<open>\<open>native_jobs::Start::new\<close>: an input the session may start.\<close>

definition start_new ::
    "(new_operation \<Rightarrow> input_error + usize) \<Rightarrow> (string \<Rightarrow> 'u option) \<Rightarrow> new_operation \<Rightarrow> new_operation + new_operation" where
  "start_new retained parse_uuid n =
     (let count = length (new_items n);
          valid = (case new_kind n of
              Import \<Rightarrow> 1 \<le> count \<and> count \<le> 1000
            | MetadataSync \<Rightarrow> count = 1
            | Export \<Rightarrow> count > 0) in
      if valid \<and> \<not> isl (validate_new retained parse_uuid n) then Inr n else Inl n)"

subsection \<open>What validation accepts\<close>

text \<open>The specification of one item and of the whole input, without the order of the checks.\<close>

datatype item_role = Planned_role | Skip_role | Copy_role

definition role_of :: "new_item \<Rightarrow> item_role" where
  "role_of i =
     (if planned i \<noteq> None then Planned_role else if new_skip_code i \<noteq> [] then Skip_role else Copy_role)"

definition item_admissible :: "(string \<Rightarrow> 'u option) \<Rightarrow> operation_kind \<Rightarrow> new_item \<Rightarrow> bool" where
  "item_admissible parse_uuid kind i \<longleftrightarrow>
     0 \<le> new_total_bytes i
     \<and> (text_present (new_source_name i) \<or> (planned i \<noteq> None \<and> new_source_name i \<noteq> []))
     \<and> (if kind \<noteq> Export then planned i = None
        else parse_uuid (new_story_uuid i) \<noteq> None \<and> text_present (new_story_title i)
          \<and> (case role_of i of
               Planned_role \<Rightarrow> \<not> plan_rejected i (the (planned i))
             | Skip_role \<Rightarrow> \<not> skip_rejected i
             | Copy_role \<Rightarrow> 0 < new_story_id i \<and> \<not> copy_rejected i))"

definition copied_ids :: "new_item list \<Rightarrow> i64 list" where
  "copied_ids items = map new_story_id (filter (\<lambda>i. role_of i = Copy_role) items)"

lemma validate_items_step:
  "validate_items parse_uuid kind acc ids uuids (i # items) = Inr n \<longleftrightarrow>
     item_admissible parse_uuid kind i \<and> i64_ok (acc + new_total_bytes i)
     \<and> (kind = Export \<longrightarrow> new_story_uuid i \<notin> uuids \<and> (role_of i = Copy_role \<longrightarrow> new_story_id i \<notin> ids))
     \<and> validate_items parse_uuid kind (acc + new_total_bytes i)
          (if kind = Export \<and> role_of i = Copy_role then insert (new_story_id i) ids else ids)
          (if kind = Export then insert (new_story_uuid i) uuids else uuids) items = Inr n"
  by (cases "planned i")
    (auto simp: result_iffs i64_checked_add_Some_iff item_admissible_def role_of_def Let_def not_le not_less
      split: if_splits)

lemma admissible_bytes:
  "list_all (item_admissible parse_uuid kind) items \<Longrightarrow> 0 \<le> sum_list (map new_total_bytes items)"
  by (intro sum_list_nonneg) (auto simp: list_all_iff item_admissible_def)

lemma validate_items_Ok_iff:
  "0 \<le> acc \<Longrightarrow> i64_ok acc \<Longrightarrow>
     validate_items parse_uuid kind acc ids uuids items = Inr n \<longleftrightarrow>
       list_all (item_admissible parse_uuid kind) items
       \<and> n = acc + sum_list (map new_total_bytes items) \<and> i64_ok n
       \<and> (kind = Export \<longrightarrow>
            distinct (map new_story_uuid items) \<and> new_story_uuid ` set items \<inter> uuids = {}
            \<and> distinct (copied_ids items) \<and> set (copied_ids items) \<inter> ids = {})"
proof (induction items arbitrary: acc ids uuids)
  case Nil
  then show ?case by (auto simp: copied_ids_def)
next
  case (Cons i items)
  let ?acc = "acc + new_total_bytes i"
  have step: "item_admissible parse_uuid kind i \<Longrightarrow> 0 \<le> ?acc \<and> new_total_bytes i \<ge> 0"
    using Cons.prems(1) by (simp add: item_admissible_def)
  have below: "i64_ok ?acc" if "item_admissible parse_uuid kind i" "i64_ok (?acc + sum_list (map new_total_bytes items))"
      "list_all (item_admissible parse_uuid kind) items"
    using step[OF that(1)] admissible_bytes[OF that(3)] that(2) by (simp add: bounds_simps)
  note IH = Cons.IH[of ?acc "if kind = Export \<and> role_of i = Copy_role then insert (new_story_id i) ids else ids"
      "if kind = Export then insert (new_story_uuid i) uuids else uuids"]
  show ?case
  proof (cases "item_admissible parse_uuid kind i \<and> i64_ok ?acc")
    case True
    with step IH show ?thesis
      unfolding validate_items_step by (auto simp: copied_ids_def add.assoc)
  next
    case False
    with below show ?thesis unfolding validate_items_step by (auto simp: add.assoc)
  qed
qed

definition operation_admissible :: "(string \<Rightarrow> 'u option) \<Rightarrow> new_operation \<Rightarrow> bool" where
  "operation_admissible parse_uuid n \<longleftrightarrow>
     CHR 0x00 \<notin> set (new_id n) \<and> length (str_chars (new_id n)) = 36 \<and> new_items n \<noteq> []
     \<and> list_all (item_admissible parse_uuid (new_kind n)) (new_items n)
     \<and> sum_list (map new_total_bytes (new_items n)) \<le> i64_max
     \<and> (if new_kind n = Export
        then distinct (map new_story_uuid (new_items n)) \<and> distinct (copied_ids (new_items n))
          \<and> (\<exists>source. new_source n = Some source \<and> admissible_source source)
          \<and> destination_ok (new_destination n)
        else new_source n = None \<and> new_destination n = None)"

lemma validate_new_Ok_iff:
  "validate_new retained parse_uuid n = Inr held \<longleftrightarrow>
     (\<exists>bytes. retained n = Inr bytes) \<and> operation_admissible parse_uuid n
     \<and> held = (if new_kind n = Export then sum_list (map new_total_bytes (new_items n)) else 0)"
proof -
  have "i64_ok (0::int)" by (simp add: bounds_simps)
  note items = validate_items_Ok_iff[OF order_refl this]
  have range: "list_all (item_admissible parse_uuid (new_kind n)) (new_items n) \<Longrightarrow>
      i64_ok (sum_list (map new_total_bytes (new_items n)))
      \<longleftrightarrow> sum_list (map new_total_bytes (new_items n)) \<le> i64_max"
    using admissible_bytes[of parse_uuid "new_kind n" "new_items n"] by (simp add: bounds_simps)
  show ?thesis
    unfolding validate_new_def operation_admissible_def
    by (auto simp: result_iffs items validate_source_Ok_iff range)
qed

subsection \<open>The legacy envelope\<close>

text \<open>
  A \<open>serde_json::Map\<close> is a sorted map of the keys. \<open>parse_ids\<close> and \<open>parse_names\<close> read the stored
  lists: the outer \<open>None\<close> is a syntax error, the inner one the document \<open>null\<close>.
\<close>

type_synonym json_map = "(string, json) btree_map"

definition json_map_of :: "(string \<times> json) list \<Rightarrow> json_map" where
  "json_map_of kvs = foldl (\<lambda>m (k, v). bt_insert k v m) [] kvs"

definition insert_text :: "string \<Rightarrow> string option \<Rightarrow> json_map \<Rightarrow> json_map" where
  "insert_text key t m =
     (case t of Some v \<Rightarrow> if v \<noteq> [] then bt_insert key (JString v) m else m | None \<Rightarrow> m)"

definition insert_texts :: "(string \<times> string option) list \<Rightarrow> json_map \<Rightarrow> json_map" where
  "insert_texts kvs m = foldl (\<lambda>m (k, t). insert_text k t m) m kvs"

definition decode_list :: "(string \<Rightarrow> 'a list option option) \<Rightarrow> string option \<Rightarrow> input_error + 'a list" where
  "decode_list parse raw =
     (case raw of
        None \<Rightarrow> Inr []
      | Some s \<Rightarrow>
          if s = [] then Inr []
          else and_then (ok_or Invalid_input (parse s)) (\<lambda>xs. Inr (case xs of None \<Rightarrow> [] | Some xs \<Rightarrow> xs)))"

text \<open>\<open>Path::file_name\<close>: the last component when it is a normal one; empty and \<open>.\<close> components vanish.\<close>

definition file_name :: "operation_path \<Rightarrow> string option" where
  "file_name path =
     (let parts = filter (\<lambda>p. p \<noteq> [] \<and> p \<noteq> ''.'') (split_on (CHR ''/'') path) in
      if parts = [] \<or> last parts = ''..'' then None else Some (last parts))"

definition destination_label :: "operation_path \<Rightarrow> string" where
  "destination_label path =
     from_utf8_lossy (case file_name path of Some name \<Rightarrow> name | None \<Rightarrow> path)"

definition item_presentation :: "operation_item \<Rightarrow> json" where
  "item_presentation i =
     (let m = json_map_of
            [(''id'', JInteger (item_id (itm_identity i))), (''sourceName'', JString (itm_source i)),
             (''status'', JString (item_as_persisted (itm_state i))),
             (''completedBytes'', JInteger (prg_completed (itm_progress i))),
             (''totalBytes'', JInteger (prg_total (itm_progress i)))];
          story = historical_story_id (itm_identity i);
          m = (if story \<noteq> 0 then bt_insert ''storyId'' (JInteger story) m else m) in
      JObject (insert_texts
        [(''storyUuid'', story_uuid_text (itm_identity i)), (''storyTitle'', itm_title i),
         (''outputName'', map_option display_native_text (itm_output i)),
         (''outcomeCode'', code (itm_outcome i)), (''outcomeMessage'', message (itm_outcome i))] m))"

definition legacy_source :: "export_source_type option \<Rightarrow> bool" where
  "legacy_source ty \<longleftrightarrow> ty = Some Collection_source \<or> ty = Some Collections_source
     \<or> ty = Some Shelf_source \<or> ty = Some Shelves_source"

definition header_map :: "operation_header \<Rightarrow> json_map" where
  "header_map h =
     insert_texts
       [(''startedAt'', started_at (hdr_identity h)), (''finishedAt'', finished_at (hdr_identity h)),
        (''errorCode'', code (hdr_outcome h)), (''errorMessage'', message (hdr_outcome h))]
       (json_map_of
         [(''id'', JString (op_id (hdr_identity h))), (''kind'', JString (encode_kind (hdr_kind h))),
          (''status'', JString (encode_state (hdr_state h))),
          (''completedItems'', JInteger (completed (hdr_counts h))),
          (''totalItems'', JInteger (total (hdr_counts h))), (''totalBytes'', JInteger (hdr_total_bytes h)),
          (''cancelRequested'', JBool (hdr_cancel_requested h)),
          (''createdAt'', JString (created_at (hdr_identity h))), (''items'', JArray [])])"

definition group_fields ::
    "string \<Rightarrow> string \<Rightarrow> i64 list \<Rightarrow> string list \<Rightarrow> json_map \<Rightarrow> json_map" where
  "group_fields ids_key names_key ids names m =
     (let m = (if ids \<noteq> [] then bt_insert ids_key (JArray (map JInteger ids)) m else m) in
      if names \<noteq> [] then bt_insert names_key (JArray (map JString names)) m else m)"

definition source_map ::
    "operation_header \<Rightarrow> export_source_type option \<Rightarrow> i64 list \<Rightarrow> string list \<Rightarrow> json_map" where
  "source_map h ty ids names =
     (let m = insert_text ''exportSourceType'' (discriminator (hdr_scope h)) (header_map h);
          m = group_fields ''sourceShelfIds'' ''sourceShelfNames'' ids names m in
      if legacy_source ty then group_fields ''sourceCollectionIds'' ''sourceCollectionNames'' ids names m
      else m)"

definition with_destination :: "operation_path option \<Rightarrow> json_map \<Rightarrow> json_map" where
  "with_destination d m =
     (case d of
        Some p \<Rightarrow> if p \<noteq> [] then insert_text ''destination'' (Some (destination_label p)) m else m
      | None \<Rightarrow> m)"

definition presentation_of ::
    "(string \<Rightarrow> i64 list option option) \<Rightarrow> (string \<Rightarrow> string list option option) \<Rightarrow> operation_snapshot
     \<Rightarrow> input_error + json" where
  "presentation_of parse_ids parse_names s =
     (let h = snap_operation s; items = map item_presentation (snap_items s) in
      and_then (decode_list parse_ids (scope_group_ids (hdr_scope h))) (\<lambda>ids.
      and_then (decode_list parse_names (scope_group_names (hdr_scope h))) (\<lambda>names.
      and_then (map_err (\<lambda>_. Invalid_input) (scope_source_type (hdr_scope h))) (\<lambda>ty.
        Inr (JObject (bt_insert ''items'' (if items = [] then JNull else JArray items)
          (with_destination (hdr_destination h) (source_map h ty ids names))))))))"

text \<open>\<open>HistoryPage::presentation\<close>\<close>

definition page_presentation ::
    "(string \<Rightarrow> i64 list option option) \<Rightarrow> (string \<Rightarrow> string list option option) \<Rightarrow> operation_snapshot list
     \<Rightarrow> string option \<Rightarrow> input_error + json" where
  "page_presentation parse_ids parse_names shown before_id =
     and_then (collect_results (presentation_of parse_ids parse_names) shown) (\<lambda>ops.
       let m = json_map_of [(''operations'', JArray ops)] in
       Inr (JObject (case before_id of None \<Rightarrow> m | Some b \<Rightarrow> bt_insert ''nextBefore'' (JString b) m)))"

subsection \<open>What the validation and the envelope promise\<close>


lemma bt_get_insert_text:
  "bt_get (insert_text k t m) k' = (if k' = k \<and> present_text t then Some (JString (the t)) else bt_get m k')"
  by (auto simp: insert_text_def present_text_def bt_get_insert split: option.splits)

lemma bt_get_group_fields:
  "k' \<noteq> a \<Longrightarrow> k' \<noteq> b \<Longrightarrow> bt_get (group_fields a b ids names m) k' = bt_get m k'"
  by (simp add: group_fields_def bt_get_insert Let_def)

lemma bt_inv_insert_text: "bt_inv m \<Longrightarrow> bt_inv (insert_text k t m)"
  by (simp add: insert_text_def bt_inv_insert split: option.splits)

lemma bt_inv_insert_texts: "bt_inv m \<Longrightarrow> bt_inv (insert_texts kvs m)"
  by (induction kvs arbitrary: m) (auto simp: insert_texts_def bt_inv_insert_text)

lemma bt_inv_json_map_of: "bt_inv (json_map_of kvs)"
proof -
  have "bt_inv m \<Longrightarrow> bt_inv (foldl (\<lambda>m (k, v). bt_insert k v m) m kvs)" for m :: json_map
    by (induction kvs arbitrary: m) (auto simp: bt_inv_insert)
  then show ?thesis by (simp add: json_map_of_def bt_inv_def)
qed

lemma bt_inv_group_fields: "bt_inv m \<Longrightarrow> bt_inv (group_fields a b ids names m)"
  by (simp add: group_fields_def bt_inv_insert Let_def)

lemmas json_map_invs = bt_inv_insert bt_inv_insert_text bt_inv_insert_texts bt_inv_json_map_of
  bt_inv_group_fields

lemma header_map_get:
  "bt_get (header_map h) ''destination'' = None"
  "bt_get (header_map h) ''id'' = Some (JString (op_id (hdr_identity h)))"
  "bt_get (header_map h) ''status'' = Some (JString (encode_state (hdr_state h)))"
  by (simp_all add: header_map_def insert_texts_def json_map_of_def bt_get_insert_text bt_get_insert)

lemma json_index_map: "json_index (JObject m) k = (case bt_get m k of Some x \<Rightarrow> x | None \<Rightarrow> JNull)"
  by (simp add: json_index_def bt_get_map_of)

lemma source_map_get:
  "bt_get (source_map h ty ids names) ''destination'' = None"
  "bt_get (source_map h ty ids names) ''id'' = Some (JString (op_id (hdr_identity h)))"
  "bt_get (source_map h ty ids names) ''status'' = Some (JString (encode_state (hdr_state h)))"
  by (simp_all add: source_map_def Let_def bt_get_group_fields bt_get_insert_text header_map_get)

lemma source_map_inv: "bt_inv (source_map h ty ids names)"
  by (simp add: source_map_def header_map_def Let_def json_map_invs)

lemma with_destination_get:
  "bt_get (with_destination d m) k =
     (case d of
        Some p \<Rightarrow> if k = ''destination'' \<and> p \<noteq> [] \<and> destination_label p \<noteq> []
                 then Some (JString (destination_label p)) else bt_get m k
      | None \<Rightarrow> bt_get m k)"
  by (auto simp: with_destination_def bt_get_insert_text present_text_def split: option.splits)

lemma with_destination_inv: "bt_inv m \<Longrightarrow> bt_inv (with_destination d m)"
  by (simp add: with_destination_def bt_inv_insert_text split: option.splits)

lemma file_name_no_slash: "file_name p = Some name \<Longrightarrow> CHR ''/'' \<notin> set name \<and> name \<noteq> [] \<and> name \<noteq> ''..''"
proof -
  assume f: "file_name p = Some name"
  define parts where "parts = filter (\<lambda>p. p \<noteq> [] \<and> p \<noteq> ''.'') (split_on (CHR ''/'') p)"
  have n: "parts \<noteq> []" "name = last parts" "name \<noteq> ''..''"
    using f by (auto simp: file_name_def parts_def[symmetric] Let_def split: if_splits)
  then have "name \<in> set parts" by simp
  then show ?thesis using n(3) by (auto simp: parts_def dest: split_on_no_sep)
qed

text \<open>The envelope of an operation is an object with sorted keys that carries the stored id and the
  label of its state; the destination appears only by its label: the display of its last component, which
  holds no separator, or of the whole path when the path has no last component.
\<close>

theorem envelope_shows_label:
  assumes "presentation_of parse_ids parse_names s = Inr v"
  shows "(\<exists>m. v = JObject m \<and> bt_inv m)
    \<and> json_index v ''id'' = JString (op_id (hdr_identity (snap_operation s)))
    \<and> json_index v ''status'' = JString (encode_state (hdr_state (snap_operation s)))
    \<and> json_index v ''destination'' =
        (case hdr_destination (snap_operation s) of
           None \<Rightarrow> JNull
         | Some p \<Rightarrow> if p = [] \<or> destination_label p = [] then JNull else JString (destination_label p))
    \<and> (case hdr_destination (snap_operation s) of
         None \<Rightarrow> True
       | Some p \<Rightarrow> (case file_name p of
             Some name \<Rightarrow> destination_label p = from_utf8_lossy name \<and> CHR ''/'' \<notin> set name
           | None \<Rightarrow> destination_label p = from_utf8_lossy p))"
proof -
  let ?h = "snap_operation s"
  from assms obtain ids names ty items where
    v: "v = JObject (bt_insert ''items'' items (with_destination (hdr_destination ?h) (source_map ?h ty ids names)))"
    unfolding presentation_of_def Let_def and_then_Ok_iff by auto
  show ?thesis
    using file_name_no_slash
    by (auto simp: v json_index_map source_map_get with_destination_get json_map_invs source_map_inv
        with_destination_inv bt_get_insert destination_label_def split: option.splits)
qed

lemma empty_decode_list [simp]: "decode_list parse None = Inr []"
  by (simp add: decode_list_def)

definition sample_header :: operation_header where
  "sample_header =
     \<lparr>hdr_identity = \<lparr>op_id = ''o'', created_at = ''t'', started_at = None, finished_at = None\<rparr>,
      hdr_kind = Export, hdr_state = Running,
      hdr_scope = \<lparr>discriminator = None, scope_group_ids = None, scope_group_names = None\<rparr>,
      hdr_destination = Some ''/home/me/out'', hdr_counts = \<lparr>completed = 0, total = 1\<rparr>,
      hdr_total_bytes = 5, hdr_cancel_requested = False, hdr_outcome = \<lparr>code = None, message = None\<rparr>\<rparr>"

lemma sample_presents:
  "\<exists>v. presentation_of (\<lambda>_. None) (\<lambda>_. None) \<lparr>snap_operation = sample_header, snap_items = []\<rparr> = Inr v"
  by (simp add: presentation_of_def sample_header_def scope_source_type_def)

theorem envelope_shows_label_witness:
  "\<exists>v. presentation_of (\<lambda>_. None) (\<lambda>_. None) \<lparr>snap_operation = sample_header, snap_items = []\<rparr> = Inr v
     \<and> json_index v ''id'' = JString ''o''"
  using sample_presents envelope_shows_label[of "\<lambda>_. None" "\<lambda>_. None" "\<lparr>snap_operation = sample_header, snap_items = []\<rparr>"]
  by (force simp: sample_header_def)

text \<open>A destination that ends in \<open>..\<close> has no last component, and its label is the whole path.\<close>

lemma parent_destination_shown: "destination_label ''/home/me/..'' = ''/home/me/..''"
  by code_simp

end
