(* ===== verification/Rounds.thy ===== *)
theory Rounds
  imports Prelude
begin

section \<open>Retry loops\<close>

text \<open>
  The shape the job session gives every exchange with its store: a loop whose round, from a flag "the
  outcome of the last write is unknown" and the state of the store, either returns a result or goes on
  with the flag. The loop has no bound; \<open>None\<close> stands for never returning, and \<open>answered\<close> says that a
  round returns within a number of rounds.
\<close>

datatype 'r progress_of = Return 'r | Go bool

partial_function (option) rounds ::
    "(bool \<Rightarrow> 's \<Rightarrow> 'r progress_of \<times> 's) \<Rightarrow> bool \<Rightarrow> 's \<Rightarrow> ('r \<times> 's) option" where
  "rounds once unknown s =
     (case once unknown s of
        (Return h, s) \<Rightarrow> Some (h, s)
      | (Go u, s) \<Rightarrow> rounds once u s)"

fun answered :: "(bool \<Rightarrow> 's \<Rightarrow> 'r progress_of \<times> 's) \<Rightarrow> nat \<Rightarrow> bool \<Rightarrow> 's \<Rightarrow> bool" where
  "answered once 0 unknown s = False"
| "answered once (Suc n) unknown s =
     (case once unknown s of
        (Return _, _) \<Rightarrow> True
      | (Go u, s) \<Rightarrow> answered once n u s)"

lemma answered_Suc: "answered once n unknown s \<Longrightarrow> answered once (Suc n) unknown s"
proof (induction n arbitrary: unknown s)
  case (Suc n)
  obtain p s' where once: "once unknown s = (p, s')" by (cases "once unknown s")
  show ?case
  proof (cases p)
    case (Go u)
    then have "answered once (Suc n) u s'" using Suc once by simp
    then show ?thesis using once Go by (subst answered.simps) simp
  qed (simp add: once)
qed simp

lemma answered_mono: "answered once m unknown s \<Longrightarrow> m \<le> n \<Longrightarrow> answered once n unknown s"
proof (induction n)
  case (Suc n)
  then show ?case using answered_Suc[of once n unknown s] by (cases "m = Suc n") (simp_all del: answered.simps)
qed simp

lemma answered_rounds: "answered once n unknown s \<Longrightarrow> rounds once unknown s \<noteq> None"
proof (induction n arbitrary: unknown s)
  case (Suc n)
  obtain p s' where "once unknown s = (p, s')" by (cases "once unknown s")
  with Suc show ?case by (subst rounds.simps) (cases p; simp)
qed simp

lemma rounds_answered:
  assumes "rounds once unknown s = Some r"
  shows "\<exists>n. answered once n unknown s"
  using assms
proof (induction rule: rounds.raw_induct[rotated, consumes 1, case_names round])
  case (round rec once unknown s r)
  obtain p s' where once: "once unknown s = (p, s')" by (cases "once unknown s")
  show ?case
  proof (cases p)
    case (Return h)
    then show ?thesis using once by (intro exI[of _ "Suc 0"]) simp
  next
    case (Go u)
    with round(2) once have "rec once u s' = Some r" by simp
    from round(1)[OF this] obtain n where "answered once n u s'" ..
    then show ?thesis using once Go by (intro exI[of _ "Suc n"]) simp
  qed
qed

text \<open>An invariant of the rounds holds where the loop returns.\<close>

lemma rounds_invariant:
  assumes "rounds once unknown s = Some (r, t)" "holds unknown s"
    and "\<And>u s v s'. holds u s \<Longrightarrow> once u s = (Go v, s') \<Longrightarrow> holds v s'"
    and "\<And>u s r s'. holds u s \<Longrightarrow> once u s = (Return r, s') \<Longrightarrow> result r s'"
  shows "result r t"
proof -
  obtain n where "answered once n unknown s" using rounds_answered [OF assms(1)] by blast
  then show ?thesis using assms(1,2)
  proof (induction n arbitrary: unknown s)
    case (Suc n)
    obtain p s' where once: "once unknown s = (p, s')" by (cases "once unknown s")
    show ?case
    proof (cases p)
      case (Return h)
      then show ?thesis using Suc.prems once assms(4) by (subst (asm) rounds.simps) auto
    next
      case (Go u)
      then have "rounds once u s' = Some (r, t)" using Suc.prems(2) once by (subst (asm) rounds.simps) simp
      then show ?thesis using Suc.IH [of u s'] Suc.prems once Go assms(3) by auto
    qed
  qed simp
qed

lemma rounds_return_iff: "rounds once unknown s \<noteq> None \<longleftrightarrow> (\<exists>n. answered once n unknown s)"
  using answered_rounds rounds_answered by (metis not_None_eq)

end
