(* ===== verification/Persistence.thy ===== *)
theory Persistence
  imports Operation_Ports Rounds
begin

section \<open>Persisting a terminal command\<close>

text \<open>
  \<open>librairii-app/src/native_jobs/scheduler.rs\<close>, \<open>persist\<close> and \<open>reconcile_interrupt\<close>: the
  worker's report is written at most three times, a write whose outcome is unknown is followed by
  readbacks on the same writer before the next write, and when the attempts are used up the report
  becomes an interruption that is reconciled until the store confirms it. The store is a trait whose
  implementation is another crate: here it is a state of any type with two answering functions. A call
  and its answer are recorded in a trace. The pauses between the calls are not modelled.
\<close>

record 's store =
  st_attempt :: "command_witness \<Rightarrow> 's \<Rightarrow> attempt_disposition \<times> 's"
  st_readback :: "command_witness \<Rightarrow> 's \<Rightarrow> readback_disposition \<times> 's"
  st_generation :: nat

datatype store_call = Wrote command_witness attempt_disposition | Read command_witness readback_disposition

definition command_scope :: "command_witness \<Rightarrow> operation_scope" where
  "command_scope command =
     (case command of
        Complete_witness c \<Rightarrow> cic_operation c
      | Finish_witness c \<Rightarrow> fic_operation c
      | Interrupt_witness c \<Rightarrow> inc_operation c)"

definition interrupted :: "terminal_view \<Rightarrow> operation_header option" where
  "interrupted view =
     (if hdr_state (view_operation view) = Interrupted then Some (view_operation view) else None)"

definition after_read :: "readback_disposition \<Rightarrow> operation_header option progress_of" where
  "after_read d =
     (case d of
        MatchesApplied _ \<Rightarrow> Return None
      | ProvenNotApplied _ \<Rightarrow> Go False
      | Read_conflict view \<Rightarrow> (case interrupted view of Some h \<Rightarrow> Return (Some h) | None \<Rightarrow> Go True)
      | _ \<Rightarrow> Go True)"

definition after_write :: "attempt_disposition \<Rightarrow> operation_header option progress_of" where
  "after_write d =
     (case d of
        Committed _ \<Rightarrow> Return None
      | AlreadyMatching _ \<Rightarrow> Return None
      | TerminalConflict view \<Rightarrow> (case interrupted view of Some h \<Rightarrow> Return (Some h) | None \<Rightarrow> Go False)
      | Unknown_attempt _ \<Rightarrow> Go True
      | _ \<Rightarrow> Go False)"

text \<open>
  The loop of \<open>persist\<close>: \<open>Go\<close> as the final result stands for \<open>break\<close>. The recursion is
  on the writes and reads left: every iteration that goes on has used up one of them.
\<close>

function persist_loop ::
    "'s store \<Rightarrow> command_witness \<Rightarrow> bool \<Rightarrow> nat \<Rightarrow> nat \<Rightarrow> store_call list \<Rightarrow> 's
     \<Rightarrow> operation_header option progress_of \<times> store_call list \<times> 's" where
  "persist_loop st command unknown writes reads trace s =
     (let (r, trace, s) =
        (if unknown then
           (let (d, s) = st_readback st command s in (after_read d, trace @ [Read command d], s))
         else (Go False, trace, s)) in
      case r of
        Return h \<Rightarrow> (Return h, trace, s)
      | Go True \<Rightarrow>
          if reads + 1 \<ge> 3 then (Go True, trace, s)
          else persist_loop st command True writes (reads + 1) trace s
      | Go False \<Rightarrow>
          (let (d, s) = st_attempt st command s; trace = trace @ [Wrote command d] in
           case after_write d of
             Return h \<Rightarrow> (Return h, trace, s)
           | Go u \<Rightarrow>
               if writes + 1 \<ge> 3 then (Go u, trace, s)
               else persist_loop st command u (writes + 1) reads trace s))"
  by pat_completeness auto
termination
  by (relation "measure (\<lambda>(st, command, unknown, writes, reads, trace, s). (3 - writes) + (3 - reads))")
    auto

declare persist_loop.simps [simp del]

definition escalation :: "'s store \<Rightarrow> string \<Rightarrow> command_witness \<Rightarrow> command_witness" where
  "escalation st moment command =
     Interrupt_witness
       \<lparr>inc_generation = st_generation st, inc_operation = command_scope command,
        inc_code = ''persistence_failed'', inc_message = ''Operation progress could not be saved.'',
        inc_at = moment\<rparr>"

text \<open>\<open>reconcile_interrupt\<close> loops until the store confirms: \<open>None\<close> stands for never returning.\<close>

definition reconcile_read :: "readback_disposition \<Rightarrow> operation_header progress_of" where
  "reconcile_read d =
     (case d of
        MatchesApplied view \<Rightarrow> Return (view_operation view)
      | ProvenNotApplied _ \<Rightarrow> Go False
      | Read_conflict view \<Rightarrow> (case interrupted view of Some h \<Rightarrow> Return h | None \<Rightarrow> Go True)
      | _ \<Rightarrow> Go True)"

definition reconcile_write :: "attempt_disposition \<Rightarrow> operation_header progress_of" where
  "reconcile_write d =
     (case d of
        Committed (Some view) \<Rightarrow> Return (view_operation view)
      | AlreadyMatching view \<Rightarrow> Return (view_operation view)
      | Committed None \<Rightarrow> Go True
      | Unknown_attempt _ \<Rightarrow> Go True
      | TerminalConflict view \<Rightarrow> (case interrupted view of Some h \<Rightarrow> Return h | None \<Rightarrow> Go False)
      | _ \<Rightarrow> Go False)"

definition reconcile_once ::
    "'s store \<Rightarrow> command_witness \<Rightarrow> bool \<Rightarrow> 's \<Rightarrow> operation_header progress_of \<times> 's" where
  "reconcile_once st command unknown s =
     (let (r, s) = (if unknown then (let (d, s) = st_readback st command s in (reconcile_read d, s))
                    else (Go False, s)) in
      case r of
        Go False \<Rightarrow> (let (d, s) = st_attempt st command s in (reconcile_write d, s))
      | _ \<Rightarrow> (r, s))"

definition reconcile ::
    "'s store \<Rightarrow> command_witness \<Rightarrow> bool \<Rightarrow> 's \<Rightarrow> (operation_header \<times> 's) option" where
  "reconcile st command = rounds (reconcile_once st command)"

record 's persisted =
  per_header :: "operation_header option"
  per_trace :: "store_call list"
  escalated :: bool
  per_store :: 's

definition persist :: "'s store \<Rightarrow> string \<Rightarrow> command_witness \<Rightarrow> 's \<Rightarrow> 's persisted option" where
  "persist st moment command s =
     (case persist_loop st command False 0 0 [] s of
        (Return h, trace, s) \<Rightarrow>
          Some \<lparr>per_header = h, per_trace = trace, escalated = False, per_store = s\<rparr>
      | (Go _, trace, s) \<Rightarrow>
          map_option (\<lambda>(h, s). \<lparr>per_header = Some h, per_trace = trace, escalated = True, per_store = s\<rparr>)
            (reconcile st (escalation st moment command) False s))"

subsection \<open>What a trace may hold\<close>

text \<open>
  The rule for a trace, as an automaton with the flag "the outcome of the last write is unknown": no
  write while it holds, no readback while it does not, and only a proof of non-application clears it.
\<close>

fun guarded :: "bool \<Rightarrow> store_call list \<Rightarrow> bool" where
  "guarded unknown [] = True"
| "guarded unknown (Wrote c d # tr) =
     (\<not> unknown \<and> guarded (case d of Unknown_attempt _ \<Rightarrow> True | _ \<Rightarrow> False) tr)"
| "guarded unknown (Read c d # tr) =
     (unknown \<and> guarded (case d of ProvenNotApplied _ \<Rightarrow> False | _ \<Rightarrow> True) tr)"

definition is_write :: "store_call \<Rightarrow> bool" where
  "is_write c = (case c of Wrote _ _ \<Rightarrow> True | Read _ _ \<Rightarrow> False)"

definition call_command :: "store_call \<Rightarrow> command_witness" where
  "call_command c = (case c of Wrote w _ \<Rightarrow> w | Read w _ \<Rightarrow> w)"

text \<open>An answer that shows the command durably saved, and one that shows the operation interrupted.\<close>

definition shows_saved :: "store_call \<Rightarrow> bool" where
  "shows_saved c =
     (case c of
        Wrote _ (Committed _) \<Rightarrow> True
      | Wrote _ (AlreadyMatching _) \<Rightarrow> True
      | Read _ (MatchesApplied _) \<Rightarrow> True
      | _ \<Rightarrow> False)"

definition shows_interrupted :: "operation_header \<Rightarrow> store_call \<Rightarrow> bool" where
  "shows_interrupted h c =
     (hdr_state h = Interrupted \<and>
      (case c of
         Wrote _ (TerminalConflict view) \<Rightarrow> view_operation view = h
       | Read _ (Read_conflict view) \<Rightarrow> view_operation view = h
       | _ \<Rightarrow> False))"

definition explains :: "operation_header option progress_of \<Rightarrow> store_call list \<Rightarrow> bool" where
  "explains r calls =
     (case r of
        Go _ \<Rightarrow> True
      | Return None \<Rightarrow> calls \<noteq> [] \<and> shows_saved (last calls)
      | Return (Some h) \<Rightarrow> calls \<noteq> [] \<and> shows_interrupted h (last calls))"

lemma call_simps [simp]:
  "is_write (Wrote c d)" "\<not> is_write (Read c e)"
  "call_command (Wrote c d) = c" "call_command (Read c e) = c"
  by (simp_all add: is_write_def call_command_def)

lemma interrupted_Some_iff:
  "interrupted view = Some h \<longleftrightarrow> view_operation view = h \<and> hdr_state h = Interrupted"
  by (auto simp: interrupted_def)

lemma after_read_explains:
  "after_read d = Return r \<Longrightarrow> explains (Return r) (pre @ [Read c d])"
  by (cases r)
    (auto simp: after_read_def explains_def shows_saved_def shows_interrupted_def interrupted_Some_iff
      split: readback_disposition.splits option.splits)

lemma after_write_explains:
  "after_write d = Return r \<Longrightarrow> explains (Return r) (pre @ [Wrote c d])"
  by (cases r)
    (auto simp: after_write_def explains_def shows_saved_def shows_interrupted_def interrupted_Some_iff
      split: attempt_disposition.splits option.splits)

lemma after_read_Go:
  "after_read d = Go u \<Longrightarrow> (case d of ProvenNotApplied _ \<Rightarrow> False | _ \<Rightarrow> True) = u"
  by (auto simp: after_read_def split: readback_disposition.splits option.splits)

lemma after_write_Go:
  "after_write d = Go u \<Longrightarrow> (case d of Unknown_attempt _ \<Rightarrow> True | _ \<Rightarrow> False) = u"
  by (auto simp: after_write_def split: attempt_disposition.splits option.splits)

lemma explains_append: "explains r calls \<Longrightarrow> explains r (pre @ calls)"
  by (auto simp: explains_def split: progress_of.splits option.splits)

text \<open>What one run of the loop adds to the trace.\<close>

definition run_ok ::
    "command_witness \<Rightarrow> bool \<Rightarrow> nat \<Rightarrow> nat \<Rightarrow> operation_header option progress_of \<Rightarrow> store_call list \<Rightarrow> bool" where
  "run_ok command unknown writes reads r calls \<longleftrightarrow>
     guarded unknown calls \<and> list_all (\<lambda>c. call_command c = command) calls \<and> explains r calls
     \<and> length (filter is_write calls) \<le> 3 - writes
     \<and> length (filter (\<lambda>c. \<not> is_write c) calls) + (if unknown then 0 else 1) \<le> (3 - reads) + (2 - writes)"

lemma run_ok_read_stop:
  "reads < 3 \<Longrightarrow> writes < 3 \<Longrightarrow> after_read d = Return h \<Longrightarrow> run_ok command True writes reads (Return h) [Read command d]"
  using after_read_explains[of d h "[]"] by (simp add: run_ok_def)

lemma run_ok_read_break:
  "reads < 3 \<Longrightarrow> writes < 3 \<Longrightarrow> run_ok command True writes reads (Go True) [Read command d]"
  by (simp add: run_ok_def explains_def)

lemma run_ok_read_on:
  "after_read d = Go True \<Longrightarrow> reads + 1 < 3 \<Longrightarrow> run_ok command True writes (reads + 1) r calls \<Longrightarrow>
     run_ok command True writes reads r (Read command d # calls)"
  using explains_append[of r calls "[Read command d]"] after_read_Go[of d True] by (auto simp: run_ok_def)

lemma run_ok_write_stop:
  "reads < 3 \<Longrightarrow> writes < 3 \<Longrightarrow> after_write d = Return h \<Longrightarrow>
     run_ok command False writes reads (Return h) [Wrote command d]"
  using after_write_explains[of d h "[]"] by (simp add: run_ok_def) arith

lemma run_ok_write_break:
  "reads < 3 \<Longrightarrow> writes < 3 \<Longrightarrow> run_ok command False writes reads (Go u) [Wrote command d]"
  by (simp add: run_ok_def explains_def) arith

lemma run_ok_write_on:
  "after_write d = Go u \<Longrightarrow> writes + 1 < 3 \<Longrightarrow> run_ok command u (writes + 1) reads r calls \<Longrightarrow>
     run_ok command False writes reads r (Wrote command d # calls)"
  using explains_append[of r calls "[Wrote command d]"] after_write_Go[of d u]
  by (auto simp: run_ok_def split: if_splits)

lemma run_ok_proven:
  "after_read d = Go False \<Longrightarrow> writes < 3 \<Longrightarrow> reads < 3 \<Longrightarrow> run_ok command False writes reads r calls \<Longrightarrow>
     run_ok command True writes reads r (Read command d # calls)"
  using explains_append[of r calls "[Read command d]"] after_read_Go[of d False] by (auto simp: run_ok_def)

lemma persist_loop_write:
  assumes "writes < 3" "reads < 3"
    and rec: "\<And>u writes' trace s. writes' = writes + 1 \<Longrightarrow> writes' < 3 \<Longrightarrow>
      \<exists>calls. fst (snd (persist_loop st command u writes' reads trace s)) = trace @ calls
        \<and> run_ok command u writes' reads (fst (persist_loop st command u writes' reads trace s)) calls"
  shows "\<exists>calls. fst (snd (persist_loop st command False writes reads trace s)) = trace @ calls
    \<and> run_ok command False writes reads (fst (persist_loop st command False writes reads trace s)) calls"
proof -
  obtain d s1 where d: "st_attempt st command s = (d, s1)" by (cases "st_attempt st command s")
  show ?thesis
  proof (cases "after_write d")
    case (Return h)
    then show ?thesis using assms run_ok_write_stop[OF assms(2,1) Return]
      by (subst (1 2) persist_loop.simps) (simp add: d Let_def)
  next
    case (Go u)
    show ?thesis
    proof (cases "writes + 1 \<ge> 3")
      case True
      then show ?thesis using run_ok_write_break[OF assms(2,1)] Go
        by (subst (1 2) persist_loop.simps) (simp add: d Let_def)
    next
      case False
      let ?r = "persist_loop st command u (writes + 1) reads (trace @ [Wrote command d]) s1"
      have eq: "persist_loop st command False writes reads trace s = ?r"
        using False Go by (subst persist_loop.simps) (simp add: d Let_def)
      from rec[of "writes + 1" u "trace @ [Wrote command d]" s1] False obtain calls where
        "fst (snd ?r) = (trace @ [Wrote command d]) @ calls" "run_ok command u (writes + 1) reads (fst ?r) calls"
        by auto
      then show ?thesis unfolding eq using run_ok_write_on[OF Go] False
        by (intro exI[of _ "Wrote command d # calls"]) auto
    qed
  qed
qed

lemma persist_loop_run_ok:
  "writes < 3 \<Longrightarrow> reads < 3 \<Longrightarrow>
     \<exists>calls. fst (snd (persist_loop st command unknown writes reads trace s)) = trace @ calls
       \<and> run_ok command unknown writes reads (fst (persist_loop st command unknown writes reads trace s)) calls"
proof (induction "(3 - writes) + (3 - reads)" arbitrary: unknown writes reads trace s rule: less_induct)
  case less
  have wr: "\<exists>calls. fst (snd (persist_loop st command False writes reads trace s)) = trace @ calls
      \<and> run_ok command False writes reads (fst (persist_loop st command False writes reads trace s)) calls"
    for trace s
    by (rule persist_loop_write) (use less in auto)
  show ?case
  proof (cases unknown)
    case False
    then show ?thesis using wr by simp
  next
    case True
    obtain d s1 where d: "st_readback st command s = (d, s1)" by (cases "st_readback st command s")
    let ?t = "trace @ [Read command d]"
    consider (stop) h where "after_read d = Return h" | (proven) "after_read d = Go False"
      | (cut) "after_read d = Go True" "reads + 1 \<ge> 3" | (on) "after_read d = Go True" "reads + 1 < 3"
      by (metis (full_types) progress_of.exhaust not_le)
    then show ?thesis
    proof cases
      case stop
      then show ?thesis using True run_ok_read_stop[OF less.prems(2,1) stop]
        by (subst (1 2) persist_loop.simps) (simp add: d Let_def)
    next
      case cut
      then show ?thesis using True run_ok_read_break[OF less.prems(2,1)]
        by (subst (1 2) persist_loop.simps) (simp add: d Let_def)
    next
      case on
      let ?r = "persist_loop st command True writes (reads + 1) ?t s1"
      have eq: "persist_loop st command unknown writes reads trace s = ?r"
        using True on by (subst persist_loop.simps) (simp add: d Let_def)
      have "(3 - writes) + (3 - (reads + 1)) < (3 - writes) + (3 - reads)" using less.prems by arith
      from less.hyps[OF this less.prems(1) on(2), of True ?t s1] obtain calls where
        "fst (snd ?r) = ?t @ calls" "run_ok command True writes (reads + 1) (fst ?r) calls" by auto
      then show ?thesis unfolding eq using run_ok_read_on[OF on] True
        by (intro exI[of _ "Read command d # calls"]) auto
    next
      case proven
      let ?r = "persist_loop st command False writes reads ?t s1"
      have eq: "persist_loop st command unknown writes reads trace s = ?r"
        using True proven
        by (subst persist_loop.simps, subst (2) persist_loop.simps) (simp add: d Let_def)
      from wr[of ?t s1] obtain calls where
        "fst (snd ?r) = ?t @ calls" "run_ok command False writes reads (fst ?r) calls" by auto
      then show ?thesis unfolding eq using run_ok_proven[OF proven less.prems] True
        by (intro exI[of _ "Read command d # calls"]) auto
    qed
  qed
qed

lemma persist_loop_start:
  assumes "persist_loop st command False 0 0 [] s = (r, trace, s')"
  shows "run_ok command False 0 0 r trace"
  using persist_loop_run_ok[of 0 0 st command False "[]" s] assms by simp

text \<open>An invariant of the calls is one of the loop, and what every returning answer gives, its result has.\<close>

lemma persist_loop_write_invariant:
  assumes "holds t" "st_attempt st c s = (d, t)" "\<And>h. after_write d = Return h \<Longrightarrow> result h t"
    and rec: "\<And>u trace. after_write d = Go u \<Longrightarrow> writes + 1 < 3 \<Longrightarrow>
      persist_loop st c u (writes + 1) reads trace t = (r, tr, s') \<Longrightarrow>
      holds s' \<and> (\<forall>h. r = Return h \<longrightarrow> result h s')"
    and run: "persist_loop st c False writes reads trace s = (r, tr, s')"
  shows "holds s' \<and> (\<forall>h. r = Return h \<longrightarrow> result h s')"
proof (cases "after_write d")
  case (Return h)
  then have "r = Return h \<and> s' = t" using run by (subst (asm) persist_loop.simps) (simp add: assms(2) Let_def)
  then show ?thesis using assms(1) assms(3)[OF Return] by simp
next
  case (Go u)
  show ?thesis
  proof (cases "writes + 1 \<ge> 3")
    case True
    then have "r = Go u \<and> s' = t" using run Go by (subst (asm) persist_loop.simps) (simp add: assms(2) Let_def)
    then show ?thesis using assms(1) by simp
  next
    case False
    then have "persist_loop st c u (writes + 1) reads (trace @ [Wrote c d]) t = (r, tr, s')"
      using run Go by (subst (asm) persist_loop.simps) (simp add: assms(2) Let_def)
    then show ?thesis using rec[OF Go] False by (metis not_le)
  qed
qed

lemma persist_loop_invariant:
  assumes attempt: "\<And>s d t. holds s \<Longrightarrow> st_attempt st c s = (d, t) \<Longrightarrow>
      holds t \<and> (\<forall>h. after_write d = Return h \<longrightarrow> result h t)"
    and readback: "\<And>s e t. holds s \<Longrightarrow> st_readback st c s = (e, t) \<Longrightarrow>
      holds t \<and> (\<forall>h. after_read e = Return h \<longrightarrow> result h t)"
  shows "writes < 3 \<Longrightarrow> reads < 3 \<Longrightarrow> holds s \<Longrightarrow> persist_loop st c unknown writes reads trace s = (r, tr, s') \<Longrightarrow>
     holds s' \<and> (\<forall>h. r = Return h \<longrightarrow> result h s')"
proof (induction "(3 - writes) + (3 - reads)" arbitrary: unknown writes reads trace s rule: less_induct)
  case less
  have wr: "holds s' \<and> (\<forall>h. r = Return h \<longrightarrow> result h s')"
    if "holds s1" "persist_loop st c False writes reads tr1 s1 = (r, tr, s')" for s1 tr1
  proof -
    obtain d t where d: "st_attempt st c s1 = (d, t)" by (cases "st_attempt st c s1")
    show ?thesis
      by (rule persist_loop_write_invariant[OF _ d _ _ that(2)], use attempt[OF that(1) d] in blast,
          use attempt[OF that(1) d] in blast)
        (rule less.hyps[of "writes + 1" reads], use less.prems attempt[OF that(1) d] in auto)
  qed
  show ?case
  proof (cases unknown)
    case False
    then show ?thesis using wr[OF less.prems(3), of trace] less.prems(4) by simp
  next
    case True
    obtain e t where e: "st_readback st c s = (e, t)" by (cases "st_readback st c s")
    have t: "holds t" using readback[OF less.prems(3) e] by blast
    consider (stop) h where "after_read e = Return h" | (proven) "after_read e = Go False"
      | (cut) "after_read e = Go True" "reads + 1 \<ge> 3" | (on) "after_read e = Go True" "reads + 1 < 3"
      by (metis (full_types) progress_of.exhaust not_le)
    then show ?thesis
    proof cases
      case stop
      then have "r = Return h \<and> s' = t"
        using less.prems(4) True by (subst (asm) persist_loop.simps) (simp add: e Let_def)
      then show ?thesis using readback[OF less.prems(3) e] stop by blast
    next
      case proven
      then have "persist_loop st c False writes reads (trace @ [Read c e]) t = (r, tr, s')"
        using less.prems(4) True
        by (subst (asm) persist_loop.simps, subst persist_loop.simps) (simp add: e Let_def)
      then show ?thesis using wr[OF t] by blast
    next
      case cut
      then have "s' = t \<and> r = Go True"
        using less.prems(4) True by (subst (asm) persist_loop.simps) (simp add: e Let_def)
      then show ?thesis using t by simp
    next
      case on
      then have "persist_loop st c True writes (reads + 1) (trace @ [Read c e]) t = (r, tr, s')"
        using less.prems(4) True by (subst (asm) persist_loop.simps) (simp add: e Let_def)
      moreover have "(3 - writes) + (3 - (reads + 1)) < (3 - writes) + (3 - reads)" using less.prems by arith
      ultimately show ?thesis using less.hyps[OF _ less.prems(1) on(2) t] by blast
    qed
  qed
qed

subsection \<open>Reconciling ends when the store confirms\<close>

lemma reconcile_returns_iff:
  "reconcile st command unknown s \<noteq> None \<longleftrightarrow> (\<exists>n. answered (reconcile_once st command) n unknown s)"
  by (simp only: reconcile_def rounds_return_iff)

subsection \<open>A concrete store\<close>

definition sample_view_header :: operation_header where
  "sample_view_header =
     \<lparr>hdr_identity = \<lparr>op_id = ''o'', created_at = ''t'', started_at = None, finished_at = None\<rparr>,
      hdr_kind = Export, hdr_state = Running,
      hdr_scope = \<lparr>discriminator = None, scope_group_ids = None, scope_group_names = None\<rparr>,
      hdr_destination = None, hdr_counts = \<lparr>completed = 0, total = 1\<rparr>, hdr_total_bytes = 5,
      hdr_cancel_requested = False, hdr_outcome = \<lparr>code = None, message = None\<rparr>\<rparr>"

definition sample_command :: command_witness where
  "sample_command =
     Interrupt_witness \<lparr>inc_generation = 1, inc_operation = header_scope sample_view_header,
       inc_code = ''c'', inc_message = ''m'', inc_at = ''t''\<rparr>"

text \<open>The store forgets its first acknowledgement, proves the write was not applied and then commits.\<close>

definition flaky_store :: "nat store" where
  "flaky_store =
     \<lparr>st_attempt = (\<lambda>_ n. (if n = 0 then Unknown_attempt AcknowledgementLost else Committed None, Suc n)),
      st_readback = (\<lambda>_ n. (if n = 1 then Unknown_read Outcome_missing
         else ProvenNotApplied \<lparr>view_operation = sample_view_header, view_item = None,
           view_siblings = \<lparr>sib_items = 1, sib_terminal = 0\<rparr>\<rparr>, Suc n)),
      st_generation = 1\<rparr>"

subsection \<open>What persisting promises\<close>


lemma flaky_persists:
  "persist flaky_store ''t'' sample_command 0 \<noteq> None"
  by (simp add: persist_def flaky_store_def persist_loop.simps after_read_def after_write_def Let_def)


text \<open>Persisting a report returns exactly when its bounded attempts end with an answer or the
  store settles the interruption after finitely many rounds: the only way not to return is a store that
  never confirms, and then the report is never given up.\<close>

theorem persist_returns_iff:
  "persist st moment command s \<noteq> None \<longleftrightarrow>
     (case persist_loop st command False 0 0 [] s of
        (Return _, _, _) \<Rightarrow> True
      | (Go _, _, s') \<Rightarrow> \<exists>n. answered (reconcile_once st (escalation st moment command)) n False s')"
proof -
  obtain r trace s' where loop: "persist_loop st command False 0 0 [] s = (r, trace, s')"
    by (cases "persist_loop st command False 0 0 [] s")
  show ?thesis
    using reconcile_returns_iff[of st "escalation st moment command" False s']
    by (cases r) (simp_all add: persist_def loop)
qed

end
