(* ===== verification/Session_Calls.thy ===== *)
theory Session_Calls
  imports Job_Creation Rounds
begin

section \<open>Admitting an operation and starting an item\<close>

text \<open>
  \<open>admit\<close> and \<open>start\<close> of \<open>librairii-app/src/native_jobs/scheduler.rs\<close>: a write whose answer is
  unknown is settled by a readback on the same writer before it is written again. The store is a
  parameter: a state of any type with its answering functions (\<open>JobStore\<close> of \<open>ports/jobs.rs\<close>); the
  pauses between the rounds are not modelled.
\<close>

datatype 'a store_result = Known 'a | Retry_result | Unknown_result | Rejected_result

datatype start_observation = Start_pending | Start_running | Start_interrupted

record 's job_store =
  js_create :: "new_operation \<Rightarrow> string \<Rightarrow> 's \<Rightarrow> unit store_result \<times> 's"
  js_creation_readback :: "new_operation \<Rightarrow> string \<Rightarrow> 's \<Rightarrow> bool store_result \<times> 's"
  js_start_item :: "i64 \<Rightarrow> string \<Rightarrow> 's \<Rightarrow> unit store_result \<times> 's"
  js_start_readback :: "i64 \<Rightarrow> 's \<Rightarrow> start_observation store_result \<times> 's"

fun admit_read :: "bool store_result \<Rightarrow> bool progress_of" where
  "admit_read (Known True) = Return True"
| "admit_read (Known False) = Go False"
| "admit_read Rejected_result = Return False"
| "admit_read _ = Go True"

fun admit_write :: "unit store_result \<Rightarrow> bool progress_of" where
  "admit_write (Known _) = Return True"
| "admit_write Rejected_result = Return False"
| "admit_write Unknown_result = Go True"
| "admit_write Retry_result = Go False"

definition admit_once :: "'s job_store \<Rightarrow> new_operation \<Rightarrow> string \<Rightarrow> bool \<Rightarrow> 's \<Rightarrow> bool progress_of \<times> 's" where
  "admit_once st input moment unknown s =
     (let (r, s) = (if unknown then (let (d, s) = js_creation_readback st input moment s in (admit_read d, s))
                    else (Go False, s)) in
      if r = Go False then (let (d, s) = js_create st input moment s in (admit_write d, s))
      else (r, s))"

definition admit :: "'s job_store \<Rightarrow> new_operation \<Rightarrow> string \<Rightarrow> 's \<Rightarrow> (bool \<times> 's) option" where
  "admit st input moment = rounds (admit_once st input moment) False"

fun start_read :: "start_observation store_result \<Rightarrow> bool progress_of" where
  "start_read (Known Start_running) = Return True"
| "start_read (Known Start_pending) = Go False"
| "start_read (Known Start_interrupted) = Return False"
| "start_read _ = Go True"

fun start_write :: "unit store_result \<Rightarrow> bool progress_of" where
  "start_write (Known _) = Return True"
| "start_write Unknown_result = Go True"
| "start_write Rejected_result = Go True"
| "start_write Retry_result = Go False"

definition start_once :: "'s job_store \<Rightarrow> i64 \<Rightarrow> string \<Rightarrow> bool \<Rightarrow> 's \<Rightarrow> bool progress_of \<times> 's" where
  "start_once st item moment unknown s =
     (let (r, s) = (if unknown then (let (d, s) = js_start_readback st item s in (start_read d, s))
                    else (Go False, s)) in
      if r = Go False then (let (d, s) = js_start_item st item moment s in (start_write d, s))
      else (r, s))"

definition start_work :: "'s job_store \<Rightarrow> i64 \<Rightarrow> string \<Rightarrow> 's \<Rightarrow> (bool \<times> 's) option" where
  "start_work st item moment = rounds (start_once st item moment) False"

subsection \<open>A store that keeps its word\<close>

text \<open>
  What \<open>StoreResult\<close> documents, over the number of times the operation was created: known means
  written, retry and rejected mean that nothing was, unknown leaves both open, and a readback tells
  whether it exists.
\<close>

fun create_honest :: "unit store_result \<Rightarrow> nat \<Rightarrow> nat \<Rightarrow> bool" where
  "create_honest (Known _) before after \<longleftrightarrow> after = Suc before"
| "create_honest Unknown_result before after \<longleftrightarrow> after = before \<or> after = Suc before"
| "create_honest _ before after \<longleftrightarrow> after = before"

fun readback_honest :: "bool store_result \<Rightarrow> nat \<Rightarrow> nat \<Rightarrow> bool" where
  "readback_honest (Known b) before after \<longleftrightarrow> after = before \<and> b = (0 < before)"
| "readback_honest Rejected_result before after \<longleftrightarrow> after = before \<and> before = 0"
| "readback_honest _ before after \<longleftrightarrow> after = before"

definition honest_creation :: "'s job_store \<Rightarrow> ('s \<Rightarrow> nat) \<Rightarrow> new_operation \<Rightarrow> string \<Rightarrow> bool" where
  "honest_creation st made input moment \<longleftrightarrow>
     (\<forall>s. create_honest (fst (js_create st input moment s)) (made s) (made (snd (js_create st input moment s)))
        \<and> readback_honest (fst (js_creation_readback st input moment s)) (made s)
            (made (snd (js_creation_readback st input moment s))))"

definition admit_holds :: "('s \<Rightarrow> nat) \<Rightarrow> bool \<Rightarrow> 's \<Rightarrow> bool" where
  "admit_holds made unknown s \<longleftrightarrow> made s \<le> (if unknown then 1 else 0)"

fun admit_result :: "('s \<Rightarrow> nat) \<Rightarrow> bool progress_of \<Rightarrow> 's \<Rightarrow> bool" where
  "admit_result made (Return r) s \<longleftrightarrow> made s = (if r then 1 else 0)"
| "admit_result made (Go u) s \<longleftrightarrow> admit_holds made u s"

lemma admit_once_honest:
  assumes honest: "honest_creation st made input moment" and h: "admit_holds made unknown s"
    and once: "admit_once st input moment unknown s = (p, t)"
  shows "admit_result made p t"
proof -
  have create: "admit_result made (admit_write (fst (js_create st input moment s))) (snd (js_create st input moment s))"
    if "made s = 0" for s
    using honest [unfolded honest_creation_def, rule_format, of s] that
    by (cases "fst (js_create st input moment s)") (auto simp: admit_holds_def)
  obtain d s' where d: "js_creation_readback st input moment s = (d, s')"
    by (cases "js_creation_readback st input moment s")
  have read: "readback_honest d (made s) (made s')"
    using honest [unfolded honest_creation_def, rule_format, of s] d by simp
  show ?thesis
  proof (cases unknown)
    case False
    then show ?thesis using once create [of s] h
      by (simp add: admit_once_def admit_holds_def split: prod.splits)
  next
    case True
    have "made s \<le> 1" using h True by (simp add: admit_holds_def)
    then show ?thesis using once create [of s'] read True d
      by (cases d rule: admit_read.cases) (auto simp: admit_once_def admit_holds_def split: prod.splits)
  qed
qed

text \<open>A store whose state is the number of calls seen and of creations: the first creation is lost on the way,
  the second is written without an acknowledgement.\<close>

definition shy_store :: "(nat \<times> nat) job_store" where
  "shy_store =
     \<lparr>js_create = (\<lambda>_ _ (calls, made). (Unknown_result, (Suc calls, if calls = 0 then made else Suc made))),
      js_creation_readback = (\<lambda>_ _ (calls, made). (Known (0 < made), (calls, made))),
      js_start_item = (\<lambda>_ _ s. (Unknown_result, s)), js_start_readback = (\<lambda>_ s. (Known Start_running, s))\<rparr>"

lemma shy_store_honest: "honest_creation shy_store snd input moment"
  by (auto simp: honest_creation_def shy_store_def)

lemma shy_store_admits: "admit shy_store input moment (0, 0) = Some (True, (2, 1))"
  unfolding admit_def
  by (subst rounds.simps, simp add: admit_once_def shy_store_def)
    (subst rounds.simps, simp add: admit_once_def shy_store_def,
     subst rounds.simps, simp add: admit_once_def shy_store_def)



lemma admit_returns_iff:
  "admit st input moment s \<noteq> None \<longleftrightarrow> (\<exists>n. answered (admit_once st input moment) n False s)"
  by (simp only: admit_def rounds_return_iff)

lemma start_returns_iff:
  "start_work st item moment s \<noteq> None \<longleftrightarrow> (\<exists>n. answered (start_once st item moment) n False s)"
  by (simp only: start_work_def rounds_return_iff)

end
