(* ===== verification/Scheduler.thy ===== *)
theory Scheduler
  imports Job_Creation Persistence Transition_Systems Navigation "HOL-Library.Multiset"
begin

section \<open>The job session: handles, coordinator and workers\<close>

text \<open>
  \<open>librairii-app/src/native_jobs/scheduler.rs\<close> with the configuration, phases and reports of
  \<open>native_jobs/mod.rs\<close>: the state all threads share under one mutex, the calls of a handle, and the
  steps of the coordinator and of the workers, each the part of a thread between two locks. A session
  generation is an \<open>Arc\<close> compared by address, given as a number; a cancellation token is a shared flag,
  kept in the in-flight entry that owns it until the worker releases the item.
\<close>

record session_config =
  conf_workers :: usize

definition session_config_new :: "usize \<Rightarrow> session_config option" where
  "session_config_new n = (if 1 \<le> n \<and> n \<le> 8 then Some \<lparr>conf_workers = n\<rparr> else None)"

definition queue_capacity :: "session_config \<Rightarrow> usize" where
  "queue_capacity c = conf_workers c * 2"

record work_item =
  work_operation :: operation_scope
  work_row :: operation_item

definition work_id :: "work_item \<Rightarrow> i64" where
  "work_id w = item_id (itm_identity (work_row w))"

record report =
  rep_state :: item_state
  rep_story_id :: i64
  rep_bytes :: i64
  rep_outcome :: raw_outcome

definition report_cancelled :: "work_item \<Rightarrow> report" where
  "report_cancelled w =
     (let (c, m, story) = (case scp_kind (work_operation w) of
          Import \<Rightarrow> (''cancelled'', ''Import cancelled.'', 0)
        | Export \<Rightarrow> (''cancelled'', ''Story export cancelled.'', historical_story_id (itm_identity (work_row w)))
        | MetadataSync \<Rightarrow> (''catalog_cancelled'', ''Official metadata refresh was cancelled.'', 0)) in
      \<lparr>rep_state = Cancelled_item, rep_story_id = story, rep_bytes = prg_completed (itm_progress (work_row w)),
       rep_outcome = \<lparr>code = Some c, message = Some m\<rparr>\<rparr>)"

subsection \<open>The shared state and the handle\<close>

datatype refusal = Refused_busy | Refused_closed

record admission =
  adm_id :: string
  adm_accepted :: bool

record inflight_entry =
  fl_item :: i64
  fl_operation :: string
  fl_cancelled :: bool

record session =
  ingress :: "new_operation option"
  admitting :: bool
  unread :: "admission option"
  queue :: "work_item list"
  inflight :: "inflight_entry list"
  running :: usize
  stopping :: bool
  finished :: bool
  failed :: bool
  session_ready :: bool
  cancel_id :: "string option"
  session_generation :: nat
  session_revision :: nat
  metadata_owner :: bool

definition session_new :: "nat \<Rightarrow> session" where
  "session_new generation =
     \<lparr>ingress = None, admitting = False, unread = None, queue = [], inflight = [], running = 0,
      stopping = False, finished = False, failed = False, session_ready = False, cancel_id = None,
      session_generation = generation, session_revision = 1, metadata_owner = False\<rparr>"

definition idle_for_relocation :: "session \<Rightarrow> bool" where
  "idle_for_relocation s \<longleftrightarrow>
     session_ready s \<and> \<not> failed s \<and> \<not> stopping s \<and> ingress s = None \<and> \<not> admitting s
     \<and> queue s = [] \<and> running s = 0 \<and> inflight s = []"

record request_stamp =
  rs_generation :: nat
  rs_revision :: nat
  rs_query :: "query_stamp option"

definition make_stamp :: "query_stamp option \<Rightarrow> session \<Rightarrow> (request_stamp \<times> session) option" where
  "make_stamp q s =
     (case u64_checked_add (session_revision s) 1 of
        None \<Rightarrow> None
      | Some r \<Rightarrow> Some (\<lparr>rs_generation = session_generation s, rs_revision = session_revision s, rs_query = q\<rparr>,
          s\<lparr>session_revision := r\<rparr>))"

definition accepts_stamp :: "session \<Rightarrow> request_stamp \<Rightarrow> navigation option \<Rightarrow> bool" where
  "accepts_stamp s r nav \<longleftrightarrow>
     \<not> finished s \<and> \<not> failed s \<and> rs_generation r = session_generation s
     \<and> (case rs_query r of None \<Rightarrow> True
        | Some q \<Rightarrow> (case nav of None \<Rightarrow> False | Some n \<Rightarrow> nav_accepts n q))"

text \<open>\<open>try_lock\<close> may find the mutex taken: the argument \<open>contended\<close>.\<close>

definition try_start :: "bool \<Rightarrow> new_operation \<Rightarrow> session \<Rightarrow> refusal + session" where
  "try_start contended start s =
     (if contended then Inl Refused_busy
      else if stopping s \<or> finished s then Inl Refused_closed
      else if \<not> session_ready s \<or> admitting s \<or> ingress s \<noteq> None \<or> unread s \<noteq> None then Inl Refused_busy
      else Inr (s\<lparr>ingress := Some start\<rparr>))"

definition take_admission :: "session \<Rightarrow> admission option \<times> session" where
  "take_admission s = (unread s, s\<lparr>unread := None\<rparr>)"

definition cancel_entries :: "(inflight_entry \<Rightarrow> bool) \<Rightarrow> session \<Rightarrow> session" where
  "cancel_entries which s =
     s\<lparr>inflight := map (\<lambda>e. if which e then e\<lparr>fl_cancelled := True\<rparr> else e) (inflight s)\<rparr>"

text \<open>\<open>oversized\<close>: the id retains more bytes than a command may.\<close>

definition cancel_operation :: "bool \<Rightarrow> bool \<Rightarrow> string \<Rightarrow> session \<Rightarrow> refusal + session" where
  "cancel_operation oversized contended op s =
     (if oversized \<or> contended then Inl Refused_busy
      else if stopping s \<or> finished s then Inl Refused_closed
      else if cancel_id s \<noteq> None then Inl Refused_busy
      else Inr ((cancel_entries (\<lambda>e. fl_operation e = op) s)\<lparr>cancel_id := Some op\<rparr>))"

definition shutdown :: "session \<Rightarrow> session" where
  "shutdown s = cancel_entries (\<lambda>_. True) (s\<lparr>stopping := True\<rparr>)"

record runtime_status =
  st_queued :: usize
  st_running :: usize
  st_stopping :: bool
  st_failed :: bool
  st_starting :: bool
  st_drained :: bool

definition status :: "session \<Rightarrow> runtime_status" where
  "status s =
     \<lparr>st_queued = length (queue s), st_running = running s, st_stopping = stopping s, st_failed = failed s,
      st_starting = (\<not> session_ready s \<and> \<not> finished s), st_drained = (finished s \<and> \<not> failed s)\<rparr>"

subsection \<open>Steps of the threads\<close>

text \<open>\<open>guarded\<close>: a panic of any thread fails the session and cancels the work.\<close>

definition panicked :: "session \<Rightarrow> session" where
  "panicked s = cancel_entries (\<lambda>_. True) (s\<lparr>finished := True, failed := True, stopping := True\<rparr>)"

definition failed_session :: "session \<Rightarrow> session" where
  "failed_session s = s\<lparr>finished := True, failed := True\<rparr>"

text \<open>The top of the coordinator's loop: it takes the input and the cancellation and reads the stop flag.\<close>

definition take_ingress :: "session \<Rightarrow> new_operation option \<times> string option \<times> bool \<times> session" where
  "take_ingress s =
     (ingress s, cancel_id s, stopping s,
      s\<lparr>ingress := None, admitting := (if ingress s \<noteq> None then True else admitting s), cancel_id := None\<rparr>)"

definition admitted :: "new_operation \<Rightarrow> bool \<Rightarrow> session \<Rightarrow> session" where
  "admitted input accepted s =
     s\<lparr>admitting := False, unread := Some \<lparr>adm_id = new_id input, adm_accepted = accepted\<rparr>\<rparr>"

definition push_work :: "work_item \<Rightarrow> bool \<Rightarrow> session \<Rightarrow> session" where
  "push_work w stored s =
     (let op = key_id (scp_identity (work_operation w)) in
      s\<lparr>inflight := inflight s @ [\<lparr>fl_item = work_id w, fl_operation = op,
           fl_cancelled = (stored \<or> stopping s \<or> cancel_id s = Some op)\<rparr>],
        queue := queue s @ [w]\<rparr>)"

text \<open>A worker takes the first item; without a token of its own it fails the session.\<close>

definition find_token :: "i64 \<Rightarrow> session \<Rightarrow> inflight_entry option" where
  "find_token i s = find (\<lambda>e. fl_item e = i) (inflight s)"

definition take_work :: "session \<Rightarrow> (work_item option) \<times> session" where
  "take_work s =
     (case queue s of
        [] \<Rightarrow> (None, s)
      | w # ws \<Rightarrow>
          let s = s\<lparr>queue := ws\<rparr> in
          (case find_token (work_id w) s of
             None \<Rightarrow> (None, failed_session s)
           | Some e \<Rightarrow>
               let s = (if stopping s then cancel_entries (\<lambda>e. fl_item e = work_id w) s else s) in
               (Some w, s\<lparr>running := running s + 1\<rparr>)))"

definition release :: "work_item \<Rightarrow> session \<Rightarrow> session" where
  "release w s =
     s\<lparr>metadata_owner := (if scp_kind (work_operation w) = MetadataSync then False else metadata_owner s),
       inflight := filter (\<lambda>e. fl_item e \<noteq> work_id w) (inflight s), running := running s - 1\<rparr>"

datatype worker = Idle | Taken work_item | Executing work_item bool | Settling work_item
  | Lost work_item | Exited

fun holding :: "worker \<Rightarrow> work_item multiset" where
  "holding (Taken w) = {#w#}"
| "holding (Executing w _) = {#w#}"
| "holding (Settling w) = {#w#}"
| "holding (Lost w) = {#w#}"
| "holding _ = {#}"

fun returned :: "worker \<Rightarrow> bool" where
  "returned Exited \<longleftrightarrow> True"
| "returned (Lost _) \<longleftrightarrow> True"
| "returned _ \<longleftrightarrow> False"

fun unwound :: "worker \<Rightarrow> worker" where
  "unwound (Taken w) = Lost w"
| "unwound (Executing w _) = Lost w"
| "unwound (Settling w) = Lost w"
| "unwound (Lost w) = Lost w"
| "unwound _ = Exited"

datatype coordinator = Booting | Top | Checked | Admitting new_operation bool | Body bool | Draining | Ended

record crew =
  ses :: session
  crd :: coordinator
  wrk :: "worker list"

datatype sched_event = Offered | Asked_cancel | Asked_stop | Took_admission | Stamped
  | Coordinated | Pushed work_item | Panicked
  | Worked nat

definition crew_new :: "session_config \<Rightarrow> nat \<Rightarrow> crew" where
  "crew_new c generation =
     \<lparr>ses = session_new generation, crd = Booting, wrk = replicate (conf_workers c) Idle\<rparr>"

text \<open>
  \<open>crew_step c\<close>: one part of one thread. \<open>Taken\<close>, \<open>Executing\<close> and \<open>Settling\<close> are the parts of a
  worker between its calls of the store and the executor; \<open>Executing w True\<close> reports a cancellation
  without running the executor. \<open>Lost\<close> is a worker that returned or panicked with an item unreleased,
  which only happens in a session that has failed. The store's answers are free, except that \<open>next_pending\<close> honours its
  argument: the item it returns is none of the excluded ones.
\<close>

inductive crew_step :: "session_config \<Rightarrow> crew \<Rightarrow> sched_event \<Rightarrow> crew \<Rightarrow> bool" for c where
  h_start: "try_start contended start (ses k) = Inr s \<Longrightarrow> crew_step c k Offered (k\<lparr>ses := s\<rparr>)"
| h_cancel: "cancel_operation oversized contended op (ses k) = Inr s \<Longrightarrow>
     crew_step c k Asked_cancel (k\<lparr>ses := s\<rparr>)"
| h_shutdown: "crew_step c k Asked_stop (k\<lparr>ses := shutdown (ses k)\<rparr>)"
| h_admission: "take_admission (ses k) = (a, s) \<Longrightarrow> crew_step c k Took_admission (k\<lparr>ses := s\<rparr>)"
| h_stamp: "make_stamp q (ses k) = Some (r, s) \<Longrightarrow> crew_step c k Stamped (k\<lparr>ses := s\<rparr>)"
| c_ready: "crd k = Booting \<Longrightarrow>
     crew_step c k Coordinated (k\<lparr>ses := (ses k)\<lparr>session_ready := True\<rparr>, crd := Top\<rparr>)"
| c_rejected: "crd k = Booting \<Longrightarrow>
     crew_step c k Coordinated (k\<lparr>ses := failed_session (ses k), crd := Ended\<rparr>)"
| c_done: "crd k = Top \<Longrightarrow> finished (ses k) \<Longrightarrow> crew_step c k Coordinated (k\<lparr>crd := Ended\<rparr>)"
| c_check: "crd k = Top \<Longrightarrow> \<not> finished (ses k) \<Longrightarrow> crew_step c k Coordinated (k\<lparr>crd := Checked\<rparr>)"
| c_take: "crd k = Checked \<Longrightarrow> take_ingress (ses k) = (input, cancel, stop, s) \<Longrightarrow>
     crew_step c k Coordinated
       (k\<lparr>ses := s, crd := (case input of Some i \<Rightarrow> Admitting i stop | None \<Rightarrow> Body stop)\<rparr>)"
| c_admitted: "crd k = Admitting input stop \<Longrightarrow>
     (accepted \<longrightarrow> \<not> (new_kind input = MetadataSync \<and> metadata_owner (ses k))) \<Longrightarrow>
     crew_step c k Coordinated (k\<lparr>ses := admitted input accepted (ses k), crd := Body stop\<rparr>)"
| c_tokens: "crd k = Body stop \<Longrightarrow>
     crew_step c k Coordinated (k\<lparr>ses := cancel_entries which (ses k)\<rparr>)"
| c_owner: "crd k = Body stop \<Longrightarrow>
     crew_step c k Coordinated (k\<lparr>ses := (ses k)\<lparr>metadata_owner := True\<rparr>, crd := Top\<rparr>)"
| c_push: "crd k = Body stop \<Longrightarrow> \<not> finished (ses k) \<Longrightarrow> length (queue (ses k)) < queue_capacity c \<Longrightarrow>
     work_id w \<notin> fl_item ` set (inflight (ses k)) \<Longrightarrow>
     crew_step c k (Pushed w)
       (k\<lparr>ses := (push_work w (stored \<or> stop) (ses k))\<lparr>metadata_owner :=
            (metadata_owner (ses k) \<or> scp_kind (work_operation w) = MetadataSync)\<rparr>, crd := Top\<rparr>)"
| c_push_done: "crd k = Body stop \<Longrightarrow> finished (ses k) \<Longrightarrow>
     crew_step c k Coordinated
       (k\<lparr>ses := (ses k)\<lparr>metadata_owner := (metadata_owner (ses k) \<or> sync)\<rparr>, crd := Ended\<rparr>)"
| c_again: "crd k = Body stop \<Longrightarrow> crew_step c k Coordinated (k\<lparr>crd := Top\<rparr>)"
| c_observe: "crd k = Body True \<Longrightarrow> inflight (ses k) = [] \<Longrightarrow>
     crew_step c k Coordinated (k\<lparr>crd := Draining\<rparr>)"
| c_not_drained: "crd k = Draining \<Longrightarrow> crew_step c k Coordinated (k\<lparr>crd := Top\<rparr>)"
| c_unclean: "crd k = Draining \<Longrightarrow>
     crew_step c k Coordinated (k\<lparr>ses := (ses k)\<lparr>failed := True\<rparr>\<rparr>)"
| c_drained: "crd k = Draining \<Longrightarrow>
     crew_step c k Coordinated (k\<lparr>ses := (ses k)\<lparr>finished := True\<rparr>, crd := Ended\<rparr>)"
| c_panic: "crd k \<noteq> Ended \<Longrightarrow> crew_step c k Panicked (k\<lparr>ses := panicked (ses k), crd := Ended\<rparr>)"
| w_exit: "i < length (wrk k) \<Longrightarrow> wrk k ! i = Idle \<Longrightarrow> finished (ses k) \<Longrightarrow>
     crew_step c k (Worked i) (k\<lparr>wrk := (wrk k)[i := Exited]\<rparr>)"
| w_take: "i < length (wrk k) \<Longrightarrow> wrk k ! i = Idle \<Longrightarrow> \<not> finished (ses k) \<Longrightarrow>
     take_work (ses k) = (Some w, s) \<Longrightarrow>
     crew_step c k (Worked i) (k\<lparr>ses := s, wrk := (wrk k)[i := Taken w]\<rparr>)"
| w_fence: "i < length (wrk k) \<Longrightarrow> wrk k ! i = Idle \<Longrightarrow> \<not> finished (ses k) \<Longrightarrow> queue (ses k) \<noteq> [] \<Longrightarrow>
     take_work (ses k) = (None, s) \<Longrightarrow>
     crew_step c k (Worked i) (k\<lparr>ses := s, wrk := (wrk k)[i := Exited]\<rparr>)"
| w_not_started: "i < length (wrk k) \<Longrightarrow> wrk k ! i = Taken w \<Longrightarrow>
     crew_step c k (Worked i) (k\<lparr>ses := release w (ses k), wrk := (wrk k)[i := Idle]\<rparr>)"
| w_started: "i < length (wrk k) \<Longrightarrow> wrk k ! i = Taken w \<Longrightarrow> find_token (work_id w) (ses k) = Some e \<Longrightarrow>
     crew_step c k (Worked i) (k\<lparr>wrk := (wrk k)[i := Executing w (fl_cancelled e)]\<rparr>)"
| w_lost: "i < length (wrk k) \<Longrightarrow> wrk k ! i = Executing w False \<Longrightarrow>
     crew_step c k (Worked i) (k\<lparr>ses := failed_session (ses k), wrk := (wrk k)[i := Lost w]\<rparr>)"
| w_reported: "i < length (wrk k) \<Longrightarrow> wrk k ! i = Executing w dry \<Longrightarrow>
     crew_step c k (Worked i)
       (k\<lparr>ses := (if escalates then
                    cancel_entries (\<lambda>e. fl_operation e = key_id (scp_identity (work_operation w))) (ses k)
                  else ses k),
          wrk := (wrk k)[i := Settling w]\<rparr>)"
| w_settled: "i < length (wrk k) \<Longrightarrow> wrk k ! i = Settling w \<Longrightarrow>
     crew_step c k (Worked i) (k\<lparr>ses := release w (ses k), wrk := (wrk k)[i := Idle]\<rparr>)"
| w_panic: "i < length (wrk k) \<Longrightarrow> \<not> returned (wrk k ! i) \<Longrightarrow>
     crew_step c k Panicked (k\<lparr>ses := panicked (ses k), wrk := (wrk k)[i := unwound (wrk k ! i)]\<rparr>)"

end
