(* ===== verification/Session_Safety.thy ===== *)
theory Session_Safety
  imports Scheduler
begin

section \<open>What the job session keeps\<close>

text \<open>
  The invariant of \<open>crew_step\<close>, in three independent parts: \<open>conserved\<close> (every item in flight is in
  the queue or with exactly one worker), \<open>coordinated\<close> (what the coordinator's position says of the
  shared state) and \<open>revoked\<close> (a stopping session holds only cancelled tokens). The properties of the
  session are facts of the interpretation of \<open>safe_system\<close> on it.
\<close>

definition held :: "worker list \<Rightarrow> work_item multiset" where
  "held ws = sum_list (map holding ws)"

lemma held_update:
  assumes "i < length ws"
  shows "held (ws[i := x]) = held ws - holding (ws ! i) + holding x"
proof -
  have split: "ws = take i ws @ ws ! i # drop (Suc i) ws" using assms by (rule id_take_nth_drop)
  have "held (ws[i := x]) = held (take i ws) + holding x + held (drop (Suc i) ws)"
    using assms by (simp add: held_def upd_conv_take_nth_drop)
  moreover have "held ws = held (take i ws) + holding (ws ! i) + held (drop (Suc i) ws)"
    using arg_cong [OF split, of held] by (simp add: held_def)
  ultimately show ?thesis by simp
qed

lemma holding_subset: "i < length ws \<Longrightarrow> holding (ws ! i) \<subseteq># held ws"
  by (induction ws arbitrary: i) (auto simp: held_def nth_Cons split: nat.split intro: subset_mset.add_increasing)

lemma held_same: "i < length ws \<Longrightarrow> holding x = holding (ws ! i) \<Longrightarrow> held (ws[i := x]) = held ws"
  using holding_subset [of i ws] by (simp add: held_update)

lemma held_take: "i < length ws \<Longrightarrow> ws ! i = Idle \<Longrightarrow> holding x = {#w#} \<Longrightarrow> held (ws[i := x]) = add_mset w (held ws)"
  by (simp add: held_update)

lemma held_release: "i < length ws \<Longrightarrow> holding (ws ! i) = {#w#} \<Longrightarrow> held (ws[i := Idle]) = held ws - {#w#}"
  by (simp add: held_update)

lemma held_replicate: "held (replicate n Idle) = {#}"
  by (induction n) (simp_all add: held_def)

lemma held_size_le: "size (held ws) \<le> length ws"
proof (induction ws)
  case (Cons a ws)
  then show ?case by (cases a) (simp_all add: held_def)
qed (simp add: held_def)

subsection \<open>Every item is in one place\<close>

definition conserved :: "session_config \<Rightarrow> session \<Rightarrow> worker list \<Rightarrow> bool" where
  "conserved c s ws \<longleftrightarrow>
     length ws = conf_workers c \<and> running s = size (held ws)
     \<and> mset (map fl_item (inflight s)) = image_mset work_id (mset (queue s) + held ws)
     \<and> distinct (map fl_item (inflight s)) \<and> length (queue s) \<le> queue_capacity c"

lemma fl_item_cancel_entries [simp]: "map fl_item (inflight (cancel_entries which s)) = map fl_item (inflight s)"
  by (simp add: cancel_entries_def o_def if_distrib)

lemma cancel_entries_rest [simp]:
  "queue (cancel_entries which s) = queue s" "running (cancel_entries which s) = running s"
  "stopping (cancel_entries which s) = stopping s" "finished (cancel_entries which s) = finished s"
  "failed (cancel_entries which s) = failed s" "ingress (cancel_entries which s) = ingress s"
  "admitting (cancel_entries which s) = admitting s" "session_ready (cancel_entries which s) = session_ready s"
  by (simp_all add: cancel_entries_def)

lemma cancel_entries_empty [simp]: "inflight (cancel_entries which s) = [] \<longleftrightarrow> inflight s = []"
  by (simp add: cancel_entries_def)

lemma conserved_same [simp]:
  "conserved c (s\<lparr>ingress := x0\<rparr>) ws = conserved c s ws"
  "conserved c (s\<lparr>admitting := x1\<rparr>) ws = conserved c s ws"
  "conserved c (s\<lparr>unread := x2\<rparr>) ws = conserved c s ws"
  "conserved c (s\<lparr>stopping := x3\<rparr>) ws = conserved c s ws"
  "conserved c (s\<lparr>finished := x4\<rparr>) ws = conserved c s ws"
  "conserved c (s\<lparr>failed := x5\<rparr>) ws = conserved c s ws"
  "conserved c (s\<lparr>session_ready := x6\<rparr>) ws = conserved c s ws"
  "conserved c (s\<lparr>cancel_id := x7\<rparr>) ws = conserved c s ws"
  "conserved c (s\<lparr>session_revision := x8\<rparr>) ws = conserved c s ws"
  "conserved c (s\<lparr>metadata_owner := x9\<rparr>) ws = conserved c s ws"
  "conserved c (cancel_entries which s) ws = conserved c s ws"
  by (simp_all add: conserved_def)

lemma conserved_workers:
  "i < length ws \<Longrightarrow> holding x = holding (ws ! i) \<Longrightarrow> conserved c s (ws[i := x]) = conserved c s ws"
  by (simp add: conserved_def held_same)

lemma find_token_None: "find_token i s = None \<longleftrightarrow> i \<notin> set (map fl_item (inflight s))"
  by (auto simp: find_token_def find_None_iff)

lemma find_token_Some: "find_token i s = Some e \<Longrightarrow> e \<in> set (inflight s) \<and> fl_item e = i"
  by (auto simp: find_token_def find_Some_iff)

lemma conserved_ids: "conserved c s ws \<Longrightarrow> set (map fl_item (inflight s)) = work_id ` (set (queue s) \<union> set_mset (held ws))"
  unfolding conserved_def by (metis set_image_mset set_mset_mset set_mset_union)

lemma conserved_push:
  assumes "conserved c s ws" "length (queue s) < queue_capacity c" "work_id w \<notin> fl_item ` set (inflight s)"
  shows "conserved c (push_work w stored s) ws"
  using assms by (simp add: conserved_def push_work_def Let_def)

lemma conserved_take:
  assumes "conserved c s ws" "take_work s = (Some w, t)" "i < length ws" "ws ! i = Idle"
  shows "conserved c t (ws[i := Taken w])"
proof -
  obtain rest where q: "queue s = w # rest" using assms(2)
    by (auto simp: take_work_def Let_def split: list.splits option.splits if_splits)
  have t: "map fl_item (inflight t) = map fl_item (inflight s)" "queue t = rest" "running t = running s + 1"
    using assms(2) q by (auto simp: take_work_def Let_def split: option.splits if_splits)
  show ?thesis using assms(1,3,4) q t by (auto simp: conserved_def held_take)
qed

lemma conserved_no_fence:
  assumes "conserved c s ws" "queue s \<noteq> []"
  shows "\<exists>t. take_work s = (Some (hd (queue s)), t)"
proof -
  obtain w rest where q: "queue s = w # rest" using assms(2) by (cases "queue s") auto
  have "work_id w \<in> set (map fl_item (inflight s))" using conserved_ids [OF assms(1)] q by simp
  then have "find_token (work_id w) (s\<lparr>queue := rest\<rparr>) \<noteq> None" by (simp add: find_token_None)
  then show ?thesis using q by (auto simp: take_work_def Let_def)
qed

lemma mset_filter_remove:
  "distinct (map f es) \<Longrightarrow> x \<in> f ` set es \<Longrightarrow> mset (map f (filter (\<lambda>e. f e \<noteq> x) es)) = mset (map f es) - {#x#}"
proof (induction es)
  case (Cons e es)
  show ?case
  proof (cases "f e = x")
    case True
    then have "filter (\<lambda>e. f e \<noteq> x) es = es" using Cons.prems(1) by (metis (mono_tags, lifting) distinct.simps(2) filter_id_conv image_eqI list.set_map list.simps(9))
    then show ?thesis using True by simp
  next
    case False
    then have "x \<in># mset (map f es)" using Cons.prems by auto
    then show ?thesis using Cons False by simp
  qed
qed simp

lemma conserved_release:
  assumes "conserved c s ws" "i < length ws" "holding (ws ! i) = {#w#}"
  shows "conserved c (release w s) (ws[i := Idle])"
proof -
  obtain rest where w: "held ws = add_mset w rest"
    using holding_subset [OF assms(2)] assms(3) by (metis multi_member_split single_subset_iff)
  then have "work_id w \<in> fl_item ` set (inflight s)" using conserved_ids [OF assms(1)] by auto
  then have "mset (map fl_item (inflight (release w s))) = mset (map fl_item (inflight s)) - {#work_id w#}"
    using assms(1) mset_filter_remove [of fl_item "inflight s" "work_id w"] by (simp add: release_def conserved_def)
  also have "\<dots> = image_mset work_id (mset (queue s) + rest)"
    using assms(1) w by (simp add: conserved_def)
  finally have "mset (map fl_item (inflight (release w s))) = image_mset work_id (mset (queue s) + rest)" .
  moreover have "held (ws[i := Idle]) = rest" using held_release [OF assms(2,3)] w by simp
  moreover have "distinct (map fl_item (inflight (release w s)))"
    using assms(1) by (simp add: conserved_def release_def distinct_map_filter)
  moreover have "queue (release w s) = queue s" "running (release w s) = running s - 1"
    by (simp_all add: release_def)
  ultimately show ?thesis using assms(1) w by (simp add: conserved_def)
qed

lemma conserved_positive:
  "conserved c s ws \<Longrightarrow> i < length ws \<Longrightarrow> holding (ws ! i) = {#w#} \<Longrightarrow> 0 < running s"
  using holding_subset [of i ws] by (auto simp: conserved_def single_subset_iff dest: gr_implies_not_zero multi_member_split)

subsection \<open>What each operation of the session does\<close>

lemma try_startD: "try_start contended st s = Inr t \<Longrightarrow>
    t = s\<lparr>ingress := Some st\<rparr> \<and> \<not> contended \<and> \<not> stopping s \<and> \<not> finished s \<and> session_ready s \<and> \<not> admitting s
    \<and> ingress s = None \<and> unread s = None"
  by (auto simp: try_start_def split: if_splits)

lemma cancel_operationD: "cancel_operation oversized contended op s = Inr t \<Longrightarrow>
    t = (cancel_entries (\<lambda>e. fl_operation e = op) s)\<lparr>cancel_id := Some op\<rparr> \<and> \<not> stopping s \<and> \<not> finished s"
  by (auto simp: cancel_operation_def split: if_splits)

lemma take_admissionD: "take_admission s = (a, t) \<Longrightarrow> t = s\<lparr>unread := None\<rparr>"
  by (simp add: take_admission_def)

lemma make_stampD: "make_stamp q s = Some (r, t) \<Longrightarrow> \<exists>v. t = s\<lparr>session_revision := v\<rparr>"
  by (auto simp: make_stamp_def split: option.splits)

lemma take_ingressD: "take_ingress s = (input, cancel, stop, t) \<Longrightarrow>
    input = ingress s \<and> stop = stopping s
    \<and> t = s\<lparr>ingress := None, admitting := (if ingress s \<noteq> None then True else admitting s), cancel_id := None\<rparr>"
  by (auto simp: take_ingress_def)

lemma take_workD: "take_work s = (Some w, t) \<Longrightarrow>
    \<exists>rest which. queue s = w # rest \<and> (stopping s \<or> which = (\<lambda>_. False))
      \<and> t = (cancel_entries which (s\<lparr>queue := rest\<rparr>))\<lparr>running := running s + 1\<rparr>"
  by (auto simp: take_work_def Let_def cancel_entries_def split: list.splits option.splits if_splits)

lemmas opD = try_startD cancel_operationD take_admissionD make_stampD take_ingressD take_workD

lemmas op_defs = shutdown_def admitted_def panicked_def failed_session_def session_new_def

lemma conserved_step:
  "crew_step c k a m \<Longrightarrow> conserved c (ses k) (wrk k) \<Longrightarrow> conserved c (ses m) (wrk m)"
proof (induction rule: crew_step.induct)
  case (c_push k stop w stored)
  then show ?case
    using conserved_push [of c "ses k" "wrk k" w "stored \<or> stop"] by (simp add: conserved_def)
next
  case (w_take i k s w)
  then show ?case using conserved_take by simp
next
  case (w_fence i k s)
  then show ?case using conserved_no_fence by fastforce
next
  case (w_not_started i k w)
  then show ?case using conserved_release by simp
next
  case (w_settled i k w)
  then show ?case using conserved_release by simp
next
  case (w_panic i k)
  have "holding (unwound (wrk k ! i)) = holding (wrk k ! i)" by (cases "wrk k ! i") simp_all
  then show ?case using w_panic by (simp add: conserved_workers panicked_def)
qed (auto simp: conserved_workers op_defs dest!: opD)

subsection \<open>The coordinator, the tokens and the threads that returned\<close>

fun stop_seen :: "coordinator \<Rightarrow> bool" where
  "stop_seen (Admitting _ stop) \<longleftrightarrow> stop"
| "stop_seen (Body stop) \<longleftrightarrow> stop"
| "stop_seen Draining \<longleftrightarrow> True"
| "stop_seen _ \<longleftrightarrow> False"

fun in_admission :: "coordinator \<Rightarrow> bool" where
  "in_admission (Admitting _ _) \<longleftrightarrow> True"
| "in_admission _ \<longleftrightarrow> False"

definition coordinated :: "session \<Rightarrow> coordinator \<Rightarrow> bool" where
  "coordinated s d \<longleftrightarrow>
     (in_admission d \<longrightarrow> admitting s) \<and> (admitting s \<and> \<not> failed s \<longrightarrow> in_admission d)
     \<and> (stop_seen d \<longrightarrow> stopping s \<and> ingress s = None)
     \<and> (d = Draining \<longrightarrow> inflight s = [])
     \<and> (d = Ended \<longrightarrow> finished s)
     \<and> (finished s \<and> \<not> failed s \<longrightarrow> d = Ended \<and> stopping s \<and> ingress s = None \<and> inflight s = [])"

definition revoked :: "session \<Rightarrow> bool" where
  "revoked s \<longleftrightarrow> (stopping s \<longrightarrow> list_all fl_cancelled (inflight s))"

definition returns_noted :: "session \<Rightarrow> worker list \<Rightarrow> bool" where
  "returns_noted s ws \<longleftrightarrow>
     (\<forall>w\<in>set ws. (w = Exited \<longrightarrow> finished s) \<and> (returned w \<and> w \<noteq> Exited \<longrightarrow> finished s \<and> failed s))"

lemma take_work_inflight: "take_work s = (Some w, t) \<Longrightarrow> inflight t = [] \<longleftrightarrow> inflight s = []"
  by (auto dest!: take_workD)

lemma release_rest [simp]:
  "stopping (release w s) = stopping s" "finished (release w s) = finished s" "failed (release w s) = failed s"
  "ingress (release w s) = ingress s" "admitting (release w s) = admitting s" "queue (release w s) = queue s"
  by (simp_all add: release_def)

lemma release_inflight [simp]: "inflight (release w s) = filter (\<lambda>e. fl_item e \<noteq> work_id w) (inflight s)"
  by (simp add: release_def)

lemma push_work_rest [simp]:
  "stopping (push_work w stored s) = stopping s" "finished (push_work w stored s) = finished s"
  "failed (push_work w stored s) = failed s" "ingress (push_work w stored s) = ingress s"
  "admitting (push_work w stored s) = admitting s"
  by (simp_all add: push_work_def Let_def)

lemma coordinated_step:
  "crew_step c k a m \<Longrightarrow> coordinated (ses k) (crd k) \<Longrightarrow> coordinated (ses m) (crd m)"
proof (induction rule: crew_step.induct)
  case (w_take i k w s)
  then have "inflight s = [] \<longleftrightarrow> inflight (ses k) = []" by (simp add: take_work_inflight)
  moreover have "stopping s = stopping (ses k)" "finished s = finished (ses k)" "failed s = failed (ses k)"
    "ingress s = ingress (ses k)" "admitting s = admitting (ses k)"
    using w_take.hyps(4) by (auto dest!: take_workD)
  ultimately show ?case using w_take by (simp add: coordinated_def)
next
  case (w_fence i k s)
  then show ?case
    by (auto simp: coordinated_def take_work_def Let_def failed_session_def split: list.splits option.splits if_splits)
next
  case (c_take k input cancel stop s)
  note t = take_ingressD [OF c_take.hyps(2)]
  show ?case using c_take t by (cases "ingress (ses k)") (auto simp: coordinated_def)
next
  case (w_reported i k w dry escalates)
  then show ?case by (simp add: coordinated_def)
next
  case (h_start contended st k s)
  then show ?case by (auto simp: coordinated_def op_defs dest!: try_startD)
next
  case (h_cancel oversized contended op k s)
  then show ?case by (auto simp: coordinated_def op_defs dest!: cancel_operationD)
next
  case (h_shutdown k)
  then show ?case by (simp add: coordinated_def op_defs)
next
  case (h_admission k a s)
  then have "s = (ses k)\<lparr>unread := None\<rparr>" by (simp add: take_admissionD)
  then show ?case using h_admission.prems by (simp add: coordinated_def)
next
  case (h_stamp q k r s)
  then obtain v where "s = (ses k)\<lparr>session_revision := v\<rparr>" using make_stampD by blast
  then show ?case using h_stamp.prems by (simp add: coordinated_def)
next
  case (c_ready k)
  then show ?case by (simp add: coordinated_def op_defs)
next
  case (c_rejected k)
  then show ?case by (simp add: coordinated_def op_defs)
next
  case (c_done k)
  then show ?case by (simp add: coordinated_def op_defs)
next
  case (c_check k)
  then show ?case by (auto simp: coordinated_def)
next
  case (c_admitted k input stop accepted)
  then show ?case by (simp add: coordinated_def op_defs)
next
  case (c_tokens k stop which)
  then show ?case by (simp add: coordinated_def op_defs)
next
  case (c_owner k stop)
  then show ?case by (simp add: coordinated_def op_defs)
next
  case (c_push k stop w stored)
  then show ?case by (simp add: coordinated_def op_defs)
next
  case (c_push_done k stop sync)
  then show ?case by (simp add: coordinated_def op_defs)
next
  case (c_again k stop)
  then show ?case by (simp add: coordinated_def op_defs)
next
  case (c_observe k)
  then show ?case by (simp add: coordinated_def op_defs)
next
  case (c_not_drained k)
  then show ?case by (simp add: coordinated_def op_defs)
next
  case (c_unclean k)
  then show ?case by (simp add: coordinated_def op_defs)
next
  case (c_drained k)
  then show ?case by (simp add: coordinated_def op_defs)
next
  case (c_panic k)
  then show ?case by (simp add: coordinated_def op_defs)
next
  case (w_exit i k)
  then show ?case by simp
next
  case (w_not_started i k w)
  then show ?case by (simp add: coordinated_def op_defs)
next
  case (w_started i k w e)
  then show ?case by simp
next
  case (w_lost i k w)
  then show ?case by (simp add: coordinated_def op_defs)
next
  case (w_settled i k w)
  then show ?case by (simp add: coordinated_def op_defs)
next
  case (w_panic i k)
  then show ?case by (simp add: coordinated_def op_defs)
qed

lemma revoked_cancel [simp]: "revoked s \<Longrightarrow> revoked (cancel_entries which s)"
  by (auto simp: revoked_def cancel_entries_def list_all_iff)

lemma revoked_stop: "revoked (cancel_entries (\<lambda>_. True) s)"
  by (auto simp: revoked_def cancel_entries_def list_all_iff)

lemma revoked_same [simp]:
  "revoked (s\<lparr>ingress := x0\<rparr>) = revoked s" "revoked (s\<lparr>admitting := x1\<rparr>) = revoked s"
  "revoked (s\<lparr>unread := x2\<rparr>) = revoked s" "revoked (s\<lparr>queue := x3\<rparr>) = revoked s"
  "revoked (s\<lparr>running := x4\<rparr>) = revoked s" "revoked (s\<lparr>finished := x5\<rparr>) = revoked s"
  "revoked (s\<lparr>failed := x6\<rparr>) = revoked s" "revoked (s\<lparr>session_ready := x7\<rparr>) = revoked s"
  "revoked (s\<lparr>cancel_id := x8\<rparr>) = revoked s" "revoked (s\<lparr>session_revision := x9\<rparr>) = revoked s"
  "revoked (s\<lparr>metadata_owner := x10\<rparr>) = revoked s"
  by (simp_all add: revoked_def)

lemma revoked_push: "revoked s \<Longrightarrow> revoked (push_work w stored s)"
  by (simp add: revoked_def push_work_def Let_def)

lemma revoked_release: "revoked s \<Longrightarrow> revoked (release w s)"
  by (auto simp: revoked_def list_all_iff)

lemma revoked_step: "crew_step c k a m \<Longrightarrow> revoked (ses k) \<Longrightarrow> revoked (ses m)"
proof (induction rule: crew_step.induct)
  case (w_take i k w s)
  then show ?case by (auto dest!: take_workD)
next
  case (w_fence i k s)
  then show ?case by (auto simp: take_work_def Let_def failed_session_def split: list.splits option.splits if_splits)
qed (auto simp: op_defs revoked_stop revoked_push revoked_release dest!: opD)

lemma crew_mono: "crew_step c k a m \<Longrightarrow>
    (stopping (ses k) \<longrightarrow> stopping (ses m)) \<and> (finished (ses k) \<longrightarrow> finished (ses m)) \<and> (failed (ses k) \<longrightarrow> failed (ses m))"
  by (induction rule: crew_step.induct)
    (auto simp: op_defs take_work_def Let_def split: list.splits option.splits if_splits dest!: opD)

lemma returns_noted_update:
  "returns_noted s ws \<Longrightarrow> (finished s \<longrightarrow> finished t) \<Longrightarrow> (failed s \<longrightarrow> failed t)
   \<Longrightarrow> (x = Exited \<longrightarrow> finished t) \<Longrightarrow> (returned x \<and> x \<noteq> Exited \<longrightarrow> finished t \<and> failed t)
   \<Longrightarrow> returns_noted t (ws[i := x])"
  by (auto simp: returns_noted_def dest!: set_update_subset_insert [THEN subsetD])

lemma returns_noted_mono:
  "returns_noted s ws \<Longrightarrow> (finished s \<longrightarrow> finished t) \<Longrightarrow> (failed s \<longrightarrow> failed t) \<Longrightarrow> returns_noted t ws"
  by (auto simp: returns_noted_def)

lemma returns_noted_step:
  assumes "crew_step c k a m" "returns_noted (ses k) (wrk k)"
  shows "returns_noted (ses m) (wrk m)"
proof -
  note mono = crew_mono [OF assms(1)]
  show ?thesis
  using assms mono
proof (induction rule: crew_step.induct)
  case (w_panic i k)
  then show ?case by (auto simp: panicked_def intro!: returns_noted_update)
next
  case (w_fence i k s)
  then show ?case
    by (auto simp: take_work_def Let_def failed_session_def intro!: returns_noted_update
        split: list.splits option.splits if_splits)
qed (simp_all add: returns_noted_update returns_noted_mono failed_session_def)
qed

definition crew_ok :: "session_config \<Rightarrow> crew \<Rightarrow> bool" where
  "crew_ok c k \<longleftrightarrow> conserved c (ses k) (wrk k) \<and> coordinated (ses k) (crd k) \<and> revoked (ses k)
     \<and> returns_noted (ses k) (wrk k)"

lemma crew_ok_new: "crew_ok c (crew_new c g)"
  by (simp add: crew_ok_def crew_new_def session_new_def conserved_def coordinated_def revoked_def
      returns_noted_def held_replicate queue_capacity_def)

lemma crew_ok_step: "crew_step c k a m \<Longrightarrow> crew_ok c k \<Longrightarrow> crew_ok c m"
  unfolding crew_ok_def using conserved_step coordinated_step revoked_step returns_noted_step by blast

interpretation ss: safe_system "\<lambda>k. \<exists>g. k = crew_new c g" "crew_step c" "crew_ok c" for c
  by unfold_locales (auto intro: crew_ok_new crew_ok_step)

subsection \<open>The properties\<close>

abbreviation session_reachable :: "session_config \<Rightarrow> crew \<Rightarrow> bool" where
  "session_reachable c \<equiv> reachable (\<lambda>k. \<exists>g. k = crew_new c g) (crew_step c)"

lemma session_ok: "session_reachable c k \<Longrightarrow> crew_ok c k"
  by (rule ss.reachable_good)

lemma conserved_once:
  assumes "conserved c s ws"
  shows "count (image_mset work_id (mset (queue s) + held ws)) i \<le> 1"
proof -
  have "count (mset (map fl_item (inflight s))) i \<le> 1"
    using assms unfolding conserved_def distinct_count_atmost_1 by (metis le_refl zero_le_one)
  then show ?thesis using assms unfolding conserved_def by metis
qed

lemma conserved_bounds:
  assumes "conserved c s ws"
  shows "running s \<le> conf_workers c \<and> length (inflight s) \<le> conf_workers c * 3"
proof -
  have "length (inflight s) = size (image_mset work_id (mset (queue s) + held ws))"
    using assms unfolding conserved_def by (metis length_map size_mset)
  then show ?thesis using assms held_size_le [of ws] by (simp add: conserved_def queue_capacity_def)
qed

lemma in_held: "i < length ws \<Longrightarrow> holding (ws ! i) = {#w#} \<Longrightarrow> w \<in># held ws"
  using holding_subset [of i ws] by (simp add: single_subset_iff)

lemma held_empty: "held ws = {#} \<longleftrightarrow> list_all (\<lambda>w. holding w = {#}) ws"
  by (induction ws) (simp_all add: held_def)


lemma drained_step:
  assumes "crew_step c k a m" "crd k = Ended" "held (wrk k) = {#}" "inflight (ses k) = []" "queue (ses k) = []"
    "ingress (ses k) = None" "running (ses k) = 0" "finished (ses k)" "stopping (ses k)"
  shows "crd m = Ended \<and> held (wrk m) = {#} \<and> inflight (ses m) = [] \<and> queue (ses m) = []
    \<and> ingress (ses m) = None \<and> running (ses m) = 0 \<and> finished (ses m) \<and> stopping (ses m) \<and> a \<noteq> Offered"
  using assms
proof (induction rule: crew_step.induct)
  case (h_admission k a s)
  then have "s = (ses k)\<lparr>unread := None\<rparr>" by (simp add: take_admissionD)
  then show ?case using h_admission.prems by simp
next
  case (h_stamp q k r s)
  then obtain v where "s = (ses k)\<lparr>session_revision := v\<rparr>" using make_stampD by blast
  then show ?case using h_stamp.prems by simp
next
  case (w_panic i k)
  then have "holding (wrk k ! i) = {#}" using holding_subset [of i "wrk k"] by simp
  then have "holding (unwound (wrk k ! i)) = holding (wrk k ! i)" by (cases "wrk k ! i") simp_all
  then show ?case using w_panic by (simp add: panicked_def held_same cancel_entries_def)
next
  case (w_not_started i k w)
  then show ?case using in_held [of i "wrk k" w] by simp
next
  case (w_started i k w e)
  then show ?case using in_held [of i "wrk k" w] by simp
next
  case (w_lost i k w)
  then show ?case using in_held [of i "wrk k" w] by simp
next
  case (w_reported i k w dry escalates)
  then show ?case using in_held [of i "wrk k" w] by simp
next
  case (w_settled i k w)
  then show ?case using in_held [of i "wrk k" w] by simp
qed (auto simp: op_defs held_same dest: try_startD cancel_operationD)

lemma drained_run:
  "run (crew_step c) k as m \<Longrightarrow> crd k = Ended \<Longrightarrow> held (wrk k) = {#} \<Longrightarrow> inflight (ses k) = [] \<Longrightarrow> queue (ses k) = [] \<Longrightarrow>
    ingress (ses k) = None \<Longrightarrow> running (ses k) = 0 \<Longrightarrow> finished (ses k) \<Longrightarrow> stopping (ses k) \<Longrightarrow>
    crd m = Ended \<and> held (wrk m) = {#} \<and> queue (ses m) = [] \<and> inflight (ses m) = []
    \<and> ingress (ses m) = None \<and> running (ses m) = 0 \<and> Offered \<notin> set as"
proof (induction rule: run.induct)
  case (run_cons s a t as u)
  then show ?case using drained_step [OF run_cons.hyps(1)] by auto
qed simp

lemma no_tokens: "conserved c s ws \<Longrightarrow> inflight s = [] \<Longrightarrow> queue s = [] \<and> held ws = {#} \<and> running s = 0"
  by (simp add: conserved_def)

lemma nth_update_other: "ws[i := x] ! j = y \<Longrightarrow> x \<noteq> y \<Longrightarrow> j < length ws \<Longrightarrow> ws ! j = y"
  by (cases "i = j") simp_all

lemma stopping_step:
  assumes "crew_step c k a m" "crew_ok c k" "stopping (ses k)"
  shows "a \<noteq> Offered \<and> a \<noteq> Asked_cancel \<and> length (wrk m) = length (wrk k)
    \<and> (\<forall>i w. i < length (wrk m) \<and> wrk m ! i = Executing w False \<longrightarrow> wrk k ! i = Executing w False)"
  using assms
proof (induction rule: crew_step.induct)
  case (w_started i k w e)
  then have "fl_cancelled e" by (auto simp: crew_ok_def revoked_def list_all_iff dest!: find_token_Some)
  then show ?case by (auto dest: nth_update_other)
next
  case (w_panic i k)
  have "unwound (wrk k ! i) \<noteq> Executing w False" for w by (cases "wrk k ! i") simp_all
  then show ?case by auto (metis nth_update_other)
qed (auto simp: nth_list_update dest: try_startD cancel_operationD split: if_splits)

lemma stopping_run:
  "run (crew_step c) k as m \<Longrightarrow> crew_ok c k \<Longrightarrow> stopping (ses k) \<Longrightarrow>
    stopping (ses m) \<and> crew_ok c m \<and> Offered \<notin> set as \<and> Asked_cancel \<notin> set as \<and> length (wrk m) = length (wrk k)
    \<and> (\<forall>i w. i < length (wrk m) \<and> wrk m ! i = Executing w False \<longrightarrow> wrk k ! i = Executing w False)"
proof (induction rule: run.induct)
  case (run_cons s a t as u)
  then show ?case
    using stopping_step [OF run_cons.hyps(1)] crew_ok_step [OF run_cons.hyps(1)] crew_mono [OF run_cons.hyps(1)]
    by (metis set_ConsD)
qed simp

subsection \<open>A stopping session winds down\<close>

fun stage :: "worker \<Rightarrow> nat" where
  "stage (Taken _) = 3"
| "stage (Executing _ _) = 2"
| "stage (Settling _) = 1"
| "stage _ = 0"

definition weight :: "crew \<Rightarrow> nat" where
  "weight k = 4 * length (queue (ses k)) + sum_list (map stage (wrk k))"

lemma weigh_update:
  fixes f :: "worker \<Rightarrow> nat"
  shows "i < length ws \<Longrightarrow> sum_list (map f (ws[i := x])) + f (ws ! i) = sum_list (map f ws) + f x"
proof (induction ws arbitrary: i)
  case (Cons a ws)
  then show ?case by (cases i) simp_all
qed simp

definition winding :: "crew \<Rightarrow> bool" where
  "winding k \<longleftrightarrow> stopping (ses k) \<and> \<not> finished (ses k) \<and> \<not> failed (ses k)"

lemma busy_step:
  assumes ok: "crew_ok c k" and wi: "winding k" and i: "i < length (wrk k)" and h: "holding (wrk k ! i) \<noteq> {#}"
  shows "\<exists>m. crew_step c k (Worked i) m \<and> weight m < weight k \<and> crd m = crd k \<and> winding m"
proof -
  have "\<not> returned (wrk k ! i)"
    using ok wi nth_mem [OF i] by (cases "wrk k ! i") (auto simp: crew_ok_def returns_noted_def winding_def)
  then consider (t) w where "wrk k ! i = Taken w" | (e) w b where "wrk k ! i = Executing w b"
    | (s) w where "wrk k ! i = Settling w"
    using h by (cases "wrk k ! i") simp_all
  then show ?thesis
  proof cases
    case t
    note st = crew_step.w_not_started [OF i t]
    from t show ?thesis using wi weigh_update [OF i, of stage Idle]
      by (intro exI conjI) (rule st, simp_all add: weight_def winding_def)
  next
    case e
    note st = crew_step.w_reported [OF i e, where escalates = False]
    from e show ?thesis using wi weigh_update [OF i, of stage "Settling w"]
      by (intro exI conjI) (rule st, simp_all add: weight_def winding_def)
  next
    case s
    note st = crew_step.w_settled [OF i s]
    from s show ?thesis using wi weigh_update [OF i, of stage Idle]
      by (intro exI conjI) (rule st, simp_all add: weight_def winding_def)
  qed
qed

lemma idle_step:
  assumes ok: "crew_ok c k" and wi: "winding k" and n: "0 < conf_workers c" and h: "held (wrk k) = {#}"
    and q: "queue (ses k) \<noteq> []"
  shows "\<exists>i m. crew_step c k (Worked i) m \<and> weight m < weight k \<and> crd m = crd k \<and> winding m"
proof -
  have i: "0 < length (wrk k)" using ok n by (simp add: crew_ok_def conserved_def)
  have "holding (wrk k ! 0) = {#}" using h i by (simp add: held_empty list_all_length)
  moreover have "wrk k ! 0 \<noteq> Exited" using ok wi nth_mem [OF i] by (auto simp: crew_ok_def returns_noted_def winding_def)
  ultimately have idle: "wrk k ! 0 = Idle" by (cases "wrk k ! 0") simp_all
  obtain t where t: "take_work (ses k) = (Some (hd (queue (ses k))), t)"
    using conserved_no_fence [OF _ q] ok unfolding crew_ok_def by blast
  obtain rest which where r: "queue (ses k) = hd (queue (ses k)) # rest"
      "t = (cancel_entries which ((ses k)\<lparr>queue := rest\<rparr>))\<lparr>running := running (ses k) + 1\<rparr>"
    using take_workD [OF t] by blast
  have fin: "\<not> finished (ses k)" using wi by (simp add: winding_def)
  have "length (queue (ses k)) = Suc (length rest)" using r(1) by (metis length_Cons)
  then have "weight (k\<lparr>ses := t, wrk := (wrk k)[0 := Taken (hd (queue (ses k)))]\<rparr>) < weight k"
    using weigh_update [OF i, of stage "Taken (hd (queue (ses k)))"] idle r(2) by (simp add: weight_def)
  moreover have "winding (k\<lparr>ses := t, wrk := (wrk k)[0 := Taken (hd (queue (ses k)))]\<rparr>)"
    using wi r(2) by (simp add: winding_def)
  ultimately show ?thesis using crew_step.w_take [OF i idle fin t] by fastforce
qed

lemma work_drains:
  assumes "crew_ok c k" "winding k" "0 < conf_workers c"
  shows "\<exists>as m. run (crew_step c) k as m \<and> inflight (ses m) = [] \<and> crd m = crd k \<and> winding m \<and> Panicked \<notin> set as"
  using assms
proof (induction k rule: measure_induct_rule [of weight])
  case (less k)
  show ?case
  proof (cases "inflight (ses k) = []")
    case True
    then show ?thesis using less.prems run_nil by fastforce
  next
    case False
    then have "held (wrk k) \<noteq> {#} \<or> queue (ses k) \<noteq> []" using less.prems by (auto simp: crew_ok_def conserved_def)
    moreover have "\<exists>i<length (wrk k). holding (wrk k ! i) \<noteq> {#}" if "held (wrk k) \<noteq> {#}"
      using that by (auto simp: held_empty list_all_length)
    ultimately obtain i m where m: "crew_step c k (Worked i) m" "weight m < weight k" "crd m = crd k" "winding m"
      using busy_step [OF less.prems(1,2)] idle_step [OF less.prems] by metis
    obtain as u where u: "run (crew_step c) m as u" "inflight (ses u) = []" "crd u = crd m" "winding u" "Panicked \<notin> set as"
      using less.IH [OF m(2) crew_ok_step [OF m(1) less.prems(1)] m(4) less.prems(3)] by blast
    have "run (crew_step c) k (Worked i # as) u" using m(1) u(1) by (rule run_cons)
    then show ?thesis using u m(3) by force
  qed
qed

definition drains :: "session_config \<Rightarrow> crew \<Rightarrow> bool" where
  "drains c k \<longleftrightarrow> (\<exists>as m. run (crew_step c) k as m \<and> winding k \<and> finished (ses m) \<and> \<not> failed (ses m)
     \<and> wrk m = wrk k \<and> Panicked \<notin> set as)"

lemma crew_run: "crew_step c k a m \<Longrightarrow> run (crew_step c) m as u \<Longrightarrow> run (crew_step c) k (a # as) u"
  by (rule run_cons)

lemma drains_step:
  "crew_step c k Coordinated m \<Longrightarrow> winding k \<Longrightarrow> wrk m = wrk k \<Longrightarrow> drains c m \<Longrightarrow> drains c k"
  unfolding drains_def using crew_run by fastforce

lemma drains_draining: "winding k \<Longrightarrow> crd k = Draining \<Longrightarrow> drains c k"
  using crew_run [OF crew_step.c_drained run_nil, of k c] by (force simp: drains_def winding_def)

lemma drains_body: "winding k \<Longrightarrow> crd k = Body True \<Longrightarrow> inflight (ses k) = [] \<Longrightarrow> drains c k"
  by (rule drains_step [OF crew_step.c_observe]) (simp_all add: drains_draining winding_def)

lemma drains_admitting: "winding k \<Longrightarrow> crd k = Admitting i True \<Longrightarrow> inflight (ses k) = [] \<Longrightarrow> drains c k"
  by (rule drains_step [OF crew_step.c_admitted [where accepted = False]])
    (auto simp: winding_def admitted_def intro: drains_body)

lemma drains_checked: "winding k \<Longrightarrow> crd k = Checked \<Longrightarrow> inflight (ses k) = [] \<Longrightarrow> drains c k"
  by (rule drains_step [OF crew_step.c_take [where input = "ingress (ses k)" and cancel = "cancel_id (ses k)"
        and stop = "stopping (ses k)", OF _ take_ingress_def]])
    (auto simp: winding_def split: option.splits intro: drains_body drains_admitting)

lemma drains_top: "winding k \<Longrightarrow> crd k = Top \<Longrightarrow> inflight (ses k) = [] \<Longrightarrow> drains c k"
  by (rule drains_step [OF crew_step.c_check]) (auto simp: winding_def intro: drains_checked)

lemma drains_other_body: "winding k \<Longrightarrow> crd k = Body stop \<Longrightarrow> inflight (ses k) = [] \<Longrightarrow> drains c k"
  by (rule drains_step [OF crew_step.c_again]) (auto simp: winding_def intro: drains_top)

lemma drains_other_admitting: "winding k \<Longrightarrow> crd k = Admitting i stop \<Longrightarrow> inflight (ses k) = [] \<Longrightarrow> drains c k"
  by (rule drains_step [OF crew_step.c_admitted [where accepted = False]])
    (auto simp: winding_def admitted_def intro: drains_other_body)

lemma drains_booting: "winding k \<Longrightarrow> crd k = Booting \<Longrightarrow> inflight (ses k) = [] \<Longrightarrow> drains c k"
  by (rule drains_step [OF crew_step.c_ready]) (auto simp: winding_def intro: drains_top)

lemma coordinator_drains:
  "winding k \<Longrightarrow> crd k \<noteq> Ended \<Longrightarrow> inflight (ses k) = [] \<Longrightarrow> drains c k"
  by (cases "crd k")
    (auto intro: drains_booting drains_top drains_checked drains_other_admitting drains_other_body drains_draining)

lemma workers_return:
  assumes "finished (ses k)" "held (wrk k) = {#}"
  shows "\<exists>as m. run (crew_step c) k as m \<and> ses m = ses k \<and> list_all returned (wrk m) \<and> Panicked \<notin> set as"
  using assms
proof (induction k rule: measure_induct_rule [of "\<lambda>k. sum_list (map (\<lambda>w. if w = Idle then 1 else 0 :: nat) (wrk k))"])
  case (less k)
  show ?case
  proof (cases "Idle \<in> set (wrk k)")
    case True
    then obtain i where i: "i < length (wrk k)" "wrk k ! i = Idle" by (auto simp: in_set_conv_nth)
    let ?m = "k\<lparr>wrk := (wrk k)[i := Exited]\<rparr>"
    have m: "crew_step c k (Worked i) ?m" using i less.prems by (intro crew_step.w_exit)
    have "sum_list (map (\<lambda>w. if w = Idle then 1 else 0 :: nat) (wrk ?m))
        < sum_list (map (\<lambda>w. if w = Idle then 1 else 0) (wrk k))"
      using weigh_update [OF i(1), of "\<lambda>w. if w = Idle then 1 else 0" Exited] i by simp
    moreover have "held (wrk ?m) = {#}" using less.prems i by (simp add: held_same)
    ultimately obtain as u where "run (crew_step c) ?m as u" "ses u = ses ?m" "list_all returned (wrk u)" "Panicked \<notin> set as"
      using less.IH [of ?m] less.prems by auto
    then show ?thesis using crew_run [OF m] by fastforce
  next
    case False
    have "returned w" if "w \<in> set (wrk k)" for w
      
    proof (cases w)
    qed (use that False bspec [OF less.prems(2) [unfolded held_empty list_all_iff] that] in auto)
    then show ?thesis using run_nil [of "crew_step c" k] by (force simp: list_all_iff)
  qed
qed

subsection \<open>A sample session\<close>

text \<open>One worker; one item is queued, taken, started, and executing when the stop is requested.\<close>

definition sample_config :: session_config where
  "sample_config = \<lparr>conf_workers = 1\<rparr>"

definition sample_work :: work_item where
  "sample_work =
     \<lparr>work_operation = header_scope sample_header,
      work_row = \<lparr>itm_operation = ''o'',
        itm_identity = \<lparr>item_id = 4, story_id = None, resolved_story_id = None, story_uuid_text = None\<rparr>,
        itm_title = None, itm_source = ''s'', itm_output = None, itm_archive_path = None, itm_archive_hash = None,
        itm_skip_code = None, itm_state = Pending_item, itm_progress = \<lparr>prg_completed = 0, prg_total = 5\<rparr>,
        itm_outcome = \<lparr>code = None, message = None\<rparr>\<rparr>\<rparr>"

definition sample_entry :: "bool \<Rightarrow> inflight_entry" where
  "sample_entry b = \<lparr>fl_item = 4, fl_operation = ''o'', fl_cancelled = b\<rparr>"

definition sample_crew :: "coordinator \<Rightarrow> work_item list \<Rightarrow> inflight_entry list \<Rightarrow> worker \<Rightarrow> crew" where
  "sample_crew d q f w =
     \<lparr>ses = (session_new 0)\<lparr>queue := q, inflight := f, running := size (holding w), session_ready := True\<rparr>,
      crd = d, wrk = [w]\<rparr>"

definition sample_busy :: crew where
  "sample_busy = sample_crew Top [] [sample_entry False] (Executing sample_work False)"

lemma sample_ids: "work_id sample_work = 4" "key_id (scp_identity (work_operation sample_work)) = ''o''"
    "scp_kind (work_operation sample_work) = Export"
  by (simp_all add: work_id_def sample_work_def header_scope_def sample_header_def history_key_of_def)

lemma sample_steps:
  "crew_step sample_config (crew_new sample_config 0) Coordinated (sample_crew Top [] [] Idle)"
  "crew_step sample_config (sample_crew Top [] [] Idle) Coordinated (sample_crew Checked [] [] Idle)"
  "crew_step sample_config (sample_crew Checked [] [] Idle) Coordinated (sample_crew (Body False) [] [] Idle)"
  "crew_step sample_config (sample_crew (Body False) [] [] Idle) (Pushed sample_work)
     (sample_crew Top [sample_work] [sample_entry False] Idle)"
  "crew_step sample_config (sample_crew Top [sample_work] [sample_entry False] Idle) (Worked 0)
     (sample_crew Top [] [sample_entry False] (Taken sample_work))"
  "crew_step sample_config (sample_crew Top [] [sample_entry False] (Taken sample_work)) (Worked 0) sample_busy"
proof -
  show "crew_step sample_config (crew_new sample_config 0) Coordinated (sample_crew Top [] [] Idle)"
    using crew_step.c_ready [of "crew_new sample_config 0" sample_config]
    by (simp add: crew_new_def sample_crew_def sample_config_def session_new_def)
  show "crew_step sample_config (sample_crew Top [] [] Idle) Coordinated (sample_crew Checked [] [] Idle)"
    using crew_step.c_check [of "sample_crew Top [] [] Idle" sample_config]
    by (simp add: sample_crew_def session_new_def)
  show "crew_step sample_config (sample_crew Checked [] [] Idle) Coordinated (sample_crew (Body False) [] [] Idle)"
    using crew_step.c_take [of "sample_crew Checked [] [] Idle", OF _ take_ingress_def, of sample_config]
    by (simp add: sample_crew_def session_new_def)
  show "crew_step sample_config (sample_crew (Body False) [] [] Idle) (Pushed sample_work)
     (sample_crew Top [sample_work] [sample_entry False] Idle)"
    using crew_step.c_push [of "sample_crew (Body False) [] [] Idle" False sample_config sample_work False]
    by (simp add: sample_crew_def session_new_def push_work_def sample_ids sample_entry_def queue_capacity_def
        sample_config_def)
  show "crew_step sample_config (sample_crew Top [sample_work] [sample_entry False] Idle) (Worked 0)
     (sample_crew Top [] [sample_entry False] (Taken sample_work))"
    using crew_step.w_take [of 0 "sample_crew Top [sample_work] [sample_entry False] Idle" sample_work _ sample_config]
    by (simp add: sample_crew_def session_new_def take_work_def find_token_def sample_ids sample_entry_def)
  show "crew_step sample_config (sample_crew Top [] [sample_entry False] (Taken sample_work)) (Worked 0) sample_busy"
    using crew_step.w_started [of 0 "sample_crew Top [] [sample_entry False] (Taken sample_work)" sample_work
        "sample_entry False" sample_config]
    by (simp add: sample_busy_def sample_crew_def find_token_def sample_ids sample_entry_def)
qed

lemma sample_busy_reachable: "session_reachable sample_config sample_busy"
  by (rule reach_step [OF reach_step [OF reach_step [OF reach_step [OF reach_step [OF reach_step [OF reach_start]]]]]])
    (rule sample_steps | blast)+

lemma sample_stop:
  "crew_step sample_config sample_busy Asked_stop (sample_busy\<lparr>ses := shutdown (ses sample_busy)\<rparr>)"
  by (rule crew_step.h_shutdown)

text \<open>C7: in every reachable state of a job session, every item in flight is in exactly one place - the
  queue or one worker - and has a cancellation token of its own; the count of running workers is the
  number of workers that hold an item (so releasing one never underflows it), the queue and the token
  table stay within the capacity they were allocated with, and a worker that takes an item always
  finds its token: the branch that fences the store over a missing token is unreachable.\<close>

theorem session_sound:
  assumes "session_reachable c k"
  shows "mset (map fl_item (inflight (ses k))) = image_mset work_id (mset (queue (ses k)) + held (wrk k))
    \<and> (\<forall>i. count (image_mset work_id (mset (queue (ses k)) + held (wrk k))) i \<le> 1)
    \<and> running (ses k) = size (held (wrk k)) \<and> running (ses k) \<le> conf_workers c
    \<and> length (queue (ses k)) \<le> queue_capacity c \<and> length (inflight (ses k)) \<le> conf_workers c * 3
    \<and> (\<forall>i w. i < length (wrk k) \<and> holding (wrk k ! i) = {#w#} \<longrightarrow> 0 < running (ses k))
    \<and> (queue (ses k) \<noteq> [] \<longrightarrow> fst (take_work (ses k)) = Some (hd (queue (ses k))))"
proof -
  have ok: "conserved c (ses k) (wrk k)" using session_ok [OF assms] by (simp add: crew_ok_def)
  show ?thesis
    using ok conserved_once [OF ok] conserved_bounds [OF ok] conserved_positive [OF ok] conserved_no_fence [OF ok]
    by (auto simp: conserved_def)
qed

theorem session_sound_witness:
  "running (ses sample_busy) = 1 \<and> running (ses sample_busy) \<le> conf_workers sample_config"
  using session_sound [OF sample_busy_reachable] by (simp add: sample_busy_def sample_crew_def)



text \<open>C28: once a session is stopping it stays so, every token is cancelled, no operation and no
  cancellation request is accepted any more, and no worker enters the executor: a worker that is
  executing then was executing the same item when the stop was requested.\<close>

theorem stop_is_final:
  assumes "session_reachable c k" "stopping (ses k)" "run (crew_step c) k as m"
  shows "stopping (ses m) \<and> list_all fl_cancelled (inflight (ses m)) \<and> Offered \<notin> set as \<and> Asked_cancel \<notin> set as
    \<and> (\<forall>i w. i < length (wrk m) \<and> wrk m ! i = Executing w False \<longrightarrow> wrk k ! i = Executing w False)"
  using stopping_run [OF assms(3) session_ok [OF assms(1)] assms(2)] by (auto simp: crew_ok_def revoked_def)

theorem stop_is_final_witness:
  "list_all fl_cancelled (inflight (ses (sample_busy\<lparr>ses := shutdown (ses sample_busy)\<rparr>)))"
  using stop_is_final [OF reach_step [OF sample_busy_reachable sample_stop] _ run_nil]
  by (simp add: shutdown_def)

text \<open>C29: shutdown can always finish: from every reachable state of a session that has not failed there is
  a continuation, after the shutdown request, that drains it with every worker returned.\<close>

theorem shutdown_can_complete:
  assumes "session_config_new n = Some c" "session_reachable c k" "\<not> failed (ses k)"
  shows "\<exists>as m. run (crew_step c) (k\<lparr>ses := shutdown (ses k)\<rparr>) as m
    \<and> st_drained (status (ses m)) \<and> list_all returned (wrk m) \<and> Panicked \<notin> set as"
proof -
  let ?k = "k\<lparr>ses := shutdown (ses k)\<rparr>"
  have n: "0 < conf_workers c" using assms(1) by (auto simp: session_config_new_def split: if_splits)
  have step: "crew_step c k Asked_stop ?k" by (rule crew_step.h_shutdown)
  have ok: "crew_ok c ?k" by (rule crew_ok_step [OF step session_ok [OF assms(2)]])
  have "\<exists>as m. run (crew_step c) ?k as m \<and> finished (ses m) \<and> \<not> failed (ses m) \<and> Panicked \<notin> set as"
  proof (cases "finished (ses k)")
    case True
    then show ?thesis using run_nil [of "crew_step c" ?k] assms(3) by (force simp: shutdown_def)
  next
    case False
    then have w: "winding ?k" using assms(3) by (simp add: winding_def shutdown_def)
    obtain as u where u: "run (crew_step c) ?k as u" "inflight (ses u) = []" "winding u" "Panicked \<notin> set as"
      using work_drains [OF ok w n] by blast
    have "coordinated (ses u) (crd u)" using stopping_run [OF u(1) ok] w by (simp add: winding_def crew_ok_def)
    then have "drains c u" using u by (intro coordinator_drains) (auto simp: coordinated_def winding_def)
    then obtain bs m where "run (crew_step c) u bs m" "finished (ses m)" "\<not> failed (ses m)" "Panicked \<notin> set bs"
      by (auto simp: drains_def)
    then show ?thesis using u(1,4) by (intro exI [of _ "as @ bs"] exI [of _ m]) (auto simp: run_append)
  qed
  then obtain as m where m: "run (crew_step c) ?k as m" "finished (ses m)" "\<not> failed (ses m)" "Panicked \<notin> set as" by blast
  have "crew_ok c m" using stopping_run [OF m(1) ok] by (simp add: shutdown_def)
  then have "held (wrk m) = {#}" using m by (auto simp: crew_ok_def coordinated_def dest: no_tokens)
  then obtain bs u where "run (crew_step c) m bs u" "ses u = ses m" "list_all returned (wrk u)" "Panicked \<notin> set bs"
    using workers_return [OF m(2)] by blast
  then show ?thesis using m
    by (intro exI [of _ "as @ bs"] exI [of _ u]) (auto simp: run_append status_def)
qed

theorem shutdown_can_complete_witness:
  "\<exists>as m. run (crew_step sample_config) (sample_busy\<lparr>ses := shutdown (ses sample_busy)\<rparr>) as m
    \<and> st_drained (status (ses m)) \<and> list_all returned (wrk m) \<and> Panicked \<notin> set as"
  using shutdown_can_complete [of 1 sample_config sample_busy, OF _ sample_busy_reachable]
  by (simp add: session_config_new_def sample_config_def sample_busy_def sample_crew_def session_new_def)

end
