(* ===== verification/Session_Progress.thy ===== *)
theory Session_Progress
  imports Session_Safety
begin

section \<open>Progress of the workers and the shutdown view\<close>

text \<open>
  \<open>librairii-app/src/native_jobs/progress.rs\<close> and \<open>shutdown.rs\<close>, with the reads of the slots by
  \<open>scheduler.rs\<close>: one slot per worker, bound to an item with a fresh epoch; a sink holds the epoch it was
  bound with and its calls are refused once the slot is sealed or bound again. An epoch is an \<open>Arc\<close>
  compared by address, given as a number. The boolean of a call of a sink is its result and also
  whether it raised the shared wake flag.
\<close>

datatype phase = Phase_running | Phase_committing | Phase_compensating | Phase_reporting
  | Phase_reconciling | Phase_settling

record progress_update =
  upd_phase :: phase
  upd_generation :: nat
  upd_item :: i64
  upd_revision :: nat
  upd_completed :: i64
  upd_total :: i64

record job_slot =
  slot_epoch :: nat
  slot_latest :: "progress_update option"
  slot_sealed :: bool
  slot_dirty :: bool
  slot_saved :: i64
  slot_export :: bool

definition slot_default :: "nat \<Rightarrow> job_slot" where
  "slot_default epoch =
     \<lparr>slot_epoch = epoch, slot_latest = None, slot_sealed = True, slot_dirty = False, slot_saved = 0,
      slot_export = False\<rparr>"

definition sink_bind :: "nat \<Rightarrow> nat \<Rightarrow> i64 \<Rightarrow> progress \<Rightarrow> bool \<Rightarrow> job_slot" where
  "sink_bind epoch generation item p export =
     \<lparr>slot_epoch = epoch,
      slot_latest = Some \<lparr>upd_phase = Phase_running, upd_generation = generation, upd_item = item,
        upd_revision = 0, upd_completed = prg_completed p, upd_total = prg_total p\<rparr>,
      slot_sealed = False, slot_dirty = True, slot_saved = prg_completed p, slot_export = export\<rparr>"

definition sink_advance :: "nat \<Rightarrow> i64 \<Rightarrow> job_slot \<Rightarrow> bool \<times> job_slot" where
  "sink_advance epoch n s =
     (if slot_sealed s \<or> slot_epoch s \<noteq> epoch then (False, s)
      else (case slot_latest s of
        None \<Rightarrow> (False, s)
      | Some u \<Rightarrow>
          if isl (advance \<lparr>prg_completed = upd_completed u, prg_total = upd_total u\<rparr> Running_item n) then (False, s)
          else (case u64_checked_add (upd_revision u) 1 of
            None \<Rightarrow> (False, s)
          | Some r \<Rightarrow> (True, s\<lparr>slot_latest := Some (u\<lparr>upd_completed := n, upd_revision := r\<rparr>), slot_dirty := True\<rparr>))))"

definition with_phase :: "phase \<Rightarrow> job_slot \<Rightarrow> job_slot" where
  "with_phase ph s = s\<lparr>slot_latest := map_option (\<lambda>u. u\<lparr>upd_phase := ph\<rparr>) (slot_latest s), slot_dirty := True\<rparr>"

definition sink_phase :: "nat \<Rightarrow> phase \<Rightarrow> job_slot \<Rightarrow> bool \<times> job_slot" where
  "sink_phase epoch ph s =
     (if slot_sealed s \<or> slot_epoch s \<noteq> epoch then (False, s) else (True, with_phase ph s))"

definition sink_owned_phase :: "nat \<Rightarrow> phase \<Rightarrow> job_slot \<Rightarrow> bool \<times> job_slot" where
  "sink_owned_phase epoch ph s = (if slot_epoch s = epoch then (True, with_phase ph s) else (False, s))"

definition sink_seal :: "nat \<Rightarrow> job_slot \<Rightarrow> job_slot" where
  "sink_seal epoch s = (if slot_epoch s = epoch then s\<lparr>slot_sealed := True\<rparr> else s)"

subsection \<open>Reads of the slots\<close>

definition take_slot :: "job_slot \<Rightarrow> progress_update option \<times> job_slot" where
  "take_slot s = (if \<not> slot_dirty s then (None, s) else (slot_latest s, s\<lparr>slot_dirty := False\<rparr>))"

definition take_progress :: "job_slot list \<Rightarrow> progress_update list \<times> job_slot list" where
  "take_progress slots = (List.map_filter (\<lambda>s. fst (take_slot s)) slots, map (\<lambda>s. snd (take_slot s)) slots)"

definition has_critical_work :: "session \<Rightarrow> job_slot list \<Rightarrow> bool" where
  "has_critical_work s slots \<longleftrightarrow>
     list_ex (\<lambda>slot. case slot_latest slot of
         None \<Rightarrow> False
       | Some u \<Rightarrow> upd_phase u \<noteq> Phase_running \<and> list_ex (\<lambda>e. fl_item e = upd_item u) (inflight s)) slots"

definition take_phases :: "i64 list \<Rightarrow> job_slot list \<Rightarrow> phase list" where
  "take_phases ids slots =
     List.map_filter (\<lambda>slot. case slot_latest slot of
         None \<Rightarrow> None
       | Some u \<Rightarrow> if upd_item u \<in> set ids then Some (upd_phase u) else None) slots"

definition pending_save :: "job_slot \<Rightarrow> progress_update option" where
  "pending_save s =
     (case slot_latest s of
        None \<Rightarrow> None
      | Some u \<Rightarrow>
          if \<not> slot_sealed s \<and> slot_export s \<and> upd_completed u > slot_saved s
             \<and> (upd_completed u - slot_saved s \<ge> 256 * 1024 \<or> upd_completed u = upd_total u)
          then Some u else None)"

definition note_saved :: "progress_update \<Rightarrow> job_slot \<Rightarrow> job_slot" where
  "note_saved p s =
     (case slot_latest s of
        Some u \<Rightarrow> if upd_item u = upd_item p then s\<lparr>slot_saved := max (slot_saved s) (upd_completed p)\<rparr> else s
      | None \<Rightarrow> s)"

subsection \<open>Responses and the projection of an operation\<close>

record 'a response =
  rsp_stamp :: request_stamp
  rsp_value :: 'a

definition complete_request :: "request_stamp \<Rightarrow> 'a \<Rightarrow> 'a response" where
  "complete_request r v = \<lparr>rsp_stamp = r, rsp_value = v\<rparr>"

definition accept_response :: "'a response \<Rightarrow> session \<Rightarrow> navigation option \<Rightarrow> 'a option" where
  "accept_response r s nav = (if accepts_stamp s (rsp_stamp r) nav then Some (rsp_value r) else None)"

record operation_projection =
  opp_id :: string
  opp_current :: "operation_snapshot option"
  opp_revision :: nat
  opp_generation :: "nat option"

text \<open>\<open>retains\<close>: the bytes the string retains.\<close>

definition operation_projection_new :: "nat \<Rightarrow> string \<Rightarrow> input_error + operation_projection" where
  "operation_projection_new retains i =
     (if i = '''' \<or> retains > 16 * 1024 * 1024 then Inl Invalid_input
      else Inr \<lparr>opp_id = i, opp_current = None, opp_revision = 0, opp_generation = None\<rparr>)"

definition snapshot_op :: "operation_snapshot \<Rightarrow> string" where
  "snapshot_op v = op_id (hdr_identity (snap_operation v))"

definition fresh_generation :: "nat \<Rightarrow> operation_projection \<Rightarrow> operation_projection" where
  "fresh_generation g p = (if opp_generation p \<noteq> Some g then p\<lparr>opp_current := None, opp_revision := 0\<rparr> else p)"

definition kept_over :: "operation_projection \<Rightarrow> operation_snapshot response \<Rightarrow> bool" where
  "kept_over p r \<longleftrightarrow>
     (case opp_current p of
        None \<Rightarrow> False
      | Some v \<Rightarrow> snapshot_op v = snapshot_op (rsp_value r)
          \<and> (is_terminal (hdr_state (snap_operation v)) \<or> rs_revision (rsp_stamp r) \<le> opp_revision p))"

definition operation_projection_apply ::
    "operation_snapshot response \<Rightarrow> session \<Rightarrow> navigation option \<Rightarrow> operation_projection \<Rightarrow> bool \<times> operation_projection" where
  "operation_projection_apply r s nav p =
     (if snapshot_op (rsp_value r) \<noteq> opp_id p \<or> \<not> accepts_stamp s (rsp_stamp r) nav then (False, p)
      else let p = fresh_generation (rs_generation (rsp_stamp r)) p in
        if kept_over p r then (False, p)
        else (True, p\<lparr>opp_revision := rs_revision (rsp_stamp r), opp_generation := Some (rs_generation (rsp_stamp r)),
          opp_current := Some (rsp_value r)\<rparr>))"

subsection \<open>The shutdown view\<close>

datatype shutdown_stage = Starting | Working | Finishing_work | Saving_changes | Restoring_changes
  | Finishing_changes | Ready_to_close | Recovery_required

record shutdown_presentation =
  pres_stage :: shutdown_stage
  pres_elapsed :: nat
  pres_escalation :: bool

definition escalation_after :: nat where
  "escalation_after = 10000000000"

fun stage_key :: "shutdown_stage \<Rightarrow> string" where
  "stage_key Starting = ''shutdown.starting''"
| "stage_key Working = ''shutdown.working''"
| "stage_key Finishing_work = ''shutdown.finishing_work''"
| "stage_key Saving_changes = ''shutdown.saving_changes''"
| "stage_key Restoring_changes = ''shutdown.restoring_changes''"
| "stage_key Finishing_changes = ''shutdown.finishing_changes''"
| "stage_key Ready_to_close = ''shutdown.ready_to_close''"
| "stage_key Recovery_required = ''shutdown.recovery_required''"

definition force_quit_warning_key :: "shutdown_presentation \<Rightarrow> string option" where
  "force_quit_warning_key p =
     (if pres_escalation p then Some ''shutdown.force_quit_requires_restart_recovery'' else None)"

text \<open>A duration in nanoseconds.\<close>

definition presentation_new :: "shutdown_stage \<Rightarrow> nat \<Rightarrow> shutdown_presentation" where
  "presentation_new st elapsed =
     \<lparr>pres_stage = st, pres_elapsed = elapsed,
      pres_escalation = (elapsed \<ge> escalation_after \<and> st \<noteq> Working \<and> st \<noteq> Ready_to_close)\<rparr>"

definition stopping_stage :: "phase list \<Rightarrow> shutdown_stage" where
  "stopping_stage phases =
     (if Phase_compensating \<in> set phases then Restoring_changes
      else if list_ex (\<lambda>p. p = Phase_committing \<or> p = Phase_reporting \<or> p = Phase_reconciling) phases then Saving_changes
      else if Phase_settling \<in> set phases then Finishing_changes
      else Finishing_work)"

definition stage_of :: "session \<Rightarrow> job_slot list \<Rightarrow> shutdown_stage" where
  "stage_of s slots =
     (let st = status s in
      if st_failed st then Recovery_required
      else if st_drained st then Ready_to_close
      else if st_starting st then Starting
      else if \<not> st_stopping st then Working
      else stopping_stage (take_phases (map fl_item (inflight s)) slots))"

definition shutdown_view :: "session \<Rightarrow> job_slot list \<Rightarrow> nat \<Rightarrow> shutdown_presentation" where
  "shutdown_view s slots elapsed = presentation_new (stage_of s slots) elapsed"

subsection \<open>What a slot keeps\<close>

text \<open>Steps of one slot, with the number of epochs used so far: a sink exists only for a used epoch.\<close>

datatype slot_event = Bound nat | Advanced nat i64 bool | Phased nat phase bool | Owned nat phase bool | Sealed nat
  | Taken_update | Noted progress_update

inductive slot_step :: "nat \<times> job_slot \<Rightarrow> slot_event \<Rightarrow> nat \<times> job_slot \<Rightarrow> bool" where
  s_bind: "slot_step (n, s) (Bound n) (Suc n, sink_bind n generation item p export)"
| s_advance: "e < n \<Longrightarrow> sink_advance e v s = (b, t) \<Longrightarrow> slot_step (n, s) (Advanced e v b) (n, t)"
| s_phase: "e < n \<Longrightarrow> sink_phase e ph s = (b, t) \<Longrightarrow> slot_step (n, s) (Phased e ph b) (n, t)"
| s_owned: "e < n \<Longrightarrow> sink_owned_phase e ph s = (b, t) \<Longrightarrow> slot_step (n, s) (Owned e ph b) (n, t)"
| s_seal: "e < n \<Longrightarrow> slot_step (n, s) (Sealed e) (n, sink_seal e s)"
| s_take: "slot_step (n, s) Taken_update (n, snd (take_slot s))"
| s_noted: "slot_step (n, s) (Noted p) (n, note_saved p s)"

fun accepted_by :: "nat \<Rightarrow> slot_event \<Rightarrow> bool" where
  "accepted_by e (Advanced e' _ b) \<longleftrightarrow> e' = e \<and> b"
| "accepted_by e (Phased e' _ b) \<longleftrightarrow> e' = e \<and> b"
| "accepted_by e (Owned e' _ b) \<longleftrightarrow> e' = e \<and> b"
| "accepted_by _ _ \<longleftrightarrow> False"

definition later_update :: "progress_update \<Rightarrow> progress_update \<Rightarrow> bool" where
  "later_update u v \<longleftrightarrow>
     upd_item v = upd_item u \<and> upd_generation v = upd_generation u \<and> upd_total v = upd_total u
     \<and> upd_completed u \<le> upd_completed v \<and> upd_completed v \<le> max (upd_completed u) (upd_total u)
     \<and> upd_revision u \<le> upd_revision v"

definition later_slot :: "job_slot \<Rightarrow> job_slot \<Rightarrow> bool" where
  "later_slot s t \<longleftrightarrow>
     (case (slot_latest s, slot_latest t) of
        (Some u, Some v) \<Rightarrow> later_update u v
          \<and> (slot_sealed s \<longrightarrow> slot_sealed t \<and> upd_completed v = upd_completed u \<and> upd_revision v = upd_revision u)
      | (None, None) \<Rightarrow> slot_sealed s \<longrightarrow> slot_sealed t
      | _ \<Rightarrow> False)"

lemma later_slot_refl: "later_slot s s"
  by (simp add: later_slot_def later_update_def split: option.split)

lemma later_slot_trans: "later_slot r s \<Longrightarrow> later_slot s t \<Longrightarrow> later_slot r t"
  by (auto simp: later_slot_def later_update_def max_def split: option.splits if_splits)

lemma sink_advance_later: "later_slot s (snd (sink_advance e v s))"
  by (auto simp: sink_advance_def advance_def later_slot_def later_update_def u64_checked_add_def
      split: option.splits if_splits)

lemma with_phase_later: "later_slot s (with_phase ph s)"
  by (simp add: with_phase_def later_slot_def later_update_def split: option.split)

lemma sink_seal_later: "later_slot s (sink_seal e s) \<and> slot_epoch (sink_seal e s) = slot_epoch s"
  by (cases "slot_epoch s = e") (auto simp: sink_seal_def later_slot_def later_update_def split: option.split)

lemma take_slot_later: "later_slot s (snd (take_slot s)) \<and> slot_epoch (snd (take_slot s)) = slot_epoch s"
  by (cases "slot_dirty s") (auto simp: take_slot_def later_slot_def later_update_def split: option.split)

lemma note_saved_later: "later_slot s (note_saved p s) \<and> slot_epoch (note_saved p s) = slot_epoch s"
  by (cases "slot_latest s") (auto simp: note_saved_def later_slot_def later_update_def)

lemma slot_step_later:
  assumes "slot_step (n, s) a (m, t)" "slot_epoch s < n"
  shows "slot_epoch t < m \<and> n \<le> m \<and> (slot_epoch t = slot_epoch s \<and> later_slot s t \<or> n \<le> slot_epoch t)
    \<and> (accepted_by e a \<longrightarrow> e = slot_epoch s)"
  using assms
proof (induction "(n, s)" a "(m, t)" rule: slot_step.induct)
  case (s_bind generation item p export)
  then show ?case by (auto simp: sink_bind_def)
next
  case (s_advance e' v b)
  then show ?case using sink_advance_later [of s e' v]
    by (auto simp: sink_advance_def split: option.splits if_splits)
next
  case (s_phase e' ph b)
  then show ?case using with_phase_later [of s ph] later_slot_refl [of s]
    by (auto simp: sink_phase_def with_phase_def split: if_splits)
next
  case (s_owned e' ph b)
  then show ?case using with_phase_later [of s ph] later_slot_refl [of s]
    by (auto simp: sink_owned_phase_def with_phase_def split: if_splits)
next
  case (s_seal e')
  then show ?case using sink_seal_later [of s e'] by auto
next
  case s_take
  then show ?case using take_slot_later [of s] by auto
next
  case (s_noted p)
  then show ?case using note_saved_later [of s p] by auto
qed

lemma slot_run_later:
  "run slot_step x as y \<Longrightarrow> slot_epoch (snd x) < fst x \<Longrightarrow>
     slot_epoch (snd y) < fst y \<and> fst x \<le> fst y
     \<and> (slot_epoch (snd y) = slot_epoch (snd x) \<and> later_slot (snd x) (snd y) \<or> fst x \<le> slot_epoch (snd y))
     \<and> (e < fst x \<and> e \<noteq> slot_epoch (snd x) \<longrightarrow> \<not> list_ex (accepted_by e) as)"
proof (induction rule: run.induct)
  case (run_nil s)
  then show ?case by (simp add: later_slot_refl)
next
  case (run_cons s a t as u)
  have st: "slot_step (fst s, snd s) a (fst t, snd t)" using run_cons.hyps(1) by simp
  note one = slot_step_later [OF st run_cons.prems, of e]
  have t: "slot_epoch (snd t) < fst t" using one by simp
  note ih = run_cons.IH [OF t]
  have "slot_epoch (snd u) = slot_epoch (snd s) \<and> later_slot (snd s) (snd u) \<or> fst s \<le> slot_epoch (snd u)"
  proof (cases "slot_epoch (snd u) = slot_epoch (snd t) \<and> later_slot (snd t) (snd u)")
    case True
    then show ?thesis using one later_slot_trans [of "snd s" "snd t" "snd u"] by fastforce
  next
    case False
    then show ?thesis using one ih by linarith
  qed
  moreover have "\<not> list_ex (accepted_by e) (a # as)" if e: "e < fst s \<and> e \<noteq> slot_epoch (snd s)"
  proof -
    have "e < fst t" "e \<noteq> slot_epoch (snd t)" using e one by linarith+
    then show ?thesis using ih one e by simp
  qed
  moreover have "slot_epoch (snd u) < fst u" "fst s \<le> fst u" using one ih by linarith+
  ultimately show ?case by blast
qed

text \<open>C36: while a slot stays bound to one item, its progress only moves forward: the completed bytes never go
  back nor past the total, revisions do not decrease, item, generation and total are fixed, and a sealed slot
  stays sealed and does not advance. A sink whose epoch is not the slot's is refused for ever, whatever other
  items are bound in between.\<close>

theorem progress_moves_forward:
  assumes "run slot_step (n, s) as (m, t)" "slot_epoch s < n"
  shows "(slot_epoch t = slot_epoch s \<longrightarrow> later_slot s t)
    \<and> (\<forall>e. e < n \<and> e \<noteq> slot_epoch s \<longrightarrow> \<not> list_ex (accepted_by e) as)"
  using slot_run_later [OF assms(1)] assms(2) by auto

theorem progress_moves_forward_witness:
  "later_slot (sink_bind 0 1 7 \<lparr>prg_completed = 0, prg_total = 9\<rparr> True)
     (snd (sink_advance 0 5 (sink_bind 0 1 7 \<lparr>prg_completed = 0, prg_total = 9\<rparr> True)))"
proof -
  let ?s = "sink_bind 0 1 7 \<lparr>prg_completed = 0, prg_total = 9\<rparr> True"
  have "slot_step (1, ?s) (Advanced 0 5 (fst (sink_advance 0 5 ?s))) (1, snd (sink_advance 0 5 ?s))"
    by (rule s_advance) simp_all
  then have "run slot_step (1, ?s) [Advanced 0 5 (fst (sink_advance 0 5 ?s))] (1, snd (sink_advance 0 5 ?s))"
    by (simp add: run_Cons_simp run_Nil_simp)
  from progress_moves_forward [OF this] show ?thesis
    by (simp add: sink_bind_def sink_advance_def advance_def u64_checked_add_def)
qed

subsection \<open>What the projection keeps\<close>

lemma projection_terminal_step:
  assumes "opp_current p = Some v" "is_terminal (hdr_state (snap_operation v))" "snapshot_op v = opp_id p"
    "rs_generation (rsp_stamp r) = g" "opp_generation p = Some g"
  shows "operation_projection_apply r s nav p = (False, p)"
  using assms by (auto simp: operation_projection_apply_def fresh_generation_def kept_over_def)

lemma projection_revision_step:
  assumes "operation_projection_apply r s nav p = (True, q)" "opp_current p = Some v" "snapshot_op v = opp_id p"
    "opp_generation p = Some (rs_generation (rsp_stamp r))"
  shows "opp_revision p < opp_revision q \<and> opp_generation q = opp_generation p"
  using assms by (auto simp: operation_projection_apply_def fresh_generation_def kept_over_def Let_def split: if_splits)

subsection \<open>What the shutdown view says\<close>

lemma stopping_stage_not [simp]:
  "stopping_stage ps \<noteq> Ready_to_close" "stopping_stage ps \<noteq> Working" "stopping_stage ps \<noteq> Starting"
  "stopping_stage ps \<noteq> Recovery_required"
  by (simp_all add: stopping_stage_def)

text \<open>the shutdown view tells the truth about every reachable session: it says "ready to close" exactly
  when the session is drained, and then no item is held or queued; it says "working" only before a stop was
  requested; in every stage after the stop all tokens are cancelled; and a forced quit is offered only ten
  seconds after the stop and never while the session works or is ready.\<close>

theorem shutdown_view_truthful:
  assumes "session_reachable c k"
  shows "(pres_stage (shutdown_view (ses k) slots n) = Ready_to_close \<longleftrightarrow> st_drained (status (ses k)))
    \<and> (pres_stage (shutdown_view (ses k) slots n) = Ready_to_close \<longrightarrow> held (wrk k) = {#} \<and> queue (ses k) = [])
    \<and> (pres_stage (shutdown_view (ses k) slots n) = Working \<longrightarrow> \<not> stopping (ses k))
    \<and> (pres_stage (shutdown_view (ses k) slots n) \<in> {Restoring_changes, Saving_changes, Finishing_changes, Finishing_work}
        \<longrightarrow> stopping (ses k) \<and> \<not> finished (ses k) \<and> list_all fl_cancelled (inflight (ses k)))
    \<and> (force_quit_warning_key (shutdown_view (ses k) slots n) \<noteq> None
        \<longrightarrow> n \<ge> escalation_after \<and> (stopping (ses k) \<or> failed (ses k) \<or> \<not> session_ready (ses k)))"
proof -
  have ok: "crew_ok c k" by (rule session_ok [OF assms])
  let ?p = "shutdown_view (ses k) slots n"
  have st: "pres_stage ?p = stage_of (ses k) slots" by (simp add: shutdown_view_def presentation_new_def)
  have ready: "stage_of (ses k) slots = Ready_to_close \<longleftrightarrow> finished (ses k) \<and> \<not> failed (ses k)"
    by (auto simp: stage_of_def status_def Let_def)
  have "held (wrk k) = {#} \<and> queue (ses k) = []" if "finished (ses k) \<and> \<not> failed (ses k)"
    using that ok no_tokens [of c "ses k" "wrk k"] by (auto simp: crew_ok_def coordinated_def)
  moreover have "stage_of (ses k) slots = Working \<longrightarrow> \<not> stopping (ses k)"
    by (auto simp: stage_of_def status_def Let_def split: if_splits)
  moreover have "stopping (ses k) \<and> \<not> finished (ses k) \<and> \<not> failed (ses k)"
    if "stage_of (ses k) slots \<in> {Restoring_changes, Saving_changes, Finishing_changes, Finishing_work}"
    using that by (auto simp: stage_of_def status_def Let_def split: if_splits)
  moreover have "n \<ge> escalation_after \<and> (stopping (ses k) \<or> failed (ses k) \<or> \<not> session_ready (ses k))"
    if "force_quit_warning_key ?p \<noteq> None"
    using that by (auto simp: force_quit_warning_key_def shutdown_view_def presentation_new_def stage_of_def status_def
        Let_def split: if_splits)
  ultimately show ?thesis
    using ok ready unfolding st crew_ok_def revoked_def by (auto simp: status_def)
qed

theorem shutdown_view_truthful_witness:
  "pres_stage (shutdown_view (ses sample_busy) [] 0) = Working \<and> \<not> stopping (ses sample_busy)"
  using shutdown_view_truthful [OF sample_busy_reachable, of "[]" 0]
  by (simp add: shutdown_view_def presentation_new_def stage_of_def status_def sample_busy_def sample_crew_def
      session_new_def)

end
