(* ===== verification/Timestamps.thy ===== *)
theory Timestamps
  imports Prelude
begin

section \<open>Timestamps of the metadata service\<close>

text \<open>
  \<open>librairii-app/src/metadata/timestamp.rs\<close> with the error type of \<open>librairii-core/src/metadata.rs\<close>:
  the accepted spellings of an RFC 3339 time and its canonical UTC form. The dates of the \<open>time\<close> crate
  are a parameter: \<open>to_day\<close> numbers the valid dates (\<open>from_calendar_date\<close>) and \<open>of_day\<close> is its inverse,
  undefined outside the range of the crate, so that a date and time less a number of seconds is computed
  on day numbers and seconds of the day.
\<close>

datatype metadata_error =
  InvalidConfiguration | Network | Redirect | Status | TooLarge | InvalidJson | InvalidToken
  | Metadata_cancelled | Metadata_busy | InvalidCatalog | Metadata_transition | InvalidArtwork | ArtworkNotFound

fun metadata_error_code :: "metadata_error \<Rightarrow> string" where
  "metadata_error_code InvalidConfiguration = ''metadata.invalid_configuration''"
| "metadata_error_code Network = ''metadata.network_failed''"
| "metadata_error_code Redirect = ''metadata.unexpected_redirect''"
| "metadata_error_code Status = ''metadata.unexpected_status''"
| "metadata_error_code TooLarge = ''metadata.response_too_large''"
| "metadata_error_code InvalidJson = ''metadata.invalid_json''"
| "metadata_error_code InvalidToken = ''metadata.invalid_guest_token''"
| "metadata_error_code Metadata_cancelled = ''metadata.cancelled''"
| "metadata_error_code Metadata_busy = ''metadata.busy''"
| "metadata_error_code InvalidCatalog = ''metadata.catalog_invalid''"
| "metadata_error_code Metadata_transition = ''metadata.invalid_transition''"
| "metadata_error_code InvalidArtwork = ''metadata.artwork_invalid''"
| "metadata_error_code ArtworkNotFound = ''metadata.artwork_not_found''"

subsection \<open>Decimal numbers\<close>

definition digit_value :: "char \<Rightarrow> nat" where
  "digit_value c = of_char c - 48"

definition decimal_value :: "string \<Rightarrow> nat" where
  "decimal_value s = foldl (\<lambda>n c. 10 * n + digit_value c) 0 s"

definition digit_char :: "nat \<Rightarrow> char" where
  "digit_char n = char_of (48 + n)"

text \<open>\<open>format!("{:0w}")\<close> of a number of at most \<open>w\<close> digits.\<close>

fun padded :: "nat \<Rightarrow> nat \<Rightarrow> string" where
  "padded 0 n = []"
| "padded (Suc w) n = padded w (n div 10) @ [digit_char (n mod 10)]"

lemma digit_char_digit: "n < 10 \<Longrightarrow> is_ascii_digit (digit_char n) \<and> digit_value (digit_char n) = n"
  by (simp add: digit_char_def digit_value_def ascii_defs of_char_of)

lemma length_padded [simp]: "length (padded w n) = w"
  by (induction w n rule: padded.induct) simp_all

lemma padded_digits [simp]: "list_all is_ascii_digit (padded w n)"
  by (induction w n rule: padded.induct) (simp_all add: digit_char_digit)

lemma decimal_value_snoc: "decimal_value (s @ [c]) = 10 * decimal_value s + digit_value c"
  by (simp add: decimal_value_def)

lemma decimal_value_padded: "n < 10 ^ w \<Longrightarrow> decimal_value (padded w n) = n"
proof (induction w n rule: padded.induct)
  case (2 w n)
  then have "decimal_value (padded w (n div 10)) = n div 10" by (simp add: less_mult_imp_div_less mult.commute)
  then show ?case by (simp add: decimal_value_snoc digit_char_digit)
qed (simp add: decimal_value_def)

lemma padded_take: "w \<le> v \<Longrightarrow> take w (padded w n @ xs) = padded w n"
  by simp

definition number :: "string \<Rightarrow> metadata_error + nat" where
  "number s =
     (if s = [] \<or> \<not> list_all is_ascii_digit s then Inl InvalidCatalog
      else if decimal_value s > 4294967295 then Inl InvalidCatalog
      else Inr (decimal_value s))"

lemma number_padded: "0 < w \<Longrightarrow> w \<le> 9 \<Longrightarrow> n < 10 ^ w \<Longrightarrow> number (padded w n) = Inr n"
proof -
  assume w: "0 < w" "w \<le> 9" "n < 10 ^ w"
  have "(10 :: nat) ^ w \<le> 10 ^ 9" using w(2) by (rule power_increasing) simp
  then have "n \<le> 4294967295" using w(3) by simp
  moreover have "padded w n \<noteq> []" using w(1) length_padded [of w n] by (metis list.size(3) less_irrefl)
  ultimately show ?thesis using w by (simp add: number_def decimal_value_padded)
qed

text \<open>\<open>trim_end_matches('0')\<close>.\<close>

definition trim_zeros :: "string \<Rightarrow> string" where
  "trim_zeros s = rev (dropWhile (\<lambda>c. c = CHR ''0'') (rev s))"

lemma trim_zeros_split: "\<exists>k. s = trim_zeros s @ replicate k (CHR ''0'')"
proof -
  have "rev s = takeWhile (\<lambda>c. c = CHR ''0'') (rev s) @ dropWhile (\<lambda>c. c = CHR ''0'') (rev s)" by simp
  then have "s = trim_zeros s @ rev (takeWhile (\<lambda>c. c = CHR ''0'') (rev s))"
    by (metis rev_append rev_rev_ident trim_zeros_def)
  moreover have "rev (takeWhile (\<lambda>c. c = CHR ''0'') (rev s))
      = replicate (length (takeWhile (\<lambda>c. c = CHR ''0'') (rev s))) (CHR ''0'')"
    by (rule replicate_eqI) (auto dest: set_takeWhileD)
  ultimately show ?thesis by metis
qed

lemma decimal_value_zeros: "decimal_value (s @ replicate k (CHR ''0'')) = decimal_value s * 10 ^ k"
proof (induction k)
  case (Suc k)
  have "s @ replicate (Suc k) (CHR ''0'') = (s @ replicate k (CHR ''0'')) @ [CHR ''0'']"
    by (simp add: replicate_append_same)
  then show ?case using Suc by (simp only: decimal_value_snoc) (simp add: digit_value_def)
qed simp

lemma trim_zeros_value:
  assumes "n < 10 ^ w"
  shows "decimal_value (trim_zeros (padded w n)) * 10 ^ (w - length (trim_zeros (padded w n))) = n"
    and "length (trim_zeros (padded w n)) \<le> w" and "list_all is_ascii_digit (trim_zeros (padded w n))"
    and "0 < n \<Longrightarrow> trim_zeros (padded w n) \<noteq> []"
proof -
  obtain k where k: "padded w n = trim_zeros (padded w n) @ replicate k (CHR ''0'')"
    using trim_zeros_split by blast
  have len: "w = length (trim_zeros (padded w n)) + k" using arg_cong [OF k, of length] by simp
  then show "length (trim_zeros (padded w n)) \<le> w" by simp
  have "list_all is_ascii_digit (trim_zeros (padded w n) @ replicate k (CHR ''0''))"
    using padded_digits [of w n] k by simp
  then show "list_all is_ascii_digit (trim_zeros (padded w n))" by simp
  have "n = decimal_value (trim_zeros (padded w n) @ replicate k (CHR ''0''))"
    using decimal_value_padded [OF assms] k by simp
  then have v: "n = decimal_value (trim_zeros (padded w n)) * 10 ^ k" by (simp only: decimal_value_zeros)
  then show "decimal_value (trim_zeros (padded w n)) * 10 ^ (w - length (trim_zeros (padded w n))) = n"
    using len by (metis add_diff_cancel_left')
  show "trim_zeros (padded w n) \<noteq> []" if "0 < n"
    using v that by (auto simp: decimal_value_def)
qed

subsection \<open>The accepted spellings\<close>

definition ensure :: "bool \<Rightarrow> metadata_error + unit" where
  "ensure b = (if b then Inr () else Inl InvalidCatalog)"

lemma ensure_simps [simp]: "ensure True = Inr ()" "ensure False = Inl InvalidCatalog"
  by (simp_all add: ensure_def)

lemma ensure_Ok_iff [simp]: "ensure b = Inr u \<longleftrightarrow> b"
  by (cases b) simp_all

text \<open>\<open>str.get(i..i+1) == Some(c)\<close> on an ASCII string.\<close>

definition char_is :: "string \<Rightarrow> nat \<Rightarrow> char \<Rightarrow> bool" where
  "char_is s i c \<longleftrightarrow> i < length s \<and> s ! i = c"

definition fraction_of :: "string \<Rightarrow> metadata_error + (nat \<times> string)" where
  "fraction_of rest =
     (if rest \<noteq> [] \<and> (hd rest = CHR ''.'' \<or> hd rest = CHR '','') then
        let rest = tl rest; count = length (takeWhile is_ascii_digit rest) in
        and_then (ensure (count \<noteq> 0)) (\<lambda>_.
          let digits = take (min count 9) rest in
          and_then (number digits) (\<lambda>v. Inr (v * 10 ^ (9 - length digits), drop count rest)))
      else Inr (0, rest))"

definition offset_of :: "string \<Rightarrow> metadata_error + int" where
  "offset_of rest =
     (if rest = ''Z'' then Inr 0
      else and_then (ensure (length rest = 6 \<and> (hd rest = CHR ''+'' \<or> hd rest = CHR ''-'') \<and> rest ! 3 = CHR '':'')) (\<lambda>_.
        and_then (number (take 2 (drop 1 rest))) (\<lambda>h.
        and_then (number (take 2 (drop 4 rest))) (\<lambda>m.
        and_then (ensure (\<not> (h > 24 \<or> m > 60))) (\<lambda>_.
          let seconds = int (h * 3600 + m * 60) in
          Inr (if hd rest = CHR ''-'' then - seconds else seconds))))))"

record clock_fields =
  f_year :: nat
  f_month :: nat
  f_day :: nat
  f_hour :: nat
  f_minute :: nat
  f_second :: nat
  f_nanos :: nat
  f_offset :: int

text \<open>All numbers but the year have at most two digits, so the casts to \<open>u8\<close> keep them.\<close>

definition clock_of :: "string \<Rightarrow> metadata_error + (nat \<times> nat \<times> nat \<times> nat \<times> int)" where
  "clock_of rest =
     (let colon = length (takeWhile (\<lambda>c. c \<noteq> CHR '':'') rest) in
      and_then (ensure (colon < length rest)) (\<lambda>_.
      and_then (ensure (1 \<le> colon \<and> colon \<le> 2)) (\<lambda>_.
      and_then (number (take colon rest)) (\<lambda>hour.
        let rest = drop (colon + 1) rest in
        and_then (ensure (\<not> (length rest < 6 \<or> \<not> char_is rest 2 (CHR '':'')))) (\<lambda>_.
        and_then (number (take 2 rest)) (\<lambda>minute.
        and_then (number (take 2 (drop 3 rest))) (\<lambda>second.
        and_then (fraction_of (drop 5 rest)) (\<lambda>(nanos, rest).
        and_then (offset_of rest) (\<lambda>offset.
          Inr (hour, minute, second, nanos, offset))))))))))"

definition time_fields :: "string \<Rightarrow> metadata_error + clock_fields" where
  "time_fields s =
     and_then (ensure (\<not> (\<not> list_all (\<lambda>c. of_char c < (128::nat)) s \<or> length s < 19
        \<or> \<not> char_is s 4 (CHR ''-'') \<or> \<not> char_is s 7 (CHR ''-'') \<or> \<not> char_is s 10 (CHR ''T'')))) (\<lambda>_.
     and_then (number (take 4 s)) (\<lambda>year.
     and_then (number (take 2 (drop 5 s))) (\<lambda>month.
     and_then (number (take 2 (drop 8 s))) (\<lambda>day.
     and_then (clock_of (drop 11 s)) (\<lambda>(hour, minute, second, nanos, offset).
       Inr \<lparr>f_year = year, f_month = month, f_day = day, f_hour = hour, f_minute = minute, f_second = second,
         f_nanos = nanos, f_offset = offset\<rparr>)))))"

subsection \<open>The canonical form\<close>

record calendar =
  to_day :: "int \<Rightarrow> nat \<Rightarrow> nat \<Rightarrow> int option"
  of_day :: "int \<Rightarrow> (int \<times> nat \<times> nat) option"

definition format_time :: "int \<Rightarrow> nat \<Rightarrow> nat \<Rightarrow> nat \<Rightarrow> nat \<Rightarrow> string" where
  "format_time year month day sec nanos =
     (if year < 0 then CHR ''-'' # padded 4 (nat (- year)) else padded 4 (nat year))
     @ ''-'' @ padded 2 month @ ''-'' @ padded 2 day
     @ ''T'' @ padded 2 (sec div 3600) @ '':'' @ padded 2 (sec div 60 mod 60) @ '':'' @ padded 2 (sec mod 60)
     @ (if nanos = 0 then [] else CHR ''.'' # trim_zeros (padded 9 nanos)) @ ''Z''"

definition clock_seconds :: "clock_fields \<Rightarrow> int" where
  "clock_seconds f = int (f_hour f * 3600 + f_minute f * 60 + f_second f) - f_offset f"

definition utc_time :: "calendar \<Rightarrow> string \<Rightarrow> metadata_error + string" where
  "utc_time cal s =
     and_then (time_fields s) (\<lambda>f.
     and_then (ensure (1 \<le> f_month f \<and> f_month f \<le> 12)) (\<lambda>_.
     and_then (ok_or InvalidCatalog (to_day cal (int (f_year f)) (f_month f) (f_day f))) (\<lambda>day.
     and_then (ensure (f_hour f < 24 \<and> f_minute f < 60 \<and> f_second f < 60 \<and> f_nanos f < 1000000000)) (\<lambda>_.
       let seconds = clock_seconds f in
       and_then (ok_or InvalidCatalog (of_day cal (day + seconds div 86400))) (\<lambda>(y, m, d).
         Inr (format_time y m d (nat (seconds mod 86400)) (f_nanos f)))))))"

subsection \<open>The canonical form is read back\<close>

lemma digit_not: "is_ascii_digit c \<Longrightarrow> c \<noteq> CHR '':'' \<and> c \<noteq> CHR ''Z'' \<and> c \<noteq> CHR ''-'' \<and> (of_char c :: nat) < 128"
  by (auto simp: ascii_defs)

lemma padded_char: "c \<in> set (padded w n) \<Longrightarrow> is_ascii_digit c"
  using padded_digits [of w n] by (simp add: list_all_iff)

lemma takeWhile_colon: "takeWhile (\<lambda>c. c \<noteq> CHR '':'') (padded w n @ CHR '':'' # xs) = padded w n"
  using digit_not padded_char by (simp add: takeWhile_append2)

lemma fraction_of_format:
  assumes "nanos < 10 ^ 9"
  shows "fraction_of ((if nanos = 0 then [] else CHR ''.'' # trim_zeros (padded 9 nanos)) @ ''Z'') = Inr (nanos, ''Z'')"
proof (cases "nanos = 0")
  case False
  let ?t = "trim_zeros (padded 9 nanos)"
  note t = trim_zeros_value [OF assms]
  have tw: "takeWhile is_ascii_digit (?t @ ''Z'') = ?t"
    using t(3) by (simp add: takeWhile_append2 list_all_iff ascii_defs)
  have ne: "?t \<noteq> []" using t(4) False by simp
  have "decimal_value ?t \<le> nanos" using t(1) by (metis le_add1 mult_le_mono2 nat_mult_1_right one_le_numeral one_le_power)
  then have "number ?t = Inr (decimal_value ?t)" using t(3) ne assms by (simp add: number_def)
  then show ?thesis using False t(1,2) tw ne by (simp add: fraction_of_def Let_def min_def)
qed (simp add: fraction_of_def)

lemma clock_of_format:
  assumes "h < 100" "m < 100" "s < 100" "nanos < 10 ^ 9"
  shows "clock_of (padded 2 h @ '':'' @ padded 2 m @ '':'' @ padded 2 s
      @ (if nanos = 0 then [] else CHR ''.'' # trim_zeros (padded 9 nanos)) @ ''Z'') = Inr (h, m, s, nanos, 0)"
proof -
  let ?f = "(if nanos = 0 then [] else CHR ''.'' # trim_zeros (padded 9 nanos)) @ ''Z''"
  have "number (padded 2 h) = Inr h" "number (padded 2 m) = Inr m" "number (padded 2 s) = Inr s"
    using assms by (simp_all add: number_padded)
  moreover have "char_is (padded 2 m @ CHR '':'' # padded 2 s @ ?f) 2 (CHR '':'')"
    by (simp add: char_is_def nth_append)
  ultimately show ?thesis
    using fraction_of_format [OF assms(4)] by (simp add: clock_of_def Let_def takeWhile_colon offset_of_def)
qed

lemma time_fields_format:
  assumes "0 \<le> y" "y < 10000" "mo < 100" "d < 100" "sec < 86400" "nanos < 10 ^ 9"
  shows "time_fields (format_time y mo d sec nanos)
    = Inr \<lparr>f_year = nat y, f_month = mo, f_day = d, f_hour = sec div 3600, f_minute = sec div 60 mod 60,
        f_second = sec mod 60, f_nanos = nanos, f_offset = 0\<rparr>"
proof -
  let ?c = "padded 2 (sec div 3600) @ '':'' @ padded 2 (sec div 60 mod 60) @ '':'' @ padded 2 (sec mod 60)
      @ (if nanos = 0 then [] else CHR ''.'' # trim_zeros (padded 9 nanos)) @ ''Z''"
  have f: "format_time y mo d sec nanos = padded 4 (nat y) @ CHR ''-'' # padded 2 mo @ CHR ''-'' # padded 2 d @ CHR ''T'' # ?c"
    using assms(1) by (simp add: format_time_def)
  have "sec div 3600 < 100" "sec div 60 mod 60 < 100" "sec mod 60 < 100"
    using assms(5) by (simp_all add: less_mult_imp_div_less order_less_trans [OF mod_less_divisor])
  then have c: "clock_of ?c = Inr (sec div 3600, sec div 60 mod 60, sec mod 60, nanos, 0)"
    using clock_of_format assms(6) by blast
  have n: "number (padded 4 (nat y)) = Inr (nat y)" "number (padded 2 mo) = Inr mo" "number (padded 2 d) = Inr d"
    using assms by (simp_all add: number_padded)
  have ascii: "list_all (\<lambda>c. of_char c < (128::nat)) (format_time y mo d sec nanos)"
    using digit_not padded_char trim_zeros_value(3) [OF assms(6)] by (auto simp: f list_all_iff)
  have at: "char_is (format_time y mo d sec nanos) 4 (CHR ''-'')" "char_is (format_time y mo d sec nanos) 7 (CHR ''-'')"
      "char_is (format_time y mo d sec nanos) 10 (CHR ''T'')" "19 \<le> length (format_time y mo d sec nanos)"
    by (simp_all add: f char_is_def nth_append nth_Cons')
  have parts: "take 4 (format_time y mo d sec nanos) = padded 4 (nat y)"
      "take 2 (drop 5 (format_time y mo d sec nanos)) = padded 2 mo"
      "take 2 (drop 8 (format_time y mo d sec nanos)) = padded 2 d"
      "drop 11 (format_time y mo d sec nanos) = ?c"
    by (simp_all add: f drop_Cons')
  show ?thesis
    unfolding time_fields_def parts n c using ascii at by simp
qed

text \<open>What the code relies on: the day numbers of the valid dates, within the years of the crate.\<close>

definition calendar_ok :: "calendar \<Rightarrow> bool" where
  "calendar_ok cal \<longleftrightarrow>
     (\<forall>y m d n. to_day cal y m d = Some n \<longleftrightarrow> of_day cal n = Some (y, m, d))
     \<and> (\<forall>n y m d. of_day cal n = Some (y, m, d) \<longrightarrow> - 9999 \<le> y \<and> y \<le> 9999 \<and> 1 \<le> m \<and> m \<le> 12 \<and> 1 \<le> d \<and> d \<le> 31)"

lemma utc_time_formats:
  assumes "calendar_ok cal" "utc_time cal s = Inr t"
  shows "\<exists>y m d n sec nanos. t = format_time y m d sec nanos \<and> of_day cal n = Some (y, m, d) \<and> sec < 86400
    \<and> nanos < 1000000000"
proof -
  obtain f day y m d where *: "of_day cal (day + clock_seconds f div 86400) = Some (y, m, d)"
      "f_nanos f < 1000000000" "t = format_time y m d (nat (clock_seconds f mod 86400)) (f_nanos f)"
    using assms(2) by (auto simp: utc_time_def result_iffs Let_def)
  have "nat (clock_seconds f mod 86400) < 86400" by (simp add: nat_less_iff)
  then show ?thesis using * by blast
qed

lemma format_reads_back:
  assumes cal: "calendar_ok cal" and d: "of_day cal n = Some (y, mo, d)" and y: "0 \<le> y"
    and r: "sec < 86400" "nanos < 1000000000"
  shows "utc_time cal (format_time y mo d sec nanos) = Inr (format_time y mo d sec nanos)"
proof -
  have "y \<le> 9999 \<and> 1 \<le> mo \<and> mo \<le> 12 \<and> d \<le> 31" using cal d unfolding calendar_ok_def by blast
  then have lim: "y < 10000" "1 \<le> mo" "mo \<le> 12" "d \<le> 31" by simp_all
  have day: "to_day cal y mo d = Some n" using cal d by (simp add: calendar_ok_def)
  have fields: "time_fields (format_time y mo d sec nanos)
    = Inr \<lparr>f_year = nat y, f_month = mo, f_day = d, f_hour = sec div 3600, f_minute = sec div 60 mod 60,
        f_second = sec mod 60, f_nanos = nanos, f_offset = 0\<rparr>"
    using time_fields_format [of y mo d sec nanos] lim y r by simp
  have "sec div 3600 * 3600 + sec div 60 mod 60 * 60 + sec mod 60 = sec"
  proof -
    have "sec div 3600 = sec div 60 div 60" by (simp add: div_mult2_eq [symmetric])
    then show ?thesis using div_mult_mod_eq [of "sec div 60" 60] div_mult_mod_eq [of sec 60] by linarith
  qed
  then have sec: "clock_seconds \<lparr>f_year = nat y, f_month = mo, f_day = d, f_hour = sec div 3600,
      f_minute = sec div 60 mod 60, f_second = sec mod 60, f_nanos = nanos, f_offset = 0\<rparr> = int sec"
    by (simp only: clock_seconds_def clock_fields.simps)
  have "sec div 3600 < 24" using r by (simp add: less_mult_imp_div_less)
  moreover have "int sec div 86400 = 0" "nat (int sec mod 86400) = sec" using r by simp_all
  ultimately show ?thesis using lim y r day d by (simp add: utc_time_def Let_def fields sec)
qed

lemma format_negative: "y < 0 \<Longrightarrow> utc_time cal (format_time y mo d sec nanos) = Inl InvalidCatalog"
proof -
  assume y: "y < 0"
  have "is_ascii_digit (padded 4 (nat (- y)) ! 3)" by (rule padded_char [of _ 4 "nat (- y)"]) simp
  moreover have "format_time y mo d sec nanos ! 4 = padded 4 (nat (- y)) ! 3"
    using y by (simp add: format_time_def nth_append)
  ultimately have "\<not> char_is (format_time y mo d sec nanos) 4 (CHR ''-'')"
    using digit_not by (auto simp: char_is_def)
  then show ?thesis by (simp add: utc_time_def time_fields_def)
qed

definition two_days :: calendar where
  "two_days =
     \<lparr>to_day = (\<lambda>y m d. if (y, m, d) = (2024, 2, 29) then Some 0 else if (y, m, d) = (2024, 3, 1) then Some 1 else None),
      of_day = (\<lambda>n. if n = 0 then Some (2024, 2, 29) else if n = 1 then Some (2024, 3, 1) else None)\<rparr>"


lemma two_days_ok: "calendar_ok two_days"
  by (auto simp: calendar_ok_def two_days_def)

lemma padded_numeral: "padded (numeral v) n = padded (pred_numeral v) (n div 10) @ [digit_char (n mod 10)]"
  by (metis numeral_eq_Suc padded.simps(2))

lemma two_days_fields: "time_fields ''2024-03-01T0:30:05,250+01:00'' = Inr
    \<lparr>f_year = 2024, f_month = 3, f_day = 1, f_hour = 0, f_minute = 30, f_second = 5, f_nanos = 250000000, f_offset = 3600\<rparr>"
  by (simp add: time_fields_def clock_of_def fraction_of_def offset_of_def number_def decimal_value_def
      digit_value_def char_is_def ascii_defs Let_def)

lemma two_days_fraction: "trim_zeros ''250000000'' = ''25''"
  by (simp add: trim_zeros_def)

lemma two_days_time: "utc_time two_days ''2024-03-01T0:30:05,250+01:00'' = Inr ''2024-02-29T23:30:05.25Z''"
  by (simp add: utc_time_def two_days_fields two_days_def clock_seconds_def format_time_def two_days_fraction
      padded_numeral digit_char_def char_of_def bit_Suc_0_iff)


end
