(* ===== verification/Catalog.thy ===== *)
theory Catalog
  imports Timestamps Query_Url Vocabulary
begin

section \<open>The official catalog\<close>

text \<open>
  \<open>librairii-core/src/metadata.rs\<close> (the stored vocabulary) and \<open>librairii-app/src/metadata.rs\<close> with
  \<open>metadata/json.rs\<close>, \<open>normalize.rs\<close> and \<open>artwork.rs\<close>: the validation of a downloaded catalog. The JSON
  reader of \<open>serde_json\<close>, the parser of uuids, SHA-256, the calendar and the frozen locale tables are
  parameters; a \<open>Map\<close> of \<open>serde_json\<close> is a \<open>BTreeMap\<close>, a list of members sorted by key.
\<close>

subsection \<open>Stored vocabulary\<close>

datatype sync_status = Sync_running | Sync_succeeded | Sync_failed | Sync_cancelled

definition sync_status_from_stored :: "string \<Rightarrow> metadata_error + sync_status" where
  "sync_status_from_stored value =
     (if value = ''running'' then Inr Sync_running
      else if value = ''succeeded'' then Inr Sync_succeeded
      else if value = ''failed'' then Inr Sync_failed
      else if value = ''cancelled'' then Inr Sync_cancelled
      else Inl Metadata_transition)"

datatype catalog_failure =
  Cf_fetch_failed | Cf_invalid_catalog | Cf_stage_failed | Cf_persistence_failed | Cf_cancelled
  | Cf_outcome_uncertain | Cf_interrupted | Cf_unknown string

definition catalog_failure_from_stored :: "string \<Rightarrow> catalog_failure" where
  "catalog_failure_from_stored value =
     (if value = ''catalog_fetch_failed'' then Cf_fetch_failed
      else if value = ''catalog_invalid'' then Cf_invalid_catalog
      else if value = ''catalog_stage_failed'' then Cf_stage_failed
      else if value = ''catalog_persist_failed'' then Cf_persistence_failed
      else if value = ''catalog_cancelled'' then Cf_cancelled
      else if value = ''catalog_outcome_uncertain'' then Cf_outcome_uncertain
      else if value = ''catalog_interrupted'' then Cf_interrupted
      else Cf_unknown value)"

fun catalog_failure_str :: "catalog_failure \<Rightarrow> string" where
  "catalog_failure_str Cf_fetch_failed = ''catalog_fetch_failed''"
| "catalog_failure_str Cf_invalid_catalog = ''catalog_invalid''"
| "catalog_failure_str Cf_stage_failed = ''catalog_stage_failed''"
| "catalog_failure_str Cf_persistence_failed = ''catalog_persist_failed''"
| "catalog_failure_str Cf_cancelled = ''catalog_cancelled''"
| "catalog_failure_str Cf_outcome_uncertain = ''catalog_outcome_uncertain''"
| "catalog_failure_str Cf_interrupted = ''catalog_interrupted''"
| "catalog_failure_str (Cf_unknown value) = value"

lemma catalog_failure_text_kept: "catalog_failure_str (catalog_failure_from_stored s) = s"
  by (simp add: catalog_failure_from_stored_def)

record 'u catalog_record =
  rec_uuid :: 'u
  rec_title :: string
  rec_description :: string
  rec_author :: string
  rec_publisher :: string
  rec_language :: string
  rec_duration :: "i64 option"
  rec_minimum_age :: "i64 option"
  rec_maximum_age :: "i64 option"
  rec_artwork :: "bytes option"
  rec_source :: string
  rec_updated_at :: "string option"

record catalog_artwork =
  art_id :: bytes
  art_url :: string

subsection \<open>Artwork\<close>

definition max_catalog_bytes :: nat where
  "max_catalog_bytes = 33554432"

definition artwork_base :: string where
  "artwork_base = ''https://storage.googleapis.com/lunii-data-prod''"

definition url_char_refused :: "char \<Rightarrow> bool" where
  "url_char_refused c \<longleftrightarrow>
     c = char_of (92::nat) \<or> c = CHR ''?'' \<or> c = CHR ''#'' \<or> c = CHR ''%'' \<or> c = char_of (0::nat)
     \<or> byte_in 0 31 c \<or> byte_in 127 127 c"

definition artwork_url :: "string \<Rightarrow> metadata_error + string" where
  "artwork_url raw =
     (if take 1 raw \<noteq> ''/'' \<or> take 2 raw = ''//''
         \<or> (raw \<noteq> ''/'' \<and> last raw = CHR ''/'')
         \<or> list_ex url_char_refused raw
         \<or> raw \<noteq> ''/'' \<and> list_ex (\<lambda>s. s = [] \<or> s = ''.'' \<or> s = ''..'') (drop 1 (split_on (CHR ''/'') raw))
      then Inl InvalidArtwork
      else Inr (artwork_base @ raw))"

definition max_artwork_bytes :: nat where
  "max_artwork_bytes = 10485760"

datatype media_type = Png | Jpeg | Webp

fun media_str :: "media_type \<Rightarrow> string" where
  "media_str Png = ''image/png''"
| "media_str Jpeg = ''image/jpeg''"
| "media_str Webp = ''image/webp''"

fun media_extension :: "media_type \<Rightarrow> string" where
  "media_extension Png = ''png''"
| "media_extension Jpeg = ''jpg''"
| "media_extension Webp = ''webp''"

definition media_parse :: "string \<Rightarrow> metadata_error + media_type" where
  "media_parse s =
     (if s = ''image/png'' then Inr Png
      else if s = ''image/jpeg'' then Inr Jpeg
      else if s = ''image/webp'' then Inr Webp
      else Inl InvalidArtwork)"

interpretation md: closed_codec media_str media_parse InvalidArtwork
proof unfold_locales
  show "media_parse (media_str x) = Inr x" for x by (cases x) (simp_all add: media_parse_def)
  show "media_str x = s" if "media_parse s = Inr x" for s x
    using that by (auto simp: media_parse_def split: if_splits)
  show "e = InvalidArtwork" if "media_parse s = Inl e" for s e
    using that by (auto simp: media_parse_def split: if_splits)
qed

definition png_magic :: bytes where
  "png_magic = map char_of [0x89, 0x50, 0x4E, 0x47, 0x0D, 0x0A, 0x1A, 0x0A :: nat]"

definition sniffed :: "bytes \<Rightarrow> media_type option" where
  "sniffed bs =
     (if take 8 bs = png_magic then Some Png
      else if take 3 bs = map char_of [0xFF, 0xD8, 0xFF :: nat] then Some Jpeg
      else if length bs \<ge> 14 \<and> take 4 bs = ''RIFF'' \<and> take 6 (drop 8 bs) = ''WEBPVP'' then Some Webp
      else None)"

definition validate_artwork :: "bytes \<Rightarrow> media_type \<Rightarrow> metadata_error + unit" where
  "validate_artwork bs media =
     (if bs = [] \<or> length bs > max_artwork_bytes then Inl TooLarge
      else if sniffed bs \<noteq> Some media then Inl InvalidArtwork
      else Inr ())"

record artwork_asset =
  asset_bytes :: bytes
  asset_media :: media_type
  asset_checksum :: bytes

definition artwork_checked :: "(bytes \<Rightarrow> bytes) \<Rightarrow> bytes \<Rightarrow> media_type \<Rightarrow> metadata_error + artwork_asset" where
  "artwork_checked digest bs media =
     and_then (validate_artwork bs media) (\<lambda>_.
       Inr \<lparr>asset_bytes = bs, asset_media = media, asset_checksum = digest bs\<rparr>)"

subsection \<open>A tree without duplicate keys\<close>

text \<open>\<open>Unique\<close>: the tree the reader visits, with a member repeated in an object refused.\<close>

fun unique_tree :: "json \<Rightarrow> json option"
  and unique_items :: "json list \<Rightarrow> json list option"
  and unique_members :: "(string, json) btree_map \<Rightarrow> (string \<times> json) list \<Rightarrow> (string, json) btree_map option" where
  "unique_tree (JArray vs) = map_option JArray (unique_items vs)"
| "unique_tree (JObject ms) = map_option JObject (unique_members [] ms)"
| "unique_tree v = Some v"
| "unique_items [] = Some []"
| "unique_items (v # vs) =
     (case unique_tree v of None \<Rightarrow> None | Some v \<Rightarrow> map_option ((#) v) (unique_items vs))"
| "unique_members out [] = Some out"
| "unique_members out ((key, value) # ms) =
     (case unique_tree value of
        None \<Rightarrow> None
      | Some value \<Rightarrow>
          if bt_get out key \<noteq> None then None else unique_members (bt_insert key value out) ms)"

record 'u catalog_env =
  parse_json :: "bytes \<Rightarrow> json option"
  parse_locale :: "string \<Rightarrow> string option"
  parse_story_uuid :: "string \<Rightarrow> 'u option"
  is_nil_uuid :: "'u \<Rightarrow> bool"
  sha256 :: "bytes \<Rightarrow> bytes"
  dates :: calendar

definition json_parse :: "'u catalog_env \<Rightarrow> bytes \<Rightarrow> metadata_error + json" where
  "json_parse env bs = ok_or InvalidCatalog (Option.bind (parse_json env bs) unique_tree)"

definition locale_parse :: "'u catalog_env \<Rightarrow> string \<Rightarrow> metadata_error + string" where
  "locale_parse env s = ok_or InvalidCatalog (parse_locale env s)"

subsection \<open>Reading members\<close>

type_synonym members = "(string \<times> json) list"

definition json_object :: "json \<Rightarrow> metadata_error + members" where
  "json_object v = (case v of JObject ms \<Rightarrow> Inr ms | _ \<Rightarrow> Inl InvalidCatalog)"

definition folded_char :: "nat \<Rightarrow> nat" where
  "folded_char c = (if c = 0x17F then 115 else if c = 0x212A then 107 else if 65 \<le> c \<and> c \<le> 90 then c + 32 else c)"

definition folded_key :: "string \<Rightarrow> string" where
  "folded_key key = str_of_chars (map folded_char (str_chars key))"

fun wire_from :: "json option \<Rightarrow> string \<Rightarrow> members \<Rightarrow> metadata_error + json option" where
  "wire_from found name [] = Inr found"
| "wire_from found name ((key, value) # ms) =
     (if folded_key key = name then
        if found \<noteq> None then Inl InvalidCatalog else wire_from (Some value) name ms
      else wire_from found name ms)"

definition wire_member :: "members \<Rightarrow> string \<Rightarrow> metadata_error + json option" where
  "wire_member ms name = wire_from None name ms"

definition member_text :: "json option \<Rightarrow> nat \<Rightarrow> bool \<Rightarrow> metadata_error + string" where
  "member_text v limit required =
     and_then (case v of None \<Rightarrow> Inr [] | Some JNull \<Rightarrow> Inr [] | Some (JString s) \<Rightarrow> Inr (tag_trim s)
       | Some _ \<Rightarrow> Inl InvalidCatalog) (\<lambda>out.
     if length out > limit \<or> (required \<and> out = []) then Inl InvalidCatalog else Inr out)"

definition present :: "json option \<Rightarrow> json option" where
  "present v = (case v of Some JNull \<Rightarrow> None | _ \<Rightarrow> v)"

definition string_name :: "json \<Rightarrow> metadata_error + string" where
  "string_name v = (case v of JNull \<Rightarrow> Inr [] | JString s \<Rightarrow> Inr s | _ \<Rightarrow> Inl InvalidCatalog)"

definition person_names :: "json \<Rightarrow> metadata_error + string list" where
  "person_names v =
     (case v of
        JNull \<Rightarrow> Inr []
      | JObject person \<Rightarrow>
          and_then (wire_member person ''name'') (\<lambda>found.
            case present found of None \<Rightarrow> Inr [] | Some v \<Rightarrow> and_then (string_name v) (\<lambda>s. Inr [s]))
      | _ \<Rightarrow> Inl InvalidCatalog)"

definition attribution_names :: "json option \<Rightarrow> metadata_error + string list" where
  "attribution_names v =
     (case v of
        None \<Rightarrow> Inr [] | Some JNull \<Rightarrow> Inr []
      | Some (JString s) \<Rightarrow> Inr [s]
      | Some (JArray vs) \<Rightarrow> collect_results string_name vs
      | Some (JObject ms) \<Rightarrow> and_then (collect_results (\<lambda>(_, v). person_names v) ms) (\<lambda>ns. Inr (concat ns))
      | Some _ \<Rightarrow> Inl InvalidCatalog)"

fun join_names :: "string list \<Rightarrow> string" where
  "join_names [] = []"
| "join_names [n] = n"
| "join_names (n # ns) = n @ '', '' @ join_names ns"

definition attribution :: "json option \<Rightarrow> metadata_error + string" where
  "attribution v =
     and_then (attribution_names v) (\<lambda>names.
       let joined = join_names (filter (\<lambda>s. s \<noteq> []) (map tag_trim names)) in
       if length joined > 4096 then Inl InvalidCatalog else Inr joined)"

definition integer_value :: "json \<Rightarrow> metadata_error + i64" where
  "integer_value v =
     (case v of
        JInteger n \<Rightarrow> Inr n
      | JString s \<Rightarrow> ok_or InvalidCatalog (parse_i64 (tag_trim s))
      | _ \<Rightarrow> Inl InvalidCatalog)"

definition first_member :: "members list \<Rightarrow> string list \<Rightarrow> json option" where
  "first_member values keys =
     (case List.map_filter (\<lambda>(ms, key). present (map_of ms key)) (List.product values keys) of
        [] \<Rightarrow> None | v # _ \<Rightarrow> Some v)"

definition integer_member :: "members \<Rightarrow> members \<Rightarrow> string list \<Rightarrow> metadata_error + i64 option" where
  "integer_member primary secondary keys =
     (case first_member [primary, secondary] keys of
        None \<Rightarrow> Inr None
      | Some v \<Rightarrow> and_then (integer_value v) (\<lambda>n. Inr (Some n)))"

subsection \<open>Choosing a locale\<close>

fun declared_locales ::
    "'u catalog_env \<Rightarrow> (string, bool) btree_map \<Rightarrow> members \<Rightarrow> metadata_error + (string, bool) btree_map" where
  "declared_locales env out [] = Inr out"
| "declared_locales env out ((key, value) # ms) =
     and_then (locale_parse env key) (\<lambda>key.
     and_then (case value of JBool b \<Rightarrow> Inr b | _ \<Rightarrow> Inl InvalidCatalog) (\<lambda>b.
       if bt_get out key \<noteq> None then Inl InvalidCatalog else declared_locales env (bt_insert key b out) ms))"

fun localized_choices ::
    "'u catalog_env \<Rightarrow> (string, bool) btree_map \<Rightarrow> string set \<Rightarrow> members \<Rightarrow> metadata_error + (string \<times> json) list" where
  "localized_choices env avail seen [] = Inr []"
| "localized_choices env avail seen ((key, value) # ms) =
     and_then (locale_parse env key) (\<lambda>loc.
       if loc \<in> seen then Inl InvalidCatalog
       else and_then (localized_choices env avail (insert loc seen) ms) (\<lambda>rest.
         Inr (if bt_get avail loc = Some True then (loc, value) # rest else rest)))"

definition primary_subtag :: "string \<Rightarrow> string" where
  "primary_subtag loc = takeWhile (\<lambda>c. c \<noteq> CHR ''-'') loc"

definition locale_rank :: "string \<Rightarrow> string \<Rightarrow> nat" where
  "locale_rank preferred loc =
     (if loc = preferred then 0 else if primary_subtag loc = primary_subtag preferred then 1 else 2)"

definition select_localized ::
    "'u catalog_env \<Rightarrow> string \<Rightarrow> members \<Rightarrow> metadata_error + (members \<times> string) option" where
  "select_localized env preferred rec =
     and_then (and_then (wire_member rec ''locales_available'') (ok_or InvalidCatalog)) (\<lambda>d.
     and_then (json_object d) (\<lambda>declared.
     and_then (and_then (wire_member rec ''localized_infos'') (ok_or InvalidCatalog)) (\<lambda>l.
     and_then (json_object l) (\<lambda>localized.
       if declared = [] \<or> localized = [] then Inl InvalidCatalog
       else
         and_then (declared_locales env [] declared) (\<lambda>avail.
         and_then (localized_choices env avail {} localized) (\<lambda>choices.
           case sort_key (\<lambda>(loc, _). (locale_rank preferred loc, loc)) choices of
             [] \<Rightarrow> Inr None
           | (loc, value) # _ \<Rightarrow> and_then (json_object value) (\<lambda>ms. Inr (Some (ms, loc)))))))))"

subsection \<open>The catalog\<close>

record 'u normalized_catalog =
  cat_raw :: bytes
  cat_hash :: bytes
  cat_locale :: string
  cat_records :: "'u catalog_record list"
  cat_artworks :: "catalog_artwork list"

definition read_uuid :: "'u catalog_env \<Rightarrow> members \<Rightarrow> metadata_error + 'u" where
  "read_uuid env rec =
     and_then (wire_member rec ''uuid'') (\<lambda>v.
     and_then (ok_or InvalidCatalog (Option.bind v json_str)) (\<lambda>s.
       let s = tag_trim s in
       if length s \<noteq> 36 then Inl InvalidCatalog
       else and_then (ok_or InvalidCatalog (parse_story_uuid env s)) (\<lambda>u.
         if is_nil_uuid env u then Inl InvalidCatalog else Inr u)))"

definition read_publisher :: "members \<Rightarrow> metadata_error + string" where
  "read_publisher rec =
     and_then (and_then (wire_member rec ''publisher'') attribution) (\<lambda>publisher.
       if publisher = [] then and_then (wire_member rec ''publishers'') attribution else Inr publisher)"

definition ages_refused :: "i64 option \<Rightarrow> i64 option \<Rightarrow> i64 option \<Rightarrow> bool" where
  "ages_refused duration minimum maximum \<longleftrightarrow>
     (case duration of Some n \<Rightarrow> n < 0 | None \<Rightarrow> False)
     \<or> (case minimum of Some n \<Rightarrow> n < 0 | None \<Rightarrow> False)
     \<or> (case maximum of Some n \<Rightarrow> n < 0 | None \<Rightarrow> False)
     \<or> (case (minimum, maximum) of (Some a, Some b) \<Rightarrow> a > b | _ \<Rightarrow> False)"

definition read_numbers ::
    "members \<Rightarrow> members \<Rightarrow> metadata_error + (i64 option \<times> i64 option \<times> i64 option)" where
  "read_numbers localized rec =
     and_then (integer_member localized rec [''duration_seconds'', ''durationSeconds'']) (\<lambda>duration.
     and_then (integer_member localized rec [''minimum_age'', ''minimumAge'', ''min_age'', ''age_min'']) (\<lambda>minimum.
     and_then (integer_member localized rec [''maximum_age'', ''maximumAge'', ''max_age'', ''age_max'']) (\<lambda>maximum.
       let maximum = (if maximum = Some (- 1) then None else maximum) in
       if ages_refused duration minimum maximum then Inl InvalidCatalog else Inr (duration, minimum, maximum))))"

definition read_updated_at :: "'u catalog_env \<Rightarrow> members \<Rightarrow> metadata_error + string option" where
  "read_updated_at env rec =
     and_then (wire_member rec ''updated_at'') (\<lambda>v.
       case present v of
         None \<Rightarrow> Inr None
       | Some v \<Rightarrow> and_then (ok_or InvalidCatalog (json_str v)) (\<lambda>s. and_then (utc_time (dates env) s) (\<lambda>t. Inr (Some t))))"

definition read_artwork :: "'u catalog_env \<Rightarrow> members \<Rightarrow> metadata_error + catalog_artwork option" where
  "read_artwork env localized =
     (case present (map_of localized ''image'') of
        None \<Rightarrow> Inr None
      | Some picture \<Rightarrow>
          and_then (json_object picture) (\<lambda>ms.
          and_then (wire_member ms ''image_url'') (\<lambda>v.
          and_then (member_text v max_catalog_bytes True) (\<lambda>path.
          and_then (artwork_url path) (\<lambda>url.
            Inr (Some \<lparr>art_id = sha256 env url, art_url = url\<rparr>))))))"

definition read_record ::
    "'u catalog_env \<Rightarrow> string \<Rightarrow> 'u \<Rightarrow> members \<Rightarrow> members \<Rightarrow> string
     \<Rightarrow> metadata_error + 'u catalog_record \<times> catalog_artwork option" where
  "read_record env source uuid rec localized language =
     and_then (member_text (map_of localized ''title'') 1024 True) (\<lambda>title.
     and_then (member_text (map_of localized ''description'') (128 * 1024) False) (\<lambda>description.
     and_then (and_then (wire_member rec ''authors'') attribution) (\<lambda>author.
     and_then (read_publisher rec) (\<lambda>publisher.
     and_then (read_numbers localized rec) (\<lambda>(duration, minimum, maximum).
     and_then (read_updated_at env rec) (\<lambda>updated.
     and_then (read_artwork env localized) (\<lambda>artwork.
       Inr (\<lparr>rec_uuid = uuid, rec_title = title, rec_description = description, rec_author = author,
            rec_publisher = publisher, rec_language = language, rec_duration = duration,
            rec_minimum_age = minimum, rec_maximum_age = maximum, rec_artwork = map_option art_id artwork,
            rec_source = source, rec_updated_at = updated\<rparr>, artwork))))))))"

definition register_artwork ::
    "catalog_artwork option \<Rightarrow> (string, catalog_artwork) btree_map \<Rightarrow> (string, catalog_artwork) btree_map" where
  "register_artwork a m = (case a of None \<Rightarrow> m | Some a \<Rightarrow> bt_insert (checksum_display (art_id a)) a m)"

fun read_records ::
    "'u catalog_env \<Rightarrow> string \<Rightarrow> 'u set \<Rightarrow> (string, catalog_artwork) btree_map \<Rightarrow> 'u catalog_record list \<Rightarrow> members
     \<Rightarrow> metadata_error + 'u catalog_record list \<times> (string, catalog_artwork) btree_map" where
  "read_records env loc seen arts recs [] = Inr (recs, arts)"
| "read_records env loc seen arts recs ((source, v) # ms) =
     (if tag_trim source = [] \<or> length source > 1024 then Inl InvalidCatalog
      else
        and_then (json_object v) (\<lambda>rec.
        and_then (read_uuid env rec) (\<lambda>uuid.
        and_then (select_localized env loc rec) (\<lambda>chosen.
          case chosen of
            None \<Rightarrow> read_records env loc seen arts recs ms
          | Some (localized, language) \<Rightarrow>
              if uuid \<in> seen then Inl InvalidCatalog
              else and_then (read_record env source uuid rec localized language) (\<lambda>(r, a).
                read_records env loc (insert uuid seen) (register_artwork a arts) (recs @ [r]) ms)))))"

definition normalize_catalog :: "'u catalog_env \<Rightarrow> bytes \<Rightarrow> string \<Rightarrow> metadata_error + 'u normalized_catalog" where
  "normalize_catalog env raw requested =
     (if length raw > max_catalog_bytes then Inl TooLarge
      else
        and_then (locale_parse env requested) (\<lambda>loc.
        and_then (json_parse env raw) (\<lambda>envelope.
        and_then (json_object envelope) (\<lambda>top.
        and_then (and_then (wire_member top ''response'') (ok_or InvalidCatalog)) (\<lambda>v.
        and_then (json_object v) (\<lambda>response.
          if response = [] \<or> length response > 50000 then Inl InvalidCatalog
          else and_then (read_records env loc {} [] [] response) (\<lambda>(recs, arts).
            if recs = [] then Inl InvalidCatalog
            else Inr \<lparr>cat_raw = raw, cat_hash = sha256 env raw, cat_locale = loc, cat_records = recs,
              cat_artworks = map snd arts\<rparr>)))))))"

subsection \<open>What a normalized catalog promises\<close>

definition age_ok :: "i64 option \<Rightarrow> bool" where
  "age_ok a \<longleftrightarrow> (case a of None \<Rightarrow> True | Some n \<Rightarrow> 0 \<le> n)"

definition record_ok :: "'u catalog_env \<Rightarrow> 'u catalog_record \<Rightarrow> bool" where
  "record_ok env r \<longleftrightarrow>
     \<not> is_nil_uuid env (rec_uuid r)
     \<and> rec_title r \<noteq> [] \<and> tag_trim (rec_title r) = rec_title r \<and> length (rec_title r) \<le> 1024
     \<and> length (rec_description r) \<le> 131072 \<and> length (rec_author r) \<le> 4096 \<and> length (rec_publisher r) \<le> 4096
     \<and> age_ok (rec_duration r) \<and> age_ok (rec_minimum_age r) \<and> age_ok (rec_maximum_age r)
     \<and> (case (rec_minimum_age r, rec_maximum_age r) of (Some a, Some b) \<Rightarrow> a \<le> b | _ \<Rightarrow> True)
     \<and> tag_trim (rec_source r) \<noteq> [] \<and> length (rec_source r) \<le> 1024"

definition artwork_ok :: "'u catalog_env \<Rightarrow> catalog_artwork \<Rightarrow> bool" where
  "artwork_ok env a \<longleftrightarrow> art_id a = sha256 env (art_url a) \<and> (\<exists>path. artwork_url path = Inr (art_url a))"

definition artworks_match ::
    "'u catalog_env \<Rightarrow> (string, catalog_artwork) btree_map \<Rightarrow> 'u catalog_record list \<Rightarrow> bool" where
  "artworks_match env arts recs \<longleftrightarrow>
     bt_inv arts
     \<and> (\<forall>k a. bt_get arts k = Some a \<longrightarrow> k = checksum_display (art_id a) \<and> artwork_ok env a
          \<and> (\<exists>r\<in>set recs. rec_artwork r = Some (art_id a)))
     \<and> (\<forall>r\<in>set recs. \<forall>i. rec_artwork r = Some i \<longrightarrow> bt_get arts (checksum_display i) \<noteq> None)"

definition reading :: "'u catalog_env \<Rightarrow> 'u set \<Rightarrow> (string, catalog_artwork) btree_map \<Rightarrow> 'u catalog_record list \<Rightarrow> bool" where
  "reading env seen arts recs \<longleftrightarrow>
     seen = rec_uuid ` set recs \<and> distinct (map rec_uuid recs) \<and> list_all (record_ok env) recs
     \<and> artworks_match env arts recs"

lemma member_text_ok: "member_text v limit required = Inr t \<Longrightarrow>
    length t \<le> limit \<and> (required \<longrightarrow> t \<noteq> []) \<and> (t = [] \<or> tag_trim t = t)"
  by (auto simp: member_text_def result_iffs tag_trim_idem split: option.splits json.splits if_splits)

lemma attribution_ok: "attribution v = Inr t \<Longrightarrow> length t \<le> 4096"
  by (auto simp: attribution_def result_iffs Let_def split: if_splits)

lemma read_publisher_ok: "read_publisher rec = Inr t \<Longrightarrow> length t \<le> 4096"
  by (auto simp: read_publisher_def result_iffs dest: attribution_ok split: if_splits)

lemma read_numbers_ok: "read_numbers l r = Inr (d, a, b) \<Longrightarrow>
    age_ok d \<and> age_ok a \<and> age_ok b \<and> (case (a, b) of (Some a, Some b) \<Rightarrow> a \<le> b | _ \<Rightarrow> True)"
  by (auto simp: read_numbers_def result_iffs Let_def ages_refused_def age_ok_def split: if_splits option.splits)

lemma read_artwork_ok: "read_artwork env l = Inr (Some a) \<Longrightarrow> artwork_ok env a"
  by (auto simp: read_artwork_def result_iffs artwork_ok_def split: option.splits)

lemma read_uuid_ok: "read_uuid env rec = Inr u \<Longrightarrow> \<not> is_nil_uuid env u"
  by (auto simp: read_uuid_def result_iffs Let_def split: if_splits)

lemma read_record_ok:
  assumes "read_record env source uuid rec l lang = Inr (r, a)" "tag_trim source \<noteq> []" "length source \<le> 1024"
    "\<not> is_nil_uuid env uuid"
  shows "record_ok env r \<and> rec_uuid r = uuid \<and> rec_artwork r = map_option art_id a
    \<and> (case a of None \<Rightarrow> True | Some a \<Rightarrow> artwork_ok env a)"
proof -
  obtain title descr author publisher d mn mx updated where *:
      "member_text (map_of l ''title'') 1024 True = Inr title"
      "member_text (map_of l ''description'') (128 * 1024) False = Inr descr"
      "and_then (wire_member rec ''authors'') attribution = Inr author" "read_publisher rec = Inr publisher"
      "read_numbers l rec = Inr (d, mn, mx)" "read_artwork env l = Inr a"
      "r = \<lparr>rec_uuid = uuid, rec_title = title, rec_description = descr, rec_author = author,
            rec_publisher = publisher, rec_language = lang, rec_duration = d,
            rec_minimum_age = mn, rec_maximum_age = mx, rec_artwork = map_option art_id a,
            rec_source = source, rec_updated_at = updated\<rparr>"
    using assms(1) by (auto simp: read_record_def result_iffs)
  have "length author \<le> 4096" using *(3) by (auto simp: result_iffs dest: attribution_ok)
  then show ?thesis
    using assms(2-4) member_text_ok [OF *(1)] member_text_ok [OF *(2)] read_publisher_ok [OF *(4)]
      read_numbers_ok [OF *(5)] read_artwork_ok *(6,7)
    by (auto simp: record_ok_def split: option.splits)
qed

lemma artworks_match_add:
  assumes "artworks_match env arts recs" "rec_artwork r = map_option art_id a"
    "case a of None \<Rightarrow> True | Some a \<Rightarrow> artwork_ok env a"
  shows "artworks_match env (register_artwork a arts) (recs @ [r])"
proof (cases a)
  case None
  then show ?thesis using assms by (auto simp: artworks_match_def register_artwork_def)
next
  case (Some b)
  then show ?thesis using assms
    by (auto simp: artworks_match_def register_artwork_def bt_get_insert bt_inv_insert split: if_splits)
qed

lemma read_records_ok:
  "read_records env loc seen arts recs ms = Inr (recs', arts') \<Longrightarrow> reading env seen arts recs \<Longrightarrow>
     length recs' \<le> length recs + length ms \<and> (\<exists>seen'. reading env seen' arts' recs')"
proof (induction env loc seen arts recs ms rule: read_records.induct)
  case (2 env loc seen arts recs source v ms)
  from 2(3) obtain rec uuid chosen where g: "tag_trim source \<noteq> []" "length source \<le> 1024"
      and o: "json_object v = Inr rec" "read_uuid env rec = Inr uuid" "select_localized env loc rec = Inr chosen"
    by (auto simp: result_iffs split: if_splits)
  have n: "\<not> (tag_trim source = [] \<or> 1024 < length source)" using g by simp
  show ?case
  proof (cases chosen)
    case None
    then have "read_records env loc seen arts recs ms = Inr (recs', arts')" using 2(3) g o by simp
    then show ?thesis using 2(1) [OF n o None _ 2(4)] by simp
  next
    case (Some p)
    obtain l lang where p: "p = (l, lang)" by (cases p)
    from 2(3) Some p g o obtain r a where u: "uuid \<notin> seen" and r: "read_record env source uuid rec l lang = Inr (r, a)"
      and rest: "read_records env loc (insert uuid seen) (register_artwork a arts) (recs @ [r]) ms = Inr (recs', arts')"
      by (auto simp: result_iffs split: if_splits)
    note ok = read_record_ok [OF r g read_uuid_ok [OF o(2)]]
    have "artworks_match env (register_artwork a arts) (recs @ [r])"
      using 2(4) ok by (intro artworks_match_add) (auto simp: reading_def)
    then have "reading env (insert uuid seen) (register_artwork a arts) (recs @ [r])"
      using 2(4) u ok by (auto simp: reading_def)
    then show ?thesis using 2(2) [OF n o Some p [symmetric] u r refl rest] by simp
  qed
qed auto

definition catalog_ok :: "'u catalog_env \<Rightarrow> 'u normalized_catalog \<Rightarrow> bool" where
  "catalog_ok env c \<longleftrightarrow>
     cat_records c \<noteq> [] \<and> length (cat_records c) \<le> 50000 \<and> length (cat_raw c) \<le> max_catalog_bytes
     \<and> cat_hash c = sha256 env (cat_raw c)
     \<and> list_all (record_ok env) (cat_records c) \<and> distinct (map rec_uuid (cat_records c))
     \<and> list_all (artwork_ok env) (cat_artworks c) \<and> distinct (map art_id (cat_artworks c))
     \<and> set (map art_id (cat_artworks c)) = {i. \<exists>r\<in>set (cat_records c). rec_artwork r = Some i}"

lemma artworks_match_values:
  assumes "artworks_match env arts recs"
  shows "list_all (artwork_ok env) (map snd arts) \<and> distinct (map art_id (map snd arts))
    \<and> set (map art_id (map snd arts)) = {i. \<exists>r\<in>set recs. rec_artwork r = Some i}"
proof -
  have d: "distinct (map fst arts)" using assms by (simp add: artworks_match_def bt_inv_def strict_sorted_iff)
  have mem: "(k, a) \<in> set arts \<longleftrightarrow> bt_get arts k = Some a" for k a
    using d by (simp add: bt_get_map_of)
  have keys: "map fst arts = map (\<lambda>p. checksum_display (art_id (snd p))) arts"
    using assms mem by (auto simp: artworks_match_def)
  have "distinct (map checksum_display (map (\<lambda>p. art_id (snd p)) arts))" using d keys by (simp add: o_def)
  then have "distinct (map (\<lambda>p. art_id (snd p)) arts)" using distinct_map by blast
  moreover have "list_all (artwork_ok env) (map snd arts)"
    using assms mem by (auto simp: artworks_match_def list_all_iff)
  moreover have "art_id ` snd ` set arts = {i. \<exists>r\<in>set recs. rec_artwork r = Some i}"
  proof (intro set_eqI iffI)
    fix i assume "i \<in> art_id ` snd ` set arts"
    then show "i \<in> {i. \<exists>r\<in>set recs. rec_artwork r = Some i}" using assms mem by (fastforce simp: artworks_match_def)
  next
    fix i assume "i \<in> {i. \<exists>r\<in>set recs. rec_artwork r = Some i}"
    then have "bt_get arts (checksum_display i) \<noteq> None" using assms unfolding artworks_match_def by blast
    then obtain a where "bt_get arts (checksum_display i) = Some a" by blast
    moreover from this have "checksum_display i = checksum_display (art_id a)" using assms by (auto simp: artworks_match_def)
    then have "i = art_id a" using checksum_pairs_display by (metis sum.inject(2))
    ultimately show "i \<in> art_id ` snd ` set arts" using mem by force
  qed
  ultimately show ?thesis by (simp add: o_def image_image)
qed

text \<open>C15: whatever a downloaded catalog holds, the normalized catalog is well formed: it has between one and
  fifty thousand stories with distinct identities, none nil; every title is trimmed, not empty and bounded, the
  texts are bounded, durations and ages are not negative and the age range is ordered; every artwork is a
  validated address below the fixed base with its digest as identity, and the artworks are exactly those the
  stories name, each once.\<close>

theorem normalize_well_formed:
  assumes "normalize_catalog env raw requested = Inr c"
  shows "catalog_ok env c"
proof -
  obtain loc response recs arts where len: "\<not> max_catalog_bytes < length raw"
      and r: "\<not> (response = [] \<or> 50000 < length response)" "read_records env loc {} [] [] response = Inr (recs, arts)"
      and c: "recs \<noteq> []" "c = \<lparr>cat_raw = raw, cat_hash = sha256 env raw, cat_locale = loc, cat_records = recs,
              cat_artworks = map snd arts\<rparr>"
    using assms by (auto simp: normalize_catalog_def result_iffs split: if_splits)
  have "reading env {} [] []" by (simp add: reading_def artworks_match_def bt_inv_def)
  then obtain seen where "length recs \<le> length response" "reading env seen arts recs"
    using read_records_ok [OF r(2)] by auto
  then show ?thesis using len r(1) c artworks_match_values [of env arts recs]
    by (simp add: catalog_ok_def reading_def)
qed

definition sample_tree :: json where
  "sample_tree =
     JObject [(''response'', JObject [(''k'', JObject
       [(''localized_infos'', JObject [(''fr'', JObject [(''title'', JString '' T '')])]),
        (''locales_available'', JObject [(''fr'', JBool True)]),
        (''uuid'', JString ''00000000-0000-4000-8000-00000000000a'')])])]"

definition sample_env :: "string catalog_env" where
  "sample_env =
     \<lparr>parse_json = (\<lambda>_. Some sample_tree), parse_locale = Some, parse_story_uuid = Some,
      is_nil_uuid = (\<lambda>u. u = ''00000000-0000-0000-0000-000000000000''), sha256 = (\<lambda>b. take 1 b), dates = two_days\<rparr>"

lemma sample_normalizes:
  "map_err (\<lambda>_. ()) (and_then (normalize_catalog sample_env ''{}'' ''fr'') (\<lambda>c. Inr (map rec_title (cat_records c)))) = Inr [''T'']"
  by code_simp

theorem normalize_well_formed_witness:
  "\<exists>c. normalize_catalog sample_env ''{}'' ''fr'' = Inr c \<and> catalog_ok sample_env c"
  using sample_normalizes normalize_well_formed [of sample_env "''{}''" "''fr''"] by (auto simp: result_iffs)

end
