(* ===== verification/Refresh.thy ===== *)
theory Refresh
  imports Catalog
begin

section \<open>A refresh of the catalog\<close>

text \<open>
  \<open>librairii-app/src/metadata/refresh.rs\<close>: one session from its start to its report. The repository is
  a trait implemented by the storage crate: a state with four answering functions. Every call is
  recorded, and so is every question to the cancellation callback, whose n-th answer is \<open>cancelled n\<close>.
\<close>

datatype repository_failure = Proven | Uncertain

datatype refresh_code = Fetch_failed | Invalid_catalog | Stage_failed | Persistence_failed | Refresh_cancelled
  | Outcome_uncertain

fun refresh_code_str :: "refresh_code \<Rightarrow> string" where
  "refresh_code_str Fetch_failed = ''catalog_fetch_failed''"
| "refresh_code_str Invalid_catalog = ''catalog_invalid''"
| "refresh_code_str Stage_failed = ''catalog_stage_failed''"
| "refresh_code_str Persistence_failed = ''catalog_persist_failed''"
| "refresh_code_str Refresh_cancelled = ''catalog_cancelled''"
| "refresh_code_str Outcome_uncertain = ''catalog_outcome_uncertain''"

record refresh_report =
  rr_sync :: string
  rr_snapshot :: i64
  rr_matched :: i64
  rr_activated_at :: string

record ('u, 's) repository =
  repo_begin :: "string \<Rightarrow> string \<Rightarrow> string \<Rightarrow> 's \<Rightarrow> (repository_failure + unit) \<times> 's"
  repo_stage :: "string \<Rightarrow> 'u normalized_catalog \<Rightarrow> string \<Rightarrow> 's \<Rightarrow> (repository_failure + i64) \<times> 's"
  repo_activate :: "i64 \<Rightarrow> string \<Rightarrow> 's \<Rightarrow> (repository_failure + refresh_report) \<times> 's"
  repo_fail :: "string \<Rightarrow> i64 option \<Rightarrow> refresh_code \<Rightarrow> string \<Rightarrow> 's \<Rightarrow> (repository_failure + unit) \<times> 's"

datatype refresh_call = Began | Staged "repository_failure + i64" | Activated i64 "repository_failure + refresh_report"
  | Settled_failed "i64 option" refresh_code

text \<open>The session with what the world around it has seen.\<close>

record 's refresh_session =
  rs_id :: string
  rs_locale :: string
  rs_started_at :: string
  rs_staged :: "i64 option"
  rs_settled :: bool
  rs_calls :: "refresh_call list"
  rs_polls :: nat
  rs_repo :: 's

definition failure_code :: "repository_failure \<Rightarrow> refresh_code \<Rightarrow> refresh_code" where
  "failure_code e otherwise = (case e of Proven \<Rightarrow> otherwise | Uncertain \<Rightarrow> Outcome_uncertain)"

definition refresh_begin ::
    "'u catalog_env \<Rightarrow> ('u, 's) repository \<Rightarrow> string \<Rightarrow> string \<Rightarrow> string \<Rightarrow> 's
     \<Rightarrow> refresh_code + 's refresh_session" where
  "refresh_begin env repo sync loc moment s =
     and_then (map_err (\<lambda>_. Invalid_catalog) (locale_parse env loc)) (\<lambda>loc.
       let (r, s) = repo_begin repo sync loc moment s in
       and_then (map_err (\<lambda>e. failure_code e Persistence_failed) r) (\<lambda>_.
         Inr \<lparr>rs_id = sync, rs_locale = loc, rs_started_at = moment, rs_staged = None, rs_settled = False,
           rs_calls = [Began], rs_polls = 0, rs_repo = s\<rparr>))"

definition refresh_failed ::
    "('u, 's) repository \<Rightarrow> i64 option \<Rightarrow> refresh_code \<Rightarrow> string \<Rightarrow> 's refresh_session
     \<Rightarrow> (refresh_code + refresh_report) \<times> 's refresh_session" where
  "refresh_failed repo snapshot cause moment x =
     (let (r, s) = repo_fail repo (rs_id x) snapshot cause moment (rs_repo x) in
      (Inl (case r of Inl e \<Rightarrow> failure_code e Persistence_failed | Inr _ \<Rightarrow> cause),
       x\<lparr>rs_settled := True, rs_calls := rs_calls x @ [Settled_failed snapshot cause], rs_repo := s\<rparr>))"

definition poll :: "(nat \<Rightarrow> bool) \<Rightarrow> 's refresh_session \<Rightarrow> bool \<times> 's refresh_session" where
  "poll cancelled x = (cancelled (rs_polls x), x\<lparr>rs_polls := rs_polls x + 1\<rparr>)"

definition refresh_activate ::
    "('u, 's) repository \<Rightarrow> i64 \<Rightarrow> string \<Rightarrow> 's refresh_session
     \<Rightarrow> (refresh_code + refresh_report) \<times> 's refresh_session" where
  "refresh_activate repo snapshot moment x =
     (let x = x\<lparr>rs_settled := True\<rparr>;
          (r, s) = repo_activate repo snapshot moment (rs_repo x);
          x = x\<lparr>rs_calls := rs_calls x @ [Activated snapshot r], rs_repo := s\<rparr> in
      case r of
        Inr report \<Rightarrow> (Inr report, x)
      | Inl Uncertain \<Rightarrow> (Inl Outcome_uncertain, x)
      | Inl Proven \<Rightarrow> refresh_failed repo (Some snapshot) Persistence_failed moment x)"

definition refresh_stage ::
    "(nat \<Rightarrow> bool) \<Rightarrow> ('u, 's) repository \<Rightarrow> 'u normalized_catalog \<Rightarrow> string \<Rightarrow> 's refresh_session
     \<Rightarrow> (refresh_code + refresh_report) \<times> 's refresh_session" where
  "refresh_stage cancelled repo catalog moment x =
     (let (r, s) = repo_stage repo (rs_id x) catalog moment (rs_repo x);
          x = x\<lparr>rs_calls := rs_calls x @ [Staged r], rs_repo := s\<rparr> in
      case r of
        Inl Uncertain \<Rightarrow> (Inl Outcome_uncertain, x\<lparr>rs_settled := True\<rparr>)
      | Inl Proven \<Rightarrow>
          (let (c, x) = poll cancelled x in
           refresh_failed repo None (if c then Refresh_cancelled else Stage_failed) moment x)
      | Inr snapshot \<Rightarrow>
          (let x = x\<lparr>rs_staged := Some snapshot\<rparr>; (c, x) = poll cancelled x in
           if c then refresh_failed repo (Some snapshot) Refresh_cancelled moment x
           else refresh_activate repo snapshot moment x))"

text \<open>\<open>download\<close>: what the download gave.\<close>

definition refresh_finish ::
    "'u catalog_env \<Rightarrow> (nat \<Rightarrow> bool) \<Rightarrow> ('u, 's) repository \<Rightarrow> (metadata_error + bytes) \<Rightarrow> string
     \<Rightarrow> 's refresh_session \<Rightarrow> (refresh_code + refresh_report) \<times> 's refresh_session" where
  "refresh_finish env cancelled repo download moment x =
     (case utc_time (dates env) moment of
        Inl _ \<Rightarrow> refresh_failed repo None Persistence_failed (rs_started_at x) x
      | Inr moment \<Rightarrow>
          (case download of
             Inl _ \<Rightarrow>
               (let (c, x) = poll cancelled x in
                refresh_failed repo None (if c then Refresh_cancelled else Fetch_failed) moment x)
           | Inr raw \<Rightarrow>
               (let (c, x) = poll cancelled x in
                if c then refresh_failed repo None Refresh_cancelled moment x
                else
                  (case normalize_catalog env raw (rs_locale x) of
                     Inl _ \<Rightarrow> refresh_failed repo None Invalid_catalog moment x
                   | Inr catalog \<Rightarrow>
                       (let (c, x) = poll cancelled x in
                        if c then refresh_failed repo None Refresh_cancelled moment x
                        else refresh_stage cancelled repo catalog moment x)))))"

text \<open>Dropping the session: a session abandoned before it is settled is cancelled.\<close>

definition refresh_drop :: "('u, 's) repository \<Rightarrow> string \<Rightarrow> 's refresh_session \<Rightarrow> 's refresh_session" where
  "refresh_drop repo now x =
     (if \<not> rs_settled x then snd (refresh_failed repo (rs_staged x) Refresh_cancelled now x) else x)"

subsection \<open>What a session promises\<close>

definition activates :: "refresh_call \<Rightarrow> bool" where
  "activates c \<longleftrightarrow> (case c of Activated _ _ \<Rightarrow> True | _ \<Rightarrow> False)"

text \<open>The order of the calls of a whole session: what follows the start.\<close>

definition well_ended :: "refresh_call list \<Rightarrow> bool" where
  "well_ended calls \<longleftrightarrow>
     (\<exists>c. calls = [Settled_failed None c])
     \<or> calls = [Staged (Inl Uncertain)]
     \<or> (\<exists>c. calls = [Staged (Inl Proven), Settled_failed None c])
     \<or> (\<exists>s. calls = [Staged (Inr s), Settled_failed (Some s) Refresh_cancelled])
     \<or> (\<exists>s r. calls = [Staged (Inr s), Activated s (Inr r)])
     \<or> (\<exists>s. calls = [Staged (Inr s), Activated s (Inl Uncertain)])
     \<or> (\<exists>s. calls = [Staged (Inr s), Activated s (Inl Proven), Settled_failed (Some s) Persistence_failed])"

lemma refresh_failed_simps [simp]:
  "rs_calls (snd (refresh_failed repo snapshot cause at_time x)) = rs_calls x @ [Settled_failed snapshot cause]"
  "rs_settled (snd (refresh_failed repo snapshot cause at_time x))"
  "rs_polls (snd (refresh_failed repo snapshot cause at_time x)) = rs_polls x"
  "\<not> (\<exists>report. fst (refresh_failed repo snapshot cause at_time x) = Inr report)"
  by (auto simp: refresh_failed_def Let_def split: prod.splits)

lemma refresh_failed_fst: "fst (refresh_failed repo snapshot cause at_time x) \<noteq> Inr report"
  using refresh_failed_simps(4) by blast

definition ends_well :: "(nat \<Rightarrow> bool) \<Rightarrow> refresh_call list \<Rightarrow> nat \<Rightarrow> (refresh_code + refresh_report) \<times> 's refresh_session \<Rightarrow> bool" where
  "ends_well cancelled before polls p \<longleftrightarrow>
     rs_settled (snd p)
     \<and> (\<exists>rest. rs_calls (snd p) = before @ rest \<and> well_ended rest
         \<and> (\<forall>report. fst p = Inr report \<longrightarrow> (\<exists>t. last rest = Activated t (Inr report)))
         \<and> (list_ex activates rest \<longrightarrow> rs_polls (snd p) = polls + 1 \<and> \<not> cancelled polls)
         \<and> rs_polls (snd p) \<le> polls + 1)"

lemma refresh_stage_ends: "ends_well cancelled (rs_calls x) (rs_polls x) (refresh_stage cancelled repo catalog at_time x)"
proof -
  obtain r s where st: "repo_stage repo (rs_id x) catalog at_time (rs_repo x) = (r, s)" by fastforce
  show ?thesis
  proof (cases r)
    case (Inl e)
    then show ?thesis using st
      by (cases e) (auto simp: ends_well_def well_ended_def refresh_stage_def poll_def activates_def refresh_failed_fst)
  next
    case (Inr snapshot)
    obtain a s' where act: "repo_activate repo snapshot at_time s = (a, s')" by fastforce
    show ?thesis
    proof (cases "cancelled (rs_polls x)")
      case True
      then show ?thesis using st Inr
        by (auto simp: ends_well_def well_ended_def refresh_stage_def poll_def activates_def refresh_failed_fst)
    next
      case False
      show ?thesis
      proof (cases a)
        case (Inl e)
        then show ?thesis using st Inr False act
          by (cases e) (auto simp: ends_well_def well_ended_def refresh_stage_def refresh_activate_def poll_def activates_def refresh_failed_fst)
      next
        case (Inr report)
        then show ?thesis using st \<open>r = Inr snapshot\<close> False act
          by (auto simp: ends_well_def well_ended_def refresh_stage_def refresh_activate_def poll_def activates_def)
      qed
    qed
  qed
qed


definition sample_report :: refresh_report where
  "sample_report = \<lparr>rr_sync = ''j'', rr_snapshot = 5, rr_matched = 1, rr_activated_at = ''t''\<rparr>"

definition sample_repository :: "(string, nat) repository" where
  "sample_repository =
     \<lparr>repo_begin = (\<lambda>_ _ _ n. (Inr (), n)), repo_stage = (\<lambda>_ _ _ n. (Inr 5, n)),
      repo_activate = (\<lambda>_ _ n. (Inr sample_report, n)), repo_fail = (\<lambda>_ _ _ _ n. (Inr (), n))\<rparr>"

definition sample_session :: "nat refresh_session" where
  "sample_session =
     \<lparr>rs_id = ''j'', rs_locale = ''fr'', rs_started_at = ''t'', rs_staged = None, rs_settled = False,
      rs_calls = [Began], rs_polls = 0, rs_repo = 0\<rparr>"

lemma sample_session_begins: "refresh_begin sample_env sample_repository ''j'' ''fr'' ''t'' 0 = Inr sample_session"
  by (simp add: refresh_begin_def locale_parse_def sample_env_def sample_repository_def sample_session_def)


end
