(* ===== verification/Tables.thy ===== *)
theory Tables
  imports Prelude
begin

section \<open>Tables and transactions of the storage worker\<close>

text \<open>
  \<open>librairii-storage/src/database.rs\<close> as the repositories use it. A table is the list of its rows; an
  \<open>UPDATE ... WHERE\<close> rewrites the rows that satisfy the condition and tells how many they were. A
  transaction runs a body on the tables: it answers that the work was refused before the queue, that
  it was committed, that it was proved not committed, or that nobody knows. What SQLite and the
  operating system do is the \<open>weather\<close> of the call, an argument: no property fixes it.
\<close>

datatype storage_error =
  Err_queue_full | Err_intake_closed | Err_profile_busy | Err_snapshot_changed | Err_operation_input
  | Err_constraint | Err_custody | Err_invalid_path | Err_domain string | Err_other

datatype weather =
  Refused storage_error | Body_fails storage_error | Commits | Rollback_lost
  | Commit_lost (took_effect: bool) | Worker_lost (took_effect: bool)

datatype 'a tx_outcome =
  Tx_refused storage_error | Tx_committed 'a | Tx_not_committed storage_error | Tx_uncertain | Tx_lost

text \<open>
  \<open>run_transaction\<close> and \<open>rollback\<close>: an error of the body rolls the tables back, a failed rollback or
  commit is uncertain. A commit without an acknowledgement may have taken effect.
\<close>

definition transact :: "weather \<Rightarrow> ('s \<Rightarrow> storage_error + 'a \<times> 's) \<Rightarrow> 's \<Rightarrow> 'a tx_outcome \<times> 's" where
  "transact w body s =
     (case w of
        Refused e \<Rightarrow> (Tx_refused e, s)
      | Body_fails e \<Rightarrow> (Tx_not_committed e, s)
      | Rollback_lost \<Rightarrow> (Tx_uncertain, s)
      | Commits \<Rightarrow> (case body s of Inl e \<Rightarrow> (Tx_not_committed e, s) | Inr (x, t) \<Rightarrow> (Tx_committed x, t))
      | Commit_lost b \<Rightarrow>
          (case body s of Inl e \<Rightarrow> (Tx_not_committed e, s) | Inr (x, t) \<Rightarrow> (Tx_uncertain, if b then t else s))
      | Worker_lost b \<Rightarrow> (Tx_lost, if b then (case body s of Inl e \<Rightarrow> s | Inr (x, t) \<Rightarrow> t) else s))"

text \<open>\<open>barrier_read\<close> and \<open>read\<close>: the body sees the tables and leaves them as they are.\<close>

definition observe :: "weather \<Rightarrow> ('s \<Rightarrow> storage_error + 'a) \<Rightarrow> 's \<Rightarrow> storage_error + storage_error + 'a" where
  "observe w body s =
     (case w of
        Refused e \<Rightarrow> Inl e
      | Body_fails e \<Rightarrow> Inr (Inl e)
      | Commits \<Rightarrow> Inr (body s)
      | _ \<Rightarrow> Inr (Inl Err_other))"

definition some_or :: "'e \<Rightarrow> 'a option \<Rightarrow> ('a \<Rightarrow> 'e + 'b) \<Rightarrow> 'e + 'b" where
  "some_or e v f = (case v of None \<Rightarrow> Inl e | Some x \<Rightarrow> f x)"

lemma some_or_simps [simp]: "some_or e None f = Inl e" "some_or e (Some x) f = f x"
  by (simp_all add: some_or_def)

text \<open>The tables after a call are those before it or those the body makes of them.\<close>

lemma transact_tables:
  "snd (transact w body s) = s \<or> (\<exists>x. body s = Inr (x, snd (transact w body s)))"
  by (auto simp: transact_def split: weather.splits sum.splits)

lemma transact_committed:
  "transact w body s = (Tx_committed x, t) \<longleftrightarrow> w = Commits \<and> body s = Inr (x, t)"
  by (auto simp: transact_def split: weather.splits sum.splits)

lemma transact_not_committed:
  "transact w body s = (Tx_not_committed e, t) \<Longrightarrow> t = s"
  by (auto simp: transact_def split: weather.splits sum.splits)

lemma transact_refused:
  "transact w body s = (Tx_refused e, t) \<Longrightarrow> t = s"
  by (auto simp: transact_def split: weather.splits sum.splits)

lemma transact_keeps:
  "(\<And>x t. body s = Inr (x, t) \<Longrightarrow> holds t) \<Longrightarrow> holds s \<Longrightarrow> holds (snd (transact w body s))"
  using transact_tables[of w body s] by (metis)

subsection \<open>Rows\<close>

definition hits :: "('r \<Rightarrow> bool) \<Rightarrow> 'r list \<Rightarrow> nat" where
  "hits p rows = length (filter p rows)"

definition rewrite :: "('r \<Rightarrow> bool) \<Rightarrow> ('r \<Rightarrow> 'r) \<Rightarrow> 'r list \<Rightarrow> 'r list" where
  "rewrite p f rows = map (\<lambda>r. if p r then f r else r) rows"

text \<open>An \<open>UPDATE\<close> that must change exactly one row: another count is an error of the body.\<close>

definition update_one :: "storage_error \<Rightarrow> ('r \<Rightarrow> bool) \<Rightarrow> ('r \<Rightarrow> 'r) \<Rightarrow> 'r list \<Rightarrow> storage_error + 'r list" where
  "update_one e p f rows = (if hits p rows = 1 then Inr (rewrite p f rows) else Inl e)"

lemma update_one_Ok_iff: "update_one e p f rows = Inr rows' \<longleftrightarrow> hits p rows = 1 \<and> rows' = rewrite p f rows"
  by (auto simp: update_one_def)

lemma hits_Nil [simp]: "hits p [] = 0"
  by (simp add: hits_def)

lemma hits_Cons: "hits p (r # rows) = (if p r then 1 else 0) + hits p rows"
  by (simp add: hits_def)

lemma hits_append [simp]: "hits p (xs @ ys) = hits p xs + hits p ys"
  by (simp add: hits_def)

lemma hits_le: "hits p rows \<le> length rows"
  by (simp add: hits_def)

lemma hits_cong: "(\<And>r. r \<in> set rows \<Longrightarrow> p r = q r) \<Longrightarrow> hits p rows = hits q rows"
  unfolding hits_def by (metis (no_types, lifting) filter_cong)

lemma hits_mono: "(\<And>r. r \<in> set rows \<Longrightarrow> p r \<Longrightarrow> q r) \<Longrightarrow> hits p rows \<le> hits q rows"
  by (induction rows) (auto simp: hits_Cons le_SucI)

lemma hits_or:
  "(\<And>r. r \<in> set rows \<Longrightarrow> \<not> (p r \<and> q r)) \<Longrightarrow> hits (\<lambda>r. p r \<or> q r) rows = hits p rows + hits q rows"
  by (induction rows) (auto simp: hits_Cons)

lemma hits_rewrite: "hits q (rewrite p f rows) = hits (\<lambda>r. if p r then q (f r) else q r) rows"
  by (induction rows) (auto simp: rewrite_def hits_Cons)

lemma hits_pos: "0 < hits p rows \<longleftrightarrow> (\<exists>r \<in> set rows. p r)"
  by (auto simp: hits_def length_greater_0_conv filter_empty_conv)

lemma set_rewrite: "set (rewrite p f rows) = (\<lambda>r. if p r then f r else r) ` set rows"
  by (simp add: rewrite_def)

lemma rewrite_Nil [simp]: "rewrite p f [] = []"
  by (simp add: rewrite_def)

lemma length_rewrite [simp]: "length (rewrite p f rows) = length rows"
  by (simp add: rewrite_def)

lemma map_rewrite: "(\<And>r. key (f r) = key r) \<Longrightarrow> map key (rewrite p f rows) = map key rows"
  by (simp add: rewrite_def)

subsection \<open>Primary keys\<close>

definition row_at :: "('r \<Rightarrow> 'k) \<Rightarrow> 'k \<Rightarrow> 'r list \<Rightarrow> 'r option" where
  "row_at key k rows = find (\<lambda>r. key r = k) rows"

lemma row_at_Some: "row_at key k rows = Some r \<Longrightarrow> r \<in> set rows \<and> key r = k"
  by (auto simp: row_at_def find_Some_iff)

lemma row_at_None: "row_at key k rows = None \<longleftrightarrow> k \<notin> key ` set rows"
  by (auto simp: row_at_def find_None_iff)

lemma row_at_rewrite:
  "(\<And>r. key (f r) = key r) \<Longrightarrow>
     row_at key k (rewrite p f rows) = map_option (\<lambda>r. if p r then f r else r) (row_at key k rows)"
  by (induction rows) (auto simp: row_at_def rewrite_def)

lemma row_at_append:
  "row_at key k (xs @ ys) = (case row_at key k xs of None \<Rightarrow> row_at key k ys | Some r \<Rightarrow> Some r)"
  by (induction xs) (auto simp: row_at_def)

lemma row_at_unique: "distinct (map key rows) \<Longrightarrow> r \<in> set rows \<Longrightarrow> row_at key (key r) rows = Some r"
  by (induction rows) (auto simp: row_at_def)

lemma hits_key:
  "distinct (map key rows) \<Longrightarrow> (\<And>r. p r \<Longrightarrow> key r = k) \<Longrightarrow>
     hits p rows = (case row_at key k rows of None \<Rightarrow> 0 | Some r \<Rightarrow> if p r then 1 else 0)"
proof (induction rows)
  case (Cons r rows)
  show ?case
  proof (cases "key r = k")
    case True
    have "\<not> p r'" if "r' \<in> set rows" for r'
    proof
      assume "p r'"
      then have "key r' = key r" using Cons.prems(2) True by simp
      with that Cons.prems(1) show False by (metis distinct.simps(2) image_eqI list.map(2) set_map)
    qed
    then have "hits p rows = 0" by (simp add: hits_def filter_empty_conv)
    with True show ?thesis by (simp add: hits_Cons row_at_def)
  next
    case False
    with Cons show ?thesis by (auto simp: hits_Cons row_at_def)
  qed
qed (simp add: row_at_def)

lemma hits_one_row:
  assumes "distinct (map key rows)" "\<And>r. p r \<Longrightarrow> key r = k" "hits p rows = 1"
  shows "\<exists>r. row_at key k rows = Some r \<and> p r"
  using hits_key[OF assms(1,2)] assms(3) by (auto split: option.splits if_splits)

lemma one_row_hits:
  assumes "distinct (map key rows)" "\<And>r. p r \<Longrightarrow> key r = k" "row_at key k rows = Some r" "p r"
  shows "hits p rows = 1"
  using hits_key[OF assms(1,2)] assms(3,4) by simp

end
