(* ===== verification/Operation_Store.thy ===== *)
theory Operation_Store
  imports Persistence Tables
begin

section \<open>The terminal repository\<close>

text \<open>
  \<open>librairii-storage/src/operations_repository/policy.rs\<close>, \<open>rows.rs\<close> and \<open>mod.rs\<close>: the tables
  \<open>file_operations\<close> and \<open>file_operation_items\<close>, the view of an operation with its siblings, the
  inspection of a terminal command, its guarded writes, and the attempts and readbacks that run them in
  a transaction. Rows are decoded: a row whose text does not decode, or that exceeds the byte budget,
  is a read error of the weather.
\<close>

record op_tables =
  tbl_operations :: "operation_header list"
  tbl_items :: "operation_item list"

abbreviation op_key :: "operation_header \<Rightarrow> string" where
  "op_key h \<equiv> op_id (hdr_identity h)"

abbreviation item_key :: "operation_item \<Rightarrow> i64" where
  "item_key i \<equiv> item_id (itm_identity i)"

subsection \<open>Reading\<close>

definition sibling_counts_of :: "string \<Rightarrow> operation_item list \<Rightarrow> sibling_counts" where
  "sibling_counts_of k items =
     \<lparr>sib_items = int (hits (\<lambda>i. itm_operation i = k) items),
      sib_terminal = int (hits (\<lambda>i. itm_operation i = k \<and> item_is_terminal (itm_state i)) items)\<rparr>"

definition item_at :: "string \<Rightarrow> i64 \<Rightarrow> operation_item list \<Rightarrow> operation_item option" where
  "item_at k n items = find (\<lambda>i. itm_operation i = k \<and> item_key i = n) items"

definition rows_view :: "string \<Rightarrow> i64 option \<Rightarrow> op_tables \<Rightarrow> terminal_view option" where
  "rows_view k n t =
     (case row_at op_key k (tbl_operations t) of
        None \<Rightarrow> None
      | Some h \<Rightarrow>
          Some \<lparr>view_operation = h,
            view_item = (case n of Some n \<Rightarrow> item_at k n (tbl_items t) | None \<Rightarrow> None),
            view_siblings = sibling_counts_of k (tbl_items t)\<rparr>)"

subsection \<open>Commands\<close>

definition command_generation :: "command_witness \<Rightarrow> nat" where
  "command_generation command =
     (case command of
        Complete_witness c \<Rightarrow> cic_generation c
      | Finish_witness c \<Rightarrow> fic_generation c
      | Interrupt_witness c \<Rightarrow> inc_generation c)"

definition command_item :: "command_witness \<Rightarrow> i64 option" where
  "command_item command = (case command of Complete_witness c \<Rightarrow> Some (isc_id (cic_item c)) | _ \<Rightarrow> None)"

abbreviation command_key :: "command_witness \<Rightarrow> string" where
  "command_key command \<equiv> key_id (scp_identity (command_scope command))"

definition command_valid :: "command_witness \<Rightarrow> bool" where
  "command_valid command \<longleftrightarrow>
     command_key command \<noteq> [] \<and>
     (case command of
        Complete_witness c \<Rightarrow>
          item_is_terminal (cic_state c) \<and> isc_operation (cic_item c) = key_id (scp_identity (cic_operation c))
          \<and> 0 \<le> cic_bytes c \<and> cic_bytes c \<le> isc_bytes (cic_item c)
      | Finish_witness c \<Rightarrow> is_terminal (fic_state c) \<and> fic_state c \<noteq> Interrupted
      | Interrupt_witness c \<Rightarrow> inc_code c \<noteq> [] \<and> inc_message c \<noteq> [])"

datatype inspection =
  Insp_unapplied terminal_view | Insp_matching terminal_view | Insp_conflict terminal_view
  | Insp_unknown unknown_outcome

definition item_matches :: "complete_item_command \<Rightarrow> operation_item \<Rightarrow> bool" where
  "item_matches c i \<longleftrightarrow>
     itm_state i = cic_state c \<and> story_id (itm_identity i) = stored_story_id c
     \<and> prg_completed (itm_progress i) = cic_bytes c \<and> itm_outcome i = stored_outcome c"

definition parent_matches :: "command_witness \<Rightarrow> operation_header \<Rightarrow> bool" where
  "parent_matches command h \<longleftrightarrow>
     completed (hdr_counts h) = total (hdr_counts h) \<and>
     (case command of
        Complete_witness c \<Rightarrow> False
      | Finish_witness c \<Rightarrow>
          hdr_state h = fic_state c \<and> hdr_outcome h = finish_stored_outcome c
          \<and> finished_at (hdr_identity h) = Some (fic_at c)
      | Interrupt_witness c \<Rightarrow>
          hdr_state h = Interrupted \<and> code (hdr_outcome h) = Some (inc_code c)
          \<and> message (hdr_outcome h) = Some (inc_message c) \<and> finished_at (hdr_identity h) = Some (inc_at c))"

definition settle_view :: "bool \<Rightarrow> terminal_view \<Rightarrow> inspection" where
  "settle_view matching view =
     (if matching then Insp_matching view
      else if is_terminal (hdr_state (view_operation view))
        \<or> (case view_item view of Some i \<Rightarrow> item_is_terminal (itm_state i) | None \<Rightarrow> False)
      then Insp_conflict view
      else Insp_unapplied view)"

definition inspect :: "command_witness \<Rightarrow> op_tables \<Rightarrow> inspection" where
  "inspect command t =
     (case rows_view (command_key command) (command_item command) t of
        None \<Rightarrow> Insp_unknown Outcome_missing
      | Some view \<Rightarrow>
          if header_scope (view_operation view) \<noteq> command_scope command
            \<or> isl (counts_validate (hdr_counts (view_operation view)))
            \<or> sib_items (view_siblings view) \<noteq> total (hdr_counts (view_operation view))
            \<or> sib_terminal (view_siblings view) \<noteq> completed (hdr_counts (view_operation view))
          then Insp_unknown Outcome_contradictory
          else (case command of
              Complete_witness c \<Rightarrow>
                (case view_item view of
                   None \<Rightarrow> Insp_unknown Outcome_missing
                 | Some i \<Rightarrow>
                     if item_scope_of i \<noteq> cic_item c then Insp_unknown Outcome_contradictory
                     else settle_view (item_matches c i) view)
            | _ \<Rightarrow> settle_view (parent_matches command (view_operation view)) view))"

subsection \<open>Guarded writes\<close>

definition live_row :: "string \<Rightarrow> operation_header \<Rightarrow> bool" where
  "live_row k h \<longleftrightarrow> op_key h = k \<and> \<not> is_terminal (hdr_state h)"

definition live_item :: "string \<Rightarrow> operation_item \<Rightarrow> bool" where
  "live_item k i \<longleftrightarrow> itm_operation i = k \<and> \<not> item_is_terminal (itm_state i)"

definition end_item :: "item_state \<Rightarrow> raw_outcome \<Rightarrow> operation_item \<Rightarrow> operation_item" where
  "end_item st out i = i\<lparr>itm_state := st, itm_outcome := out\<rparr>"

definition complete_row :: "complete_item_command \<Rightarrow> operation_item \<Rightarrow> operation_item" where
  "complete_row c i =
     (end_item (cic_state c) (null_if_empty (cic_outcome c)) i)
       \<lparr>itm_identity := (itm_identity i)\<lparr>story_id := stored_story_id c\<rparr>,
        itm_progress := (itm_progress i)\<lparr>prg_completed := cic_bytes c\<rparr>\<rparr>"

definition end_row :: "operation_state \<Rightarrow> raw_outcome \<Rightarrow> string \<Rightarrow> operation_header \<Rightarrow> operation_header" where
  "end_row st out moment h =
     h\<lparr>hdr_state := st, hdr_outcome := out,
       hdr_identity := (hdr_identity h)\<lparr>finished_at := Some moment\<rparr>\<rparr>"

definition set_completed :: "i64 \<Rightarrow> operation_header \<Rightarrow> operation_header" where
  "set_completed n h = h\<lparr>hdr_counts := (hdr_counts h)\<lparr>completed := n\<rparr>\<rparr>"

definition write_command :: "command_witness \<Rightarrow> op_tables \<Rightarrow> storage_error + op_tables" where
  "write_command command t =
     (let k = command_key command in
      case command of
        Complete_witness c \<Rightarrow>
          and_then
            (update_one Err_other (\<lambda>i. item_key i = isc_id (cic_item c) \<and> live_item k i) (complete_row c)
              (tbl_items t)) (\<lambda>items.
          and_then
            (update_one Err_other (\<lambda>h. live_row k h \<and> completed (hdr_counts h) < total (hdr_counts h))
              (\<lambda>h. set_completed (completed (hdr_counts h) + 1) h) (tbl_operations t)) (\<lambda>operations.
            Inr \<lparr>tbl_operations = operations, tbl_items = items\<rparr>))
      | Finish_witness c \<Rightarrow>
          and_then
            (update_one Err_other (\<lambda>h. live_row k h \<and> completed (hdr_counts h) = total (hdr_counts h))
              (end_row (fic_state c) (null_if_empty (fic_outcome c)) (fic_at c)) (tbl_operations t))
            (\<lambda>operations. Inr \<lparr>tbl_operations = operations, tbl_items = tbl_items t\<rparr>)
      | Interrupt_witness c \<Rightarrow>
          (let reason = \<lparr>code = Some (inc_code c), message = Some (inc_message c)\<rparr> in
           and_then
             (update_one Err_other (live_row k)
               (\<lambda>h. set_completed (total (hdr_counts h)) (end_row Interrupted reason (inc_at c) h)) (tbl_operations t))
             (\<lambda>operations.
               Inr \<lparr>tbl_operations = operations,
                    tbl_items = rewrite (live_item k) (end_item Cancelled_item reason) (tbl_items t)\<rparr>)))"

subsection \<open>Attempts and readbacks\<close>

datatype repository_work = Work_written | Work_observed inspection

definition repository_refusal :: "nat \<Rightarrow> command_witness \<Rightarrow> non_admission option" where
  "repository_refusal gen command =
     (if command_generation command \<noteq> gen then Some WrongGeneration
      else if \<not> command_valid command then Some InvalidCommand
      else None)"

definition non_admission_of :: "storage_error \<Rightarrow> non_admission" where
  "non_admission_of e =
     (case e of
        Err_queue_full \<Rightarrow> QueueFull
      | Err_intake_closed \<Rightarrow> IntakeClosed
      | _ \<Rightarrow> AuthorityUnavailable)"

definition attempt_observation :: "inspection \<Rightarrow> attempt_disposition" where
  "attempt_observation d =
     (case d of
        Insp_matching view \<Rightarrow> AlreadyMatching view
      | Insp_conflict view \<Rightarrow> TerminalConflict view
      | Insp_unknown reason \<Rightarrow> Unknown_attempt reason
      | Insp_unapplied _ \<Rightarrow> Unknown_attempt Outcome_contradictory)"

definition attempt_body :: "command_witness \<Rightarrow> op_tables \<Rightarrow> storage_error + repository_work \<times> op_tables" where
  "attempt_body command t =
     (case inspect command t of
        Insp_unapplied _ \<Rightarrow> and_then (write_command command t) (\<lambda>t. Inr (Work_written, t))
      | d \<Rightarrow> Inr (Work_observed d, t))"

definition committed_view :: "weather \<Rightarrow> command_witness \<Rightarrow> op_tables \<Rightarrow> terminal_view option" where
  "committed_view w command t =
     (case observe w (\<lambda>t. Inr (rows_view (command_key command) (command_item command) t)) t of
        Inr (Inr view) \<Rightarrow> view
      | _ \<Rightarrow> None)"

definition repository_attempt ::
    "nat \<Rightarrow> weather \<times> weather \<Rightarrow> command_witness \<Rightarrow> op_tables \<Rightarrow> attempt_disposition \<times> op_tables" where
  "repository_attempt gen w command t =
     (case repository_refusal gen command of
        Some reason \<Rightarrow> (NotAdmitted reason, t)
      | None \<Rightarrow>
          (let (out, t) = transact (fst w) (attempt_body command) t in
           (case out of
              Tx_refused e \<Rightarrow> NotAdmitted (non_admission_of e)
            | Tx_committed Work_written \<Rightarrow> Committed (committed_view (snd w) command t)
            | Tx_committed (Work_observed d) \<Rightarrow> attempt_observation d
            | Tx_not_committed _ \<Rightarrow> ProvenNotCommitted
            | Tx_uncertain \<Rightarrow> Unknown_attempt AcknowledgementLost
            | Tx_lost \<Rightarrow> Unknown_attempt Outcome_unavailable, t)))"

definition repository_readback :: "nat \<Rightarrow> weather \<Rightarrow> command_witness \<Rightarrow> op_tables \<Rightarrow> readback_disposition" where
  "repository_readback gen w command t =
     (case repository_refusal gen command of
        Some reason \<Rightarrow> Read_not_admitted reason
      | None \<Rightarrow>
          (case observe w (\<lambda>t. Inr (inspect command t)) t of
             Inl e \<Rightarrow> Read_not_admitted (non_admission_of e)
           | Inr (Inl e) \<Rightarrow> Unknown_read Outcome_unavailable
           | Inr (Inr d) \<Rightarrow>
               (case d of
                  Insp_unapplied view \<Rightarrow> ProvenNotApplied view
                | Insp_matching view \<Rightarrow> MatchesApplied view
                | Insp_conflict view \<Rightarrow> Read_conflict view
                | Insp_unknown reason \<Rightarrow> Unknown_read reason)))"

end
