(* ===== verification/Operation_Jobs.thy ===== *)
theory Operation_Jobs
  imports Operation_Store Session_Calls
begin

section \<open>The job store\<close>

text \<open>
  \<open>librairii-storage/src/operations_repository/creation.rs\<close>, \<open>jobs.rs\<close> and the startup repair of
  \<open>recovery.rs\<close>: how an operation is created with its items, how items are started, progress saved and
  cancellation requested, which item or operation comes next, and how a new session interrupts what the
  last one left. The text that \<open>serde_json\<close> writes for a list, the uuid parser and the retained bytes
  of an input are arguments.
\<close>

record store_env =
  env_retained :: "new_operation \<Rightarrow> input_error + usize"
  env_uuid :: "string \<Rightarrow> unit option"
  env_json_ids :: "i64 list \<Rightarrow> string"
  env_json_names :: "string list \<Rightarrow> string"

subsection \<open>Creation\<close>

definition nonempty_text :: "string \<Rightarrow> string option" where
  "nonempty_text v = (if v \<noteq> [] then Some v else None)"

text \<open>\<open>go_json\<close>: the characters that Go's encoder escapes besides those of \<open>serde_json\<close>.\<close>

fun go_escape :: "bytes \<Rightarrow> bytes" where
  "go_escape [] = []"
| "go_escape (c # cs) =
     (if c = CHR ''&'' then CHR 0x5C # ''u0026'' @ go_escape cs
      else if c = CHR ''<'' then CHR 0x5C # ''u003c'' @ go_escape cs
      else if c = CHR ''>'' then CHR 0x5C # ''u003e'' @ go_escape cs
      else if take 3 (c # cs) = [CHR 0xE2, CHR 0x80, CHR 0xA8]
      then CHR 0x5C # ''u2028'' @ go_escape (drop 2 cs)
      else if take 3 (c # cs) = [CHR 0xE2, CHR 0x80, CHR 0xA9]
      then CHR 0x5C # ''u2029'' @ go_escape (drop 2 cs)
      else c # go_escape cs)"

definition creation_scope :: "store_env \<Rightarrow> new_operation \<Rightarrow> stored_export_scope" where
  "creation_scope env input =
     (case new_source input of
        None \<Rightarrow> \<lparr>discriminator = None, scope_group_ids = None, scope_group_names = None\<rparr>
      | Some s \<Rightarrow>
          \<lparr>discriminator = Some (source_as_persisted (source_type s)),
           scope_group_ids = Some (go_escape (env_json_ids env (group_ids s))),
           scope_group_names = Some (go_escape (env_json_names env (group_names s)))\<rparr>)"

definition snapshot_of :: "string \<Rightarrow> op_tables \<Rightarrow> operation_snapshot option" where
  "snapshot_of k t =
     (case row_at op_key k (tbl_operations t) of
        None \<Rightarrow> None
      | Some h \<Rightarrow>
          Some \<lparr>snap_operation = h,
            snap_items = sort_key item_key (filter (\<lambda>i. itm_operation i = k) (tbl_items t))\<rparr>)"

definition new_story :: "new_item \<Rightarrow> i64 option" where
  "new_story i = (if new_story_id i \<noteq> 0 then Some (new_story_id i) else None)"

definition item_created :: "operation_item \<Rightarrow> new_item \<Rightarrow> bool" where
  "item_created stored new \<longleftrightarrow>
     resolved_story_id (itm_identity stored) = new_story new
     \<and> story_uuid_text (itm_identity stored) = nonempty_text (new_story_uuid new)
     \<and> itm_title stored = nonempty_text (new_story_title new)
     \<and> itm_source stored = new_source_name new
     \<and> itm_output stored = stored_output_name new
     \<and> itm_archive_path stored = stored_archive_path new
     \<and> itm_archive_hash stored = stored_archive_hash new
     \<and> itm_skip_code stored = nonempty_text (new_skip_code new)
     \<and> prg_total (itm_progress stored) = new_total_bytes new
     \<and> (case planned new of
          None \<Rightarrow> True
        | Some p \<Rightarrow> itm_state stored = plan_state p \<and> itm_outcome stored = plan_outcome p)"

definition creation_matches ::
    "store_env \<Rightarrow> new_operation \<Rightarrow> operation_snapshot \<Rightarrow> storage_error + bool" where
  "creation_matches env input snapshot =
     (let h = snap_operation snapshot in
      if op_key h \<noteq> new_id input \<or> hdr_kind h \<noteq> new_kind input
        \<or> hdr_scope h \<noteq> creation_scope env input \<or> hdr_destination h \<noteq> new_destination input
        \<or> length (snap_items snapshot) \<noteq> length (new_items input)
      then Inr False
      else and_then (ok_or Err_operation_input (i64_try_from (length (new_items input)))) (\<lambda>n.
        if total (hdr_counts h) \<noteq> n then Inr False
        else and_then (map_err (\<lambda>_. Err_operation_input) (validate_new (env_retained env) (env_uuid env) input)) (\<lambda>bytes.
          Inr (hdr_total_bytes h = bytes
            \<and> list_all2 item_created (snap_items snapshot) (new_items input)))))"

definition next_item_id :: "operation_item list \<Rightarrow> i64" where
  "next_item_id items = foldr (\<lambda>i n. max (item_key i + 1) n) items 1"

definition created_item :: "string \<Rightarrow> i64 \<Rightarrow> new_item \<Rightarrow> operation_item" where
  "created_item k n i =
     \<lparr>itm_operation = k,
      itm_identity = \<lparr>item_id = n, story_id = new_story i, resolved_story_id = new_story i,
        story_uuid_text = nonempty_text (new_story_uuid i)\<rparr>,
      itm_title = nonempty_text (new_story_title i), itm_source = new_source_name i,
      itm_output = stored_output_name i, itm_archive_path = stored_archive_path i,
      itm_archive_hash = stored_archive_hash i, itm_skip_code = nonempty_text (new_skip_code i),
      itm_state = (case planned i of None \<Rightarrow> Pending_item | Some p \<Rightarrow> plan_state p),
      itm_progress = \<lparr>prg_completed = 0, prg_total = new_total_bytes i\<rparr>,
      itm_outcome = (case planned i of None \<Rightarrow> raw_outcome_default | Some p \<Rightarrow> plan_outcome p)\<rparr>"

fun insert_created :: "string \<Rightarrow> new_item list \<Rightarrow> operation_item list \<Rightarrow> operation_item list" where
  "insert_created k [] items = items"
| "insert_created k (i # rest) items =
     insert_created k rest (items @ [created_item k (next_item_id items) i])"

definition created_header :: "store_env \<Rightarrow> new_operation \<Rightarrow> i64 \<Rightarrow> string \<Rightarrow> operation_header" where
  "created_header env input bytes moment =
     \<lparr>hdr_identity = \<lparr>op_id = new_id input, created_at = moment, started_at = None, finished_at = None\<rparr>,
      hdr_kind = new_kind input, hdr_state = Queued, hdr_scope = creation_scope env input,
      hdr_destination = new_destination input,
      hdr_counts = \<lparr>completed = int (length (filter (\<lambda>i. planned i \<noteq> None) (new_items input))),
        total = int (length (new_items input))\<rparr>,
      hdr_total_bytes = bytes, hdr_cancel_requested = False, hdr_outcome = raw_outcome_default\<rparr>"

definition create_body :: "store_env \<Rightarrow> new_operation \<Rightarrow> string \<Rightarrow> op_tables \<Rightarrow> storage_error + unit \<times> op_tables" where
  "create_body env input moment t =
     and_then (map_err (\<lambda>_. Err_operation_input) (validate_new (env_retained env) (env_uuid env) input)) (\<lambda>bytes.
       if \<not> text_present moment then Inl Err_operation_input
       else case snapshot_of (new_id input) t of
         Some existing \<Rightarrow>
           if created_at (hdr_identity (snap_operation existing)) \<noteq> moment then Inl Err_snapshot_changed
           else and_then (creation_matches env input existing) (\<lambda>same.
             if same then Inr ((), t) else Inl Err_snapshot_changed)
       | None \<Rightarrow>
           Inr ((), \<lparr>tbl_operations = tbl_operations t @ [created_header env input bytes moment],
             tbl_items = insert_created (new_id input) (new_items input) (tbl_items t)\<rparr>))"

text \<open>\<open>JobStore::create\<close> refuses a second active metadata refresh before it inserts anything.\<close>

definition job_create_body :: "store_env \<Rightarrow> new_operation \<Rightarrow> string \<Rightarrow> op_tables \<Rightarrow> storage_error + unit \<times> op_tables" where
  "job_create_body env input moment t =
     (if new_kind input = MetadataSync
        \<and> list_ex (\<lambda>h. hdr_kind h = MetadataSync \<and> \<not> is_terminal (hdr_state h) \<and> op_key h \<noteq> new_id input)
            (tbl_operations t)
      then Inl Err_snapshot_changed
      else create_body env input moment t)"

subsection \<open>Answers\<close>

definition write_result :: "'a tx_outcome \<Rightarrow> 'a store_result" where
  "write_result out =
     (case out of
        Tx_refused e \<Rightarrow> if e = Err_queue_full \<or> e = Err_profile_busy then Retry_result else Rejected_result
      | Tx_committed v \<Rightarrow> Known v
      | Tx_not_committed e \<Rightarrow>
          if e = Err_snapshot_changed \<or> e = Err_operation_input \<or> e = Err_constraint then Rejected_result
          else Retry_result
      | _ \<Rightarrow> Unknown_result)"

definition read_result :: "storage_error + storage_error + 'a \<Rightarrow> 'a store_result" where
  "read_result r = (case r of Inr (Inr v) \<Rightarrow> Known v | _ \<Rightarrow> Retry_result)"

definition job_create ::
    "store_env \<Rightarrow> weather \<Rightarrow> new_operation \<Rightarrow> string \<Rightarrow> op_tables \<Rightarrow> unit store_result \<times> op_tables" where
  "job_create env w input moment t =
     (if isl (validate_new (env_retained env) (env_uuid env) input) then (Rejected_result, t)
      else (let (out, t) = transact w (job_create_body env input moment) t in (write_result out, t)))"

definition readback_body :: "store_env \<Rightarrow> new_operation \<Rightarrow> string \<Rightarrow> op_tables \<Rightarrow> storage_error + bool" where
  "readback_body env input moment t =
     (case snapshot_of (new_id input) t of
        None \<Rightarrow> Inr False
      | Some snapshot \<Rightarrow>
          if created_at (hdr_identity (snap_operation snapshot)) \<noteq> moment then Inl Err_snapshot_changed
          else and_then (creation_matches env input snapshot) (\<lambda>same.
            if same then Inr True else Inl Err_snapshot_changed))"

definition creation_readback ::
    "store_env \<Rightarrow> weather \<Rightarrow> new_operation \<Rightarrow> string \<Rightarrow> op_tables \<Rightarrow> bool store_result" where
  "creation_readback env w input moment t =
     (if isl (validate_new (env_retained env) (env_uuid env) input) then Unknown_result
      else case read_result (observe w (readback_body env input moment) t) of
        Known b \<Rightarrow> Known b
      | Rejected_result \<Rightarrow> Rejected_result
      | _ \<Rightarrow> Unknown_result)"

subsection \<open>Starting an item, progress and cancellation\<close>

record work_row =
  wrk_operation :: operation_scope
  wrk_item :: operation_item

abbreviation work_key :: "work_row \<Rightarrow> string" where
  "work_key w \<equiv> key_id (scp_identity (wrk_operation w))"

definition run_header :: "string \<Rightarrow> operation_header \<Rightarrow> operation_header" where
  "run_header moment h =
     h\<lparr>hdr_state := Running,
       hdr_identity := (hdr_identity h)\<lparr>started_at :=
         (case started_at (hdr_identity h) of None \<Rightarrow> Some moment | Some s \<Rightarrow> Some s)\<rparr>\<rparr>"

definition run_item :: "operation_item \<Rightarrow> operation_item" where
  "run_item i = i\<lparr>itm_state := Running_item\<rparr>"

definition start_body :: "work_row \<Rightarrow> string \<Rightarrow> op_tables \<Rightarrow> storage_error + unit \<times> op_tables" where
  "start_body work moment t =
     some_or Err_snapshot_changed (rows_view (work_key work) (Some (item_key (wrk_item work))) t) (\<lambda>v.
       if header_scope (view_operation v) \<noteq> wrk_operation work
         \<or> map_option item_scope_of (view_item v) \<noteq> Some (item_scope_of (wrk_item work))
       then Inl Err_snapshot_changed
       else if map_option itm_state (view_item v) = Some Running_item then Inr ((), t)
       else
         and_then (update_one Err_snapshot_changed (live_row (work_key work)) (run_header moment) (tbl_operations t)) (\<lambda>ops.
         and_then
           (update_one Err_snapshot_changed
             (\<lambda>i. item_key i = item_key (wrk_item work) \<and> itm_operation i = work_key work \<and> itm_state i = Pending_item)
             run_item (tbl_items t)) (\<lambda>items.
           Inr ((), \<lparr>tbl_operations = ops, tbl_items = items\<rparr>))))"

definition start_item :: "weather \<Rightarrow> work_row \<Rightarrow> string \<Rightarrow> op_tables \<Rightarrow> unit store_result \<times> op_tables" where
  "start_item w work moment t = (let (out, t) = transact w (start_body work moment) t in (write_result out, t))"

definition start_observed :: "work_row \<Rightarrow> op_tables \<Rightarrow> storage_error + start_observation" where
  "start_observed work t =
     some_or Err_snapshot_changed (rows_view (work_key work) (Some (item_key (wrk_item work))) t) (\<lambda>v.
     some_or Err_snapshot_changed (view_item v) (\<lambda>i.
       if header_scope (view_operation v) \<noteq> wrk_operation work \<or> item_scope_of i \<noteq> item_scope_of (wrk_item work)
       then Inl Err_snapshot_changed
       else if hdr_state (view_operation v) = Interrupted then Inr Start_interrupted
       else (case itm_state i of
           Running_item \<Rightarrow> Inr Start_running
         | Pending_item \<Rightarrow> Inr Start_pending
         | _ \<Rightarrow> Inl Err_snapshot_changed)))"

definition start_readback :: "weather \<Rightarrow> work_row \<Rightarrow> op_tables \<Rightarrow> start_observation store_result" where
  "start_readback w work t = read_result (observe w (start_observed work) t)"

definition progress_item :: "i64 \<Rightarrow> operation_item \<Rightarrow> operation_item" where
  "progress_item n i = i\<lparr>itm_progress := (itm_progress i)\<lparr>prg_completed := n\<rparr>\<rparr>"

definition progress_body :: "i64 \<Rightarrow> i64 \<Rightarrow> i64 \<Rightarrow> op_tables \<Rightarrow> storage_error + unit \<times> op_tables" where
  "progress_body item done goal t =
     Inr ((), \<lparr>tbl_operations = tbl_operations t,
       tbl_items = rewrite
         (\<lambda>i. item_key i = item \<and> itm_state i = Running_item \<and> prg_total (itm_progress i) = goal
            \<and> prg_completed (itm_progress i) \<le> done
            \<and> list_ex (live_row (itm_operation i)) (tbl_operations t))
         (progress_item done) (tbl_items t)\<rparr>)"

definition save_progress :: "weather \<Rightarrow> i64 \<Rightarrow> i64 \<Rightarrow> i64 \<Rightarrow> op_tables \<Rightarrow> unit store_result \<times> op_tables" where
  "save_progress w item done goal t =
     (if done < 0 \<or> goal < 0 \<or> done > goal then (Rejected_result, t)
      else (let (out, t) = transact w (progress_body item done goal) t in (write_result out, t)))"

definition cancel_header :: "operation_header \<Rightarrow> operation_header" where
  "cancel_header h = h\<lparr>hdr_cancel_requested := True\<rparr>"

definition cancel_body :: "string \<Rightarrow> op_tables \<Rightarrow> storage_error + unit \<times> op_tables" where
  "cancel_body k t =
     and_then (update_one Err_snapshot_changed (live_row k) cancel_header (tbl_operations t)) (\<lambda>ops.
       Inr ((), \<lparr>tbl_operations = ops, tbl_items = tbl_items t\<rparr>))"

definition cancel_all_body :: "op_tables \<Rightarrow> storage_error + unit \<times> op_tables" where
  "cancel_all_body t =
     Inr ((), \<lparr>tbl_operations = rewrite (\<lambda>h. \<not> is_terminal (hdr_state h)) cancel_header (tbl_operations t),
       tbl_items = tbl_items t\<rparr>)"

definition job_request_cancel :: "weather \<Rightarrow> string \<Rightarrow> op_tables \<Rightarrow> unit store_result \<times> op_tables" where
  "job_request_cancel w k t = (let (out, t) = transact w (cancel_body k) t in (write_result out, t))"

definition job_cancel_all :: "weather \<Rightarrow> op_tables \<Rightarrow> unit store_result \<times> op_tables" where
  "job_cancel_all w t = (let (out, t) = transact w cancel_all_body t in (write_result out, t))"

definition job_cancelled :: "weather \<Rightarrow> string \<Rightarrow> op_tables \<Rightarrow> bool store_result" where
  "job_cancelled w k t =
     read_result (observe w (\<lambda>t. ok_or Err_other
       (map_option hdr_cancel_requested (row_at op_key k (tbl_operations t)))) t)"

subsection \<open>What comes next\<close>

definition pending_rows :: "i64 list \<Rightarrow> op_tables \<Rightarrow> (string \<times> string \<times> i64) list" where
  "pending_rows excluded t =
     [(created_at (hdr_identity h), op_key h, item_key i).
        i \<leftarrow> tbl_items t, h \<leftarrow> tbl_operations t,
        op_key h = itm_operation i, \<not> is_terminal (hdr_state h), itm_state i = Pending_item,
        item_key i \<notin> set excluded]"

definition first_row :: "'a::linorder list \<Rightarrow> 'a option" where
  "first_row rows = (case sort rows of [] \<Rightarrow> None | r # _ \<Rightarrow> Some r)"

definition next_pending_body :: "i64 list \<Rightarrow> op_tables \<Rightarrow> storage_error + work_row option" where
  "next_pending_body excluded t =
     (case first_row (pending_rows excluded t) of
        None \<Rightarrow> Inr None
      | Some (_, k, n) \<Rightarrow>
          some_or Err_snapshot_changed (rows_view k (Some n) t) (\<lambda>v.
          some_or Err_snapshot_changed (view_item v) (\<lambda>i.
            Inr (Some \<lparr>wrk_operation = header_scope (view_operation v), wrk_item = i\<rparr>))))"

definition next_pending :: "weather \<Rightarrow> i64 list \<Rightarrow> op_tables \<Rightarrow> work_row option store_result" where
  "next_pending w excluded t =
     (if length excluded > 25 then Rejected_result else read_result (observe w (next_pending_body excluded) t))"

definition finishable_rows :: "string list \<Rightarrow> op_tables \<Rightarrow> (string \<times> string) list" where
  "finishable_rows excluded t =
     [(created_at (hdr_identity h), op_key h). h \<leftarrow> tbl_operations t,
        \<not> is_terminal (hdr_state h), completed (hdr_counts h) = total (hdr_counts h), op_key h \<notin> set excluded]"

definition outcomes_of :: "string \<Rightarrow> op_tables \<Rightarrow> (item_state \<times> raw_outcome) list" where
  "outcomes_of k t =
     map (\<lambda>i. (itm_state i, itm_outcome i)) (sort_key item_key (filter (\<lambda>i. itm_operation i = k) (tbl_items t)))"

definition finish_result :: "operation_header \<Rightarrow> op_tables \<Rightarrow> operation_policy_error + terminal_result" where
  "finish_result h t =
     and_then (aggregate_new (hdr_kind h) (total (hdr_counts h))) (\<lambda>a.
     and_then (record_all a (outcomes_of (op_key h) t)) terminal_result_of)"

definition ready_body :: "string list \<Rightarrow> op_tables \<Rightarrow> storage_error + (operation_scope \<times> terminal_result) option" where
  "ready_body excluded t =
     (case first_row (finishable_rows excluded t) of
        None \<Rightarrow> Inr None
      | Some (_, k) \<Rightarrow>
          some_or Err_snapshot_changed (row_at op_key k (tbl_operations t)) (\<lambda>h.
          and_then (map_err (\<lambda>_. Err_snapshot_changed) (finish_result h t)) (\<lambda>r.
            Inr (Some (header_scope h, r)))))"

definition ready_to_finish ::
    "weather \<Rightarrow> string list \<Rightarrow> op_tables \<Rightarrow> (operation_scope \<times> terminal_result) option store_result" where
  "ready_to_finish w excluded t =
     (if length excluded > 25 then Rejected_result else read_result (observe w (ready_body excluded) t))"

subsection \<open>Startup\<close>

definition startup_code :: "bool \<Rightarrow> string" where
  "startup_code cleanup_failed = (if cleanup_failed then ''interrupted_cleanup_failed'' else ''interrupted'')"

definition startup_message :: "operation_kind \<Rightarrow> string" where
  "startup_message kind =
     (case kind of
        Import \<Rightarrow> ''Import stopped when the application closed. Select the archive again to retry.''
      | MetadataSync \<Rightarrow> ''Metadata refresh stopped when the application closed. Start a new refresh to retry.''
      | Export \<Rightarrow> ''Export stopped when the application closed. Completed files were preserved; start a new export to retry.'')"

definition startup_reason :: "bool \<Rightarrow> operation_kind \<Rightarrow> raw_outcome" where
  "startup_reason cleanup_failed kind =
     \<lparr>code = Some (startup_code cleanup_failed), message = Some (startup_message kind)\<rparr>"

definition stopped_item :: "bool \<Rightarrow> operation_header list \<Rightarrow> operation_item \<Rightarrow> operation_item" where
  "stopped_item cleanup_failed ops i =
     end_item Cancelled_item
       (case row_at op_key (itm_operation i) ops of
          Some h \<Rightarrow> startup_reason cleanup_failed (hdr_kind h)
        | None \<Rightarrow> \<lparr>code = Some (startup_code cleanup_failed), message = None\<rparr>) i"

definition startup_body :: "bool \<Rightarrow> string \<Rightarrow> op_tables \<Rightarrow> storage_error + unit \<times> op_tables" where
  "startup_body cleanup_failed moment t =
     (if list_ex (\<lambda>h. \<not> is_terminal (hdr_state h)
           \<and> (total (hdr_counts h) \<noteq> sib_items (sibling_counts_of (op_key h) (tbl_items t))
            \<or> completed (hdr_counts h) \<noteq> sib_terminal (sibling_counts_of (op_key h) (tbl_items t)))) (tbl_operations t)
      then Inl Err_snapshot_changed
      else Inr ((), \<lparr>
        tbl_operations = rewrite (\<lambda>h. \<not> is_terminal (hdr_state h))
          (\<lambda>h. set_completed (total (hdr_counts h))
            (end_row Interrupted (startup_reason cleanup_failed (hdr_kind h)) moment h)) (tbl_operations t),
        tbl_items = rewrite
          (\<lambda>i. \<not> item_is_terminal (itm_state i) \<and> list_ex (live_row (itm_operation i)) (tbl_operations t))
          (stopped_item cleanup_failed (tbl_operations t)) (tbl_items t)\<rparr>))"

definition none_active :: "op_tables \<Rightarrow> bool" where
  "none_active t \<longleftrightarrow> list_all (\<lambda>h. is_terminal (hdr_state h)) (tbl_operations t)"

text \<open>
  The loop of \<open>recover_operation_startup\<close> over the weather of its calls: a full queue tries again, an
  uncertain commit is settled by a readback, everything else ends it. It gives up with no result when
  the weather given is used up.
\<close>

fun startup_loop ::
    "bool \<Rightarrow> string \<Rightarrow> (weather \<times> weather) list \<Rightarrow> op_tables \<Rightarrow> (storage_error + unit) option \<times> op_tables" where
  "startup_loop cleanup_failed moment [] t = (None, t)"
| "startup_loop cleanup_failed moment ((w, w') # rest) t =
     (let (out, t) = transact w (startup_body cleanup_failed moment) t in
      case out of
        Tx_committed _ \<Rightarrow> (Some (Inr ()), t)
      | Tx_not_committed e \<Rightarrow> (Some (Inl e), t)
      | Tx_refused e \<Rightarrow>
          if e = Err_queue_full then startup_loop cleanup_failed moment rest t else (Some (Inl e), t)
      | Tx_lost \<Rightarrow> (Some (Inl Err_other), t)
      | Tx_uncertain \<Rightarrow>
          (case observe w' (\<lambda>t. Inr (none_active t)) t of
             Inl e \<Rightarrow> (Some (Inl e), t)
           | Inr (Inl e) \<Rightarrow> (Some (Inl e), t)
           | Inr (Inr True) \<Rightarrow> (Some (Inr ()), t)
           | Inr (Inr False) \<Rightarrow> startup_loop cleanup_failed moment rest t))"

end
