(* ===== verification/Store_Safety.thy ===== *)
theory Store_Safety
  imports Operation_Store
begin

section \<open>What the operation tables keep\<close>

text \<open>
  The invariant of the two tables, that every row of a terminal operation or item stays as it is, and
  what the answers of the terminal repository tell about the tables.
\<close>

definition coherent_row :: "operation_item list \<Rightarrow> operation_header \<Rightarrow> bool" where
  "coherent_row items h \<longleftrightarrow>
     total (hdr_counts h) = sib_items (sibling_counts_of (op_key h) items)
     \<and> completed (hdr_counts h) = sib_terminal (sibling_counts_of (op_key h) items)
     \<and> (is_terminal (hdr_state h) \<longrightarrow> completed (hdr_counts h) = total (hdr_counts h))"

definition store_ok :: "op_tables \<Rightarrow> bool" where
  "store_ok t \<longleftrightarrow>
     distinct (map op_key (tbl_operations t)) \<and> distinct (map item_key (tbl_items t))
     \<and> (\<forall>h \<in> set (tbl_operations t). coherent_row (tbl_items t) h)
     \<and> (\<forall>i \<in> set (tbl_items t). itm_operation i \<in> op_key ` set (tbl_operations t))"

text \<open>Rows are never lost, their scopes never change, and a terminal row never changes at all.\<close>

definition kept :: "op_tables \<Rightarrow> op_tables \<Rightarrow> bool" where
  "kept t t' \<longleftrightarrow>
     (\<forall>h \<in> set (tbl_operations t). \<exists>h' \<in> set (tbl_operations t').
        header_scope h' = header_scope h \<and> (is_terminal (hdr_state h) \<longrightarrow> h' = h))
     \<and> (\<forall>i \<in> set (tbl_items t). \<exists>i' \<in> set (tbl_items t').
        item_scope_of i' = item_scope_of i \<and> (item_is_terminal (itm_state i) \<longrightarrow> i' = i))"

lemma kept_refl [simp]: "kept t t"
  by (auto simp: kept_def)

lemma kept_trans: "kept t t' \<Longrightarrow> kept t' t'' \<Longrightarrow> kept t t''"
  unfolding kept_def by (metis)

lemma header_scope_key: "header_scope h = s \<Longrightarrow> op_key h = key_id (scp_identity s)"
  by (auto simp: header_scope_def history_key_of_def)

lemma item_scope_key:
  "item_scope_of i = s \<Longrightarrow> item_key i = isc_id s \<and> itm_operation i = isc_operation s"
  by (auto simp: item_scope_of_def)

text \<open>The updates of the repository as record functions: what they leave alone.\<close>

lemma row_updates [simp]:
  "header_scope (set_completed n h) = header_scope h"
  "header_scope (end_row st out moment h) = header_scope h"
  "item_scope_of (end_item ist out i) = item_scope_of i"
  "item_scope_of (complete_row c i) = item_scope_of i"
  "hdr_identity (set_completed n h) = hdr_identity h"
  "op_id (hdr_identity (end_row st out moment h)) = op_id (hdr_identity h)"
  "hdr_state (set_completed n h) = hdr_state h"
  "hdr_state (end_row st out moment h) = st"
  "hdr_counts (end_row st out moment h) = hdr_counts h"
  "completed (hdr_counts (set_completed n h)) = n"
  "total (hdr_counts (set_completed n h)) = total (hdr_counts h)"
  "itm_identity (end_item ist out i) = itm_identity i"
  "item_id (itm_identity (complete_row c i)) = item_id (itm_identity i)"
  "itm_operation (end_item ist out i) = itm_operation i"
  "itm_operation (complete_row c i) = itm_operation i"
  "itm_state (end_item ist out i) = ist"
  "itm_state (complete_row c i) = cic_state c"
  by (simp_all add: header_scope_def item_scope_of_def history_key_of_def set_completed_def end_row_def
      end_item_def complete_row_def)

lemma kept_rewrite:
  assumes "\<And>h. p h \<Longrightarrow> \<not> is_terminal (hdr_state h) \<and> header_scope (f h) = header_scope h"
    and "\<And>i. q i \<Longrightarrow> \<not> item_is_terminal (itm_state i) \<and> item_scope_of (g i) = item_scope_of i"
  shows "kept t \<lparr>tbl_operations = rewrite p f (tbl_operations t), tbl_items = rewrite q g (tbl_items t)\<rparr>"
  using assms unfolding kept_def set_rewrite op_tables.simps by (intro conjI ballI bexI[OF _ imageI]) auto

lemma rewrite_none: "rewrite (\<lambda>_. False) f rows = rows"
  by (simp add: rewrite_def)

subsection \<open>Siblings\<close>

lemma siblings_total:
  "(\<And>i. itm_operation (g i) = itm_operation i) \<Longrightarrow>
     sib_items (sibling_counts_of k (rewrite q g items)) = sib_items (sibling_counts_of k items)"
  unfolding sibling_counts_of_def hits_rewrite by (auto intro!: hits_cong)

lemma siblings_le: "sib_terminal (sibling_counts_of k items) \<le> sib_items (sibling_counts_of k items)"
  by (auto simp: sibling_counts_of_def intro: hits_mono)

lemma siblings_all_terminal:
  assumes "sib_terminal (sibling_counts_of k items) = sib_items (sibling_counts_of k items)"
    and "i \<in> set items" "itm_operation i = k"
  shows "item_is_terminal (itm_state i)"
proof (rule ccontr)
  assume live: "\<not> item_is_terminal (itm_state i)"
  have "hits (\<lambda>i. itm_operation i = k) items
      = hits (\<lambda>i. (itm_operation i = k \<and> item_is_terminal (itm_state i)) \<or> live_item k i) items"
    by (rule hits_cong) (auto simp: live_item_def)
  also have "\<dots> = hits (\<lambda>i. itm_operation i = k \<and> item_is_terminal (itm_state i)) items + hits (live_item k) items"
    by (rule hits_or) (auto simp: live_item_def)
  finally have "hits (live_item k) items = 0" using assms(1) by (simp add: sibling_counts_of_def)
  then show False using hits_pos[of "live_item k" items] assms(2,3) live by (auto simp: live_item_def)
qed

text \<open>One active item ends: the operation has one terminal item more, the others are untouched.\<close>

lemma siblings_end_one:
  assumes "hits q items = 1" "\<And>i. q i \<Longrightarrow> live_item k i"
    and "\<And>i. itm_operation (g i) = itm_operation i" "\<And>i. item_is_terminal (itm_state (g i))"
  shows "sib_terminal (sibling_counts_of k' (rewrite q g items))
    = sib_terminal (sibling_counts_of k' items) + (if k' = k then 1 else 0)"
proof -
  let ?T = "\<lambda>i. itm_operation i = k' \<and> item_is_terminal (itm_state i)"
  have "hits ?T (rewrite q g items) = hits (\<lambda>i. if q i then k = k' else ?T i) items"
    unfolding hits_rewrite using assms(2,3,4) by (intro hits_cong) (auto simp: live_item_def)
  also have "\<dots> = hits ?T items + (if k' = k then 1 else 0)"
  proof (cases "k' = k")
    case True
    then have "hits (\<lambda>i. if q i then k = k' else ?T i) items = hits (\<lambda>i. ?T i \<or> q i) items"
      by (intro hits_cong) auto
    also have "\<dots> = hits ?T items + hits q items"
      using assms(2) by (intro hits_or) (auto simp: live_item_def)
    finally show ?thesis using True assms(1) by simp
  next
    case False
    then show ?thesis using assms(2) by (auto simp: live_item_def intro!: hits_cong)
  qed
  finally show ?thesis by (simp add: sibling_counts_of_def)
qed

text \<open>All active items of some operations end.\<close>

lemma siblings_end_all:
  assumes "\<And>i. q i \<longleftrightarrow> in_scope (itm_operation i) \<and> \<not> item_is_terminal (itm_state i)"
    and "\<And>i. itm_operation (g i) = itm_operation i" "\<And>i. item_is_terminal (itm_state (g i))"
  shows "sib_terminal (sibling_counts_of k (rewrite q g items)) =
    (if in_scope k then sib_items (sibling_counts_of k items) else sib_terminal (sibling_counts_of k items))"
  unfolding sibling_counts_of_def hits_rewrite using assms by (auto intro!: hits_cong)

text \<open>Changes that leave terminal and active items what they are.\<close>

lemma siblings_same:
  assumes "\<And>i. q i \<Longrightarrow> item_is_terminal (itm_state (g i)) = item_is_terminal (itm_state i)"
    and "\<And>i. itm_operation (g i) = itm_operation i"
  shows "sibling_counts_of k (rewrite q g items) = sibling_counts_of k items"
  unfolding sibling_counts_of_def hits_rewrite using assms by (auto intro!: hits_cong)

subsection \<open>Rewritten tables\<close>

lemma store_ok_rewrite:
  assumes "store_ok t"
    and "\<And>h. op_key (f h) = op_key h" "\<And>i. item_key (g i) = item_key i" "\<And>i. itm_operation (g i) = itm_operation i"
    and "\<And>h. h \<in> set (tbl_operations t) \<Longrightarrow> coherent_row (rewrite q g (tbl_items t)) (if p h then f h else h)"
  shows "store_ok \<lparr>tbl_operations = rewrite p f (tbl_operations t), tbl_items = rewrite q g (tbl_items t)\<rparr>"
proof -
  have keys: "map op_key (rewrite p f (tbl_operations t)) = map op_key (tbl_operations t)"
    "map item_key (rewrite q g (tbl_items t)) = map item_key (tbl_items t)"
    using assms(2,3) by (simp_all add: map_rewrite)
  then have "op_key ` set (rewrite p f (tbl_operations t)) = op_key ` set (tbl_operations t)"
    by (metis set_map)
  moreover have "\<forall>h \<in> set (rewrite p f (tbl_operations t)). coherent_row (rewrite q g (tbl_items t)) h"
    using assms(5) by (auto simp only: set_rewrite)
  moreover have "itm_operation i \<in> op_key ` set (tbl_operations t)" if "i \<in> set (rewrite q g (tbl_items t))" for i
    using that assms(1,4) by (fastforce simp: set_rewrite store_ok_def)
  ultimately show ?thesis using assms(1) keys by (simp add: store_ok_def)
qed

lemma store_ok_unique:
  "store_ok t \<Longrightarrow> h \<in> set (tbl_operations t) \<Longrightarrow> h' \<in> set (tbl_operations t) \<Longrightarrow> op_key h = op_key h' \<Longrightarrow> h = h'"
  unfolding store_ok_def by (meson distinct_map inj_onD)

lemma store_ok_row: "store_ok t \<Longrightarrow> h \<in> set (tbl_operations t) \<Longrightarrow> coherent_row (tbl_items t) h"
  by (simp add: store_ok_def)

lemma update_hits_row:
  assumes "store_ok t" "hits p (tbl_operations t) = 1" "\<And>h. p h \<Longrightarrow> op_key h = k"
    and "h \<in> set (tbl_operations t)" "op_key h = k"
  shows "p h"
proof -
  have "distinct (map op_key (tbl_operations t))" using assms(1) by (simp add: store_ok_def)
  from hits_one_row[OF this assms(3,2)] obtain h' where "row_at op_key k (tbl_operations t) = Some h'" "p h'"
    by blast
  then show ?thesis using store_ok_unique[OF assms(1,4)] row_at_Some assms(5) by metis
qed

subsection \<open>The guarded writes\<close>

lemma write_kept:
  assumes "write_command command t = Inr t'"
  shows "kept t t'"
proof (cases command)
  case (Complete_witness c)
  then show ?thesis
    using assms kept_rewrite[of "\<lambda>h. live_row (command_key command) h \<and> completed (hdr_counts h) < total (hdr_counts h)"
        "\<lambda>h. set_completed (completed (hdr_counts h) + 1) h"
        "\<lambda>i. item_key i = isc_id (cic_item c) \<and> live_item (command_key command) i" "complete_row c" t]
    by (auto simp: write_command_def Let_def result_iffs update_one_Ok_iff live_row_def live_item_def)
next
  case (Finish_witness c)
  then show ?thesis
    using assms kept_rewrite[of "\<lambda>h. live_row (command_key command) h \<and> completed (hdr_counts h) = total (hdr_counts h)"
        "end_row (fic_state c) (null_if_empty (fic_outcome c)) (fic_at c)" "\<lambda>_. False" id t]
    by (auto simp: write_command_def Let_def result_iffs update_one_Ok_iff live_row_def rewrite_none)
next
  case (Interrupt_witness c)
  then show ?thesis
    using assms kept_rewrite[of "live_row (command_key command)"
        "\<lambda>h. set_completed (total (hdr_counts h)) (end_row Interrupted
          \<lparr>code = Some (inc_code c), message = Some (inc_message c)\<rparr> (inc_at c) h)"
        "live_item (command_key command)"
        "end_item Cancelled_item \<lparr>code = Some (inc_code c), message = Some (inc_message c)\<rparr>" t]
    by (auto simp: write_command_def Let_def result_iffs update_one_Ok_iff live_row_def live_item_def)
qed

lemma write_store_ok:
  assumes "write_command command t = Inr t'" "store_ok t" "command_valid command"
  shows "store_ok t'"
proof -
  let ?k = "command_key command"
  show ?thesis
  proof (cases command)
    case (Complete_witness c)
    let ?p = "\<lambda>h. live_row ?k h \<and> completed (hdr_counts h) < total (hdr_counts h)"
    let ?q = "\<lambda>i. item_key i = isc_id (cic_item c) \<and> live_item ?k i"
    have one: "hits ?q (tbl_items t) = 1" "hits ?p (tbl_operations t) = 1"
      and t': "t' = \<lparr>tbl_operations = rewrite ?p (\<lambda>h. set_completed (completed (hdr_counts h) + 1) h) (tbl_operations t),
        tbl_items = rewrite ?q (complete_row c) (tbl_items t)\<rparr>"
      using assms(1) Complete_witness by (auto simp: write_command_def Let_def result_iffs update_one_Ok_iff)
    have st: "item_is_terminal (cic_state c)" using assms(3) Complete_witness by (simp add: command_valid_def)
    have ended: "sib_terminal (sibling_counts_of k' (rewrite ?q (complete_row c) (tbl_items t)))
        = sib_terminal (sibling_counts_of k' (tbl_items t)) + (if k' = ?k then 1 else 0)" for k'
      by (rule siblings_end_one[OF one(1)]) (simp_all add: st)
    show ?thesis unfolding t'
    proof (rule store_ok_rewrite[OF assms(2)], simp, simp, simp)
      fix h assume h: "h \<in> set (tbl_operations t)"
      show "coherent_row (rewrite ?q (complete_row c) (tbl_items t))
          (if ?p h then set_completed (completed (hdr_counts h) + 1) h else h)"
      proof (cases "op_key h = ?k")
        case True
        then have p: "?p h" using update_hits_row[OF assms(2) one(2) _ h] by (auto simp: live_row_def)
        then show ?thesis using ended[of "op_key h"] store_ok_row[OF assms(2) h] True
          by (simp add: coherent_row_def siblings_total live_row_def)
      next
        case False
        then show ?thesis using store_ok_row[OF assms(2) h]
          by (auto simp: coherent_row_def siblings_total live_row_def ended)
      qed
    qed
  next
    case (Finish_witness c)
    let ?p = "\<lambda>h. live_row ?k h \<and> completed (hdr_counts h) = total (hdr_counts h)"
    let ?f = "end_row (fic_state c) (null_if_empty (fic_outcome c)) (fic_at c)"
    have "t' = \<lparr>tbl_operations = rewrite ?p ?f (tbl_operations t), tbl_items = rewrite (\<lambda>_. False) id (tbl_items t)\<rparr>"
      using assms(1) Finish_witness by (auto simp: write_command_def Let_def result_iffs update_one_Ok_iff rewrite_none)
    moreover have "store_ok \<lparr>tbl_operations = rewrite ?p ?f (tbl_operations t),
        tbl_items = rewrite (\<lambda>_. False) id (tbl_items t)\<rparr>"
    proof (rule store_ok_rewrite[OF assms(2)], simp, simp, simp)
      fix h assume h: "h \<in> set (tbl_operations t)"
      show "coherent_row (rewrite (\<lambda>_. False) id (tbl_items t)) (if ?p h then ?f h else h)"
        using store_ok_row[OF assms(2) h] by (auto simp: rewrite_none coherent_row_def)
    qed
    ultimately show ?thesis by simp
  next
    case (Interrupt_witness c)
    let ?r = "\<lparr>code = Some (inc_code c), message = Some (inc_message c)\<rparr>"
    let ?f = "\<lambda>h. set_completed (total (hdr_counts h)) (end_row Interrupted ?r (inc_at c) h)"
    let ?g = "end_item Cancelled_item ?r"
    have one: "hits (live_row ?k) (tbl_operations t) = 1"
      and t': "t' = \<lparr>tbl_operations = rewrite (live_row ?k) ?f (tbl_operations t),
        tbl_items = rewrite (live_item ?k) ?g (tbl_items t)\<rparr>"
      using assms(1) Interrupt_witness by (auto simp: write_command_def Let_def result_iffs update_one_Ok_iff)
    have ended: "sib_terminal (sibling_counts_of k (rewrite (live_item ?k) ?g (tbl_items t))) =
      (if k = ?k then sib_items (sibling_counts_of k (tbl_items t))
       else sib_terminal (sibling_counts_of k (tbl_items t)))" for k
      by (rule siblings_end_all[of _ "\<lambda>k. k = ?k"]) (auto simp: live_item_def)
    show ?thesis unfolding t'
    proof (rule store_ok_rewrite[OF assms(2)], simp, simp, simp)
      fix h assume h: "h \<in> set (tbl_operations t)"
      show "coherent_row (rewrite (live_item ?k) ?g (tbl_items t)) (if live_row ?k h then ?f h else h)"
      proof (cases "op_key h = ?k")
        case True
        then have "live_row ?k h" using update_hits_row[OF assms(2) one _ h] by (auto simp: live_row_def)
        then show ?thesis using store_ok_row[OF assms(2) h] True
          by (simp add: coherent_row_def siblings_total ended)
      next
        case False
        then show ?thesis using store_ok_row[OF assms(2) h]
          by (auto simp: coherent_row_def siblings_total ended live_row_def)
      qed
    qed
  qed
qed

subsection \<open>What an inspection finds\<close>

text \<open>The command shows in the tables, whatever the other rows are.\<close>

definition applied_in :: "command_witness \<Rightarrow> op_tables \<Rightarrow> bool" where
  "applied_in command t \<longleftrightarrow>
     (\<exists>h. row_at op_key (command_key command) (tbl_operations t) = Some h \<and> header_scope h = command_scope command
       \<and> (case command of
            Complete_witness c \<Rightarrow>
              (\<exists>i. item_at (command_key command) (isc_id (cic_item c)) (tbl_items t) = Some i
                \<and> item_scope_of i = cic_item c \<and> item_matches c i)
          | _ \<Rightarrow> parent_matches command h))"

lemma row_coherent:
  "store_ok t \<Longrightarrow> row_at op_key k (tbl_operations t) = Some h \<Longrightarrow> op_key h = k \<and> coherent_row (tbl_items t) h"
  using store_ok_row row_at_Some by metis

lemma coherent_counts:
  "coherent_row items h \<Longrightarrow> counts_ok (hdr_counts h)
     \<and> sib_items (sibling_counts_of (op_key h) items) = total (hdr_counts h)
     \<and> sib_terminal (sibling_counts_of (op_key h) items) = completed (hdr_counts h)"
  using siblings_le[of "op_key h" items] by (auto simp: coherent_row_def counts_ok_def sibling_counts_of_def)

text \<open>In coherent tables the inspection only looks at the rows of the command.\<close>

lemma inspect_row:
  assumes "store_ok t" "row_at op_key (command_key command) (tbl_operations t) = Some h"
  shows "inspect command t =
    (if header_scope h \<noteq> command_scope command then Insp_unknown Outcome_contradictory
     else (let view = the (rows_view (command_key command) (command_item command) t) in
       case command of
         Complete_witness c \<Rightarrow>
           (case item_at (command_key command) (isc_id (cic_item c)) (tbl_items t) of
              None \<Rightarrow> Insp_unknown Outcome_missing
            | Some i \<Rightarrow>
                if item_scope_of i \<noteq> cic_item c then Insp_unknown Outcome_contradictory
                else settle_view (item_matches c i) view)
       | _ \<Rightarrow> settle_view (parent_matches command h) view))"
proof -
  define view where "view = \<lparr>view_operation = h,
    view_item = (case command_item command of
      Some n \<Rightarrow> item_at (command_key command) n (tbl_items t) | None \<Rightarrow> None),
    view_siblings = sibling_counts_of (command_key command) (tbl_items t)\<rparr>"
  have v: "rows_view (command_key command) (command_item command) t = Some view"
    by (simp add: rows_view_def assms(2) view_def)
  have key: "op_key h = command_key command" and c: "coherent_row (tbl_items t) h"
    using row_coherent[OF assms] by auto
  have ok: "\<not> isl (counts_validate (hdr_counts h))"
    "sib_items (view_siblings view) = total (hdr_counts h)"
    "sib_terminal (view_siblings view) = completed (hdr_counts h)" "view_operation view = h"
    using coherent_counts[OF c] key by (auto simp: view_def counts_validate_def counts_ok_def)
  have item: "view_item view = (case command_item command of
      Some n \<Rightarrow> item_at (command_key command) n (tbl_items t) | None \<Rightarrow> None)"
    by (simp add: view_def)
  show ?thesis
  proof (cases command)
    case (Complete_witness c)
    show ?thesis using v ok item unfolding Complete_witness by (simp add: inspect_def Let_def command_item_def)
  next
    case (Finish_witness c)
    show ?thesis using v ok item unfolding Finish_witness by (simp add: inspect_def Let_def command_item_def)
  next
    case (Interrupt_witness c)
    show ?thesis using v ok item unfolding Interrupt_witness by (simp add: inspect_def Let_def command_item_def)
  qed
qed

lemma inspect_missing:
  "row_at op_key (command_key command) (tbl_operations t) = None \<Longrightarrow> inspect command t = Insp_unknown Outcome_missing"
  by (simp add: inspect_def rows_view_def)

lemma settle_view_iff:
  "settle_view m view = Insp_matching v \<longleftrightarrow> m \<and> v = view"
  "settle_view m view = Insp_unapplied v \<longleftrightarrow> v = view \<and> \<not> m \<and> \<not> is_terminal (hdr_state (view_operation view))
     \<and> (\<forall>i. view_item view = Some i \<longrightarrow> \<not> item_is_terminal (itm_state i))"
  "settle_view m view = Insp_conflict v \<longleftrightarrow> v = view \<and> \<not> m \<and> (is_terminal (hdr_state (view_operation view))
     \<or> (\<exists>i. view_item view = Some i \<and> item_is_terminal (itm_state i)))"
  "settle_view m view \<noteq> Insp_unknown e"
  by (auto simp: settle_view_def split: option.splits)

lemma view_of_row:
  assumes "row_at op_key k (tbl_operations t) = Some h"
  shows "view_operation (the (rows_view k n t)) = h"
    and "view_item (the (rows_view k n t)) = (case n of Some n \<Rightarrow> item_at k n (tbl_items t) | None \<Rightarrow> None)"
  by (simp_all add: rows_view_def assms)

lemma inspect_matching_iff:
  assumes "store_ok t"
  shows "(\<exists>v. inspect command t = Insp_matching v) \<longleftrightarrow> applied_in command t"
proof (cases "row_at op_key (command_key command) (tbl_operations t)")
  case None
  then show ?thesis by (simp add: inspect_missing applied_in_def)
next
  case (Some h)
  show ?thesis
    unfolding inspect_row[OF assms Some] applied_in_def Some
    by (cases command) (auto simp: settle_view_iff Let_def split: option.splits)
qed

lemma inspect_matching_view:
  "inspect command t = Insp_matching v \<or> inspect command t = Insp_conflict v \<Longrightarrow>
     rows_view (command_key command) (command_item command) t = Some v"
  by (cases command)
    (auto simp: inspect_def settle_view_iff split: option.splits if_splits)

text \<open>Unapplied: both rows of the command are there, with its scopes, and active.\<close>

lemma inspect_unapplied:
  assumes "store_ok t" "inspect command t = Insp_unapplied v"
  shows "\<exists>h. row_at op_key (command_key command) (tbl_operations t) = Some h \<and> header_scope h = command_scope command
    \<and> \<not> is_terminal (hdr_state h)
    \<and> (case command of
         Complete_witness c \<Rightarrow>
           (\<exists>i. item_at (command_key command) (isc_id (cic_item c)) (tbl_items t) = Some i
             \<and> item_scope_of i = cic_item c \<and> \<not> item_is_terminal (itm_state i))
       | _ \<Rightarrow> True)"
proof (cases "row_at op_key (command_key command) (tbl_operations t)")
  case None
  then show ?thesis using assms(2) by (simp add: inspect_missing)
next
  case (Some h)
  show ?thesis
    using assms(2) view_of_row[OF Some, of "command_item command"] unfolding inspect_row[OF assms(1) Some] Some
    by (cases command) (auto simp: settle_view_iff Let_def command_item_def split: option.splits if_splits)
qed

subsection \<open>A write shows at once and for good\<close>

lemma item_at_Some: "item_at k n items = Some i \<Longrightarrow> i \<in> set items \<and> itm_operation i = k \<and> item_key i = n"
  by (auto simp: item_at_def find_Some_iff)

lemma item_at_unique:
  "distinct (map item_key items) \<Longrightarrow> i \<in> set items \<Longrightarrow> item_at (itm_operation i) (item_key i) items = Some i"
  by (induction items) (auto simp: item_at_def)

lemma item_at_rewrite:
  "(\<And>i. itm_operation (g i) = itm_operation i \<and> item_key (g i) = item_key i) \<Longrightarrow>
     item_at k n (rewrite q g items) = map_option (\<lambda>i. if q i then g i else i) (item_at k n items)"
  by (induction items) (auto simp: item_at_def rewrite_def)

lemma applied_kept:
  assumes "applied_in command t" "kept t t'" "store_ok t" "store_ok t'" "command_valid command"
  shows "applied_in command t'"
proof -
  from assms(1) obtain h where h: "row_at op_key (command_key command) (tbl_operations t) = Some h"
    "header_scope h = command_scope command"
    and rest: "case command of
        Complete_witness c \<Rightarrow>
          (\<exists>i. item_at (command_key command) (isc_id (cic_item c)) (tbl_items t) = Some i
            \<and> item_scope_of i = cic_item c \<and> item_matches c i)
      | _ \<Rightarrow> parent_matches command h"
    unfolding applied_in_def by blast
  obtain h' where h': "h' \<in> set (tbl_operations t')" "header_scope h' = header_scope h"
    "is_terminal (hdr_state h) \<Longrightarrow> h' = h"
    using assms(2) row_at_Some[OF h(1)] unfolding kept_def by blast
  have "op_key h' = command_key command" using h(2) h'(2) header_scope_key by metis
  then have at: "row_at op_key (command_key command) (tbl_operations t') = Some h'"
    using row_at_unique[of op_key "tbl_operations t'" h'] h'(1) assms(4) by (simp add: store_ok_def)
  show ?thesis
  proof (cases command)
    case (Complete_witness c)
    then obtain i where i: "item_at (command_key command) (isc_id (cic_item c)) (tbl_items t) = Some i"
      "item_scope_of i = cic_item c" "item_matches c i"
      using rest by auto
    have "item_is_terminal (itm_state i)"
      using i(3) assms(5) Complete_witness by (simp add: item_matches_def command_valid_def)
    then have "i \<in> set (tbl_items t')" using assms(2) item_at_Some[OF i(1)] unfolding kept_def by metis
    then have "item_at (command_key command) (isc_id (cic_item c)) (tbl_items t') = Some i"
      using item_at_unique[of "tbl_items t'" i] item_at_Some[OF i(1)] assms(4) by (simp add: store_ok_def)
    then show ?thesis using at h(2) h'(2) i Complete_witness by (auto simp: applied_in_def)
  next
    case (Finish_witness c)
    then have "is_terminal (hdr_state h)" using rest assms(5) by (auto simp: parent_matches_def command_valid_def)
    then show ?thesis using at h(2) h' rest Finish_witness by (auto simp: applied_in_def)
  next
    case (Interrupt_witness c)
    then have "is_terminal (hdr_state h)" using rest by (auto simp: parent_matches_def)
    then show ?thesis using at h(2) h' rest Interrupt_witness by (auto simp: applied_in_def)
  qed
qed

lemma update_hits_at:
  assumes "store_ok t" "hits p (tbl_operations t) = 1" "\<And>h. p h \<Longrightarrow> op_key h = k"
    and "row_at op_key k (tbl_operations t) = Some h"
  shows "p h"
  using update_hits_row[OF assms(1,2,3), of h] row_at_Some[OF assms(4)] by blast

lemma hits_at_row:
  assumes "store_ok t" "row_at op_key k (tbl_operations t) = Some h" "p h" "\<And>h. p h \<Longrightarrow> op_key h = k"
  shows "hits p (tbl_operations t) = 1"
  by (rule one_row_hits[where key = op_key and k = k and r = h]) (use assms in \<open>simp_all add: store_ok_def\<close>)

lemma hits_at_item:
  assumes "store_ok t" "item_at k n (tbl_items t) = Some i" "p i" "\<And>i. p i \<Longrightarrow> item_key i = n"
  shows "hits p (tbl_items t) = 1"
proof (rule one_row_hits[where key = item_key and k = n and r = i])
  show "row_at item_key n (tbl_items t) = Some i"
    using row_at_unique[of item_key "tbl_items t" i] item_at_Some[OF assms(2)] assms(1) by (simp add: store_ok_def)
qed (use assms in \<open>simp_all add: store_ok_def\<close>)

text \<open>On an unapplied command the write succeeds; only a finish may find items that are not done.\<close>

lemma write_commits_iff:
  assumes "store_ok t" "inspect command t = Insp_unapplied v"
    and "row_at op_key (command_key command) (tbl_operations t) = Some h"
  shows "(\<exists>t'. write_command command t = Inr t') \<longleftrightarrow>
    (case command of Finish_witness c \<Rightarrow> completed (hdr_counts h) = total (hdr_counts h) | _ \<Rightarrow> True)"
proof -
  have h: "\<not> is_terminal (hdr_state h)" "op_key h = command_key command"
    using inspect_unapplied[OF assms(1,2)] assms(3) row_at_Some[OF assms(3)] by auto
  note row = hits_at_row[OF assms(1,3)]
  show ?thesis
  proof (cases command)
    case (Complete_witness c)
    obtain i where i: "item_at (command_key command) (isc_id (cic_item c)) (tbl_items t) = Some i"
      "\<not> item_is_terminal (itm_state i)"
      using inspect_unapplied[OF assms(1,2)] Complete_witness by auto
    have "completed (hdr_counts h) < total (hdr_counts h)"
    proof (rule ccontr)
      assume "\<not> completed (hdr_counts h) < total (hdr_counts h)"
      with coherent_counts row_coherent[OF assms(1,3)]
      have "sib_terminal (sibling_counts_of (op_key h) (tbl_items t)) = sib_items (sibling_counts_of (op_key h) (tbl_items t))"
        by (force simp: counts_ok_def)
      then show False using siblings_all_terminal item_at_Some[OF i(1)] i(2) h(2) by metis
    qed
    then have "hits (\<lambda>h. live_row (command_key command) h \<and> completed (hdr_counts h) < total (hdr_counts h)) (tbl_operations t) = 1"
      using h by (intro row) (auto simp: live_row_def)
    moreover have "hits (\<lambda>i. item_key i = isc_id (cic_item c) \<and> live_item (command_key command) i) (tbl_items t) = 1"
      by (rule hits_at_item[OF assms(1) i(1)]) (use i item_at_Some[OF i(1)] in \<open>auto simp: live_item_def\<close>)
    ultimately show ?thesis using Complete_witness by (simp add: write_command_def Let_def update_one_def)
  next
    case (Finish_witness c)
    let ?p = "\<lambda>h. live_row (command_key command) h \<and> completed (hdr_counts h) = total (hdr_counts h)"
    have keyed: "op_key h = command_key command" if "?p h" for h
      using that by (simp add: live_row_def)
    have "hits ?p (tbl_operations t) = 1 \<longleftrightarrow> ?p h"
      using row[of ?p, OF _ keyed] update_hits_at[OF assms(1) _ keyed assms(3)] by blast
    moreover have "live_row (command_key command) h" using h by (simp add: live_row_def)
    ultimately show ?thesis using Finish_witness by (simp add: write_command_def Let_def update_one_def)
  next
    case (Interrupt_witness c)
    have "hits (live_row (command_key command)) (tbl_operations t) = 1"
      using h by (intro row) (auto simp: live_row_def)
    then show ?thesis using Interrupt_witness by (simp add: write_command_def Let_def update_one_def)
  qed
qed

lemma write_applied:
  assumes ok: "store_ok t" and un: "inspect command t = Insp_unapplied v" and w: "write_command command t = Inr t'"
  shows "applied_in command t'"
proof -
  obtain h where h: "row_at op_key (command_key command) (tbl_operations t) = Some h"
    "header_scope h = command_scope command" "\<not> is_terminal (hdr_state h)"
    using inspect_unapplied[OF ok un] by blast
  have live: "live_row (command_key command) h" using h row_at_Some[OF h(1)] by (simp add: live_row_def)
  show ?thesis
  proof (cases command)
    case (Complete_witness c)
    obtain i where i: "item_at (command_key command) (isc_id (cic_item c)) (tbl_items t) = Some i"
      "item_scope_of i = cic_item c" "\<not> item_is_terminal (itm_state i)"
      using inspect_unapplied[OF ok un] Complete_witness by auto
    have "item_key i = isc_id (cic_item c) \<and> live_item (command_key command) i"
      using i item_at_Some[OF i(1)] by (simp add: live_item_def)
    moreover have "item_matches c (complete_row c i)"
      by (simp add: item_matches_def complete_row_def end_item_def stored_outcome_def)
    ultimately show ?thesis
      using w h i Complete_witness
      by (auto simp: write_command_def Let_def result_iffs update_one_Ok_iff applied_in_def row_at_rewrite
          item_at_rewrite)
  next
    case (Finish_witness c)
    let ?p = "\<lambda>h. live_row (command_key command) h \<and> completed (hdr_counts h) = total (hdr_counts h)"
    have "hits ?p (tbl_operations t) = 1"
      using w Finish_witness by (auto simp: write_command_def Let_def result_iffs update_one_Ok_iff)
    from update_hits_at[OF ok this _ h(1)] have p: "?p h" by (simp add: live_row_def)
    moreover have "parent_matches command (end_row (fic_state c) (null_if_empty (fic_outcome c)) (fic_at c) h)"
      using Finish_witness p by (simp add: parent_matches_def end_row_def finish_stored_outcome_def)
    ultimately show ?thesis
      using w h Finish_witness
      by (auto simp: write_command_def Let_def result_iffs update_one_Ok_iff applied_in_def row_at_rewrite)
  next
    case (Interrupt_witness c)
    then show ?thesis
      using w h live
      by (auto simp: write_command_def Let_def result_iffs update_one_Ok_iff applied_in_def row_at_rewrite
          parent_matches_def end_row_def set_completed_def header_scope_def history_key_of_def)
  qed
qed

end
