(* ===== verification/Store_Runs.thy ===== *)
theory Store_Runs
  imports Operation_Jobs Store_Safety Transition_Systems
begin

section \<open>Runs of the operation store\<close>

text \<open>
  Every call that writes the operation tables as one step, under any weather, and what no sequence of
  such calls can break.
\<close>

datatype store_op =
  Op_create new_operation string | Op_attempt nat command_witness | Op_start work_row string
  | Op_progress i64 i64 i64 | Op_cancel string | Op_cancel_all | Op_startup bool string

definition apply_op :: "store_env \<Rightarrow> weather \<times> weather \<Rightarrow> store_op \<Rightarrow> op_tables \<Rightarrow> op_tables" where
  "apply_op env w op t =
     (case op of
        Op_create input moment \<Rightarrow> snd (job_create env (fst w) input moment t)
      | Op_attempt gen command \<Rightarrow> snd (repository_attempt gen w command t)
      | Op_start work moment \<Rightarrow> snd (start_item (fst w) work moment t)
      | Op_progress item so_far goal \<Rightarrow> snd (save_progress (fst w) item so_far goal t)
      | Op_cancel k \<Rightarrow> snd (job_request_cancel (fst w) k t)
      | Op_cancel_all \<Rightarrow> snd (job_cancel_all (fst w) t)
      | Op_startup cleanup_failed moment \<Rightarrow> snd (startup_loop cleanup_failed moment [w] t))"

inductive store_step :: "store_env \<Rightarrow> op_tables \<Rightarrow> store_op \<Rightarrow> op_tables \<Rightarrow> bool" for env where
  called: "store_step env t op (apply_op env w op t)"

inductive_cases store_stepE: "store_step env t op t'"

text \<open>What one call must guarantee.\<close>

definition sound_change :: "op_tables \<Rightarrow> op_tables \<Rightarrow> bool" where
  "sound_change t t' \<longleftrightarrow> (store_ok t \<longrightarrow> store_ok t' \<and> kept t t')"

lemma sound_change_refl [simp]: "sound_change t t"
  by (simp add: sound_change_def)

lemma sound_change_trans: "sound_change t t' \<Longrightarrow> sound_change t' t'' \<Longrightarrow> sound_change t t''"
  using kept_trans by (auto simp: sound_change_def)

lemma transact_sound:
  assumes "\<And>x t'. body t = Inr (x, t') \<Longrightarrow> sound_change t t'"
  shows "sound_change t (snd (transact w body t))"
  by (rule transact_keeps[of body t "sound_change t"]) (use assms in auto)

subsection \<open>Creation\<close>

lemma next_item_id_above: "i \<in> set items \<Longrightarrow> item_key i < next_item_id items"
  by (induction items) (auto simp: next_item_id_def)

definition inserted :: "string \<Rightarrow> new_item list \<Rightarrow> operation_item list \<Rightarrow> operation_item list \<Rightarrow> bool" where
  "inserted k news items added \<longleftrightarrow>
     list_all2 (\<lambda>i n. i = created_item k (item_key i) n) added news
     \<and> sorted (map item_key added) \<and> (\<forall>a \<in> set added. \<forall>i \<in> set items. item_key i < item_key a)
     \<and> distinct (map item_key added)"

lemma insert_created_shape:
  "\<exists>added. insert_created k news items = items @ added \<and> inserted k news items added"
proof (induction news arbitrary: items)
  case Nil
  then show ?case by (auto simp: inserted_def)
next
  case (Cons n news)
  let ?i = "created_item k (next_item_id items) n"
  obtain added where a: "insert_created k news (items @ [?i]) = (items @ [?i]) @ added"
    "inserted k news (items @ [?i]) added"
    using Cons by blast
  have "inserted k (n # news) items (?i # added)"
    using a(2) next_item_id_above[of _ items]
    by (auto simp: inserted_def created_item_def less_imp_le dest: less_imp_neq)
  then show ?case using a(1) by auto
qed

lemma admitted_plan_terminal:
  assumes "validate_new retained parse_uuid input = Inr held" "i \<in> set (new_items input)" "planned i = Some p"
  shows "item_is_terminal (plan_state p)"
proof -
  have "item_admissible parse_uuid (new_kind input) i"
    using assms(1,2) by (auto simp: validate_new_Ok_iff operation_admissible_def list_all_iff)
  then show ?thesis
    using assms(3) by (auto simp: item_admissible_def role_of_def plan_rejected_def split: if_splits)
qed

lemma created_terminal:
  "(\<And>p. planned i = Some p \<Longrightarrow> item_is_terminal (plan_state p)) \<Longrightarrow>
     item_is_terminal (itm_state (created_item k n i)) \<longleftrightarrow> planned i \<noteq> None"
  by (cases "planned i") (auto simp: created_item_def)

lemma inserted_counts:
  "list_all2 (\<lambda>i n. i = created_item k (item_key i) n) added news \<Longrightarrow>
     (\<And>i p. i \<in> set news \<Longrightarrow> planned i = Some p \<Longrightarrow> item_is_terminal (plan_state p)) \<Longrightarrow>
     sib_items (sibling_counts_of k added) = int (length news)
     \<and> sib_terminal (sibling_counts_of k added) = int (length (filter (\<lambda>i. planned i \<noteq> None) news))"
proof (induction added arbitrary: news)
  case Nil
  then show ?case by (simp add: sibling_counts_of_def)
next
  case (Cons a added)
  then obtain n rest where n: "news = n # rest" "a = created_item k (item_key a) n"
    "list_all2 (\<lambda>i n. i = created_item k (item_key i) n) added rest"
    by (auto simp: list_all2_Cons1)
  have "itm_operation (created_item k m n) = k" for m by (simp add: created_item_def)
  then have "itm_operation a = k" using n(2) by metis
  moreover have "item_is_terminal (itm_state a) \<longleftrightarrow> planned n \<noteq> None"
    using created_terminal[of n k "item_key a"] Cons.prems(2)[of n] n(1,2) by auto
  moreover have "sib_items (sibling_counts_of k added) = int (length rest)
     \<and> sib_terminal (sibling_counts_of k added) = int (length (filter (\<lambda>i. planned i \<noteq> None) rest))"
    by (rule Cons.IH[OF n(3)], rule Cons.prems(2)) (simp_all add: n(1))
  ultimately show ?case by (simp add: n(1) sibling_counts_of_def hits_Cons)
qed

lemma siblings_append:
  "sibling_counts_of k (items @ added) =
     \<lparr>sib_items = sib_items (sibling_counts_of k items) + sib_items (sibling_counts_of k added),
      sib_terminal = sib_terminal (sibling_counts_of k items) + sib_terminal (sibling_counts_of k added)\<rparr>"
  by (simp add: sibling_counts_of_def)

lemma siblings_none:
  "(\<And>i. i \<in> set items \<Longrightarrow> itm_operation i \<noteq> k) \<Longrightarrow> sibling_counts_of k items = \<lparr>sib_items = 0, sib_terminal = 0\<rparr>"
  by (auto simp: sibling_counts_of_def hits_def filter_empty_conv)

lemma inserted_operation:
  "list_all2 (\<lambda>i n. i = created_item k (item_key i) n) added news \<Longrightarrow> i \<in> set added \<Longrightarrow> itm_operation i = k"
  by (induction added news rule: list_all2_induct) (auto, metis created_item_def operation_item.select_convs(1))

lemma create_insert_sound:
  assumes ok: "store_ok t" and v: "validate_new retained parse_uuid input = Inr bytes"
    and fresh: "row_at op_key (new_id input) (tbl_operations t) = None"
  shows "store_ok \<lparr>tbl_operations = tbl_operations t @ [created_header env input held moment],
      tbl_items = insert_created (new_id input) (new_items input) (tbl_items t)\<rparr>"
proof -
  let ?k = "new_id input"
  let ?h = "created_header env input held moment"
  have free: "?k \<notin> op_key ` set (tbl_operations t)" using fresh by (simp add: row_at_None)
  obtain added where a: "insert_created ?k (new_items input) (tbl_items t) = tbl_items t @ added"
    and ins: "inserted ?k (new_items input) (tbl_items t) added"
    using insert_created_shape by blast
  have op: "itm_operation i = ?k" if "i \<in> set added" for i
    using inserted_operation[of ?k added "new_items input" i] ins that by (simp add: inserted_def)
  have old: "itm_operation i \<noteq> ?k" if "i \<in> set (tbl_items t)" for i
    using ok free that unfolding store_ok_def by metis
  have counts: "sib_items (sibling_counts_of ?k added) = int (length (new_items input))"
    "sib_terminal (sibling_counts_of ?k added) = int (length (filter (\<lambda>i. planned i \<noteq> None) (new_items input)))"
    using inserted_counts[OF _ admitted_plan_terminal[OF v], of ?k added] ins by (simp_all add: inserted_def)
  have key: "op_key ?h = ?k" by (simp add: created_header_def)
  have "coherent_row (tbl_items t @ added) ?h"
    using counts siblings_none[of "tbl_items t" ?k] old
    by (auto simp: coherent_row_def siblings_append created_header_def)
  moreover have "coherent_row (tbl_items t @ added) h" if h: "h \<in> set (tbl_operations t)" for h
  proof -
    have "op_key h \<noteq> ?k" using free h by (metis image_eqI)
    then have "sibling_counts_of (op_key h) added = \<lparr>sib_items = 0, sib_terminal = 0\<rparr>"
      using op by (intro siblings_none) auto
    then show ?thesis using store_ok_row[OF ok h] by (auto simp: coherent_row_def siblings_append)
  qed
  moreover have "distinct (map item_key (tbl_items t @ added))"
    using ok ins by (fastforce simp: store_ok_def inserted_def)
  moreover have "distinct (map op_key (tbl_operations t @ [?h]))"
    using ok free by (auto simp: store_ok_def key)
  ultimately show ?thesis
    using ok op by (auto simp: store_ok_def a key)
qed

lemma create_sound:
  assumes "job_create_body env input moment t = Inr (u, t')"
  shows "sound_change t t'"
proof -
  obtain bytes where v: "validate_new (env_retained env) (env_uuid env) input = Inr bytes"
    using assms by (auto simp: job_create_body_def create_body_def result_iffs split: if_splits)
  show ?thesis
  proof (cases "row_at op_key (new_id input) (tbl_operations t)")
    case (Some h)
    then have "t' = t"
      using assms
      by (auto simp: job_create_body_def create_body_def snapshot_of_def result_iffs split: if_splits)
    then show ?thesis by simp
  next
    case None
    then have t': "t' = \<lparr>tbl_operations = tbl_operations t @ [created_header env input bytes moment],
        tbl_items = insert_created (new_id input) (new_items input) (tbl_items t)\<rparr>"
      using assms v by (auto simp: job_create_body_def create_body_def snapshot_of_def split: if_splits)
    obtain added where "insert_created (new_id input) (new_items input) (tbl_items t) = tbl_items t @ added"
      using insert_created_shape by blast
    then have "kept t t'" by (auto simp: kept_def t')
    then show ?thesis using create_insert_sound[OF _ v None] by (auto simp: sound_change_def t')
  qed
qed

subsection \<open>The other calls\<close>

lemma job_updates [simp]:
  "header_scope (run_header moment h) = header_scope h"
  "header_scope (cancel_header h) = header_scope h"
  "op_id (hdr_identity (run_header moment h)) = op_id (hdr_identity h)"
  "hdr_identity (cancel_header h) = hdr_identity h"
  "hdr_counts (run_header moment h) = hdr_counts h" "hdr_counts (cancel_header h) = hdr_counts h"
  "hdr_state (run_header moment h) = Running" "hdr_state (cancel_header h) = hdr_state h"
  "item_scope_of (run_item i) = item_scope_of i" "item_scope_of (progress_item n i) = item_scope_of i"
  "itm_identity (run_item i) = itm_identity i" "itm_identity (progress_item n i) = itm_identity i"
  "itm_operation (run_item i) = itm_operation i" "itm_operation (progress_item n i) = itm_operation i"
  "itm_state (run_item i) = Running_item" "itm_state (progress_item n i) = itm_state i"
  by (simp_all add: header_scope_def item_scope_of_def history_key_of_def run_header_def cancel_header_def
      run_item_def progress_item_def)

text \<open>An update of active rows that keeps which items are terminal and the counts.\<close>

lemma live_update_sound:
  assumes "\<And>h. p h \<Longrightarrow> \<not> is_terminal (hdr_state h) \<and> \<not> is_terminal (hdr_state (f h))"
    and "\<And>h. header_scope (f h) = header_scope h \<and> hdr_counts (f h) = hdr_counts h"
    and "\<And>i. q i \<Longrightarrow> \<not> item_is_terminal (itm_state i) \<and> \<not> item_is_terminal (itm_state (g i))"
    and "\<And>i. item_scope_of (g i) = item_scope_of i"
  shows "sound_change t \<lparr>tbl_operations = rewrite p f (tbl_operations t), tbl_items = rewrite q g (tbl_items t)\<rparr>"
proof -
  have keys: "op_key (f h) = op_key h" "item_key (g i) = item_key i" "itm_operation (g i) = itm_operation i" for h i
    using header_scope_key[of "f h"] header_scope_key[of h] assms(2) item_scope_key[of "g i"] item_scope_key[of i] assms(4)
    by auto
  have "coherent_row (rewrite q g (tbl_items t)) (if p h then f h else h)"
    if "store_ok t" "h \<in> set (tbl_operations t)" for h
    using store_ok_row[OF that] assms(1)[of h] assms(2)[of h] keys(1)[of h] siblings_same[of q g _ "tbl_items t"]
      assms(3) keys(3)
    by (auto simp: coherent_row_def)
  then show ?thesis
    using store_ok_rewrite[of t f g q p] kept_rewrite[of p f q g t] keys assms by (auto simp: sound_change_def)
qed

lemma start_sound:
  assumes "start_body work moment t = Inr (u, t')"
  shows "sound_change t t'"
proof -
  have "t' = t \<or> t' = \<lparr>tbl_operations = rewrite (live_row (work_key work)) (run_header moment) (tbl_operations t),
      tbl_items = rewrite (\<lambda>i. item_key i = item_key (wrk_item work) \<and> itm_operation i = work_key work
        \<and> itm_state i = Pending_item) run_item (tbl_items t)\<rparr>"
    using assms
    by (auto simp: start_body_def some_or_def result_iffs update_one_Ok_iff split: option.splits if_splits)
  then show ?thesis
    using live_update_sound[of "live_row (work_key work)" "run_header moment"
      "\<lambda>i. item_key i = item_key (wrk_item work) \<and> itm_operation i = work_key work \<and> itm_state i = Pending_item"
      run_item t]
    by (auto simp: live_row_def)
qed

lemma progress_sound:
  assumes "progress_body item so_far goal t = Inr (u, t')"
  shows "sound_change t t'"
proof -
  let ?q = "\<lambda>i. item_key i = item \<and> itm_state i = Running_item \<and> prg_total (itm_progress i) = goal
    \<and> prg_completed (itm_progress i) \<le> so_far \<and> list_ex (live_row (itm_operation i)) (tbl_operations t)"
  have "sound_change t \<lparr>tbl_operations = rewrite (\<lambda>_. False) id (tbl_operations t),
      tbl_items = rewrite ?q (progress_item so_far) (tbl_items t)\<rparr>"
    by (rule live_update_sound) auto
  then show ?thesis using assms by (auto simp: progress_body_def rewrite_none)
qed

lemma cancel_sound:
  assumes "cancel_body k t = Inr (u, t')"
  shows "sound_change t t'"
proof -
  have "sound_change t \<lparr>tbl_operations = rewrite (live_row k) cancel_header (tbl_operations t),
      tbl_items = rewrite (\<lambda>_. False) id (tbl_items t)\<rparr>"
    by (rule live_update_sound) (auto simp: live_row_def)
  then show ?thesis using assms by (auto simp: cancel_body_def result_iffs update_one_Ok_iff rewrite_none)
qed

lemma cancel_all_sound:
  assumes "cancel_all_body t = Inr (u, t')"
  shows "sound_change t t'"
proof -
  have "sound_change t \<lparr>tbl_operations = rewrite (\<lambda>h. \<not> is_terminal (hdr_state h)) cancel_header (tbl_operations t),
      tbl_items = rewrite (\<lambda>_. False) id (tbl_items t)\<rparr>"
    by (rule live_update_sound) auto
  then show ?thesis using assms by (auto simp: cancel_all_body_def rewrite_none)
qed

lemma list_ex_live:
  "store_ok t \<Longrightarrow> h \<in> set (tbl_operations t) \<Longrightarrow>
     list_ex (live_row (op_key h)) (tbl_operations t) \<longleftrightarrow> \<not> is_terminal (hdr_state h)"
  using store_ok_unique[of t h] by (auto simp: list_ex_iff live_row_def) metis

lemma startup_sound:
  assumes "startup_body cleanup_failed moment t = Inr (u, t')"
  shows "sound_change t t'"
proof -
  let ?p = "\<lambda>h. \<not> is_terminal (hdr_state h)"
  let ?f = "\<lambda>h. set_completed (total (hdr_counts h))
    (end_row Interrupted (startup_reason cleanup_failed (hdr_kind h)) moment h)"
  let ?q = "\<lambda>i. \<not> item_is_terminal (itm_state i) \<and> list_ex (live_row (itm_operation i)) (tbl_operations t)"
  let ?g = "stopped_item cleanup_failed (tbl_operations t)"
  have t': "t' = \<lparr>tbl_operations = rewrite ?p ?f (tbl_operations t), tbl_items = rewrite ?q ?g (tbl_items t)\<rparr>"
    using assms by (auto simp: startup_body_def split: if_splits)
  have g: "item_scope_of (?g i) = item_scope_of i" "item_key (?g i) = item_key i"
    "itm_operation (?g i) = itm_operation i" "itm_state (?g i) = Cancelled_item" for i
    by (simp_all add: stopped_item_def)
  have ended: "sib_terminal (sibling_counts_of k (rewrite ?q ?g (tbl_items t))) =
    (if list_ex (live_row k) (tbl_operations t) then sib_items (sibling_counts_of k (tbl_items t))
     else sib_terminal (sibling_counts_of k (tbl_items t)))" for k
    by (rule siblings_end_all[of _ "\<lambda>k. list_ex (live_row k) (tbl_operations t)"]) (auto simp: g)
  have "store_ok t'" if ok: "store_ok t"
    unfolding t'
  proof (rule store_ok_rewrite[OF ok], simp, simp add: g, simp add: g)
    fix h assume h: "h \<in> set (tbl_operations t)"
    then show "coherent_row (rewrite ?q ?g (tbl_items t)) (if ?p h then ?f h else h)"
      using store_ok_row[OF ok h] list_ex_live[OF ok h]
      by (cases "is_terminal (hdr_state h)") (auto simp: coherent_row_def siblings_total g ended)
  qed
  moreover have "kept t t'" unfolding t' by (rule kept_rewrite) (auto simp: g)
  ultimately show ?thesis by (simp add: sound_change_def)
qed

lemma attempt_sound: "sound_change t (snd (repository_attempt gen w command t))"
proof (cases "repository_refusal gen command")
  case None
  then have valid: "command_valid command" by (auto simp: repository_refusal_def split: if_splits)
  have "sound_change t (snd (transact (fst w) (attempt_body command) t))"
  proof (rule transact_sound)
    fix x t' assume "attempt_body command t = Inr (x, t')"
    then show "sound_change t t'"
      using write_store_ok[OF _ _ valid] write_kept
      by (auto simp: attempt_body_def result_iffs sound_change_def split: inspection.splits)
  qed
  then show ?thesis using None by (simp add: repository_attempt_def split_beta Let_def)
qed (simp add: repository_attempt_def)

lemma apply_op_sound: "sound_change t (apply_op env w op t)"
proof (cases op)
  case (Op_create input moment)
  then show ?thesis
    using transact_sound[of "job_create_body env input moment" t "fst w"] create_sound
    by (auto simp: apply_op_def job_create_def split_beta Let_def)
next
  case (Op_attempt gen command)
  then show ?thesis using attempt_sound by (simp add: apply_op_def)
next
  case (Op_start work moment)
  then show ?thesis
    using transact_sound[of "start_body work moment" t "fst w"] start_sound
    by (auto simp: apply_op_def start_item_def split_beta Let_def)
next
  case (Op_progress item so_far goal)
  then show ?thesis
    using transact_sound[of "progress_body item so_far goal" t "fst w"] progress_sound
    by (auto simp: apply_op_def save_progress_def split_beta Let_def)
next
  case (Op_cancel k)
  then show ?thesis
    using transact_sound[of "cancel_body k" t "fst w"] cancel_sound
    by (auto simp: apply_op_def job_request_cancel_def split_beta Let_def)
next
  case Op_cancel_all
  then show ?thesis
    using transact_sound[of cancel_all_body t "fst w"] cancel_all_sound
    by (auto simp: apply_op_def job_cancel_all_def split_beta Let_def)
next
  case (Op_startup cleanup_failed moment)
  have "sound_change t (snd (transact (fst w) (startup_body cleanup_failed moment) t))"
    by (rule transact_sound) (rule startup_sound)
  then show ?thesis
    using Op_startup
    by (cases w) (auto simp: apply_op_def Let_def split_beta split: tx_outcome.splits sum.splits bool.splits)
qed

definition empty_tables :: op_tables where
  "empty_tables = \<lparr>tbl_operations = [], tbl_items = []\<rparr>"

lemma empty_tables_ok: "store_ok empty_tables"
  by (simp add: empty_tables_def store_ok_def)

lemma store_step_sound: "store_step env t op t' \<Longrightarrow> sound_change t t'"
  using apply_op_sound by (auto elim: store_stepE)

interpretation tables: safe_system "\<lambda>t. t = empty_tables" "store_step env" store_ok for env
  by unfold_locales (use empty_tables_ok store_step_sound in \<open>auto simp: sound_change_def\<close>)

lemma run_sound: "run (store_step env) t ops t' \<Longrightarrow> sound_change t t'"
  by (induction rule: run.induct) (auto intro: sound_change_trans store_step_sound)

subsection \<open>A small history\<close>

definition sample_env :: store_env where
  "sample_env =
     \<lparr>env_retained = (\<lambda>_. Inr 0), env_uuid = (\<lambda>_. Some ()), env_json_ids = (\<lambda>_. ''[]''), env_json_names = (\<lambda>_. ''[]'')\<rparr>"

definition sample_new :: new_operation where
  "sample_new =
     \<lparr>new_id = replicate 36 CHR ''a'', new_kind = Import, new_source = None, new_destination = None,
      new_items = [\<lparr>new_story_id = 0, new_story_uuid = [], new_story_title = [], new_source_name = ''s.zip'',
        new_output_name = [], new_archive_path = [], new_archive_hash = [], new_skip_code = [],
        new_total_bytes = 5, planned = None\<rparr>]\<rparr>"

definition sample_tables :: op_tables where
  "sample_tables = apply_op sample_env (Commits, Commits) (Op_create sample_new ''t'') empty_tables"

definition created_tables :: op_tables where
  "created_tables =
     \<lparr>tbl_operations = [created_header sample_env sample_new 0 ''t''],
      tbl_items = [created_item (new_id sample_new) 1 (hd (new_items sample_new))]\<rparr>"

lemma sample_validates: "validate_new (env_retained sample_env) (env_uuid sample_env) sample_new = Inr 0"
  unfolding sample_env_def sample_new_def by code_simp

lemma sample_moment: "text_present ''t''"
  by code_simp

lemma sample_tables_eq: "sample_tables = created_tables"
  using sample_validates sample_moment
  by (simp add: sample_tables_def created_tables_def apply_op_def job_create_def transact_def job_create_body_def
      create_body_def snapshot_of_def row_at_def empty_tables_def Let_def next_item_id_def)
    (simp add: sample_new_def next_item_id_def)

lemma call_run: "run (store_step env) t [op] (apply_op env w op t)"
  by (auto simp: run_Cons_simp run_Nil_simp intro: called)

lemma empty_reachable: "reachable (\<lambda>t. t = empty_tables) (store_step env) empty_tables"
  by (simp add: reach_start)

lemma sample_tables_reachable: "reachable (\<lambda>t. t = empty_tables) (store_step sample_env) sample_tables"
  unfolding sample_tables_def by (rule run_reachable[OF call_run empty_reachable])

definition sample_interrupt :: command_witness where
  "sample_interrupt =
     Interrupt_witness \<lparr>inc_generation = 1, inc_operation = header_scope (created_header sample_env sample_new 0 ''t''),
       inc_code = ''c'', inc_message = ''m'', inc_at = ''u''\<rparr>"



end
