(* ===== verification/Store_Contract.thy ===== *)
theory Store_Contract
  imports Persistence
begin

section \<open>What persisting may rely on\<close>

text \<open>
  The contract between \<open>persist\<close> and the terminal store, as a locale: the store keeps its own invariant,
  an answer that calls a command saved means that it is, and a view that an answer carries is a row of
  the store as it is then. Under this contract what \<open>persist\<close> returns is true of the store it leaves.
\<close>

locale terminal_store =
  fixes st :: "'s store" and good :: "'s \<Rightarrow> bool" and saved :: "command_witness \<Rightarrow> 's \<Rightarrow> bool"
    and row :: "command_witness \<Rightarrow> 's \<Rightarrow> operation_header option"
  assumes attempt_good: "good s \<Longrightarrow> st_attempt st c s = (d, t) \<Longrightarrow> good t"
    and readback_good: "good s \<Longrightarrow> st_readback st c s = (e, t) \<Longrightarrow> good t"
    and attempt_saved: "good s \<Longrightarrow> st_attempt st c s = (d, t) \<Longrightarrow> shows_saved (Wrote c d) \<Longrightarrow> saved c t"
    and readback_saved: "good s \<Longrightarrow> st_readback st c s = (e, t) \<Longrightarrow> shows_saved (Read c e) \<Longrightarrow> saved c t"
    and attempt_view: "good s \<Longrightarrow> st_attempt st c s = (d, t) \<Longrightarrow>
      d = Committed (Some v) \<or> d = AlreadyMatching v \<or> d = TerminalConflict v \<Longrightarrow> row c t = Some (view_operation v)"
    and readback_view: "good s \<Longrightarrow> st_readback st c s = (e, t) \<Longrightarrow>
      e = MatchesApplied v \<or> e = Read_conflict v \<Longrightarrow> row c t = Some (view_operation v)"
    and saved_interrupt: "good s \<Longrightarrow> saved (Interrupt_witness i) s \<Longrightarrow> row (Interrupt_witness i) s = Some h \<Longrightarrow>
      hdr_state h = Interrupted"
    and row_scope: "command_scope c = command_scope c' \<Longrightarrow> row c s = row c' s"
begin

text \<open>The truth of a result in a state of the store.\<close>

definition true_in :: "command_witness \<Rightarrow> operation_header option \<Rightarrow> 's \<Rightarrow> bool" where
  "true_in c r s \<longleftrightarrow>
     (case r of None \<Rightarrow> saved c s | Some h \<Rightarrow> row c s = Some h \<and> hdr_state h = Interrupted)"

lemma after_read_true:
  assumes "good s" "st_readback st c s = (e, t)" "after_read e = Return r"
  shows "true_in c r t"
  using assms(3) readback_saved[OF assms(1,2)] readback_view[OF assms(1,2)]
  by (auto simp: after_read_def true_in_def shows_saved_def interrupted_Some_iff
      split: readback_disposition.splits option.splits)

lemma after_write_true:
  assumes "good s" "st_attempt st c s = (d, t)" "after_write d = Return r"
  shows "true_in c r t"
  using assms(3) attempt_saved[OF assms(1,2)] attempt_view[OF assms(1,2)]
  by (auto simp: after_write_def true_in_def shows_saved_def interrupted_Some_iff
      split: attempt_disposition.splits option.splits)

lemma loop_true:
  assumes "good s" "persist_loop st c False 0 0 trace s = (r, tr, s')"
  shows "good s' \<and> (\<forall>h. r = Return h \<longrightarrow> true_in c h s')"
proof (rule persist_loop_invariant[where holds = good and result = "\<lambda>h. true_in c h"])
  fix s d t assume "good s" "st_attempt st c s = (d, t)"
  then show "good t \<and> (\<forall>h. after_write d = Return h \<longrightarrow> true_in c h t)"
    using attempt_good after_write_true by metis
next
  fix s e t assume "good s" "st_readback st c s = (e, t)"
  then show "good t \<and> (\<forall>h. after_read e = Return h \<longrightarrow> true_in c h t)"
    using readback_good after_read_true by metis
qed (use assms in simp_all)

lemma reconcile_once_true:
  assumes "good s" "reconcile_once st (Interrupt_witness i) unknown s = (p, t)"
  shows "good t \<and> (\<forall>h. p = Return h \<longrightarrow> true_in (Interrupt_witness i) (Some h) t)"
proof -
  let ?c = "Interrupt_witness i"
  have wrote: "good t \<and> (\<forall>h. reconcile_write d = Return h \<longrightarrow> true_in ?c (Some h) t)"
    if g: "good s" "st_attempt st ?c s = (d, t)" for s d t
  proof -
    have "good t" using attempt_good[OF g] .
    moreover have "true_in ?c (Some h) t" if r: "reconcile_write d = Return h" for h
    proof -
      have "row ?c t = Some h"
        using r attempt_view[OF g] by (auto simp: reconcile_write_def interrupted_Some_iff
            split: attempt_disposition.splits option.splits)
      moreover have "hdr_state h = Interrupted"
      proof (cases "shows_saved (Wrote ?c d)")
        case True
        then show ?thesis using saved_interrupt[OF \<open>good t\<close> attempt_saved[OF g True]] \<open>row ?c t = Some h\<close> by simp
      next
        case False
        then show ?thesis using r by (auto simp: reconcile_write_def interrupted_Some_iff shows_saved_def
              split: attempt_disposition.splits option.splits)
      qed
      ultimately show ?thesis by (simp add: true_in_def)
    qed
    ultimately show ?thesis by blast
  qed
  have read: "good t \<and> (\<forall>h. reconcile_read e = Return h \<longrightarrow> true_in ?c (Some h) t)"
    if g: "good s" "st_readback st ?c s = (e, t)" for s e t
  proof -
    have "good t" using readback_good[OF g] .
    moreover have "true_in ?c (Some h) t" if r: "reconcile_read e = Return h" for h
    proof (cases e)
      case (MatchesApplied v)
      then have "saved ?c t" "row ?c t = Some h"
        using r readback_saved[OF g] readback_view[OF g]
        by (auto simp: reconcile_read_def shows_saved_def)
      then show ?thesis using saved_interrupt[OF \<open>good t\<close>] by (simp add: true_in_def)
    next
      case (Read_conflict v)
      then show ?thesis using r readback_view[OF g]
        by (auto simp: reconcile_read_def true_in_def interrupted_Some_iff split: option.splits)
    qed (use r in \<open>simp_all add: reconcile_read_def\<close>)
    ultimately show ?thesis by blast
  qed
  obtain e s1 where e: "st_readback st ?c s = (e, s1)" by (cases "st_readback st ?c s")
  show ?thesis
  proof (cases "unknown \<and> reconcile_read e \<noteq> Go False")
    case True
    then have "p = reconcile_read e \<and> t = s1"
      using assms(2) e by (auto simp: reconcile_once_def split: progress_of.splits)
    then show ?thesis using read[OF assms(1) e] by simp
  next
    case False
    define s2 where "s2 = (if unknown then s1 else s)"
    obtain d t' where d: "st_attempt st ?c s2 = (d, t')" by (cases "st_attempt st ?c s2")
    have "p = reconcile_write d \<and> t = t'"
      using assms(2) e d False by (auto simp: reconcile_once_def s2_def split: if_splits)
    moreover have "good s2" using read[OF assms(1) e] assms(1) by (simp add: s2_def)
    ultimately show ?thesis using wrote[OF _ d] by simp
  qed
qed

lemma reconcile_true:
  assumes "good s" "reconcile st (Interrupt_witness i) unknown s = Some (h, t)"
  shows "good t \<and> true_in (Interrupt_witness i) (Some h) t"
  using assms(2) unfolding reconcile_def
proof (rule rounds_invariant[where holds = "\<lambda>_. good"
      and result = "\<lambda>h t. good t \<and> true_in (Interrupt_witness i) (Some h) t"])
  show "good s" by (rule assms(1))
next
  fix u s v s' assume "good s" "reconcile_once st (Interrupt_witness i) u s = (Go v, s')"
  then show "good s'" using reconcile_once_true by blast
next
  fix u s r s' assume "good s" "reconcile_once st (Interrupt_witness i) u s = (Return r, s')"
  then show "good s' \<and> true_in (Interrupt_witness i) (Some r) s'" using reconcile_once_true by blast
qed

lemma persist_true:
  assumes "good s" "persist st moment c s = Some p"
  shows "good (per_store p) \<and> true_in c (per_header p) (per_store p)"
proof -
  obtain r tr s1 where loop: "persist_loop st c False 0 0 [] s = (r, tr, s1)"
    by (cases "persist_loop st c False 0 0 [] s")
  have ok: "good s1 \<and> (\<forall>h. r = Return h \<longrightarrow> true_in c h s1)" using loop_true[OF assms(1) loop] .
  show ?thesis
  proof (cases r)
    case (Return h)
    then show ?thesis using assms(2) ok by (auto simp: persist_def loop)
  next
    case (Go u)
    then obtain h t where h: "reconcile st (escalation st moment c) False s1 = Some (h, t)"
      "per_header p = Some h" "per_store p = t"
      using assms(2) by (auto simp: persist_def loop)
    have "command_scope (escalation st moment c) = command_scope c"
      by (simp add: escalation_def command_scope_def)
    then have same: "row (escalation st moment c) t = row c t" by (rule row_scope)
    have "good t \<and> true_in (escalation st moment c) (Some h) t"
      using reconcile_true[of s1] ok h(1) unfolding escalation_def by blast
    then show ?thesis using h same by (simp add: true_in_def)
  qed
qed

end

end
