(* ===== verification/Store_Service.thy ===== *)
theory Store_Service
  imports Store_Runs Store_Contract
begin

section \<open>Persisting against the real store\<close>

text \<open>
  The terminal repository keeps the contract that \<open>persist\<close> relies on. A \<open>world\<close> is the tables with
  the script of the calls to come: before each of them other workers may call the store, and each has
  its own weather. When the script is used up nobody interferes and everything commits.
\<close>

subsection \<open>What an answer tells\<close>

definition answer_true :: "command_witness \<Rightarrow> attempt_disposition \<Rightarrow> op_tables \<Rightarrow> op_tables \<Rightarrow> bool" where
  "answer_true command d t t' \<longleftrightarrow>
     (case d of
        Committed v \<Rightarrow>
          applied_in command t' \<and> \<not> applied_in command t
          \<and> (\<forall>view. v = Some view \<longrightarrow> rows_view (command_key command) (command_item command) t' = Some view)
      | AlreadyMatching view \<Rightarrow>
          t' = t \<and> applied_in command t \<and> rows_view (command_key command) (command_item command) t = Some view
      | TerminalConflict view \<Rightarrow>
          t' = t \<and> \<not> applied_in command t \<and> rows_view (command_key command) (command_item command) t = Some view
      | Unknown_attempt _ \<Rightarrow> t' = t \<or> applied_in command t'
      | _ \<Rightarrow> t' = t)"

definition read_true :: "command_witness \<Rightarrow> readback_disposition \<Rightarrow> op_tables \<Rightarrow> bool" where
  "read_true command d t \<longleftrightarrow>
     (case d of
        MatchesApplied view \<Rightarrow>
          applied_in command t \<and> rows_view (command_key command) (command_item command) t = Some view
      | ProvenNotApplied view \<Rightarrow>
          \<not> applied_in command t \<and> rows_view (command_key command) (command_item command) t = Some view
      | Read_conflict view \<Rightarrow>
          \<not> applied_in command t \<and> rows_view (command_key command) (command_item command) t = Some view
      | _ \<Rightarrow> True)"

lemma inspect_view:
  "inspect command t = Insp_matching v \<or> inspect command t = Insp_conflict v \<or> inspect command t = Insp_unapplied v \<Longrightarrow>
     rows_view (command_key command) (command_item command) t = Some v"
  by (cases command) (auto simp: inspect_def settle_view_iff split: option.splits if_splits)

lemma inspect_not_applied:
  "store_ok t \<Longrightarrow> inspect command t = Insp_conflict v \<or> inspect command t = Insp_unapplied v \<Longrightarrow> \<not> applied_in command t"
  using inspect_matching_iff[of t command] by force

lemma body_written:
  assumes "store_ok t" "attempt_body command t = Inr (Work_written, t')"
  shows "applied_in command t' \<and> \<not> applied_in command t"
proof -
  obtain v where v: "inspect command t = Insp_unapplied v" "write_command command t = Inr t'"
    using assms(2) by (auto simp: attempt_body_def result_iffs split: inspection.splits)
  then show ?thesis using write_applied[OF assms(1)] inspect_not_applied[OF assms(1)] by blast
qed

lemma body_observed:
  assumes "attempt_body command t = Inr (Work_observed d, t')"
  shows "t' = t \<and> inspect command t = d \<and> (\<forall>v. d \<noteq> Insp_unapplied v)"
  using assms by (auto simp: attempt_body_def result_iffs split: inspection.splits)

lemma observed_true:
  assumes "store_ok t" "inspect command t = d" "\<And>v. d \<noteq> Insp_unapplied v"
  shows "answer_true command (attempt_observation d) t t"
  using assms inspect_view[of command t] inspect_not_applied[OF assms(1), of command] inspect_matching_iff[OF assms(1), of command]
  by (cases d) (auto simp: answer_true_def attempt_observation_def)

lemma attempt_answer:
  assumes "store_ok t" "repository_attempt gen w command t = (d, t')"
  shows "answer_true command d t t'"
proof (cases "repository_refusal gen command")
  case (Some r)
  then show ?thesis using assms(2) by (auto simp: repository_attempt_def answer_true_def)
next
  case None
  obtain out t1 where tr: "transact (fst w) (attempt_body command) t = (out, t1)"
    by (cases "transact (fst w) (attempt_body command) t")
  have t1: "t' = t1" using assms(2) None tr by (simp add: repository_attempt_def)
  have may: "t1 = t \<or> applied_in command t1"
  proof (rule ccontr)
    assume no: "\<not> (t1 = t \<or> applied_in command t1)"
    then obtain x where x: "attempt_body command t = Inr (x, t1)"
      using transact_tables[of "fst w" "attempt_body command" t] tr by auto
    then show False using body_written[OF assms(1)] body_observed no by (cases x) metis+
  qed
  show ?thesis
  proof (cases out)
    case (Tx_committed x)
    then have x: "attempt_body command t = Inr (x, t1)" using tr transact_committed by metis
    show ?thesis
    proof (cases x)
      case Work_written
      then have d: "d = Committed (committed_view (snd w) command t')"
        using assms(2) None tr Tx_committed Work_written by (auto simp: repository_attempt_def)
      have "rows_view (command_key command) (command_item command) t' = Some view"
        if "committed_view (snd w) command t' = Some view" for view
        using that by (auto simp: committed_view_def observe_def split: weather.splits)
      then show ?thesis
        using body_written[OF assms(1)] x Work_written t1 by (simp add: d answer_true_def)
    next
      case (Work_observed seen)
      then have "d = attempt_observation seen" "t1 = t" "inspect command t = seen" "\<And>v. seen \<noteq> Insp_unapplied v"
        using assms(2) None tr Tx_committed Work_observed body_observed[of command t seen t1] x
        by (auto simp: repository_attempt_def)
      then show ?thesis using observed_true[OF assms(1), of command seen] t1 by simp
    qed
  qed (use assms(2) None tr may t1 transact_refused transact_not_committed in
      \<open>auto simp: repository_attempt_def answer_true_def\<close>)
qed

lemma readback_answer:
  assumes "store_ok t"
  shows "read_true command (repository_readback gen w command t) t"
proof (cases "repository_refusal gen command \<noteq> None \<or> w \<noteq> Commits")
  case True
  then show ?thesis by (cases w) (auto simp: repository_readback_def read_true_def observe_def split: option.splits)
next
  case False
  then show ?thesis
    using inspect_view[of command t] inspect_not_applied[OF assms, of command] inspect_matching_iff[OF assms, of command]
    by (cases "inspect command t") (auto simp: repository_readback_def read_true_def observe_def)
qed

subsection \<open>Worlds\<close>

type_synonym turn = "(store_op \<times> weather \<times> weather) list \<times> weather \<times> weather"

record world =
  wld_tables :: op_tables
  wld_script :: "turn list"

definition interfere :: "store_env \<Rightarrow> (store_op \<times> weather \<times> weather) list \<Rightarrow> op_tables \<Rightarrow> op_tables" where
  "interfere env calls t = fold (\<lambda>(op, w) t. apply_op env w op t) calls t"

definition next_turn :: "store_env \<Rightarrow> world \<Rightarrow> (weather \<times> weather) \<times> world" where
  "next_turn env s =
     (case wld_script s of
        [] \<Rightarrow> ((Commits, Commits), s)
      | (calls, w) # rest \<Rightarrow> (w, \<lparr>wld_tables = interfere env calls (wld_tables s), wld_script = rest\<rparr>))"

definition sql_store :: "store_env \<Rightarrow> nat \<Rightarrow> world store" where
  "sql_store env gen =
     \<lparr>st_attempt = (\<lambda>command s.
        (let (w, s) = next_turn env s; (d, t) = repository_attempt gen w command (wld_tables s) in
         (d, s\<lparr>wld_tables := t\<rparr>))),
      st_readback = (\<lambda>command s.
        (let (w, s) = next_turn env s in (repository_readback gen (fst w) command (wld_tables s), s))),
      st_generation = gen\<rparr>"

lemma interfere_sound: "sound_change t (interfere env calls t)"
  unfolding interfere_def
proof (induction calls arbitrary: t)
  case (Cons c calls)
  obtain op w where c: "c = (op, w)" by (cases c)
  show ?case using sound_change_trans[OF apply_op_sound Cons.IH] by (simp add: c)
qed simp

lemma next_turn_sound: "next_turn env s = (w, s') \<Longrightarrow> sound_change (wld_tables s) (wld_tables s')"
  using interfere_sound by (auto simp: next_turn_def split: list.splits prod.splits)

definition world_ok :: "world \<Rightarrow> bool" where
  "world_ok s \<longleftrightarrow> store_ok (wld_tables s)"

definition saved_in :: "command_witness \<Rightarrow> world \<Rightarrow> bool" where
  "saved_in command s \<longleftrightarrow> command_valid command \<and> applied_in command (wld_tables s)"

definition world_row :: "command_witness \<Rightarrow> world \<Rightarrow> operation_header option" where
  "world_row command s = row_at op_key (command_key command) (tbl_operations (wld_tables s))"

lemma sql_attempt:
  assumes "world_ok s" "st_attempt (sql_store env gen) c s = (d, t)"
  shows "\<exists>t0. world_ok t \<and> sound_change (wld_tables s) (wld_tables t) \<and> answer_true c d t0 (wld_tables t)"
proof -
  obtain w s1 where w: "next_turn env s = (w, s1)" by (cases "next_turn env s")
  obtain t1 where t1: "repository_attempt gen w c (wld_tables s1) = (d, t1)" "t = s1\<lparr>wld_tables := t1\<rparr>"
    using assms(2) w by (auto simp: sql_store_def split: prod.splits)
  have s1: "sound_change (wld_tables s) (wld_tables s1)" using next_turn_sound[OF w] .
  have t: "sound_change (wld_tables s1) t1" using attempt_sound[of "wld_tables s1" gen w c] t1(1) by simp
  have ok: "store_ok (wld_tables s1)" using s1 assms(1) by (simp add: sound_change_def world_ok_def)
  show ?thesis
    using sound_change_trans[OF s1 t] attempt_answer[OF ok t1(1)] assms(1) t1(2)
    unfolding world_ok_def sound_change_def by auto
qed

lemma sql_readback:
  assumes "world_ok s" "st_readback (sql_store env gen) c s = (e, t)"
  shows "world_ok t \<and> read_true c e (wld_tables t)"
proof -
  obtain w s1 where w: "next_turn env s = (w, s1)" by (cases "next_turn env s")
  then have "t = s1" "e = repository_readback gen (fst w) c (wld_tables s1)"
    using assms(2) by (auto simp: sql_store_def)
  moreover have "store_ok (wld_tables s1)"
    using next_turn_sound[OF w] assms(1) by (simp add: sound_change_def world_ok_def)
  ultimately show ?thesis using readback_answer by (simp add: world_ok_def)
qed

lemma applied_interrupt_row:
  assumes "applied_in (Interrupt_witness i) t"
    and "row_at op_key (command_key (Interrupt_witness i)) (tbl_operations t) = Some h"
  shows "hdr_state h = Interrupted"
  using assms by (auto simp: applied_in_def parent_matches_def)

lemma rows_view_row:
  "rows_view k n t = Some v \<Longrightarrow> row_at op_key k (tbl_operations t) = Some (view_operation v)"
  by (auto simp: rows_view_def split: option.splits)

lemma saved_valid:
  "st_attempt (sql_store env gen) c s = (d, t) \<Longrightarrow> shows_saved (Wrote c d) \<Longrightarrow> command_valid c"
  "st_readback (sql_store env gen) c s = (e, t) \<Longrightarrow> shows_saved (Read c e) \<Longrightarrow> command_valid c"
  by (auto simp: sql_store_def repository_attempt_def repository_readback_def repository_refusal_def shows_saved_def
      split: prod.splits if_splits)

interpretation sql: terminal_store "sql_store env gen" world_ok saved_in world_row for env gen
proof
  fix s c d t assume s: "world_ok s" "st_attempt (sql_store env gen) c s = (d, t)"
  from sql_attempt[OF s] obtain t0 where a: "world_ok t" "answer_true c d t0 (wld_tables t)" by blast
  then show "world_ok t" by simp
  show "saved_in c t" if "shows_saved (Wrote c d)"
    using a(2) that saved_valid(1)[OF s(2) that]
    by (cases d) (auto simp: answer_true_def shows_saved_def saved_in_def)
  show "world_row c t = Some (view_operation v)"
    if "d = Committed (Some v) \<or> d = AlreadyMatching v \<or> d = TerminalConflict v" for v
    using a(2) that by (auto simp: answer_true_def world_row_def dest: rows_view_row)
next
  fix s c e t assume s: "world_ok s" "st_readback (sql_store env gen) c s = (e, t)"
  note r = sql_readback[OF s]
  then show "world_ok t" by simp
  show "saved_in c t" if "shows_saved (Read c e)"
    using r that saved_valid(2)[OF s(2) that]
    by (cases e) (auto simp: read_true_def shows_saved_def saved_in_def)
  show "world_row c t = Some (view_operation v)" if "e = MatchesApplied v \<or> e = Read_conflict v" for v
    using r that by (auto simp: read_true_def world_row_def dest: rows_view_row)
next
  fix i s h assume "world_ok s" "saved_in (Interrupt_witness i) s" "world_row (Interrupt_witness i) s = Some h"
  then show "hdr_state h = Interrupted" using applied_interrupt_row by (auto simp: saved_in_def world_row_def)
next
  fix c c' s assume "command_scope c = command_scope c'"
  then show "world_row c s = world_row c' s" by (simp add: world_row_def)
qed

lemma ended_row_stays:
  assumes "row_at op_key k (tbl_operations t) = Some h" "is_terminal (hdr_state h)" "kept t t'" "store_ok t'"
  shows "row_at op_key k (tbl_operations t') = Some h"
proof -
  have "h \<in> set (tbl_operations t')" using assms(2,3) row_at_Some[OF assms(1)] unfolding kept_def by metis
  then show ?thesis
    using row_at_unique[of op_key "tbl_operations t'" h] row_at_Some[OF assms(1)] assms(4) by (simp add: store_ok_def)
qed

subsection \<open>Persisting ends when nobody else ends the operation\<close>

definition calm :: "world \<Rightarrow> bool" where
  "calm s \<longleftrightarrow> list_all (\<lambda>turn. fst turn = []) (wld_script s)"

definition open_scope :: "operation_scope \<Rightarrow> world \<Rightarrow> bool" where
  "open_scope sc s \<longleftrightarrow>
     world_ok s \<and> calm s
     \<and> (\<exists>h. row_at op_key (key_id (scp_identity sc)) (tbl_operations (wld_tables s)) = Some h \<and> header_scope h = sc
         \<and> (\<not> is_terminal (hdr_state h) \<or> hdr_state h = Interrupted))"

definition finishes :: "command_witness \<Rightarrow> bool" where
  "finishes c \<longleftrightarrow> (case c of Finish_witness _ \<Rightarrow> True | _ \<Rightarrow> False)"

lemma calm_turn:
  assumes "calm s" "next_turn env s = (w, s1)"
  shows "wld_tables s1 = wld_tables s \<and> calm s1 \<and> length (wld_script s1) = length (wld_script s) - 1
    \<and> (wld_script s = [] \<longrightarrow> w = (Commits, Commits))"
  using assms by (cases "wld_script s") (auto simp: next_turn_def calm_def interfere_def split: prod.splits)

lemma write_stays_open:
  assumes "write_command c t = Inr t'" "\<not> finishes c"
    and "row_at op_key (command_key c) (tbl_operations t) = Some h" "header_scope h = sc"
    and "\<not> is_terminal (hdr_state h) \<or> hdr_state h = Interrupted"
  shows "\<exists>h. row_at op_key (command_key c) (tbl_operations t') = Some h \<and> header_scope h = sc
    \<and> (\<not> is_terminal (hdr_state h) \<or> hdr_state h = Interrupted)"
  using assms
  by (cases c)
    (auto simp: write_command_def Let_def result_iffs update_one_Ok_iff finishes_def row_at_rewrite)

lemma attempt_stays_open:
  assumes "open_scope sc s" "command_scope c = sc" "\<not> finishes c" "st_attempt (sql_store env gen) c s = (d, t)"
  shows "open_scope sc t \<and> length (wld_script t) = length (wld_script s) - 1"
proof -
  obtain w s1 where w: "next_turn env s = (w, s1)" by (cases "next_turn env s")
  then obtain t1 where t1: "repository_attempt gen w c (wld_tables s1) = (d, t1)" "t = s1\<lparr>wld_tables := t1\<rparr>"
    using assms(4) by (auto simp: sql_store_def split: prod.splits)
  note turn = calm_turn[OF _ w]
  have calm: "calm s" using assms(1) by (simp add: open_scope_def)
  have ok: "world_ok t" using sql_attempt[OF _ assms(4)] assms(1) by (auto simp: open_scope_def)
  have "t1 = wld_tables s \<or> (\<exists>x. attempt_body c (wld_tables s) = Inr (x, t1))"
    using t1(1) turn[OF calm] transact_tables[of "fst w" "attempt_body c" "wld_tables s"]
    by (auto simp: repository_attempt_def split: option.splits prod.splits)
  then have "t1 = wld_tables s \<or> write_command c (wld_tables s) = Inr t1"
    by (auto simp: attempt_body_def result_iffs split: inspection.splits)
  then have "\<exists>h. row_at op_key (command_key c) (tbl_operations t1) = Some h \<and> header_scope h = sc
      \<and> (\<not> is_terminal (hdr_state h) \<or> hdr_state h = Interrupted)"
    using write_stays_open[OF _ assms(3)] assms(1,2) by (auto simp: open_scope_def)
  then show ?thesis using turn[OF calm] ok t1(2) assms(2) by (simp add: open_scope_def calm_def)
qed

lemma readback_stays_open:
  assumes "open_scope sc s" "st_readback (sql_store env gen) c s = (e, t)"
  shows "open_scope sc t \<and> length (wld_script t) = length (wld_script s) - 1"
proof -
  obtain w s1 where w: "next_turn env s = (w, s1)" by (cases "next_turn env s")
  then have "t = s1" using assms(2) by (simp add: sql_store_def)
  then show ?thesis
    using calm_turn[OF _ w] assms(1) by (auto simp: open_scope_def world_ok_def)
qed

text \<open>Once nothing fails any more, one round settles the interruption.\<close>

lemma interrupt_settles:
  assumes "open_scope (inc_operation i) s" "wld_script s = []" "inc_generation i = gen" "command_valid (Interrupt_witness i)"
  shows "\<exists>h. reconcile_write (fst (st_attempt (sql_store env gen) (Interrupt_witness i) s)) = Return h"
    and "(\<exists>h. reconcile_read (fst (st_readback (sql_store env gen) (Interrupt_witness i) s)) = Return h)
      \<or> reconcile_read (fst (st_readback (sql_store env gen) (Interrupt_witness i) s)) = Go False"
proof -
  let ?c = "Interrupt_witness i" and ?t = "wld_tables s"
  have sc: "command_scope ?c = inc_operation i" by (simp add: command_scope_def)
  obtain h where h: "row_at op_key (command_key ?c) (tbl_operations ?t) = Some h" "header_scope h = inc_operation i"
    "\<not> is_terminal (hdr_state h) \<or> hdr_state h = Interrupted"
    using assms(1) sc by (auto simp: open_scope_def)
  have ok: "store_ok ?t" using assms(1) by (simp add: open_scope_def world_ok_def)
  have free: "repository_refusal gen ?c = None"
    using assms(3,4) by (simp add: repository_refusal_def command_generation_def)
  have ins: "inspect ?c ?t = settle_view (parent_matches ?c h) (the (rows_view (command_key ?c) None ?t))"
    using inspect_row[OF ok h(1)] h(2) sc by (simp add: command_item_def)
  note view = view_of_row[OF h(1), of None]
  let ?v = "the (rows_view (command_key ?c) None ?t)"
  have "inspect ?c ?t = Insp_matching ?v \<or> (inspect ?c ?t = Insp_conflict ?v \<and> interrupted ?v \<noteq> None)
      \<or> inspect ?c ?t = Insp_unapplied ?v"
    unfolding ins settle_view_def using view h(3) by (auto simp: interrupted_def)
  then consider (same) v where "inspect ?c ?t = Insp_matching v"
    | (other) v where "inspect ?c ?t = Insp_conflict v" "interrupted v \<noteq> None"
    | (unapplied) v where "inspect ?c ?t = Insp_unapplied v"
    by blast
  then have "(\<exists>h. reconcile_write (fst (repository_attempt gen (Commits, Commits) ?c ?t)) = Return h)
    \<and> ((\<exists>h. reconcile_read (repository_readback gen Commits ?c ?t) = Return h)
       \<or> reconcile_read (repository_readback gen Commits ?c ?t) = Go False)"
  proof cases
    case same
    then show ?thesis
      by (simp add: repository_attempt_def repository_readback_def free transact_def observe_def attempt_body_def
          attempt_observation_def reconcile_write_def reconcile_read_def)
  next
    case other
    then show ?thesis
      by (auto simp: repository_attempt_def repository_readback_def free transact_def observe_def attempt_body_def
          attempt_observation_def reconcile_write_def reconcile_read_def)
  next
    case unapplied
    obtain t' where t': "write_command ?c ?t = Inr t'" using write_commits_iff[OF ok unapplied h(1)] by auto
    obtain h' where "row_at op_key (command_key ?c) (tbl_operations t') = Some h'"
      using write_applied[OF ok unapplied t'] by (auto simp: applied_in_def)
    then show ?thesis
      using unapplied t'
      by (simp add: repository_attempt_def repository_readback_def free transact_def observe_def attempt_body_def
          committed_view_def rows_view_def reconcile_write_def reconcile_read_def)
  qed
  then show "\<exists>h. reconcile_write (fst (st_attempt (sql_store env gen) ?c s)) = Return h"
    and "(\<exists>h. reconcile_read (fst (st_readback (sql_store env gen) ?c s)) = Return h)
      \<or> reconcile_read (fst (st_readback (sql_store env gen) ?c s)) = Go False"
    using assms(2) by (simp_all add: sql_store_def next_turn_def split_beta Let_def)
qed

lemma interrupt_round:
  assumes "open_scope (inc_operation i) s" "inc_generation i = gen" "command_valid (Interrupt_witness i)"
    and "reconcile_once (sql_store env gen) (Interrupt_witness i) unknown s = (p, t)"
  shows "(\<exists>h. p = Return h) \<or> (open_scope (inc_operation i) t \<and> length (wld_script t) < length (wld_script s))"
proof -
  let ?c = "Interrupt_witness i" and ?st = "sql_store env gen"
  have sc: "command_scope ?c = inc_operation i" "\<not> finishes ?c" by (simp_all add: command_scope_def finishes_def)
  obtain e s1 where e: "st_readback ?st ?c s = (e, s1)" by (cases "st_readback ?st ?c s")
  note s1 = readback_stays_open[OF assms(1) e]
  define s2 where "s2 = (if unknown then s1 else s)"
  obtain d t2 where d: "st_attempt ?st ?c s2 = (d, t2)" by (cases "st_attempt ?st ?c s2")
  have s2: "open_scope (inc_operation i) s2 \<and> length (wld_script s2) \<le> length (wld_script s)"
    using s1 assms(1) by (simp add: s2_def)
  note t2 = attempt_stays_open[OF conjunct1[OF s2] sc d]
  show ?thesis
  proof (cases "wld_script s = []")
    case True
    then have "wld_script s2 = []" using s2 by simp
    from interrupt_settles(1)[OF conjunct1[OF s2] this assms(2,3), of env] d
    obtain h where "reconcile_write d = Return h" by auto
    moreover have "(\<exists>h. reconcile_read e = Return h) \<or> reconcile_read e = Go False"
      using interrupt_settles(2)[OF assms(1) True assms(2,3), of env] e by simp
    moreover have "p = (if unknown \<and> reconcile_read e \<noteq> Go False then reconcile_read e else reconcile_write d)"
      using assms(4) e d by (auto simp: reconcile_once_def s2_def split: progress_of.splits if_splits bool.splits)
    ultimately show ?thesis by metis
  next
    case False
    have "t = t2 \<or> (unknown \<and> t = s1)"
      using assms(4) e d by (auto simp: reconcile_once_def s2_def split: progress_of.splits if_splits bool.splits)
    then show ?thesis using False s1 s2 t2 by (cases "wld_script s") auto
  qed
qed

lemma interrupt_answered:
  assumes "open_scope (inc_operation i) s" "inc_generation i = gen" "command_valid (Interrupt_witness i)"
  shows "answered (reconcile_once (sql_store env gen) (Interrupt_witness i)) (Suc (length (wld_script s))) unknown s"
  using assms(1)
proof (induction "length (wld_script s)" arbitrary: s unknown rule: less_induct)
  case less
  let ?once = "reconcile_once (sql_store env gen) (Interrupt_witness i)"
  obtain p t where once: "?once unknown s = (p, t)" by (cases "?once unknown s")
  show ?case
  proof (cases p)
    case (Return h)
    then show ?thesis using once by simp
  next
    case (Go v)
    then have t: "open_scope (inc_operation i) t" "length (wld_script t) < length (wld_script s)"
      using interrupt_round[OF less.prems assms(2,3) once] by auto
    have "answered ?once (Suc (length (wld_script t))) v t" using less.hyps[OF t(2) t(1)] .
    then have "answered ?once (length (wld_script s)) v t" using answered_mono t(2) by (metis Suc_leI)
    then show ?thesis using once Go by simp
  qed
qed

lemma loop_stays_open:
  assumes "open_scope sc s" "command_scope c = sc" "\<not> finishes c"
  shows "open_scope sc (snd (snd (persist_loop (sql_store env gen) c False 0 0 trace s)))"
proof -
  obtain r tr s' where run: "persist_loop (sql_store env gen) c False 0 0 trace s = (r, tr, s')"
    by (cases "persist_loop (sql_store env gen) c False 0 0 trace s")
  have "open_scope sc s' \<and> (\<forall>h. r = Return h \<longrightarrow> True)"
  proof (rule persist_loop_invariant[where holds = "open_scope sc" and result = "\<lambda>_ _. True"])
    fix s d t assume "open_scope sc s" "st_attempt (sql_store env gen) c s = (d, t)"
    then show "open_scope sc t \<and> (\<forall>h. after_write d = Return h \<longrightarrow> True)"
      using attempt_stays_open[OF _ assms(2,3)] by blast
  next
    fix s e t assume "open_scope sc s" "st_readback (sql_store env gen) c s = (e, t)"
    then show "open_scope sc t \<and> (\<forall>h. after_read e = Return h \<longrightarrow> True)" using readback_stays_open by blast
  qed (use assms(1) run in simp_all)
  then show ?thesis by (simp add: run)
qed

lemma persist_ends:
  assumes "open_scope (command_scope c) s" "command_key c \<noteq> []" "\<not> finishes c"
  shows "persist (sql_store env gen) moment c s \<noteq> None"
proof -
  obtain r tr s1 where run: "persist_loop (sql_store env gen) c False 0 0 [] s = (r, tr, s1)"
    by (cases "persist_loop (sql_store env gen) c False 0 0 [] s")
  have s1: "open_scope (command_scope c) s1"
    using loop_stays_open[OF assms(1) refl assms(3), of env gen "[]"] run by simp
  obtain i where i: "escalation (sql_store env gen) moment c = Interrupt_witness i" "inc_operation i = command_scope c"
    "inc_generation i = gen" "command_valid (Interrupt_witness i)"
    using assms(2) by (simp add: escalation_def sql_store_def command_valid_def command_scope_def)
  have "answered (reconcile_once (sql_store env gen) (Interrupt_witness i)) (Suc (length (wld_script s1))) False s1"
    by (rule interrupt_answered) (use s1 i in simp_all)
  then have "reconcile (sql_store env gen) (escalation (sql_store env gen) moment c) False s1 \<noteq> None"
    using reconcile_returns_iff i(1) by metis
  then show ?thesis by (cases r) (auto simp: persist_def run)
qed

subsection \<open>A finish that is lost twice\<close>

text \<open>On an operation that has ended otherwise, an interruption is answered by a conflict for ever.\<close>

lemma ended_never_settles:
  assumes "world_ok s" "wld_script s = []" "inc_generation i = gen" "command_valid (Interrupt_witness i)"
    and "row_at op_key (command_key (Interrupt_witness i)) (tbl_operations (wld_tables s)) = Some h"
    and "header_scope h = inc_operation i" "is_terminal (hdr_state h)" "hdr_state h \<noteq> Interrupted"
  shows "\<not> answered (reconcile_once (sql_store env gen) (Interrupt_witness i)) n False s"
proof (induction n)
  case (Suc n)
  let ?c = "Interrupt_witness i" and ?t = "wld_tables s"
  have ok: "store_ok ?t" using assms(1) by (simp add: world_ok_def)
  have sc: "command_scope ?c = inc_operation i" by (simp add: command_scope_def)
  obtain v where v: "inspect ?c ?t = Insp_conflict v" "interrupted v = None"
    using inspect_row[OF ok assms(5)] assms(6,7,8) sc view_of_row[OF assms(5), of None]
    by (auto simp: command_item_def settle_view_def parent_matches_def interrupted_def)
  have free: "repository_refusal gen ?c = None"
    using assms(3,4) by (simp add: repository_refusal_def command_generation_def)
  have "reconcile_once (sql_store env gen) ?c False s = (Go False, s)"
    using v assms(2)
    by (simp add: reconcile_once_def sql_store_def next_turn_def repository_attempt_def free transact_def
        attempt_body_def attempt_observation_def reconcile_write_def)
  then show ?case using Suc by simp
qed simp

definition lost_turns :: "storage_error list \<Rightarrow> turn list" where
  "lost_turns errors = ([], Commit_lost True, Commits) # map (\<lambda>e. ([], Body_fails e, Commits)) errors"

definition ended_tables :: op_tables where
  "ended_tables =
     \<lparr>tbl_operations = [set_completed 1 (created_header sample_env sample_new 0 ''t'')],
      tbl_items = [end_item Succeeded_item raw_outcome_default
        (created_item (new_id sample_new) 1 (hd (new_items sample_new)))]\<rparr>"

definition sample_finish :: command_witness where
  "sample_finish =
     Finish_witness \<lparr>fic_generation = 1, fic_operation = header_scope (created_header sample_env sample_new 0 ''t''),
       fic_state = Succeeded, fic_outcome = raw_outcome_default, fic_at = ''u''\<rparr>"

lemma ended_tables_ok: "store_ok ended_tables"
  unfolding store_ok_def ended_tables_def sample_new_def sample_env_def by code_simp

lemma sample_finish_unapplied:
  "repository_refusal 1 sample_finish = None \<and> (\<exists>v. inspect sample_finish ended_tables = Insp_unapplied v)"
proof -
  have "repository_refusal 1 sample_finish = None
      \<and> (case inspect sample_finish ended_tables of Insp_unapplied _ \<Rightarrow> True | _ \<Rightarrow> False)"
    unfolding ended_tables_def sample_finish_def sample_new_def sample_env_def by code_simp
  then show ?thesis by (auto split: inspection.splits)
qed

lemma sample_finish_writes: "\<exists>t'. write_command sample_finish ended_tables = Inr t'"
proof -
  have "\<not> isl (write_command sample_finish ended_tables)"
    unfolding ended_tables_def sample_finish_def sample_new_def sample_env_def by code_simp
  then show ?thesis by (cases "write_command sample_finish ended_tables") auto
qed

subsection \<open>What the composition promises\<close>

text \<open>C10: Every answer of the terminal repository is true of the tables, whatever the weather: committed
  means that the command was not applied before and is now, a match that it already was, a refusal, a
  proved rollback and a conflict that nothing changed, and an unknown outcome leaves either nothing or the
  command applied in full. A readback says applied or not applied only when it is so.\<close>

theorem answers_are_true:
  assumes "reachable (\<lambda>t. t = empty_tables) (store_step env) t"
    and "repository_attempt gen w command t = (d, t')"
  shows "answer_true command d t t' \<and> read_true command (repository_readback gen w' command t) t"
  using attempt_answer[OF tables.reachable_good[OF assms(1)] assms(2)]
    readback_answer[OF tables.reachable_good[OF assms(1)]] by blast

theorem answers_are_true_witness:
  "\<exists>d t'. repository_attempt 1 (Commit_lost True, Commits) sample_interrupt sample_tables = (d, t')
     \<and> answer_true sample_interrupt d sample_tables t'"
proof -
  obtain d t' where r: "repository_attempt 1 (Commit_lost True, Commits) sample_interrupt sample_tables = (d, t')"
    by (cases "repository_attempt 1 (Commit_lost True, Commits) sample_interrupt sample_tables")
  then show ?thesis using answers_are_true[OF sample_tables_reachable r] by blast
qed



lemma created_tables_ok: "store_ok created_tables"
  using tables.reachable_good[OF sample_tables_reachable] by (simp add: sample_tables_eq)

lemma created_row:
  "row_at op_key (command_key sample_interrupt) (tbl_operations created_tables) = Some (created_header sample_env sample_new 0 ''t'')
   \<and> header_scope (created_header sample_env sample_new 0 ''t'') = command_scope sample_interrupt
   \<and> \<not> is_terminal (hdr_state (created_header sample_env sample_new 0 ''t'')) \<and> command_key sample_interrupt \<noteq> []
   \<and> \<not> finishes sample_interrupt"
  unfolding created_tables_def sample_interrupt_def sample_new_def sample_env_def by code_simp



text \<open>C27: A finish can be lost for good: when its commit takes effect without an acknowledgement and
  the three readbacks that follow fail, \<open>persist\<close> escalates to an interruption of an operation that has
  ended; each further attempt finds the conflict, and \<open>reconcile_interrupt\<close> never returns, although the
  operation is saved and no call fails any more.\<close>

theorem lost_finish_never_returns:
  assumes "store_ok t" and "repository_refusal gen (Finish_witness c) = None"
    and "inspect (Finish_witness c) t = Insp_unapplied v" and "write_command (Finish_witness c) t = Inr t'"
  shows "persist (sql_store env gen) moment (Finish_witness c)
    \<lparr>wld_tables = t, wld_script = lost_turns [e1, e2, e3]\<rparr> = None"
proof -
  let ?c = "Finish_witness c" and ?s = "\<lparr>wld_tables = t', wld_script = []\<rparr>"
  have gen: "fic_generation c = gen" and valid: "command_valid ?c"
    using assms(2) by (auto simp: repository_refusal_def command_generation_def split: if_splits)
  obtain tr where loop: "persist_loop (sql_store env gen) ?c False 0 0 []
      \<lparr>wld_tables = t, wld_script = lost_turns [e1, e2, e3]\<rparr> = (Go True, tr, ?s)"
    using assms(2,3,4)
    by (simp add: persist_loop.simps lost_turns_def sql_store_def next_turn_def interfere_def repository_attempt_def
        repository_readback_def transact_def observe_def attempt_body_def after_write_def after_read_def Let_def)
  obtain i where i: "escalation (sql_store env gen) moment ?c = Interrupt_witness i"
    "inc_operation i = command_scope ?c" "inc_generation i = gen" "command_valid (Interrupt_witness i)"
    using valid by (simp add: escalation_def sql_store_def command_valid_def command_scope_def)
  have ok: "store_ok t'" using write_store_ok[OF assms(4,1) valid] .
  obtain h where h: "row_at op_key (command_key ?c) (tbl_operations t') = Some h" "header_scope h = command_scope ?c"
    "parent_matches ?c h"
    using write_applied[OF assms(1,3,4)] by (auto simp: applied_in_def)
  have "is_terminal (hdr_state h)" "hdr_state h \<noteq> Interrupted"
    using h(3) valid by (auto simp: parent_matches_def command_valid_def)
  moreover have "command_key (Interrupt_witness i) = command_key ?c"
    using i(2) by (simp add: command_scope_def)
  ultimately have "\<not> answered (reconcile_once (sql_store env gen) (Interrupt_witness i)) n False ?s" for n
    using ended_never_settles[of ?s i gen h env n] ok i h by (simp add: world_ok_def)
  then have "reconcile (sql_store env gen) (escalation (sql_store env gen) moment ?c) False ?s = None"
    using reconcile_returns_iff i(1) by metis
  then show ?thesis by (simp add: persist_def loop)
qed

theorem lost_finish_never_returns_witness:
  "persist (sql_store sample_env 1) ''u'' sample_finish
     \<lparr>wld_tables = ended_tables, wld_script = lost_turns [Err_other, Err_other, Err_other]\<rparr> = None"
  using lost_finish_never_returns[OF ended_tables_ok] sample_finish_unapplied sample_finish_writes
  by (auto simp: sample_finish_def)

end
