(* ===== verification/Store_Policy.thy ===== *)
theory Store_Policy
  imports Store_Runs
begin

section \<open>The repository follows the operation policy\<close>

text \<open>
  The guarded \<open>UPDATE\<close>s of the repository against the transitions of
  \<open>librairii-core/src/operations/policy.rs\<close>: on an operation that a command finds unapplied, the
  repository writes exactly what the policy computes from the stored rows, and refuses what the policy
  refuses.
\<close>

text \<open>The stored items of an operation as the policy sees them, in the order of their rows.\<close>

definition policy_item :: "operation_item \<Rightarrow> item_record" where
  "policy_item i =
     \<lparr>rec_identity = itm_identity i, rec_state = itm_state i, rec_progress = itm_progress i,
      rec_outcome = itm_outcome i\<rparr>"

definition policy_items :: "string \<Rightarrow> op_tables \<Rightarrow> item_record list" where
  "policy_items k t = map policy_item (filter (\<lambda>i. itm_operation i = k) (tbl_items t))"

lemma policy_items_counts:
  "sib_items (sibling_counts_of k (tbl_items t)) = int (length (policy_items k t))"
  "sib_terminal (sibling_counts_of k (tbl_items t)) =
     int (length (filter (\<lambda>r. item_is_terminal (rec_state r)) (policy_items k t)))"
proof -
  have "filter (\<lambda>r. item_is_terminal (rec_state r)) (policy_items k t)
      = map policy_item (filter (\<lambda>i. itm_operation i = k \<and> item_is_terminal (itm_state i)) (tbl_items t))"
    by (simp add: policy_items_def filter_map policy_item_def comp_def conj_commute)
  then show "sib_terminal (sibling_counts_of k (tbl_items t)) =
     int (length (filter (\<lambda>r. item_is_terminal (rec_state r)) (policy_items k t)))"
    by (simp add: sibling_counts_of_def hits_def)
qed (simp add: policy_items_def sibling_counts_of_def hits_def)

lemma policy_items_interrupted:
  assumes "tbl_items t' = rewrite (live_item k) (end_item Cancelled_item reason) (tbl_items t)"
  shows "policy_items k t' = map (interrupt_item reason) (policy_items k t)"
proof -
  have "map policy_item (filter (\<lambda>i. itm_operation i = k) (rewrite (live_item k) (end_item Cancelled_item reason) items))
      = map (interrupt_item reason) (map policy_item (filter (\<lambda>i. itm_operation i = k) items))" for items
    by (induction items) (auto simp: rewrite_def live_item_def interrupt_item_def policy_item_def end_item_def)
  then show ?thesis by (simp add: policy_items_def assms)
qed

definition written_header :: "string \<Rightarrow> op_tables \<Rightarrow> operation_header" where
  "written_header k t = the (row_at op_key k (tbl_operations t))"

definition written_item :: "string \<Rightarrow> i64 \<Rightarrow> op_tables \<Rightarrow> operation_item" where
  "written_item k n t = the (item_at k n (tbl_items t))"

text \<open>What the write must do, by the policy.\<close>

definition follows_policy :: "command_witness \<Rightarrow> op_tables \<Rightarrow> bool" where
  "follows_policy command t \<longleftrightarrow>
     (let k = command_key command; h = written_header k t in
      case command of
        Complete_witness c \<Rightarrow>
          (let n = isc_id (cic_item c) in
           \<exists>cand t'. complete_item (hdr_state h) (itm_state (written_item k n t)) (hdr_counts h) (cic_state c) = Inr cand
             \<and> write_command command t = Inr t'
             \<and> hdr_counts (written_header k t') = cand_counts cand
             \<and> itm_state (written_item k n t') = cand_item_state cand
             \<and> hdr_state (written_header k t') = hdr_state h)
      | Finish_witness c \<Rightarrow>
          (case finish (hdr_state h) (hdr_counts h) (fic_state c) of
             Inr st \<Rightarrow>
               (\<exists>t'. write_command command t = Inr t' \<and> hdr_state (written_header k t') = st
                 \<and> hdr_counts (written_header k t') = hdr_counts h \<and> tbl_items t' = tbl_items t)
           | Inl e \<Rightarrow> isl (write_command command t))
      | Interrupt_witness c \<Rightarrow>
          (let reason = \<lparr>code = Some (inc_code c), message = Some (inc_message c)\<rparr> in
           \<exists>cand t'. interrupt (hdr_state h) (hdr_counts h) (policy_items k t) reason = Inr cand
             \<and> write_command command t = Inr t'
             \<and> hdr_state (written_header k t') = int_state cand
             \<and> hdr_counts (written_header k t') = int_counts cand
             \<and> policy_items k t' = int_items cand
             \<and> hdr_outcome (written_header k t') = int_reason cand))"

lemma policy_followed:
  assumes ok: "store_ok t" and un: "inspect command t = Insp_unapplied v" and valid: "command_valid command"
    and fits: "int (length (tbl_items t)) \<le> i64_max"
  shows "follows_policy command t"
proof -
  let ?k = "command_key command"
  obtain h where h: "row_at op_key ?k (tbl_operations t) = Some h" "\<not> is_terminal (hdr_state h)"
    using inspect_unapplied[OF ok un] by blast
  have key: "op_key h = ?k" and row: "coherent_row (tbl_items t) h" using row_coherent[OF ok h(1)] by auto
  have counts: "counts_ok (hdr_counts h)" "total (hdr_counts h) = int (length (policy_items ?k t))"
    "completed (hdr_counts h) = int (length (filter (\<lambda>r. item_is_terminal (rec_state r)) (policy_items ?k t)))"
    using coherent_counts[OF row] key policy_items_counts[of ?k t] by auto
  have short: "length (policy_items ?k t) \<le> length (tbl_items t)" by (simp add: policy_items_def)
  have live: "live_row ?k h" using h key by (simp add: live_row_def)
  note commits = write_commits_iff[OF ok un h(1)]
  have hd_t: "written_header ?k t = h" by (simp add: written_header_def h(1))
  show ?thesis
  proof (cases command)
    case (Complete_witness c)
    let ?n = "isc_id (cic_item c)"
    obtain i where i: "item_at ?k ?n (tbl_items t) = Some i" "\<not> item_is_terminal (itm_state i)"
      using inspect_unapplied[OF ok un] Complete_witness by auto
    obtain t' where t': "write_command command t = Inr t'" using commits Complete_witness by auto
    then have "hits (\<lambda>h. live_row ?k h \<and> completed (hdr_counts h) < total (hdr_counts h)) (tbl_operations t) = 1"
      using Complete_witness by (auto simp: write_command_def Let_def result_iffs update_one_Ok_iff)
    from update_hits_at[OF ok this _ h(1)] have less: "completed (hdr_counts h) < total (hdr_counts h)"
      by (auto simp: live_row_def)
    have "0 \<le> completed (hdr_counts h)" "total (hdr_counts h) \<le> i64_max"
      using counts short fits by (auto simp: counts_ok_def)
    then have add: "i64_add (completed (hdr_counts h)) 1 = completed (hdr_counts h) + 1"
      using less by (intro i64_add_exact) (simp add: bounds_simps)
    have item: "itm_state (written_item ?k ?n t) = itm_state i" by (simp add: written_item_def i(1))
    have q: "item_key i = ?n \<and> live_item ?k i" using i item_at_Some[OF i(1)] by (simp add: live_item_def)
    have "hdr_counts (written_header ?k t') = (hdr_counts h)\<lparr>completed := completed (hdr_counts h) + 1\<rparr>"
      "hdr_state (written_header ?k t') = hdr_state h" "itm_state (written_item ?k ?n t') = cic_state c"
      using t' Complete_witness live less h(1) i(1) q
      by (auto simp: write_command_def Let_def result_iffs update_one_Ok_iff written_header_def written_item_def
          row_at_rewrite item_at_rewrite set_completed_def)
    moreover have "complete_item (hdr_state h) (itm_state i) (hdr_counts h) (cic_state c)
        = Inr \<lparr>cand_item_state = cic_state c, cand_counts = (hdr_counts h)\<lparr>completed := completed (hdr_counts h) + 1\<rparr>\<rparr>"
      using valid i(2) less add Complete_witness h(2) counts(1) by (simp add: complete_item_def command_valid_def result_iffs)
    ultimately show ?thesis
      using t' item hd_t Complete_witness by (auto simp: follows_policy_def Let_def)
  next
    case (Finish_witness c)
    have st: "is_terminal (fic_state c) \<and> fic_state c \<noteq> Interrupted"
      using valid Finish_witness by (simp add: command_valid_def)
    show ?thesis
    proof (cases "completed (hdr_counts h) = total (hdr_counts h)")
      case True
      then obtain t' where t': "write_command command t = Inr t'" using commits Finish_witness by auto
      then have "hdr_state (written_header ?k t') = fic_state c" "hdr_counts (written_header ?k t') = hdr_counts h"
        "tbl_items t' = tbl_items t"
        using Finish_witness live True h(1)
        by (auto simp: write_command_def Let_def result_iffs update_one_Ok_iff written_header_def row_at_rewrite)
      moreover have "finish (hdr_state h) (hdr_counts h) (fic_state c) = Inr (fic_state c)"
        using True st h(2) counts(1) by (simp add: finish_def result_iffs)
      ultimately show ?thesis
        using t' hd_t Finish_witness by (auto simp: follows_policy_def Let_def)
    next
      case False
      then have "isl (write_command command t)" using commits Finish_witness
        by (cases "write_command command t") auto
      moreover have "finish (hdr_state h) (hdr_counts h) (fic_state c) = Inl IncompleteOperation"
        using False st h(2) counts(1) by (simp add: finish_def result_iffs)
      ultimately show ?thesis
        using hd_t Finish_witness by (auto simp: follows_policy_def Let_def)
    qed
  next
    case (Interrupt_witness c)
    let ?r = "\<lparr>code = Some (inc_code c), message = Some (inc_message c)\<rparr>"
    obtain t' where t': "write_command command t = Inr t'" using commits Interrupt_witness by auto
    have reason: "text_or_default (code ?r) \<noteq> []" "text_or_default (message ?r) \<noteq> []"
      using valid Interrupt_witness by (auto simp: command_valid_def text_or_default_def)
    have terminal: "length (filter (\<lambda>r. item_is_terminal (rec_state r)) (policy_items ?k t)) \<le> length (tbl_items t)"
      using short length_filter_le order_trans by blast
    have n: "i64_try_from (length (policy_items ?k t)) = Some (int (length (policy_items ?k t)))"
      "i64_try_from (length (filter (\<lambda>r. item_is_terminal (rec_state r)) (policy_items ?k t)))
        = Some (int (length (filter (\<lambda>r. item_is_terminal (rec_state r)) (policy_items ?k t))))"
      using fits short terminal
      by (auto simp: i64_try_from_def bounds_simps)
    let ?cand = "\<lparr>int_state = Interrupted,
        int_counts = \<lparr>completed = total (hdr_counts h), total = total (hdr_counts h)\<rparr>,
        int_items = map (interrupt_item ?r) (policy_items ?k t), int_reason = ?r\<rparr>"
    have "interrupt (hdr_state h) (hdr_counts h) (policy_items ?k t) ?r = Inr ?cand"
      using h(2) counts reason n by (simp add: interrupt_def Let_def result_iffs) (simp add: counts_ok_def)
    moreover have "hdr_state (written_header ?k t') = Interrupted" "hdr_outcome (written_header ?k t') = ?r"
      "hdr_counts (written_header ?k t') = \<lparr>completed = total (hdr_counts h), total = total (hdr_counts h)\<rparr>"
      using t' Interrupt_witness live h(1)
      by (auto simp: write_command_def Let_def result_iffs update_one_Ok_iff written_header_def row_at_rewrite
          set_completed_def end_row_def)
    moreover have "policy_items ?k t' = map (interrupt_item ?r) (policy_items ?k t)"
      using t' Interrupt_witness
      by (intro policy_items_interrupted) (auto simp: write_command_def Let_def result_iffs update_one_Ok_iff)
    ultimately show ?thesis
      using t' hd_t Interrupt_witness by (auto simp: follows_policy_def Let_def)
  qed
qed

lemma sample_interrupt_ready:
  "command_valid sample_interrupt \<and> (\<exists>v. inspect sample_interrupt created_tables = Insp_unapplied v)
   \<and> int (length (tbl_items created_tables)) \<le> i64_max"
proof -
  have "command_valid sample_interrupt
      \<and> (case inspect sample_interrupt created_tables of Insp_unapplied _ \<Rightarrow> True | _ \<Rightarrow> False)"
    unfolding created_tables_def sample_interrupt_def sample_new_def sample_env_def by code_simp
  then show ?thesis by (auto simp: created_tables_def bounds_simps split: inspection.splits)
qed

text \<open>C3: The SQL of the repository implements the operation policy of the core: on every table it can
  reach, a command that is found unapplied is written exactly as the policy computes it from the stored
  rows, item states, counts, outcomes and all, and a finish is refused exactly when the policy refuses
  it.\<close>

theorem repository_refines_policy:
  assumes "reachable (\<lambda>t. t = empty_tables) (store_step env) t" and "inspect command t = Insp_unapplied v"
    and "command_valid command" and "int (length (tbl_items t)) \<le> i64_max"
  shows "follows_policy command t"
  using policy_followed[OF tables.reachable_good[OF assms(1)] assms(2,3,4)] .

theorem repository_refines_policy_witness: "follows_policy sample_interrupt created_tables"
proof -
  obtain v where "inspect sample_interrupt created_tables = Insp_unapplied v" using sample_interrupt_ready by blast
  then show ?thesis
    using repository_refines_policy[OF sample_tables_reachable[unfolded sample_tables_eq]] sample_interrupt_ready by blast
qed

end
