(* ===== verification/Removal.thy ===== *)
theory Removal
  imports Job_Creation Tables Transition_Systems
begin

section \<open>Removing a story\<close>

text \<open>
  \<open>librairii-storage/src/removal.rs\<close> and \<open>platform/unix/removal.rs\<close>: a removal records an intent,
  moves the archive of the story into the trash and then deletes the story; when anything fails, is
  cancelled or stays unknown it is rolled back, and a library that is opened again rolls back every
  intent it finds. The files are a map from paths to file identities (device and inode): a rename moves
  an identity and nothing here unlinks one. Directory descriptors, custody locks and flushes are steps
  that may fail. The join of a story with its archive is one row.
\<close>

subsection \<open>Rows and paths\<close>

record removal_scope =
  rs_story :: i64
  rs_uuid :: string
  rs_managed :: operation_path
  rs_hash :: string
  rs_bytes :: i64

record removal_intent =
  rn_id :: string
  rn_scope :: removal_scope
  rn_trash :: operation_path

record intent_row =
  ir_id :: string
  ir_story :: i64
  ir_managed :: operation_path
  ir_trash :: operation_path
  ir_created :: string

record vault =
  vlt_stories :: "removal_scope list"
  vlt_intents :: "intent_row list"

type_synonym file_map = "operation_path \<Rightarrow> nat option"

definition entry_name_ok :: "string \<Rightarrow> bool" where
  "entry_name_ok name \<longleftrightarrow>
     CHR 0x00 \<notin> set name \<and> CHR ''/'' \<notin> set name \<and> name \<noteq> [] \<and> name \<noteq> ''.'' \<and> name \<noteq> ''..''"

text \<open>The checks of \<open>parents\<close> on a path below one of the two areas of the library.\<close>

definition path_in :: "string \<Rightarrow> operation_path \<Rightarrow> bool" where
  "path_in area path \<longleftrightarrow>
     length path \<le> 4096 \<and>
     (case split_on (CHR ''/'') path of
        [] \<Rightarrow> False
      | first # names \<Rightarrow> first = area \<and> list_all entry_name_ok names \<and> length names \<le> 64 \<and> names \<noteq> [])"

definition dashed :: "string \<Rightarrow> string" where
  "dashed raw =
     take 8 raw @ ''-'' @ take 4 (drop 8 raw) @ ''-'' @ take 4 (drop 12 raw) @ ''-'' @ take 4 (drop 16 raw)
       @ ''-'' @ drop 20 raw"

definition trash_path :: "string \<Rightarrow> string \<Rightarrow> operation_path" where
  "trash_path k base = ''trash/removals/'' @ k @ ''/'' @ base"

definition read_scope :: "i64 \<Rightarrow> vault \<Rightarrow> storage_error + removal_scope option" where
  "read_scope n v =
     (case row_at rs_story n (vlt_stories v) of
        None \<Rightarrow> Inr None
      | Some s \<Rightarrow>
          if length (rs_uuid s) > 4096 \<or> length (rs_managed s) > 4096 \<or> length (rs_hash s) > 4096
          then Inl Err_other else Inr (Some s))"

definition require_scope :: "removal_scope \<Rightarrow> vault \<Rightarrow> storage_error + unit" where
  "require_scope expected v =
     and_then (read_scope (rs_story expected) v) (\<lambda>found.
       if found \<noteq> Some expected then Inl Err_snapshot_changed else Inr ())"

definition read_intent :: "string \<Rightarrow> vault \<Rightarrow> storage_error + removal_intent option" where
  "read_intent k v =
     (case row_at ir_id k (vlt_intents v) of
        None \<Rightarrow> Inr None
      | Some r \<Rightarrow>
          if length (ir_managed r) > 4096 \<or> length (ir_trash r) > 4096 then Inl Err_other
          else and_then (read_scope (ir_story r) v) (\<lambda>found.
            case found of
              None \<Rightarrow> Inl Err_snapshot_changed
            | Some s \<Rightarrow>
                if rs_managed s \<noteq> ir_managed r then Inl Err_snapshot_changed
                else Inr (Some \<lparr>rn_id = k, rn_scope = s, rn_trash = ir_trash r\<rparr>)))"

definition require_intent :: "removal_intent \<Rightarrow> vault \<Rightarrow> storage_error + unit" where
  "require_intent expected v =
     and_then (read_intent (rn_id expected) v) (\<lambda>found.
       if found \<noteq> Some expected then Inl Err_snapshot_changed else Inr ())"

subsection \<open>Transactions\<close>

definition intent_row_of :: "removal_intent \<Rightarrow> string \<Rightarrow> intent_row" where
  "intent_row_of i moment =
     \<lparr>ir_id = rn_id i, ir_story = rs_story (rn_scope i), ir_managed = rs_managed (rn_scope i),
      ir_trash = rn_trash i, ir_created = moment\<rparr>"

text \<open>The insert fails on the constraints of \<open>003_removal_intents.sql\<close>: id, story and trash path are unique.\<close>

definition record_body :: "removal_intent \<Rightarrow> string \<Rightarrow> vault \<Rightarrow> storage_error + unit \<times> vault" where
  "record_body i moment v =
     and_then (require_scope (rn_scope i) v) (\<lambda>_.
       if list_ex (\<lambda>r. ir_id r = rn_id i \<or> ir_story r = rs_story (rn_scope i) \<or> ir_trash r = rn_trash i) (vlt_intents v)
       then Inl Err_constraint
       else Inr ((), v\<lparr>vlt_intents := vlt_intents v @ [intent_row_of i moment]\<rparr>))"

text \<open>\<open>DELETE FROM stories\<close> takes the archive and the intents of the story with it (\<open>ON DELETE CASCADE\<close>).\<close>

definition delete_body :: "removal_intent \<Rightarrow> vault \<Rightarrow> storage_error + unit \<times> vault" where
  "delete_body i v =
     and_then (require_scope (rn_scope i) v) (\<lambda>_.
     and_then (require_intent i v) (\<lambda>_.
       if hits (\<lambda>s. rs_story s = rs_story (rn_scope i)) (vlt_stories v) \<noteq> 1 then Inl Err_snapshot_changed
       else Inr ((), \<lparr>vlt_stories = filter (\<lambda>s. rs_story s \<noteq> rs_story (rn_scope i)) (vlt_stories v),
         vlt_intents = filter (\<lambda>r. ir_story r \<noteq> rs_story (rn_scope i)) (vlt_intents v)\<rparr>)))"

definition settled_body :: "removal_intent \<Rightarrow> vault \<Rightarrow> storage_error + bool" where
  "settled_body i v =
     and_then (read_scope (rs_story (rn_scope i)) v) (\<lambda>current.
     and_then (read_intent (rn_id i) v) (\<lambda>saved.
       if current = None \<and> saved = None then Inr True
       else if current = Some (rn_scope i) \<and> (saved = None \<or> saved = Some i) then Inr False
       else Inl Err_snapshot_changed))"

definition forget_body :: "removal_intent \<Rightarrow> vault \<Rightarrow> storage_error + unit \<times> vault" where
  "forget_body i v =
     and_then (require_scope (rn_scope i) v) (\<lambda>_.
     and_then (read_intent (rn_id i) v) (\<lambda>saved.
       case saved of
         None \<Rightarrow> Inr ((), v)
       | Some found \<Rightarrow>
           if found \<noteq> i then Inl Err_snapshot_changed
           else Inr ((), v\<lparr>vlt_intents := filter (\<lambda>r. ir_id r \<noteq> rn_id i) (vlt_intents v)\<rparr>)))"

definition forgotten_body :: "removal_intent \<Rightarrow> vault \<Rightarrow> storage_error + bool" where
  "forgotten_body i v =
     and_then (require_scope (rn_scope i) v) (\<lambda>_.
     and_then (read_intent (rn_id i) v) (\<lambda>saved. Inr (saved = None)))"

definition next_intent :: "vault \<Rightarrow> storage_error + removal_intent option" where
  "next_intent v =
     (case sort_key (\<lambda>r. (ir_created r, ir_id r)) (vlt_intents v) of
        [] \<Rightarrow> Inr None
      | r # _ \<Rightarrow>
          if length (ir_id r) \<noteq> 36 then Inl Err_other
          else and_then (read_intent (ir_id r) v) (\<lambda>found.
            case found of None \<Rightarrow> Inl Err_snapshot_changed | Some i \<Rightarrow> Inr (Some i)))"

subsection \<open>Files\<close>

definition open_removal :: "bool \<Rightarrow> removal_scope \<Rightarrow> operation_path \<Rightarrow> file_map \<Rightarrow> storage_error + nat" where
  "open_removal recovery s trash files =
     (if \<not> path_in ''archives'' (rs_managed s) \<or> \<not> path_in ''trash'' trash then Inl Err_invalid_path
      else case (files (rs_managed s), files trash) of
        (Some f, None) \<Rightarrow> Inr f
      | (None, Some f) \<Rightarrow> if recovery then Inr f else Inl Err_custody
      | _ \<Rightarrow> Inl Err_custody)"

datatype removal_stage = Opened | Recorded | Moved | Rolling | Checked | Restored

record pending_removal =
  pr_intent :: removal_intent
  pr_file :: nat
  pr_stage :: removal_stage

abbreviation managed_of :: "pending_removal \<Rightarrow> operation_path" where
  "managed_of p \<equiv> rs_managed (rn_scope (pr_intent p))"

abbreviation trash_of :: "pending_removal \<Rightarrow> operation_path" where
  "trash_of p \<equiv> rn_trash (pr_intent p)"

text \<open>\<open>location\<close>: true in the trash, false at home; anything else is a matter for custody.\<close>

definition location :: "pending_removal \<Rightarrow> file_map \<Rightarrow> storage_error + bool" where
  "location p files =
     (case (files (managed_of p), files (trash_of p)) of
        (Some f, None) \<Rightarrow> if f = pr_file p then Inr False else Inl Err_custody
      | (None, Some f) \<Rightarrow> if f = pr_file p then Inr True else Inl Err_custody
      | _ \<Rightarrow> Inl Err_custody)"

datatype disk_weather = Disk_ok | Disk_fails_before | Disk_fails_after

definition rename_file :: "operation_path \<Rightarrow> operation_path \<Rightarrow> file_map \<Rightarrow> file_map" where
  "rename_file source target files = files(source := None, target := files source)"

definition relocate :: "bool \<Rightarrow> disk_weather \<Rightarrow> pending_removal \<Rightarrow> file_map \<Rightarrow> (storage_error + unit) \<times> file_map" where
  "relocate to_trash d p files =
     (case location p files of
        Inl e \<Rightarrow> (Inl e, files)
      | Inr there \<Rightarrow>
          if d = Disk_fails_before then (Inl Err_other, files)
          else
            (let moved = (if there = to_trash then files
               else if to_trash then rename_file (managed_of p) (trash_of p) files
               else rename_file (trash_of p) (managed_of p) files)
             in (if d = Disk_ok then Inr () else Inl Err_other, moved)))"

subsection \<open>Steps\<close>

record removal_world =
  rw_vault :: vault
  rw_files :: file_map
  rw_pending :: "pending_removal option"
  rw_removed :: "i64 list"

datatype removal_event =
  Ev_begin i64 string | Ev_record | Ev_move | Ev_delete | Ev_cancel | Ev_check | Ev_restore | Ev_forget
  | Ev_crash | Ev_recover

definition at_stage :: "removal_stage \<Rightarrow> pending_removal \<Rightarrow> removal_world \<Rightarrow> bool" where
  "at_stage st p s \<longleftrightarrow> rw_pending s = Some p \<and> pr_stage p = st"

definition go_to :: "removal_stage \<Rightarrow> pending_removal \<Rightarrow> removal_world \<Rightarrow> removal_world" where
  "go_to st p s = s\<lparr>rw_pending := Some (p\<lparr>pr_stage := st\<rparr>)\<rparr>"

definition report_removed :: "pending_removal \<Rightarrow> removal_world \<Rightarrow> removal_world" where
  "report_removed p s =
     s\<lparr>rw_pending := None, rw_removed := rs_story (rn_scope (pr_intent p)) # rw_removed s\<rparr>"

definition begin_intent :: "removal_scope \<Rightarrow> string \<Rightarrow> removal_intent option" where
  "begin_intent sc raw =
     map_option (\<lambda>base. \<lparr>rn_id = dashed raw, rn_scope = sc, rn_trash = trash_path (dashed raw) base\<rparr>)
       (file_name (rs_managed sc))"

text \<open>The end of the loop of \<open>rollback\<close>: the intent is forgotten, or what follows its failure.\<close>

definition after_forget ::
    "pending_removal \<Rightarrow> unit tx_outcome \<Rightarrow> (storage_error + storage_error + bool) \<Rightarrow> removal_world \<Rightarrow> removal_world" where
  "after_forget p out again s =
     (case out of
        Tx_committed _ \<Rightarrow> s\<lparr>rw_pending := None\<rparr>
      | Tx_refused e \<Rightarrow> if e = Err_queue_full then s else go_to Rolling p s
      | Tx_uncertain \<Rightarrow>
          (case again of
             Inr (Inr gone) \<Rightarrow> if gone then s\<lparr>rw_pending := None\<rparr> else s
           | _ \<Rightarrow> go_to Rolling p s)
      | _ \<Rightarrow> go_to Rolling p s)"

inductive removal_step :: "removal_world \<Rightarrow> removal_event \<Rightarrow> removal_world \<Rightarrow> bool" where
  begins: "rw_pending s = None \<Longrightarrow> 0 < n \<Longrightarrow> length raw = 32 \<Longrightarrow> read_scope n (rw_vault s) = Inr (Some sc) \<Longrightarrow>
      begin_intent sc raw = Some i \<Longrightarrow> open_removal False sc (rn_trash i) (rw_files s) = Inr f \<Longrightarrow>
      removal_step s (Ev_begin n raw) (s\<lparr>rw_pending := Some \<lparr>pr_intent = i, pr_file = f, pr_stage = Opened\<rparr>\<rparr>)"
| records: "at_stage Opened p s \<Longrightarrow> transact w (record_body (pr_intent p) moment) (rw_vault s) = (out, v) \<Longrightarrow>
      removal_step s Ev_record
        (go_to (if out = Tx_committed () then Recorded else Rolling) p (s\<lparr>rw_vault := v\<rparr>))"
| cancels: "at_stage Recorded p s \<or> at_stage Moved p s \<Longrightarrow> removal_step s Ev_cancel (go_to Rolling p s)"
| moves: "at_stage Recorded p s \<Longrightarrow> relocate True d p (rw_files s) = (r, files) \<Longrightarrow>
      removal_step s Ev_move (go_to (if r = Inr () then Moved else Rolling) p (s\<lparr>rw_files := files\<rparr>))"
| deletes: "at_stage Moved p s \<Longrightarrow> transact w (delete_body (pr_intent p)) (rw_vault s) = (out, v) \<Longrightarrow>
      removal_step s Ev_delete
        (if out = Tx_committed () then report_removed p (s\<lparr>rw_vault := v\<rparr>)
         else go_to Rolling p (s\<lparr>rw_vault := v\<rparr>))"
| checks: "at_stage Rolling p s \<Longrightarrow>
      removal_step s Ev_check
        (case observe w (settled_body (pr_intent p)) (rw_vault s) of
           Inr (Inr gone) \<Rightarrow> if gone then report_removed p s else go_to Checked p s
         | _ \<Rightarrow> s)"
| restores: "at_stage Checked p s \<Longrightarrow> relocate False d p (rw_files s) = (r, files) \<Longrightarrow>
      removal_step s Ev_restore (go_to (if r = Inr () then Restored else Rolling) p (s\<lparr>rw_files := files\<rparr>))"
| forgets: "at_stage Restored p s \<Longrightarrow> transact w (forget_body (pr_intent p)) (rw_vault s) = (out, v) \<Longrightarrow>
      removal_step s Ev_forget
        (after_forget p out (observe w' (forgotten_body (pr_intent p)) v) (s\<lparr>rw_vault := v\<rparr>))"
| crashes: "removal_step s Ev_crash (s\<lparr>rw_pending := None\<rparr>)"
| recovers: "rw_pending s = None \<Longrightarrow> next_intent (rw_vault s) = Inr (Some i) \<Longrightarrow>
      open_removal True (rn_scope i) (rn_trash i) (rw_files s) = Inr f \<Longrightarrow>
      removal_step s Ev_recover (s\<lparr>rw_pending := Some \<lparr>pr_intent = i, pr_file = f, pr_stage = Rolling\<rparr>\<rparr>)"

inductive_cases removal_stepE: "removal_step s e t"

subsection \<open>The invariant\<close>

definition readable :: "removal_scope \<Rightarrow> bool" where
  "readable sc \<longleftrightarrow> length (rs_uuid sc) \<le> 4096 \<and> length (rs_managed sc) \<le> 4096 \<and> length (rs_hash sc) \<le> 4096"

definition intent_of_row :: "removal_scope \<Rightarrow> intent_row \<Rightarrow> bool" where
  "intent_of_row sc r \<longleftrightarrow> rs_story sc = ir_story r \<and> rs_managed sc = ir_managed r \<and> readable sc"

definition vault_ok :: "vault \<Rightarrow> bool" where
  "vault_ok v \<longleftrightarrow>
     distinct (map rs_story (vlt_stories v)) \<and> distinct (map rs_managed (vlt_stories v))
     \<and> (\<forall>sc \<in> set (vlt_stories v). path_in ''archives'' (rs_managed sc))
     \<and> distinct (map ir_id (vlt_intents v)) \<and> distinct (map ir_story (vlt_intents v))
     \<and> distinct (map ir_trash (vlt_intents v))
     \<and> (\<forall>r \<in> set (vlt_intents v). path_in ''trash'' (ir_trash r) \<and> length (ir_id r) = 36
          \<and> (\<exists>sc \<in> set (vlt_stories v). intent_of_row sc r))"

text \<open>Every story has its archive: at its place, or in the trash where an intent of the story says.\<close>

definition archived :: "vault \<Rightarrow> file_map \<Rightarrow> removal_scope \<Rightarrow> bool" where
  "archived v files sc \<longleftrightarrow>
     (files (rs_managed sc) \<noteq> None \<and> (\<forall>r \<in> set (vlt_intents v). ir_story r = rs_story sc \<longrightarrow> files (ir_trash r) = None))
     \<or> (files (rs_managed sc) = None \<and> (\<exists>r \<in> set (vlt_intents v). ir_story r = rs_story sc \<and> files (ir_trash r) \<noteq> None))"

definition row_of :: "removal_intent \<Rightarrow> intent_row \<Rightarrow> bool" where
  "row_of i r \<longleftrightarrow>
     ir_id r = rn_id i \<and> ir_story r = rs_story (rn_scope i) \<and> ir_managed r = rs_managed (rn_scope i)
     \<and> ir_trash r = rn_trash i"

definition deleted_in :: "removal_intent \<Rightarrow> vault \<Rightarrow> bool" where
  "deleted_in i v \<longleftrightarrow> rs_story (rn_scope i) \<notin> rs_story ` set (vlt_stories v)"

definition home :: "pending_removal \<Rightarrow> file_map \<Rightarrow> bool" where
  "home p files \<longleftrightarrow> files (managed_of p) = Some (pr_file p) \<and> files (trash_of p) = None"

definition away :: "pending_removal \<Rightarrow> file_map \<Rightarrow> bool" where
  "away p files \<longleftrightarrow> files (managed_of p) = None \<and> files (trash_of p) = Some (pr_file p)"

definition pending_ok :: "vault \<Rightarrow> file_map \<Rightarrow> pending_removal \<Rightarrow> bool" where
  "pending_ok v files p \<longleftrightarrow>
     path_in ''archives'' (managed_of p) \<and> path_in ''trash'' (trash_of p) \<and> length (rn_id (pr_intent p)) = 36
     \<and> readable (rn_scope (pr_intent p))
     \<and> (rn_scope (pr_intent p) \<in> set (vlt_stories v) \<or> (pr_stage p = Rolling \<and> deleted_in (pr_intent p) v))
     \<and> (home p files \<or> away p files)
     \<and> (away p files \<longrightarrow> (\<exists>r \<in> set (vlt_intents v). row_of (pr_intent p) r) \<or> deleted_in (pr_intent p) v)
     \<and> (pr_stage p = Opened \<or> pr_stage p = Recorded \<or> pr_stage p = Restored \<longrightarrow> home p files)
     \<and> (pr_stage p = Recorded \<or> pr_stage p = Moved \<longrightarrow> (\<exists>r \<in> set (vlt_intents v). row_of (pr_intent p) r))"

definition removal_inv :: "removal_world \<Rightarrow> bool" where
  "removal_inv s \<longleftrightarrow>
     vault_ok (rw_vault s)
     \<and> (\<forall>sc \<in> set (vlt_stories (rw_vault s)). archived (rw_vault s) (rw_files s) sc)
     \<and> (\<forall>p. rw_pending s = Some p \<longrightarrow> pending_ok (rw_vault s) (rw_files s) p)
     \<and> (\<forall>n \<in> set (rw_removed s). n \<notin> rs_story ` set (vlt_stories (rw_vault s)))"

subsection \<open>Reading the vault\<close>

lemma areas_apart: "path_in ''archives'' p \<Longrightarrow> path_in ''trash'' q \<Longrightarrow> p \<noteq> q"
  by (auto simp: path_in_def split: list.splits)

lemma vault_story_unique:
  "vault_ok v \<Longrightarrow> a \<in> set (vlt_stories v) \<Longrightarrow> b \<in> set (vlt_stories v) \<Longrightarrow> rs_story a = rs_story b \<Longrightarrow> a = b"
  unfolding vault_ok_def by (meson distinct_map inj_onD)

lemma vault_managed_unique:
  "vault_ok v \<Longrightarrow> a \<in> set (vlt_stories v) \<Longrightarrow> b \<in> set (vlt_stories v) \<Longrightarrow> rs_managed a = rs_managed b \<Longrightarrow> a = b"
  unfolding vault_ok_def by (meson distinct_map inj_onD)

lemma vault_intent_unique:
  assumes "vault_ok v" "a \<in> set (vlt_intents v)" "b \<in> set (vlt_intents v)"
    and "ir_id a = ir_id b \<or> ir_story a = ir_story b \<or> ir_trash a = ir_trash b"
  shows "a = b"
  using assms unfolding vault_ok_def by (meson distinct_map inj_onD)

lemma read_scope_Some: "read_scope n v = Inr (Some sc) \<Longrightarrow> sc \<in> set (vlt_stories v) \<and> rs_story sc = n \<and> readable sc"
  by (auto simp: read_scope_def readable_def split: option.splits if_splits dest: row_at_Some)

lemma read_scope_None: "read_scope n v = Inr None \<longleftrightarrow> n \<notin> rs_story ` set (vlt_stories v)"
  by (auto simp: read_scope_def row_at_None split: option.splits)
    (metis option.discI row_at_None)+

lemma read_scope_row:
  "vault_ok v \<Longrightarrow> sc \<in> set (vlt_stories v) \<Longrightarrow> readable sc \<Longrightarrow> read_scope (rs_story sc) v = Inr (Some sc)"
  using row_at_unique[of rs_story "vlt_stories v" sc] by (auto simp: read_scope_def vault_ok_def readable_def)

lemma require_scope_Ok: "require_scope sc v = Inr u \<Longrightarrow> sc \<in> set (vlt_stories v) \<and> readable sc"
  using read_scope_Some by (fastforce simp: require_scope_def result_iffs split: if_splits)

lemma require_scope_row:
  "vault_ok v \<Longrightarrow> sc \<in> set (vlt_stories v) \<Longrightarrow> readable sc \<Longrightarrow> require_scope sc v = Inr ()"
  by (simp add: require_scope_def read_scope_row)

lemma read_intent_Some:
  assumes "read_intent k v = Inr (Some i)"
  shows "rn_id i = k \<and> rn_scope i \<in> set (vlt_stories v) \<and> readable (rn_scope i) \<and> (\<exists>r \<in> set (vlt_intents v). row_of i r)"
proof -
  obtain r where r: "row_at ir_id k (vlt_intents v) = Some r" and i: "rn_id i = k" "ir_trash r = rn_trash i"
    "read_scope (ir_story r) v = Inr (Some (rn_scope i))" "rs_managed (rn_scope i) = ir_managed r"
    using assms by (auto simp: read_intent_def result_iffs split: option.splits if_splits)
  then show ?thesis
    using read_scope_Some[OF i(3)] row_at_Some[OF r] by (auto simp: row_of_def)
qed

lemma read_intent_None: "read_intent k v = Inr None \<longleftrightarrow> k \<notin> ir_id ` set (vlt_intents v)"
proof
  assume "read_intent k v = Inr None"
  then have "row_at ir_id k (vlt_intents v) = None"
    by (auto simp: read_intent_def result_iffs split: option.splits if_splits)
  then show "k \<notin> ir_id ` set (vlt_intents v)" by (simp add: row_at_None)
next
  assume "k \<notin> ir_id ` set (vlt_intents v)"
  then have "row_at ir_id k (vlt_intents v) = None" unfolding row_at_None .
  then show "read_intent k v = Inr None" by (simp add: read_intent_def)
qed

lemma read_intent_row:
  assumes ok: "vault_ok v" and r: "r \<in> set (vlt_intents v)" "row_of i r"
    and sc: "rn_scope i \<in> set (vlt_stories v)" "readable (rn_scope i)"
  shows "read_intent (rn_id i) v = Inr (Some i)"
proof -
  have id: "ir_id r = rn_id i" using r(2) by (simp add: row_of_def)
  have at: "row_at ir_id (rn_id i) (vlt_intents v) = Some r"
    using row_at_unique[of ir_id "vlt_intents v" r] ok r(1) by (simp add: vault_ok_def id)
  have "path_in ''trash'' (ir_trash r)" using ok r(1) by (simp add: vault_ok_def)
  then have "length (ir_trash r) \<le> 4096" by (simp add: path_in_def)
  then show ?thesis
    using at r(2) sc read_scope_row[OF ok sc] by (simp add: read_intent_def row_of_def readable_def)
qed

end
