(* ===== verification/Removal_Safety.thy ===== *)
theory Removal_Safety
  imports Removal
begin

section \<open>No removal loses an archive\<close>

text \<open>
  The invariant of \<open>Removal\<close> is kept by every step, failed, cancelled and unacknowledged ones
  included, and by a crash between any two of them; and from every state a crash can leave, opening the
  library again rolls all intents back.
\<close>

subsection \<open>Opening and moving\<close>

lemma inv_parts:
  assumes "removal_inv s"
  shows "vault_ok (rw_vault s)"
    and "\<And>sc. sc \<in> set (vlt_stories (rw_vault s)) \<Longrightarrow> archived (rw_vault s) (rw_files s) sc"
    and "\<And>p. rw_pending s = Some p \<Longrightarrow> pending_ok (rw_vault s) (rw_files s) p"
    and "\<And>n. n \<in> set (rw_removed s) \<Longrightarrow> n \<notin> rs_story ` set (vlt_stories (rw_vault s))"
  using assms unfolding removal_inv_def by blast+

text \<open>A step that leaves vault and files alone only has to justify what is pending.\<close>

lemma inv_pending:
  "removal_inv s \<Longrightarrow> pending_ok (rw_vault s) (rw_files s) p \<Longrightarrow> removal_inv (s\<lparr>rw_pending := Some p\<rparr>)"
  "removal_inv s \<Longrightarrow> removal_inv (s\<lparr>rw_pending := None\<rparr>)"
  by (auto simp: removal_inv_def)

lemma open_removal_places:
  assumes "open_removal recovery sc trash files = Inr f"
  shows "path_in ''archives'' (rs_managed sc) \<and> path_in ''trash'' trash
    \<and> (files (rs_managed sc) = Some f \<and> files trash = None
       \<or> recovery \<and> files (rs_managed sc) = None \<and> files trash = Some f)"
  using assms by (auto simp: open_removal_def split: if_splits option.splits)

lemma location_iff:
  "location p files = Inr False \<longleftrightarrow> home p files"
  "location p files = Inr True \<longleftrightarrow> away p files"
  by (auto simp: location_def home_def away_def split: option.splits)

lemma home_or_away: "home p files \<or> away p files \<Longrightarrow> (\<exists>b. location p files = Inr b)"
  using location_iff by metis

lemma not_home_and_away: "home p files \<Longrightarrow> \<not> away p files"
  by (simp add: home_def away_def)

lemma stage_places [simp]:
  "home (p\<lparr>pr_stage := st\<rparr>) files = home p files" "away (p\<lparr>pr_stage := st\<rparr>) files = away p files"
  by (simp_all add: home_def away_def)

text \<open>What a relocation can leave: the files as they were, or the one file at its other place.\<close>

lemma relocate_cases:
  assumes "relocate to_trash d p files = (r, files')" "home p files \<or> away p files"
  shows "(files' = files \<and> (r = Inr () \<longrightarrow> (if to_trash then away p files else home p files)))
    \<or> (to_trash \<and> home p files \<and> files' = rename_file (managed_of p) (trash_of p) files)
    \<or> (\<not> to_trash \<and> away p files \<and> files' = rename_file (trash_of p) (managed_of p) files)"
proof -
  obtain there where l: "location p files = Inr there" using home_or_away[OF assms(2)] by blast
  then show ?thesis
    using assms(1) location_iff[of p files] by (cases there) (auto simp: relocate_def Let_def split: if_splits)
qed

lemma renamed_away:
  "home p files \<Longrightarrow> managed_of p \<noteq> trash_of p \<Longrightarrow> away p (rename_file (managed_of p) (trash_of p) files)"
  by (simp add: home_def away_def rename_file_def)

lemma renamed_home:
  "away p files \<Longrightarrow> managed_of p \<noteq> trash_of p \<Longrightarrow> home p (rename_file (trash_of p) (managed_of p) files)"
  by (simp add: home_def away_def rename_file_def)

lemma rename_ran:
  assumes "files source = Some f" "files target = None"
  shows "ran (rename_file source target files) = ran files"
proof -
  have "(files(source := None)) target = None" using assms(2) by simp
  then have "ran (rename_file source target files) = insert f (ran (files(source := None)))"
    using assms(1) ran_map_upd[of "files(source := None)" target f] by (simp add: rename_file_def)
  also have "\<dots> = ran ((files(source := None))(source \<mapsto> f))"
    using ran_map_upd[of "files(source := None)" source f] by simp
  also have "(files(source := None))(source \<mapsto> f) = files" using assms(1) by auto
  finally show ?thesis .
qed

lemma relocate_ran:
  assumes "relocate to_trash d p files = (r, files')" "home p files \<or> away p files"
  shows "ran files' = ran files"
proof -
  have "ran (rename_file (managed_of p) (trash_of p) files) = ran files" if "home p files"
    by (rule rename_ran) (use that in \<open>simp_all add: home_def\<close>)
  moreover have "ran (rename_file (trash_of p) (managed_of p) files) = ran files" if "away p files"
    by (rule rename_ran) (use that in \<open>simp_all add: away_def\<close>)
  ultimately show ?thesis using relocate_cases[OF assms] by blast
qed

text \<open>Other stories do not notice a move between the two places of one.\<close>

lemma archived_other:
  assumes ok: "vault_ok v" and sc: "sc \<in> set (vlt_stories v)" "a \<in> set (vlt_stories v)" "sc \<noteq> a"
    and places: "rs_managed a = m" "path_in ''trash'' t"
    and own: "\<And>r. r \<in> set (vlt_intents v) \<Longrightarrow> ir_trash r = t \<Longrightarrow> ir_story r = rs_story a"
    and same: "\<And>q. q \<noteq> m \<Longrightarrow> q \<noteq> t \<Longrightarrow> files' q = files q"
    and was: "archived v files sc"
  shows "archived v files' sc"
proof -
  have arch: "path_in ''archives'' (rs_managed x)" if "x \<in> set (vlt_stories v)" for x
    using ok that by (simp add: vault_ok_def)
  have trash: "path_in ''trash'' (ir_trash r)" if "r \<in> set (vlt_intents v)" for r
    using ok that by (simp add: vault_ok_def)
  have "rs_managed sc \<noteq> m" using vault_managed_unique[OF ok sc(1,2)] sc(3) places(1) by metis
  moreover have "rs_managed sc \<noteq> t" using areas_apart[OF arch[OF sc(1)] places(2)] .
  ultimately have m: "files' (rs_managed sc) = files (rs_managed sc)" using same by simp
  have "files' (ir_trash r) = files (ir_trash r)" if r: "r \<in> set (vlt_intents v)" "ir_story r = rs_story sc" for r
  proof -
    have "ir_trash r \<noteq> t"
      using own[OF r(1)] r(2) vault_story_unique[OF ok sc(1,2)] sc(3) by auto
    moreover have "ir_trash r \<noteq> m" using areas_apart[OF _ trash[OF r(1)]] arch[OF sc(2)] places(1) by blast
    ultimately show ?thesis using same by simp
  qed
  then show ?thesis using was m unfolding archived_def by (metis (no_types))
qed

lemma pending_paths:
  "pending_ok v files p \<Longrightarrow> managed_of p \<noteq> trash_of p"
  using areas_apart by (auto simp: pending_ok_def)

text \<open>The one row that can name the trash path of a story which has its intent recorded.\<close>

lemma row_owner:
  assumes "vault_ok v" "r \<in> set (vlt_intents v)" "row_of i r" "q \<in> set (vlt_intents v)" "ir_trash q = rn_trash i"
  shows "ir_story q = rs_story (rn_scope i)"
  using vault_intent_unique[OF assms(1,2,4)] assms(3,5) by (auto simp: row_of_def)

lemma moved_inv:
  assumes inv: "removal_inv s" and at: "at_stage Recorded p s"
    and mv: "relocate True d p (rw_files s) = (r, files)"
  shows "removal_inv (go_to (if r = Inr () then Moved else Rolling) p (s\<lparr>rw_files := files\<rparr>))"
proof -
  let ?v = "rw_vault s"
  have ok: "vault_ok ?v" and p: "pending_ok ?v (rw_files s) p" and st: "pr_stage p = Recorded"
    using inv_parts[OF inv] at by (auto simp: at_stage_def)
  have home: "home p (rw_files s)" and sc: "rn_scope (pr_intent p) \<in> set (vlt_stories ?v)"
    using p st by (auto simp: pending_ok_def)
  obtain row where row: "row \<in> set (vlt_intents ?v)" "row_of (pr_intent p) row"
    using p st by (auto simp: pending_ok_def)
  have "(files = rw_files s \<and> r \<noteq> Inr ()) \<or> files = rename_file (managed_of p) (trash_of p) (rw_files s)"
    using relocate_cases[OF mv] home not_home_and_away by auto
  then show ?thesis
  proof
    assume "files = rw_files s \<and> r \<noteq> Inr ()"
    then show ?thesis
      using inv_pending(1)[OF inv, of "p\<lparr>pr_stage := Rolling\<rparr>"] p sc by (auto simp: go_to_def pending_ok_def)
  next
    assume f: "files = rename_file (managed_of p) (trash_of p) (rw_files s)"
    have away: "away p files" using renamed_away[OF home pending_paths[OF p]] f by simp
    have "archived ?v files a" if a: "a \<in> set (vlt_stories ?v)" for a
    proof (cases "a = rn_scope (pr_intent p)")
      case True
      then show ?thesis using away row by (auto simp: archived_def away_def row_of_def)
    next
      case False
      show ?thesis
        by (rule archived_other[OF ok a sc False refl, of "trash_of p" "files" "rw_files s"])
          (use p row_owner[OF ok row] inv_parts(2)[OF inv a] in \<open>auto simp: pending_ok_def f rename_file_def\<close>)
    qed
    moreover have "pending_ok ?v files (p\<lparr>pr_stage := if r = Inr () then Moved else Rolling\<rparr>)"
      using p away sc row by (auto simp: pending_ok_def)
    ultimately show ?thesis using inv by (simp add: removal_inv_def go_to_def)
  qed
qed

lemma restored_inv:
  assumes inv: "removal_inv s" and at: "at_stage Checked p s"
    and mv: "relocate False d p (rw_files s) = (r, files)"
  shows "removal_inv (go_to (if r = Inr () then Restored else Rolling) p (s\<lparr>rw_files := files\<rparr>))"
proof -
  let ?v = "rw_vault s"
  have ok: "vault_ok ?v" and p: "pending_ok ?v (rw_files s) p" and st: "pr_stage p = Checked"
    using inv_parts[OF inv] at by (auto simp: at_stage_def)
  have sc: "rn_scope (pr_intent p) \<in> set (vlt_stories ?v)" and loc: "home p (rw_files s) \<or> away p (rw_files s)"
    using p st by (auto simp: pending_ok_def)
  have "(files = rw_files s \<and> (r = Inr () \<longrightarrow> home p (rw_files s)))
      \<or> (away p (rw_files s) \<and> files = rename_file (trash_of p) (managed_of p) (rw_files s))"
    using relocate_cases[OF mv loc] by auto
  then show ?thesis
  proof
    assume "files = rw_files s \<and> (r = Inr () \<longrightarrow> home p (rw_files s))"
    then show ?thesis
      using inv_pending(1)[OF inv, of "p\<lparr>pr_stage := if r = Inr () then Restored else Rolling\<rparr>"] p sc
      by (auto simp: go_to_def pending_ok_def)
  next
    assume f: "away p (rw_files s) \<and> files = rename_file (trash_of p) (managed_of p) (rw_files s)"
    have home: "home p files" using renamed_home[OF _ pending_paths[OF p]] f by simp
    have "\<not> deleted_in (pr_intent p) ?v" using sc by (auto simp: deleted_in_def)
    then obtain row where row: "row \<in> set (vlt_intents ?v)" "row_of (pr_intent p) row"
      using p f by (auto simp: pending_ok_def)
    have only: "q = row" if "q \<in> set (vlt_intents ?v)" "ir_story q = rs_story (rn_scope (pr_intent p))" for q
      using vault_intent_unique[OF ok that(1) row(1)] that(2) row(2) by (simp add: row_of_def)
    have "archived ?v files a" if a: "a \<in> set (vlt_stories ?v)" for a
    proof (cases "a = rn_scope (pr_intent p)")
      case True
      then show ?thesis using home only row(2) by (auto simp: archived_def home_def row_of_def)
    next
      case False
      show ?thesis
        by (rule archived_other[OF ok a sc False refl, of "trash_of p" "files" "rw_files s"])
          (use p row_owner[OF ok row] inv_parts(2)[OF inv a] f in \<open>auto simp: pending_ok_def rename_file_def\<close>)
    qed
    moreover have "pending_ok ?v files (p\<lparr>pr_stage := if r = Inr () then Restored else Rolling\<rparr>)"
      using p home sc not_home_and_away[OF home] by (auto simp: pending_ok_def)
    ultimately show ?thesis using inv by (simp add: removal_inv_def go_to_def)
  qed
qed

subsection \<open>Transactions\<close>

lemma dashed_length: "length raw = 32 \<Longrightarrow> length (dashed raw) = 36"
  by (simp add: dashed_def)

lemma begin_inv:
  assumes inv: "removal_inv s" and raw: "length raw = 32" and sc: "read_scope n (rw_vault s) = Inr (Some sc)"
    and i: "begin_intent sc raw = Some i" and f: "open_removal False sc (rn_trash i) (rw_files s) = Inr f"
  shows "removal_inv (s\<lparr>rw_pending := Some \<lparr>pr_intent = i, pr_file = f, pr_stage = Opened\<rparr>\<rparr>)"
proof (rule inv_pending(1)[OF inv])
  have "rn_scope i = sc" "length (rn_id i) = 36" using i dashed_length[OF raw] by (auto simp: begin_intent_def)
  then show "pending_ok (rw_vault s) (rw_files s) \<lparr>pr_intent = i, pr_file = f, pr_stage = Opened\<rparr>"
    using open_removal_places[OF f] read_scope_Some[OF sc] by (simp add: pending_ok_def home_def away_def)
qed

lemma record_body_vault:
  assumes "record_body i moment v = Inr (u, v')"
  shows "vlt_stories v' = vlt_stories v \<and> vlt_intents v' = vlt_intents v @ [intent_row_of i moment]
    \<and> rn_scope i \<in> set (vlt_stories v) \<and> readable (rn_scope i)
    \<and> (\<forall>r \<in> set (vlt_intents v). ir_id r \<noteq> rn_id i \<and> ir_story r \<noteq> rs_story (rn_scope i) \<and> ir_trash r \<noteq> rn_trash i)"
  using assms require_scope_Ok[of "rn_scope i" v]
  by (auto simp: record_body_def result_iffs list_ex_iff split: if_splits)

lemma record_vault_ok:
  assumes "vault_ok v" "record_body i moment v = Inr (u, v')" "path_in ''trash'' (rn_trash i)" "length (rn_id i) = 36"
  shows "vault_ok v'"
  using assms record_body_vault[OF assms(2)]
  by (fastforce simp: vault_ok_def intent_row_of_def intent_of_row_def)

lemma recorded_inv:
  assumes inv: "removal_inv s" and at: "at_stage Opened p s"
    and tx: "transact w (record_body (pr_intent p) moment) (rw_vault s) = (out, v)"
  shows "removal_inv (go_to (if out = Tx_committed () then Recorded else Rolling) p (s\<lparr>rw_vault := v\<rparr>))"
proof -
  let ?i = "pr_intent p"
  have ok: "vault_ok (rw_vault s)" and p: "pending_ok (rw_vault s) (rw_files s) p" and st: "pr_stage p = Opened"
    using inv_parts[OF inv] at by (auto simp: at_stage_def)
  have home: "home p (rw_files s)" and sc: "rn_scope ?i \<in> set (vlt_stories (rw_vault s))"
    using p st by (auto simp: pending_ok_def)
  have rolled: "removal_inv (go_to Rolling p s)"
    using inv_pending(1)[OF inv, of "p\<lparr>pr_stage := Rolling\<rparr>"] p sc by (simp add: go_to_def pending_ok_def)
  show ?thesis
  proof (cases "v = rw_vault s \<and> out \<noteq> Tx_committed ()")
    case True
    then have "s\<lparr>rw_vault := v\<rparr> = s" by simp
    then show ?thesis using rolled True by simp
  next
    case False
    have "\<exists>u. record_body ?i moment (rw_vault s) = Inr (u, v)"
    proof (cases "out = Tx_committed ()")
      case True
      then show ?thesis using tx transact_committed by metis
    next
      case other: False
      then show ?thesis using transact_tables[of w "record_body ?i moment" "rw_vault s"] tx False by auto
    qed
    then obtain u where b: "record_body ?i moment (rw_vault s) = Inr (u, v)" ..
    note new = record_body_vault[OF b]
    have row: "row_of ?i (intent_row_of ?i moment)" by (simp add: row_of_def intent_row_of_def)
    have "archived v (rw_files s) a" if a: "a \<in> set (vlt_stories v)" for a
    proof -
      have "a \<in> set (vlt_stories (rw_vault s))" using a new by simp
      note was = inv_parts(2)[OF inv this]
      show ?thesis
      proof (cases "rs_story a = rs_story (rn_scope ?i)")
        case True
        then have "a = rn_scope ?i" using vault_story_unique[OF ok _ sc] a new by simp
        then show ?thesis using was home new by (auto simp: archived_def home_def intent_row_of_def)
      next
        case False
        then show ?thesis using was new by (auto simp: archived_def intent_row_of_def)
      qed
    qed
    moreover have "vault_ok v"
      by (rule record_vault_ok[OF ok b]) (use p in \<open>simp_all add: pending_ok_def\<close>)
    moreover have "pending_ok v (rw_files s) (p\<lparr>pr_stage := if out = Tx_committed () then Recorded else Rolling\<rparr>)"
      using p home not_home_and_away[OF home] new row by (auto simp: pending_ok_def)
    ultimately show ?thesis using inv new by (simp add: removal_inv_def go_to_def)
  qed
qed

lemma delete_body_vault:
  assumes "delete_body i v = Inr (u, v')" "vault_ok v"
  shows "vlt_stories v' = filter (\<lambda>s. rs_story s \<noteq> rs_story (rn_scope i)) (vlt_stories v)
    \<and> vlt_intents v' = filter (\<lambda>r. ir_story r \<noteq> rs_story (rn_scope i)) (vlt_intents v)"
  using assms by (auto simp: delete_body_def result_iffs split: if_splits)

lemma distinct_map_filter: "distinct (map f xs) \<Longrightarrow> distinct (map f (filter p xs))"
  by (induction xs) auto

lemma deleted_vault:
  assumes "vault_ok v" "delete_body i v = Inr (u, v')"
  shows "vault_ok v' \<and> deleted_in i v' \<and> set (vlt_stories v') \<subseteq> set (vlt_stories v)"
    and "\<And>a. a \<in> set (vlt_stories v') \<Longrightarrow> archived v files a \<Longrightarrow> archived v' files a"
proof -
  note new = delete_body_vault[OF assms(2,1)]
  have "\<exists>sc \<in> set (vlt_stories v'). intent_of_row sc r" if r: "r \<in> set (vlt_intents v')" for r
  proof -
    have "r \<in> set (vlt_intents v)" "ir_story r \<noteq> rs_story (rn_scope i)" using r new by auto
    then obtain sc where "sc \<in> set (vlt_stories v)" "intent_of_row sc r" using assms(1) by (auto simp: vault_ok_def)
    then show ?thesis using new \<open>ir_story r \<noteq> _\<close> by (auto simp: intent_of_row_def)
  qed
  then show "vault_ok v' \<and> deleted_in i v' \<and> set (vlt_stories v') \<subseteq> set (vlt_stories v)"
    using assms(1) new by (auto simp: vault_ok_def deleted_in_def distinct_map_filter)
  show "archived v' files a" if "a \<in> set (vlt_stories v')" "archived v files a" for a
    using that new by (auto simp: archived_def)
qed

lemma deleted_inv:
  assumes inv: "removal_inv s" and at: "at_stage Moved p s"
    and tx: "transact w (delete_body (pr_intent p)) (rw_vault s) = (out, v)"
  shows "removal_inv (if out = Tx_committed () then report_removed p (s\<lparr>rw_vault := v\<rparr>)
    else go_to Rolling p (s\<lparr>rw_vault := v\<rparr>))"
proof -
  let ?i = "pr_intent p"
  have ok: "vault_ok (rw_vault s)" and p: "pending_ok (rw_vault s) (rw_files s) p" and st: "pr_stage p = Moved"
    using inv_parts[OF inv] at by (auto simp: at_stage_def)
  have sc: "rn_scope ?i \<in> set (vlt_stories (rw_vault s))" using p st by (auto simp: pending_ok_def)
  show ?thesis
  proof (cases "\<exists>u. delete_body ?i (rw_vault s) = Inr (u, v)")
    case True
    then obtain u where b: "delete_body ?i (rw_vault s) = Inr (u, v)" ..
    note new = deleted_vault[OF ok b]
    have "archived v (rw_files s) a" if "a \<in> set (vlt_stories v)" for a
      using new(2)[OF that] inv_parts(2)[OF inv] new(1) that by blast
    moreover have "pending_ok v (rw_files s) (p\<lparr>pr_stage := Rolling\<rparr>)"
      using p new(1) by (auto simp: pending_ok_def)
    moreover have "n \<notin> rs_story ` set (vlt_stories v)" if "n \<in> set (rw_removed s)" for n
      using inv_parts(4)[OF inv that] new(1) by auto
    moreover have "rs_story (rn_scope ?i) \<notin> rs_story ` set (vlt_stories v)" using new(1) by (simp add: deleted_in_def)
    ultimately show ?thesis using new(1) by (auto simp: removal_inv_def go_to_def report_removed_def)
  next
    case False
    then have "out \<noteq> Tx_committed () \<and> v = rw_vault s"
      using tx transact_committed[of w "delete_body ?i"] transact_tables[of w "delete_body ?i" "rw_vault s"] by auto
    then show ?thesis
      using inv_pending(1)[OF inv, of "p\<lparr>pr_stage := Rolling\<rparr>"] p sc by (auto simp: go_to_def pending_ok_def)
  qed
qed

lemma settled_False:
  assumes "settled_body i v = Inr False"
  shows "rn_scope i \<in> set (vlt_stories v)"
proof -
  obtain current where "read_scope (rs_story (rn_scope i)) v = Inr current" "current = Some (rn_scope i)"
    using assms unfolding settled_body_def by (auto simp: result_iffs split: if_splits)
  then show ?thesis using read_scope_Some by blast
qed

lemma settled_True: "settled_body i v = Inr True \<Longrightarrow> deleted_in i v"
  using read_scope_None by (auto simp: settled_body_def result_iffs deleted_in_def split: if_splits)

lemma checked_inv:
  assumes inv: "removal_inv s" and at: "at_stage Rolling p s"
  shows "removal_inv (case observe w (settled_body (pr_intent p)) (rw_vault s) of
    Inr (Inr gone) \<Rightarrow> if gone then report_removed p s else go_to Checked p s | _ \<Rightarrow> s)"
proof -
  let ?r = "observe w (settled_body (pr_intent p)) (rw_vault s)"
  have p: "pending_ok (rw_vault s) (rw_files s) p" using inv_parts(3)[OF inv] at by (auto simp: at_stage_def)
  have seen: "settled_body (pr_intent p) (rw_vault s) = Inr gone" if "?r = Inr (Inr gone)" for gone
    using that by (auto simp: observe_def split: weather.splits)
  show ?thesis
  proof (cases "\<exists>gone. ?r = Inr (Inr gone)")
    case False
    then show ?thesis using inv by (auto split: sum.splits)
  next
    case True
    then obtain gone where r: "?r = Inr (Inr gone)" ..
    show ?thesis
    proof (cases gone)
      case True
      then have "deleted_in (pr_intent p) (rw_vault s)" using settled_True seen[OF r] by simp
      then show ?thesis using r True inv by (auto simp: report_removed_def removal_inv_def deleted_in_def)
    next
      case False
      then have "rn_scope (pr_intent p) \<in> set (vlt_stories (rw_vault s))" using settled_False seen[OF r] by simp
      then show ?thesis
        using r False inv_pending(1)[OF inv, of "p\<lparr>pr_stage := Checked\<rparr>"] p by (simp add: go_to_def pending_ok_def)
    qed
  qed
qed

lemma forget_body_vault:
  assumes "forget_body i v = Inr (u, v')"
  shows "v' = v \<or> (v' = v\<lparr>vlt_intents := filter (\<lambda>r. ir_id r \<noteq> rn_id i) (vlt_intents v)\<rparr>
    \<and> (\<exists>r \<in> set (vlt_intents v). row_of i r))"
proof -
  obtain saved where saved: "read_intent (rn_id i) v = Inr saved"
    and rest: "(case saved of None \<Rightarrow> Inr ((), v) | Some found \<Rightarrow> if found \<noteq> i then Inl Err_snapshot_changed
      else Inr ((), v\<lparr>vlt_intents := filter (\<lambda>r. ir_id r \<noteq> rn_id i) (vlt_intents v)\<rparr>)) = Inr (u, v')"
    using assms unfolding forget_body_def result_iffs by blast
  show ?thesis
  proof (cases saved)
    case None
    then show ?thesis using rest by simp
  next
    case (Some found)
    then have "found = i" using rest by (simp split: if_splits)
    then have "\<exists>r \<in> set (vlt_intents v). row_of i r" using read_intent_Some saved Some by blast
    then show ?thesis using rest Some \<open>found = i\<close> by simp
  qed
qed

lemma after_forget_cases:
  "after_forget p out again s \<in> {s, go_to Rolling p s, s\<lparr>rw_pending := None\<rparr>}"
  by (auto simp: after_forget_def split: tx_outcome.splits sum.splits)

lemma forgotten_vault:
  assumes ok: "vault_ok v" and row: "r \<in> set (vlt_intents v)" "row_of i r"
    and v': "v' = v\<lparr>vlt_intents := filter (\<lambda>r. ir_id r \<noteq> rn_id i) (vlt_intents v)\<rparr>"
  shows "vault_ok v'"
    and "archived v files a \<Longrightarrow> rs_story a = rs_story (rn_scope i) \<longrightarrow> files (rs_managed a) \<noteq> None \<Longrightarrow> archived v' files a"
proof -
  show "vault_ok v'" using ok by (auto simp: v' vault_ok_def distinct_map_filter)
  have only: "ir_story q = rs_story (rn_scope i)" if "q \<in> set (vlt_intents v)" "ir_id q = rn_id i" for q
    using vault_intent_unique[OF ok that(1) row(1)] that(2) row(2) by (simp add: row_of_def)
  show "archived v' files a"
    if "archived v files a" "rs_story a = rs_story (rn_scope i) \<longrightarrow> files (rs_managed a) \<noteq> None"
  proof (cases "files (rs_managed a) = None")
    case True
    then have other: "rs_story a \<noteq> rs_story (rn_scope i)" using that(2) by blast
    have "\<exists>q \<in> set (vlt_intents v). ir_story q = rs_story a \<and> files (ir_trash q) \<noteq> None"
      using that(1) True unfolding archived_def by blast
    then obtain q where q: "q \<in> set (vlt_intents v)" "ir_story q = rs_story a" "files (ir_trash q) \<noteq> None" by blast
    then have "q \<in> set (vlt_intents v')" using only[of q] other by (auto simp: v')
    then show ?thesis using True q(2,3) unfolding archived_def by blast
  next
    case False
    then show ?thesis using that(1) by (auto simp: archived_def v')
  qed
qed

lemma forgotten_inv:
  assumes inv: "removal_inv s" and at: "at_stage Restored p s"
    and tx: "transact w (forget_body (pr_intent p)) (rw_vault s) = (out, v)"
  shows "removal_inv (after_forget p out again (s\<lparr>rw_vault := v\<rparr>))"
proof -
  let ?i = "pr_intent p" and ?s = "s\<lparr>rw_vault := v\<rparr>"
  have ok: "vault_ok (rw_vault s)" and p: "pending_ok (rw_vault s) (rw_files s) p"
    and st: "pr_stage p = Restored" and now: "rw_pending s = Some p"
    using inv_parts[OF inv] at by (auto simp: at_stage_def)
  have home: "home p (rw_files s)" and sc: "rn_scope ?i \<in> set (vlt_stories (rw_vault s))"
    using p st by (auto simp: pending_ok_def)
  have "v = rw_vault s \<or> (\<exists>u. forget_body ?i (rw_vault s) = Inr (u, v))"
    using transact_tables[of w "forget_body ?i" "rw_vault s"] tx by auto
  then have "v = rw_vault s \<or> (v = rw_vault s\<lparr>vlt_intents := filter (\<lambda>r. ir_id r \<noteq> rn_id ?i) (vlt_intents (rw_vault s))\<rparr>
      \<and> (\<exists>r \<in> set (vlt_intents (rw_vault s)). row_of ?i r))"
    using forget_body_vault by blast
  then have "removal_inv ?s \<and> pending_ok v (rw_files s) (p\<lparr>pr_stage := Rolling\<rparr>)"
  proof
    assume "v = rw_vault s"
    then show ?thesis using inv p sc by (auto simp: pending_ok_def)
  next
    assume v: "v = rw_vault s\<lparr>vlt_intents := filter (\<lambda>r. ir_id r \<noteq> rn_id ?i) (vlt_intents (rw_vault s))\<rparr>
      \<and> (\<exists>r \<in> set (vlt_intents (rw_vault s)). row_of ?i r)"
    then obtain row where row: "row \<in> set (vlt_intents (rw_vault s))" "row_of ?i row" by blast
    note new = forgotten_vault[OF ok row conjunct1[OF v]]
    have same: "vlt_stories v = vlt_stories (rw_vault s)" using v by simp
    have "archived v (rw_files s) a" if a: "a \<in> set (vlt_stories v)" for a
    proof (rule new(2))
      show "archived (rw_vault s) (rw_files s) a" using inv_parts(2)[OF inv] a same by simp
      show "rs_story a = rs_story (rn_scope ?i) \<longrightarrow> rw_files s (rs_managed a) \<noteq> None"
        using vault_story_unique[OF ok _ sc] a same home by (auto simp: home_def)
    qed
    moreover have "pending_ok v (rw_files s) p" "pending_ok v (rw_files s) (p\<lparr>pr_stage := Rolling\<rparr>)"
      using p home not_home_and_away[OF home] same sc st by (auto simp: pending_ok_def)
    ultimately show ?thesis using new(1) inv same now by (simp add: removal_inv_def)
  qed
  then have "removal_inv ?s" "removal_inv (go_to Rolling p ?s)" "removal_inv (?s\<lparr>rw_pending := None\<rparr>)"
    using inv_pending[of ?s] by (auto simp: go_to_def)
  then show ?thesis using after_forget_cases[of p out again ?s] by auto
qed

lemma next_intent_row:
  assumes "next_intent v = Inr (Some i)"
  shows "rn_scope i \<in> set (vlt_stories v) \<and> readable (rn_scope i) \<and> length (rn_id i) = 36
    \<and> (\<exists>r \<in> set (vlt_intents v). row_of i r)"
proof -
  have "\<exists>k. length k = 36 \<and> read_intent k v = Inr (Some i)"
    using assms unfolding next_intent_def
    by (auto simp: result_iffs split: list.splits if_splits option.splits)
  then obtain k where "length k = 36" "read_intent k v = Inr (Some i)" by blast
  then show ?thesis using read_intent_Some[of k v i] by simp
qed

lemma recovered_inv:
  assumes inv: "removal_inv s" and i: "next_intent (rw_vault s) = Inr (Some i)"
    and f: "open_removal True (rn_scope i) (rn_trash i) (rw_files s) = Inr f"
  shows "removal_inv (s\<lparr>rw_pending := Some \<lparr>pr_intent = i, pr_file = f, pr_stage = Rolling\<rparr>\<rparr>)"
proof (rule inv_pending(1)[OF inv])
  show "pending_ok (rw_vault s) (rw_files s) \<lparr>pr_intent = i, pr_file = f, pr_stage = Rolling\<rparr>"
    using next_intent_row[OF i] open_removal_places[OF f] by (simp add: pending_ok_def home_def away_def)
qed

lemma cancelled_inv:
  assumes inv: "removal_inv s" and at: "at_stage Recorded p s \<or> at_stage Moved p s"
  shows "removal_inv (go_to Rolling p s)"
proof -
  have "pending_ok (rw_vault s) (rw_files s) p" "pr_stage p \<noteq> Rolling"
    using inv_parts(3)[OF inv] at by (auto simp: at_stage_def)
  then show ?thesis
    using inv_pending(1)[OF inv, of "p\<lparr>pr_stage := Rolling\<rparr>"] by (auto simp: go_to_def pending_ok_def)
qed

lemma removal_step_inv: "removal_step s e t \<Longrightarrow> removal_inv s \<Longrightarrow> removal_inv t"
proof (induction rule: removal_step.cases)
  case (begins s n raw sc i f)
  then show ?case using begin_inv by blast
next
  case (records p s w moment out v)
  then show ?case using recorded_inv by blast
next
  case (cancels p s)
  then show ?case using cancelled_inv by blast
next
  case (moves p s d r files)
  then show ?case using moved_inv by blast
next
  case (deletes p s w out v)
  then show ?case using deleted_inv by blast
next
  case (checks p s w)
  then show ?case using checked_inv by blast
next
  case (restores p s d r files)
  then show ?case using restored_inv by blast
next
  case (forgets p s w out v w')
  then show ?case using forgotten_inv by blast
next
  case (crashes s)
  then show ?case using inv_pending(2) by blast
next
  case (recovers s i f)
  then show ?case using recovered_inv by blast
qed

subsection \<open>Runs\<close>

definition removal_start :: "removal_world \<Rightarrow> bool" where
  "removal_start s \<longleftrightarrow>
     vault_ok (rw_vault s) \<and> vlt_intents (rw_vault s) = [] \<and> rw_pending s = None \<and> rw_removed s = []
     \<and> (\<forall>sc \<in> set (vlt_stories (rw_vault s)). rw_files s (rs_managed sc) \<noteq> None)"

interpretation removal: safe_system removal_start removal_step removal_inv
proof
  show "removal_inv s" if "removal_start s" for s
    using that by (auto simp: removal_start_def removal_inv_def archived_def)
  show "removal_inv t" if "removal_step s e t" "removal_inv s" for s e t
    using removal_step_inv that by blast
qed

text \<open>What one step can do to the files and the stories.\<close>

definition harmless :: "removal_world \<Rightarrow> removal_world \<Rightarrow> bool" where
  "harmless s t \<longleftrightarrow>
     ran (rw_files t) = ran (rw_files s) \<and> set (vlt_stories (rw_vault t)) \<subseteq> set (vlt_stories (rw_vault s))"

lemma go_to_parts [simp]:
  "rw_vault (go_to st p s) = rw_vault s" "rw_files (go_to st p s) = rw_files s" "rw_pending (go_to st p s) = Some (p\<lparr>pr_stage := st\<rparr>)"
  "rw_vault (report_removed p s) = rw_vault s" "rw_files (report_removed p s) = rw_files s"
  by (simp_all add: go_to_def report_removed_def)

lemma after_forget_parts [simp]:
  "rw_vault (after_forget p out again s) = rw_vault s" "rw_files (after_forget p out again s) = rw_files s"
  using after_forget_cases[of p out again s] by auto

lemma pending_places:
  "removal_inv s \<Longrightarrow> at_stage st p s \<Longrightarrow> home p (rw_files s) \<or> away p (rw_files s)"
  using inv_parts(3) by (auto simp: at_stage_def pending_ok_def)

lemma record_stories: "transact w (record_body i moment) v = (out, v') \<Longrightarrow> vlt_stories v' = vlt_stories v"
  using transact_tables[of w "record_body i moment" v] record_body_vault by fastforce

lemma delete_stories: "transact w (delete_body i) v = (out, v') \<Longrightarrow> vault_ok v \<Longrightarrow> set (vlt_stories v') \<subseteq> set (vlt_stories v)"
  using transact_tables[of w "delete_body i" v] deleted_vault(1) by fastforce

lemma forget_stories: "transact w (forget_body i) v = (out, v') \<Longrightarrow> vlt_stories v' = vlt_stories v"
  using transact_tables[of w "forget_body i" v] forget_body_vault by fastforce

lemma check_parts [simp]:
  "rw_vault (case r of Inl e \<Rightarrow> s | Inr (Inl e) \<Rightarrow> s | Inr (Inr gone) \<Rightarrow> if gone then report_removed p s else go_to st p s)
     = rw_vault s"
  "rw_files (case r of Inl e \<Rightarrow> s | Inr (Inl e) \<Rightarrow> s | Inr (Inr gone) \<Rightarrow> if gone then report_removed p s else go_to st p s)
     = rw_files s"
  by (auto split: sum.splits)

lemma removal_step_harmless:
  assumes "removal_step s e t" "removal_inv s"
  shows "harmless s t \<and> (e \<noteq> Ev_delete \<longrightarrow> vlt_stories (rw_vault t) = vlt_stories (rw_vault s))"
  using assms
proof (induction rule: removal_step.cases)
  case (records p s w moment out v)
  then show ?case using record_stories by (simp add: harmless_def)
next
  case (moves p s d r files)
  then show ?case using relocate_ran pending_places by (fastforce simp: harmless_def)
next
  case (deletes p s w out v)
  then show ?case using delete_stories inv_parts(1) by (auto simp: harmless_def)
next
  case (restores p s d r files)
  then show ?case using relocate_ran pending_places by (fastforce simp: harmless_def)
next
  case (forgets p s w out v w')
  then show ?case using forget_stories by (simp add: harmless_def)
qed (simp_all add: harmless_def)

lemma removal_run_harmless:
  "run removal_step s es t \<Longrightarrow> removal_inv s \<Longrightarrow>
   harmless s t \<and> (Ev_delete \<notin> set es \<longrightarrow> vlt_stories (rw_vault t) = vlt_stories (rw_vault s))"
proof (induction rule: run.induct)
  case (run_cons s a t as u)
  note step = removal_step_harmless[OF run_cons.hyps(1) run_cons.prems]
  note rest = run_cons.IH[OF removal.step_good[OF run_cons.hyps(1) run_cons.prems]]
  show ?case using step rest by (auto simp: harmless_def)
qed (simp add: harmless_def)

subsection \<open>Recovery\<close>

lemma first_intent:
  assumes ok: "vault_ok v" and some: "vlt_intents v \<noteq> []"
  shows "\<exists>i. next_intent v = Inr (Some i)"
proof -
  obtain r rest where sorted: "sort_key (\<lambda>r. (ir_created r, ir_id r)) (vlt_intents v) = r # rest"
    using some by (cases "sort_key (\<lambda>r. (ir_created r, ir_id r)) (vlt_intents v)")
      (metis length_0_conv length_sort, blast)
  then have r: "r \<in> set (vlt_intents v)" by (metis list.set_intros(1) set_sort)
  then obtain sc where sc: "sc \<in> set (vlt_stories v)" "intent_of_row sc r" and k: "length (ir_id r) = 36"
    using ok by (auto simp: vault_ok_def)
  let ?i = "\<lparr>rn_id = ir_id r, rn_scope = sc, rn_trash = ir_trash r\<rparr>"
  have "read_intent (ir_id r) v = Inr (Some ?i)"
    using read_intent_row[OF ok r, of ?i] sc by (simp add: row_of_def intent_of_row_def)
  then show ?thesis using sorted k by (simp add: next_intent_def)
qed

lemma recovery_opens:
  assumes inv: "removal_inv s" and i: "next_intent (rw_vault s) = Inr (Some i)"
  shows "\<exists>f. open_removal True (rn_scope i) (rn_trash i) (rw_files s) = Inr f"
proof -
  let ?v = "rw_vault s"
  have ok: "vault_ok ?v" using inv_parts(1)[OF inv] .
  obtain r where sc: "rn_scope i \<in> set (vlt_stories ?v)" and r: "r \<in> set (vlt_intents ?v)" "row_of i r"
    using next_intent_row[OF i] by blast
  have paths: "path_in ''archives'' (rs_managed (rn_scope i))" "path_in ''trash'' (rn_trash i)"
    using ok sc r by (auto simp: vault_ok_def row_of_def)
  have only: "q = r" if "q \<in> set (vlt_intents ?v)" "ir_story q = rs_story (rn_scope i)" for q
    using vault_intent_unique[OF ok that(1) r(1)] that(2) r(2) by (simp add: row_of_def)
  have t: "ir_trash r = rn_trash i" "ir_story r = rs_story (rn_scope i)" using r(2) by (auto simp: row_of_def)
  have "archived ?v (rw_files s) (rn_scope i)" using inv_parts(2)[OF inv sc] .
  then have "(rw_files s (rs_managed (rn_scope i)) \<noteq> None \<and> rw_files s (rn_trash i) = None)
      \<or> (rw_files s (rs_managed (rn_scope i)) = None \<and> rw_files s (rn_trash i) \<noteq> None)"
    unfolding archived_def using r(1) t only by metis
  then show ?thesis using paths by (auto simp: open_removal_def)
qed

definition rolling_on :: "removal_intent \<Rightarrow> nat \<Rightarrow> pending_removal" where
  "rolling_on i f = \<lparr>pr_intent = i, pr_file = f, pr_stage = Rolling\<rparr>"

lemma settled_row:
  assumes ok: "vault_ok v" and i: "next_intent v = Inr (Some i)"
  shows "settled_body i v = Inr False"
    and "forget_body i v = Inr ((), v\<lparr>vlt_intents := filter (\<lambda>r. ir_id r \<noteq> rn_id i) (vlt_intents v)\<rparr>)"
proof -
  obtain r where "rn_scope i \<in> set (vlt_stories v)" "readable (rn_scope i)" "r \<in> set (vlt_intents v)" "row_of i r"
    using next_intent_row[OF i] by blast
  note at = read_intent_row[OF ok this(3,4,1,2)] read_scope_row[OF ok this(1,2)] require_scope_row[OF ok this(1,2)]
  show "settled_body i v = Inr False" by (simp add: settled_body_def at)
  show "forget_body i v = Inr ((), v\<lparr>vlt_intents := filter (\<lambda>r. ir_id r \<noteq> rn_id i) (vlt_intents v)\<rparr>)"
    by (simp add: forget_body_def at)
qed

abbreviation recovery_events :: "removal_event list" where
  "recovery_events \<equiv> [Ev_recover, Ev_check, Ev_restore, Ev_forget]"

text \<open>One turn of the loop of \<open>recover_removals\<close> when nothing fails.\<close>

lemma recovery_round:
  assumes inv: "removal_inv s" and idle: "rw_pending s = None" and some: "vlt_intents (rw_vault s) \<noteq> []"
  shows "\<exists>t. run removal_step s recovery_events t \<and> rw_pending t = None
    \<and> length (vlt_intents (rw_vault t)) < length (vlt_intents (rw_vault s))"
proof -
  let ?v = "rw_vault s"
  have ok: "vault_ok ?v" using inv_parts(1)[OF inv] .
  obtain i where i: "next_intent ?v = Inr (Some i)" using first_intent[OF ok some] by blast
  obtain f where f: "open_removal True (rn_scope i) (rn_trash i) (rw_files s) = Inr f" using recovery_opens[OF inv i] by blast
  define p where "p = rolling_on i f"
  define v' where "v' = ?v\<lparr>vlt_intents := filter (\<lambda>r. ir_id r \<noteq> rn_id i) (vlt_intents ?v)\<rparr>"
  have p: "pr_intent p = i" "pr_stage p = Rolling" by (simp_all add: p_def rolling_on_def)
  let ?s1 = "s\<lparr>rw_pending := Some p\<rparr>"
  let ?s2 = "go_to Checked p ?s1"
  have step1: "removal_step s Ev_recover ?s1"
    unfolding p_def rolling_on_def by (rule removal_step.recovers[OF idle i f])
  have "removal_step ?s1 Ev_check
      (case observe Commits (settled_body (pr_intent p)) (rw_vault ?s1) of
        Inr (Inr gone) \<Rightarrow> if gone then report_removed p ?s1 else go_to Checked p ?s1 | _ \<Rightarrow> ?s1)"
    by (rule removal_step.checks) (simp add: at_stage_def p)
  then have step2: "removal_step ?s1 Ev_check ?s2"
    using settled_row(1)[OF ok i] by (simp add: observe_def p)
  have inv2: "removal_inv ?s2"
    using removal.step_good[OF step2 removal.step_good[OF step1 inv]] .
  let ?q = "p\<lparr>pr_stage := Checked\<rparr>"
  have at2: "at_stage Checked ?q ?s2" by (simp add: at_stage_def)
  obtain there where "location ?q (rw_files ?s2) = Inr there"
    using home_or_away[OF pending_places[OF inv2 at2]] by blast
  then obtain files where mv: "relocate False Disk_ok ?q (rw_files ?s2) = (Inr (), files)"
    by (simp add: relocate_def Let_def)
  let ?s3 = "go_to Restored ?q (?s2\<lparr>rw_files := files\<rparr>)"
  have step3: "removal_step ?s2 Ev_restore ?s3" using removal_step.restores[OF at2 mv] by simp
  let ?p = "?q\<lparr>pr_stage := Restored\<rparr>"
  have at3: "at_stage Restored ?p ?s3" by (simp add: at_stage_def)
  have tx: "transact Commits (forget_body (pr_intent ?p)) (rw_vault ?s3) = (Tx_committed (), v')"
    using settled_row(2)[OF ok i] by (simp add: transact_def p v'_def)
  define t where "t = after_forget ?p (Tx_committed ()) (observe Commits (forgotten_body i) v') (?s3\<lparr>rw_vault := v'\<rparr>)"
  have step4: "removal_step ?s3 Ev_forget t"
    using removal_step.forgets[OF at3 tx, of Commits] by (simp add: t_def p)
  obtain r where "r \<in> set (vlt_intents ?v)" "row_of i r" using next_intent_row[OF i] by blast
  then have "length (vlt_intents v') < length (vlt_intents ?v)"
    using length_filter_less[of r "vlt_intents ?v" "\<lambda>r. ir_id r \<noteq> rn_id i"] by (simp add: v'_def row_of_def)
  moreover have "run removal_step s recovery_events t"
    using step1 step2 step3 step4 by (meson run_cons run_nil)
  ultimately show ?thesis by (intro exI[of _ t]) (simp add: t_def after_forget_def)
qed

lemma recovery_run:
  assumes "removal_inv s" "rw_pending s = None"
  shows "\<exists>es t. set es \<subseteq> set recovery_events \<and> run removal_step s es t \<and> rw_pending t = None \<and> vlt_intents (rw_vault t) = []"
  using assms
proof (induction "length (vlt_intents (rw_vault s))" arbitrary: s rule: less_induct)
  case less
  show ?case
  proof (cases "vlt_intents (rw_vault s) = []")
    case True
    then show ?thesis using less.prems(2) by (intro exI[of _ "[]"] exI[of _ s]) (simp add: run_nil)
  next
    case False
    obtain u where u: "run removal_step s recovery_events u" "rw_pending u = None"
      "length (vlt_intents (rw_vault u)) < length (vlt_intents (rw_vault s))"
      using recovery_round[OF less.prems False] by blast
    obtain es t where t: "set es \<subseteq> set recovery_events" "run removal_step u es t" "rw_pending t = None"
      "vlt_intents (rw_vault t) = []"
      using less.hyps[OF u(3) removal.run_good[OF u(1) less.prems(1)] u(2)] by blast
    have "run removal_step s (recovery_events @ es) t" using u(1) t(2) unfolding run_append by blast
    moreover have "set (recovery_events @ es) \<subseteq> set recovery_events" using t(1) by auto
    ultimately show ?thesis using t(3,4) by blast
  qed
qed

subsection \<open>Properties\<close>

definition sample_story :: removal_scope where
  "sample_story = \<lparr>rs_story = 1, rs_uuid = ''u'', rs_managed = ''archives/a.zip'', rs_hash = ''h'', rs_bytes = 9\<rparr>"

definition sample_removal_world :: removal_world where
  "sample_removal_world =
     \<lparr>rw_vault = \<lparr>vlt_stories = [sample_story], vlt_intents = []\<rparr>, rw_files = [''archives/a.zip'' \<mapsto> 7],
      rw_pending = None, rw_removed = []\<rparr>"

lemma sample_removal_start: "removal_start sample_removal_world"
proof -
  have "path_in ''archives'' ''archives/a.zip''" by code_simp
  then show ?thesis by (simp add: removal_start_def sample_removal_world_def sample_story_def vault_ok_def)
qed

definition sample_removal_intent :: removal_intent where
  "sample_removal_intent =
     \<lparr>rn_id = dashed (replicate 32 CHR ''a''), rn_scope = sample_story,
      rn_trash = trash_path (dashed (replicate 32 CHR ''a'')) ''a.zip''\<rparr>"

definition sample_begun :: removal_world where
  "sample_begun =
     sample_removal_world\<lparr>rw_pending := Some \<lparr>pr_intent = sample_removal_intent, pr_file = 7, pr_stage = Opened\<rparr>\<rparr>"

lemma sample_begins: "removal_step sample_removal_world (Ev_begin 1 (replicate 32 CHR ''a'')) sample_begun"
  unfolding sample_begun_def
proof (rule removal_step.begins)
  show "begin_intent sample_story (replicate 32 CHR ''a'') = Some sample_removal_intent" by code_simp
  show "open_removal False sample_story (rn_trash sample_removal_intent) (rw_files sample_removal_world) = Inr 7"
    by code_simp
  show "read_scope 1 (rw_vault sample_removal_world) = Inr (Some sample_story)" by code_simp
qed (simp_all add: sample_removal_world_def)

definition sample_pending :: "removal_stage \<Rightarrow> pending_removal" where
  "sample_pending st = \<lparr>pr_intent = sample_removal_intent, pr_file = 7, pr_stage = st\<rparr>"

definition sample_recorded_vault :: vault where
  "sample_recorded_vault = \<lparr>vlt_stories = [sample_story], vlt_intents = [intent_row_of sample_removal_intent ''t'']\<rparr>"

definition sample_moved :: removal_world where
  "sample_moved =
     \<lparr>rw_vault = sample_recorded_vault, rw_files = rename_file ''archives/a.zip'' (rn_trash sample_removal_intent) [''archives/a.zip'' \<mapsto> 7],
      rw_pending = Some (sample_pending Moved), rw_removed = []\<rparr>"

lemma sample_records:
  "removal_step sample_begun Ev_record
     (go_to Recorded (sample_pending Opened) (sample_begun\<lparr>rw_vault := sample_recorded_vault\<rparr>))"
proof -
  have "record_body sample_removal_intent ''t'' (rw_vault sample_begun) = Inr ((), sample_recorded_vault)" by code_simp
  then have "transact Commits (record_body (pr_intent (sample_pending Opened)) ''t'') (rw_vault sample_begun)
      = (Tx_committed (), sample_recorded_vault)"
    by (simp add: transact_def sample_pending_def)
  from removal_step.records[OF _ this]
  show ?thesis by (simp add: at_stage_def sample_begun_def sample_pending_def)
qed

lemma sample_moves:
  "removal_step (go_to Recorded (sample_pending Opened) (sample_begun\<lparr>rw_vault := sample_recorded_vault\<rparr>)) Ev_move sample_moved"
  (is "removal_step ?s _ _")
proof -
  let ?p = "sample_pending Recorded"
  have "sample_pending Opened\<lparr>pr_stage := Recorded\<rparr> = ?p" by (simp add: sample_pending_def)
  then have at: "at_stage Recorded ?p ?s" by (simp add: at_stage_def) (simp add: sample_pending_def)
  have files: "rw_files ?s = [''archives/a.zip'' \<mapsto> 7]" by (simp add: sample_begun_def sample_removal_world_def)
  have "location ?p [''archives/a.zip'' \<mapsto> 7] = Inr False" by code_simp
  then have "relocate True Disk_ok ?p (rw_files ?s)
      = (Inr (), rename_file ''archives/a.zip'' (rn_trash sample_removal_intent) [''archives/a.zip'' \<mapsto> 7])"
    unfolding files by (simp add: relocate_def) (simp add: sample_pending_def sample_removal_intent_def sample_story_def)
  from removal_step.moves[OF at this]
  show ?thesis
    by (simp add: sample_moved_def go_to_def sample_begun_def sample_removal_world_def sample_pending_def)
qed

lemma sample_moved_reachable: "reachable removal_start removal_step sample_moved"
  using sample_begins sample_records sample_moves sample_removal_start by (meson reach_start reach_step)

text \<open>C4: However removals, failures, lost acknowledgements, cancellations, crashes and recoveries follow each other,
  every story of the library has its archive: at its managed path, or in the trash where a recorded
  intent of that story says. No archive file is ever destroyed, only the deletion takes a story, and a
  story reported as removed is gone.\<close>

theorem removal_never_loses:
  assumes "reachable removal_start removal_step s" and "run removal_step s es t"
  shows "(\<forall>sc \<in> set (vlt_stories (rw_vault t)). archived (rw_vault t) (rw_files t) sc)
    \<and> ran (rw_files t) = ran (rw_files s)
    \<and> set (vlt_stories (rw_vault t)) \<subseteq> set (vlt_stories (rw_vault s))
    \<and> (Ev_delete \<notin> set es \<longrightarrow> vlt_stories (rw_vault t) = vlt_stories (rw_vault s))
    \<and> (\<forall>n \<in> set (rw_removed t). n \<notin> rs_story ` set (vlt_stories (rw_vault t)))"
proof -
  have inv: "removal_inv s" using removal.reachable_good[OF assms(1)] .
  have "removal_inv t" using removal.run_good[OF assms(2) inv] .
  then show ?thesis
    using inv_parts(2,4)[of t] removal_run_harmless[OF assms(2) inv] unfolding harmless_def by blast
qed

theorem removal_never_loses_witness:
  "archived sample_recorded_vault (rw_files sample_moved) sample_story
   \<and> vlt_stories (rw_vault (sample_moved\<lparr>rw_pending := None\<rparr>)) = [sample_story]"
proof -
  have "run removal_step sample_moved [Ev_crash] (sample_moved\<lparr>rw_pending := None\<rparr>)"
    by (auto simp: run_Cons_simp run_Nil_simp intro: removal_step.crashes)
  from removal_never_loses[OF sample_moved_reachable this]
  show ?thesis by (simp add: sample_moved_def sample_recorded_vault_def)
qed

text \<open>C8: After a crash at any point, opening the library again can always finish: if the disk and the
  database work, turns of the recovery loop alone lead to a library without intents, with the same
  stories, the same files, and every archive back at its managed path.\<close>

theorem removal_recovers:
  assumes "reachable removal_start removal_step s"
  shows "\<exists>es t. set es \<subseteq> set recovery_events \<and> run removal_step (s\<lparr>rw_pending := None\<rparr>) es t
    \<and> vlt_intents (rw_vault t) = [] \<and> rw_pending t = None
    \<and> vlt_stories (rw_vault t) = vlt_stories (rw_vault s) \<and> ran (rw_files t) = ran (rw_files s)
    \<and> (\<forall>sc \<in> set (vlt_stories (rw_vault s)). rw_files t (rs_managed sc) \<noteq> None)"
proof -
  let ?s = "s\<lparr>rw_pending := None\<rparr>"
  have inv: "removal_inv ?s" using removal.reachable_good[OF assms] inv_pending(2) by blast
  obtain es t where t: "set es \<subseteq> set recovery_events" "run removal_step ?s es t" "rw_pending t = None"
    "vlt_intents (rw_vault t) = []"
    using recovery_run[OF inv] by auto
  have same: "vlt_stories (rw_vault t) = vlt_stories (rw_vault s)" "ran (rw_files t) = ran (rw_files s)"
    using removal_run_harmless[OF t(2) inv] t(1) by (auto simp: harmless_def)
  have "rw_files t (rs_managed sc) \<noteq> None" if "sc \<in> set (vlt_stories (rw_vault s))" for sc
    using inv_parts(2)[OF removal.run_good[OF t(2) inv], of sc] that same t(4) by (simp add: archived_def)
  then show ?thesis using t same by blast
qed

theorem removal_recovers_witness:
  "rw_files sample_moved ''archives/a.zip'' = None
   \<and> (\<exists>es t. set es \<subseteq> set recovery_events \<and> run removal_step (sample_moved\<lparr>rw_pending := None\<rparr>) es t
        \<and> rw_files t ''archives/a.zip'' \<noteq> None)"
proof -
  have "rn_trash sample_removal_intent \<noteq> ''archives/a.zip''" by code_simp
  then have "rw_files sample_moved ''archives/a.zip'' = None" by (simp add: sample_moved_def rename_file_def)
  moreover have "sample_story \<in> set (vlt_stories (rw_vault sample_moved))" "rs_managed sample_story = ''archives/a.zip''"
    by (simp_all add: sample_moved_def sample_recorded_vault_def sample_story_def)
  ultimately show ?thesis using removal_recovers[OF sample_moved_reachable] by metis
qed

end
