(* ===== verification/Positions.thy ===== *)
theory Positions
  imports Tables
begin

section \<open>Renumbering rows under a unique constraint\<close>

text \<open>
  The manual order of collections, of shelves and of the stories of a shelf is a column \<open>position\<close> that
  a \<open>UNIQUE\<close> constraint covers. SQLite checks it row by row within one \<open>UPDATE\<close>, so a renumbering
  must never pass through a state where two rows share a place. The three reorderings of the code are
  the same: move all rows above the places in use, then give each row its place. The rows of a group
  and how to move one are the arguments; the locale states what a row of such a table is.
\<close>

text \<open>\<open>UPDATE ... SET\<close> on the rows that satisfy \<open>p\<close>, in the order they are stored, the constraint on \<open>key\<close> checked at each row.\<close>

fun update_unique ::
    "('r \<Rightarrow> bool) \<Rightarrow> ('r \<Rightarrow> 'r) \<Rightarrow> ('r \<Rightarrow> 'k) \<Rightarrow> 'r list \<Rightarrow> 'r list \<Rightarrow> storage_error + 'r list" where
  "update_unique p f key before [] = Inr before"
| "update_unique p f key before (r # rows) =
     (if \<not> p r then update_unique p f key (before @ [r]) rows
      else if key (f r) \<in> key ` set before \<union> key ` set rows then Inl Err_constraint
      else update_unique p f key (before @ [f r]) rows)"

lemma update_unique_step:
  assumes "distinct (map key (before @ rewrite p f rows))"
    and "\<And>r q. r \<in> set rows \<Longrightarrow> p r \<Longrightarrow> q \<in> set rows \<Longrightarrow> q \<noteq> r \<Longrightarrow> key (f r) \<noteq> key q"
    and "distinct rows"
  shows "update_unique p f key before rows = Inr (before @ rewrite p f rows)"
  using assms
proof (induction rows arbitrary: before)
  case (Cons r rows)
  have "distinct (map key ((before @ [if p r then f r else r]) @ rewrite p f rows))"
    using Cons.prems(1) by (auto simp: rewrite_def)
  moreover have "key (f q) \<noteq> key q'" if "q \<in> set rows" "p q" "q' \<in> set rows" "q' \<noteq> q" for q q'
    using Cons.prems(2) that by simp
  ultimately have rest: "update_unique p f key (before @ [if p r then f r else r]) rows
      = Inr ((before @ [if p r then f r else r]) @ rewrite p f rows)"
    using Cons.prems(3) Cons.IH by simp
  show ?case
  proof (cases "p r")
    case True
    then have "key (f r) \<notin> key ` set before" using Cons.prems(1) by (auto simp: rewrite_def)
    moreover have "key (f r) \<notin> key ` set rows" using Cons.prems(2)[of r] True Cons.prems(3) by auto
    ultimately show ?thesis using True rest by (auto simp: rewrite_def)
  next
    case False
    then show ?thesis using rest by (simp add: rewrite_def)
  qed
qed (simp add: rewrite_def)

text \<open>An update that gives all its rows fresh and different keys goes through and keeps the keys apart.\<close>

lemma update_unique_fresh:
  assumes "distinct (map key rows)"
    and "\<And>r. r \<in> set rows \<Longrightarrow> p r \<Longrightarrow> key (f r) \<notin> key ` set rows"
    and "\<And>r q. r \<in> set rows \<Longrightarrow> q \<in> set rows \<Longrightarrow> p r \<Longrightarrow> p q \<Longrightarrow> key (f r) = key (f q) \<Longrightarrow> r = q"
  shows "update_unique p f key [] rows = Inr (rewrite p f rows) \<and> distinct (map key (rewrite p f rows))"
proof -
  have inj: "r = q" if "r \<in> set rows" "q \<in> set rows"
    "key (if p r then f r else r) = key (if p q then f q else q)" for r q
  proof -
    have apart: "key (f x) \<noteq> key y" if "x \<in> set rows" "p x" "y \<in> set rows" for x y
      using assms(2)[OF that(1,2)] that(3) by (metis imageI)
    have old: "key r = key q \<Longrightarrow> r = q" using assms(1) that(1,2) by (simp add: distinct_map inj_on_def)
    show ?thesis
    proof (cases "p r"; cases "p q")
      assume "p r" "p q"
      then show ?thesis using assms(3)[OF that(1,2)] that(3) by simp
    next
      assume "p r" "\<not> p q"
      then show ?thesis using apart[OF that(1) _ that(2)] that(3) by simp
    next
      assume "\<not> p r" "p q"
      then show ?thesis using apart[OF that(2) _ that(1)] that(3) by simp
    next
      assume "\<not> p r" "\<not> p q"
      then show ?thesis using old that(3) by simp
    qed
  qed
  then have "distinct (map key (rewrite p f rows))"
    using assms(1) unfolding rewrite_def distinct_map map_map comp_def inj_on_def by blast
  moreover have "key (f r) \<noteq> key q" if "r \<in> set rows" "p r" "q \<in> set rows" for r q
    using assms(2) that by force
  ultimately show ?thesis
    using update_unique_step[of key "[]" p f rows] assms(1) by (simp add: distinct_map)
qed

subsection \<open>The two statements of a reordering\<close>

definition shift_rows ::
    "('r \<Rightarrow> 'g) \<Rightarrow> ('r \<Rightarrow> i64) \<Rightarrow> (i64 \<Rightarrow> 'r \<Rightarrow> 'r) \<Rightarrow> 'g \<Rightarrow> i64 \<Rightarrow> 'r list \<Rightarrow> storage_error + 'r list" where
  "shift_rows grp seat move g offset rows =
     update_unique (\<lambda>r. grp r = g) (\<lambda>r. move (seat r + offset) r) (\<lambda>r. (grp r, seat r)) [] rows"

fun place_rows ::
    "('r \<Rightarrow> 'g) \<Rightarrow> ('r \<Rightarrow> 'k) \<Rightarrow> ('r \<Rightarrow> i64) \<Rightarrow> (i64 \<Rightarrow> 'r \<Rightarrow> 'r) \<Rightarrow> 'g \<Rightarrow> nat \<Rightarrow> 'k list \<Rightarrow> 'r list \<Rightarrow> storage_error + 'r list" where
  "place_rows grp who seat move g n [] rows = Inr rows"
| "place_rows grp who seat move g n (k # ks) rows =
     and_then (update_unique (\<lambda>r. grp r = g \<and> who r = k) (move (int n)) (\<lambda>r. (grp r, seat r)) [] rows)
       (place_rows grp who seat move g (Suc n) ks)"

definition renumber ::
    "('r \<Rightarrow> 'g) \<Rightarrow> ('r \<Rightarrow> 'k) \<Rightarrow> ('r \<Rightarrow> i64) \<Rightarrow> (i64 \<Rightarrow> 'r \<Rightarrow> 'r) \<Rightarrow> 'g \<Rightarrow> i64 \<Rightarrow> 'k list \<Rightarrow> 'r list \<Rightarrow> storage_error + 'r list" where
  "renumber grp who seat move g offset ks rows =
     and_then (shift_rows grp seat move g offset rows) (place_rows grp who seat move g 0 ks)"

text \<open>The group of a statement without \<open>WHERE\<close>.\<close>

definition whole_table :: "'r \<Rightarrow> bool" where
  "whole_table r = True"

text \<open>What it is for: every row of the group gets the index of its key in the list.\<close>

fun index_in :: "'k list \<Rightarrow> 'k \<Rightarrow> nat" where
  "index_in [] k = 0"
| "index_in (x # xs) k = (if x = k then 0 else Suc (index_in xs k))"

lemma index_in_less: "k \<in> set ks \<Longrightarrow> index_in ks k < length ks"
  by (induction ks) auto

lemma nth_index_in: "k \<in> set ks \<Longrightarrow> ks ! index_in ks k = k"
  by (induction ks) auto

lemma index_in_inj: "a \<in> set ks \<Longrightarrow> b \<in> set ks \<Longrightarrow> index_in ks a = index_in ks b \<Longrightarrow> a = b"
  by (metis nth_index_in)

lemma index_in_nth: "distinct ks \<Longrightarrow> n < length ks \<Longrightarrow> index_in ks (ks ! n) = n"
  by (metis index_in_less nth_eq_iff_index_eq nth_index_in nth_mem)

text \<open>The rows in the order of their numbers have their keys in the order of the list.\<close>

lemma numbers_give_order:
  assumes "distinct ks" "distinct us" "set us = set ks" "sorted (map (index_in ks) us)"
  shows "us = ks"
proof -
  have d: "distinct (map (index_in ks) us)" "distinct (map (index_in ks) ks)"
    using assms index_in_inj by (auto simp: distinct_map inj_on_def)
  have "map (index_in ks) ks = [0..<length ks]"
    by (rule nth_equalityI) (use assms(1) index_in_nth in auto)
  then have "sorted (map (index_in ks) ks)" by simp
  then have "map (index_in ks) us = map (index_in ks) ks"
    using sorted_distinct_set_unique[OF assms(4) d(1) _ d(2)] assms(3) by simp
  moreover have "inj_on (index_in ks) (set us \<union> set ks)" using assms(3) index_in_inj by (auto simp: inj_on_def)
  ultimately show ?thesis by (rule map_inj_on)
qed

lemma order_of_numbers:
  assumes ks: "distinct ks" and rows: "distinct (map who rows)" "who ` set rows = set ks"
    and number: "\<And>r. r \<in> set rows \<Longrightarrow> seat r = int (index_in ks (who r))"
  shows "map who (sort_key (\<lambda>r. (seat r, who r)) rows) = ks"
proof (rule numbers_give_order[OF ks])
  let ?s = "sort_key (\<lambda>r. (seat r, who r)) rows"
  show "distinct (map who ?s)" "set (map who ?s) = set ks" using rows by (simp_all add: distinct_map)
  have "sorted (map (\<lambda>r. (seat r, who r)) ?s)" by simp
  then have "sorted_wrt (\<lambda>r q. seat r \<le> seat q) ?s"
    unfolding sorted_map by (rule sorted_wrt_mono_rel[rotated]) auto
  then have "sorted_wrt (\<lambda>r q. index_in ks (who r) \<le> index_in ks (who q)) ?s"
    by (rule sorted_wrt_mono_rel[rotated]) (use number in simp)
  then show "sorted (map (index_in ks) (map who ?s))" by (simp add: sorted_map comp_def)
qed

definition numbered ::
    "('r \<Rightarrow> 'g) \<Rightarrow> ('r \<Rightarrow> 'k) \<Rightarrow> (i64 \<Rightarrow> 'r \<Rightarrow> 'r) \<Rightarrow> 'g \<Rightarrow> 'k list \<Rightarrow> 'r list \<Rightarrow> 'r list" where
  "numbered grp who move g ks rows =
     rewrite (\<lambda>r. grp r = g \<and> who r \<in> set ks) (\<lambda>r. move (int (index_in ks (who r))) r) rows"

definition seats_ok :: "('r \<Rightarrow> 'g) \<Rightarrow> ('r \<Rightarrow> 'k) \<Rightarrow> ('r \<Rightarrow> i64) \<Rightarrow> 'r list \<Rightarrow> bool" where
  "seats_ok grp who seat rows \<longleftrightarrow>
     distinct (map (\<lambda>r. (grp r, seat r)) rows) \<and> distinct (map (\<lambda>r. (grp r, who r)) rows)
     \<and> (\<forall>r \<in> set rows. 0 \<le> seat r)"

lemma seats_ok_append:
  assumes "seats_ok grp who seat rows" "0 \<le> seat r"
    and "\<And>q. q \<in> set rows \<Longrightarrow> grp q = grp r \<Longrightarrow> seat q \<noteq> seat r \<and> who q \<noteq> who r"
  shows "seats_ok grp who seat (rows @ [r])"
proof -
  have "(grp r, seat r) \<notin> set (map (\<lambda>q. (grp q, seat q)) rows)" "(grp r, who r) \<notin> set (map (\<lambda>q. (grp q, who q)) rows)"
    using assms(3) by force+
  then show ?thesis using assms(1,2) unfolding seats_ok_def map_append distinct_append by simp
qed

locale numbered_row =
  fixes grp :: "'r \<Rightarrow> 'g" and who :: "'r \<Rightarrow> 'k" and seat :: "'r \<Rightarrow> i64" and move :: "i64 \<Rightarrow> 'r \<Rightarrow> 'r"
  assumes grp_move [simp]: "grp (move n r) = grp r"
    and who_move [simp]: "who (move n r) = who r"
    and seat_move [simp]: "seat (move n r) = n"
    and move_move [simp]: "move n (move m r) = move n r"
begin

abbreviation "place \<equiv> \<lambda>r. (grp r, seat r)"

lemma rewrite_move_who: "map (\<lambda>r. (grp r, who r)) (rewrite p (\<lambda>r. move (h r) r) rows) = map (\<lambda>r. (grp r, who r)) rows"
  by (simp add: rewrite_def)

lemma seats_ok_unique:
  "seats_ok grp who seat rows \<Longrightarrow> r \<in> set rows \<Longrightarrow> q \<in> set rows \<Longrightarrow> grp r = grp q \<Longrightarrow>
   who r = who q \<or> seat r = seat q \<Longrightarrow> r = q"
  unfolding seats_ok_def distinct_map by (metis (mono_tags, lifting) inj_onD)

lemma shift_ok:
  assumes ok: "seats_ok grp who seat rows" and below: "\<And>r. r \<in> set rows \<Longrightarrow> grp r = g \<Longrightarrow> seat r < offset"
  shows "shift_rows grp seat move g offset rows = Inr (rewrite (\<lambda>r. grp r = g) (\<lambda>r. move (seat r + offset) r) rows)
    \<and> seats_ok grp who seat (rewrite (\<lambda>r. grp r = g) (\<lambda>r. move (seat r + offset) r) rows)"
proof -
  let ?f = "\<lambda>r. move (seat r + offset) r"
  have "place (?f r) \<notin> place ` set rows" if "r \<in> set rows" "grp r = g" for r
    using below ok that by (force simp: seats_ok_def)
  moreover have "r = q" if "r \<in> set rows" "q \<in> set rows" "grp r = g" "grp q = g" "place (?f r) = place (?f q)" for r q
    using seats_ok_unique[OF ok that(1,2)] that by simp
  ultimately have "update_unique (\<lambda>r. grp r = g) ?f place [] rows = Inr (rewrite (\<lambda>r. grp r = g) ?f rows)
      \<and> distinct (map place (rewrite (\<lambda>r. grp r = g) ?f rows))"
    using update_unique_fresh[of place rows "\<lambda>r. grp r = g" ?f] ok unfolding seats_ok_def by blast
  moreover have "0 \<le> seat q" if "q \<in> set (rewrite (\<lambda>r. grp r = g) ?f rows)" for q
  proof -
    obtain r where r: "r \<in> set rows" "q = (if grp r = g then ?f r else r)" using \<open>q \<in> _\<close> unfolding set_rewrite by blast
    then have "0 \<le> seat r" using ok by (simp add: seats_ok_def)
    then show ?thesis using below[OF r(1)] r(2) by (cases "grp r = g") auto
  qed
  ultimately show ?thesis
    using ok rewrite_move_who[of "\<lambda>r. grp r = g" "\<lambda>r. seat r + offset" rows]
    by (simp add: shift_rows_def seats_ok_def)
qed

text \<open>Giving out one place that nobody holds.\<close>

lemma place_one:
  assumes ok: "seats_ok grp who seat rows" and free: "\<And>r. r \<in> set rows \<Longrightarrow> grp r = g \<Longrightarrow> seat r \<noteq> int n"
    and t: "t = rewrite (\<lambda>r. grp r = g \<and> who r = k) (move (int n)) rows"
  shows "update_unique (\<lambda>r. grp r = g \<and> who r = k) (move (int n)) place [] rows = Inr t \<and> seats_ok grp who seat t"
proof -
  have "place (move (int n) r) \<notin> place ` set rows" if "grp r = g" for r
    using free that by force
  moreover have "r = q" if "r \<in> set rows" "q \<in> set rows" "grp r = g \<and> who r = k" "grp q = g \<and> who q = k" for r q
    using seats_ok_unique[OF ok that(1,2)] that by simp
  ultimately have "update_unique (\<lambda>r. grp r = g \<and> who r = k) (move (int n)) place [] rows = Inr t \<and> distinct (map place t)"
    using update_unique_fresh[of place rows "\<lambda>r. grp r = g \<and> who r = k" "move (int n)"] ok
    unfolding seats_ok_def t by blast
  then show ?thesis
    using ok rewrite_move_who[of "\<lambda>r. grp r = g \<and> who r = k" "\<lambda>_. int n" rows]
    by (auto simp: seats_ok_def t set_rewrite)
qed

lemma place_ok:
  assumes "seats_ok grp who seat rows" and "distinct ks"
    and "\<And>r. r \<in> set rows \<Longrightarrow> grp r = g \<Longrightarrow> seat r < int n \<or> int (n + length ks) \<le> seat r"
  shows "place_rows grp who seat move g n ks rows =
      Inr (rewrite (\<lambda>r. grp r = g \<and> who r \<in> set ks) (\<lambda>r. move (int (n + index_in ks (who r))) r) rows)
    \<and> seats_ok grp who seat
        (rewrite (\<lambda>r. grp r = g \<and> who r \<in> set ks) (\<lambda>r. move (int (n + index_in ks (who r))) r) rows)"
  using assms
proof (induction ks arbitrary: n rows)
  case Nil
  then show ?case by (simp add: rewrite_def)
next
  case (Cons k ks)
  define t where "t = rewrite (\<lambda>r. grp r = g \<and> who r = k) (move (int n)) rows"
  have free: "seat r \<noteq> int n" if "r \<in> set rows" "grp r = g" for r
    using Cons.prems(3)[OF that] by auto
  have one: "update_unique (\<lambda>r. grp r = g \<and> who r = k) (move (int n)) place [] rows = Inr t" "seats_ok grp who seat t"
    using place_one[OF Cons.prems(1) free t_def] by blast+
  have "seat r < int (Suc n) \<or> int (Suc n + length ks) \<le> seat r" if r: "r \<in> set t" "grp r = g" for r
  proof -
    obtain q where q: "q \<in> set rows" "r = (if grp q = g \<and> who q = k then move (int n) q else q)"
      using r(1) unfolding t_def set_rewrite by blast
    show ?thesis using Cons.prems(3)[OF q(1)] q(2) r(2) by (auto split: if_splits)
  qed
  then have rest: "place_rows grp who seat move g (Suc n) ks t =
      Inr (rewrite (\<lambda>r. grp r = g \<and> who r \<in> set ks) (\<lambda>r. move (int (Suc n + index_in ks (who r))) r) t)
    \<and> seats_ok grp who seat (rewrite (\<lambda>r. grp r = g \<and> who r \<in> set ks) (\<lambda>r. move (int (Suc n + index_in ks (who r))) r) t)"
    using Cons.IH[OF one(2), of "Suc n"] Cons.prems(2) by simp
  have "rewrite (\<lambda>r. grp r = g \<and> who r \<in> set ks) (\<lambda>r. move (int (Suc n + index_in ks (who r))) r) t
      = rewrite (\<lambda>r. grp r = g \<and> who r \<in> set (k # ks)) (\<lambda>r. move (int (n + index_in (k # ks) (who r))) r) rows"
    using Cons.prems(2) by (auto simp: t_def rewrite_def add.left_commute)
  then show ?case using one(1) rest by simp
qed

lemma renumber_ok:
  assumes ok: "seats_ok grp who seat rows"
    and below: "\<And>r. r \<in> set rows \<Longrightarrow> grp r = g \<Longrightarrow> seat r < offset"
    and ks: "distinct ks" "set ks = who ` {r \<in> set rows. grp r = g}"
  shows "renumber grp who seat move g offset ks rows = Inr (numbered grp who move g ks rows)
    \<and> seats_ok grp who seat (numbered grp who move g ks rows)"
proof -
  let ?G = "{r \<in> set rows. grp r = g}"
  define t where "t = rewrite (\<lambda>r. grp r = g) (\<lambda>r. move (seat r + offset) r) rows"
  have shifted: "shift_rows grp seat move g offset rows = Inr t" "seats_ok grp who seat t"
    using shift_ok[OF ok, of g offset] below by (simp_all add: t_def)
  have inj: "inj_on seat ?G" using seats_ok_unique[OF ok] by (auto intro!: inj_onI)
  have sub: "seat ` ?G \<subseteq> {0..<offset}" using below ok by (auto simp: seats_ok_def)
  have "length ks = card (who ` ?G)" using ks distinct_card by metis
  also have "\<dots> \<le> card ?G" by (simp add: card_image_le)
  also have "\<dots> = card (seat ` ?G)" using card_image[OF inj] by simp
  also have "\<dots> \<le> card {0..<offset}" by (rule card_mono[OF _ sub]) simp
  finally have len: "int (length ks) \<le> offset \<or> ?G = {}"
    using sub by (cases "0 \<le> offset") auto
  have "seat r < int 0 \<or> int (0 + length ks) \<le> seat r" if r: "r \<in> set t" "grp r = g" for r
  proof -
    obtain q where q: "q \<in> set rows" "r = (if grp q = g then move (seat q + offset) q else q)"
      using r(1) unfolding t_def set_rewrite by blast
    then have "grp q = g" using r(2) by (auto split: if_splits)
    then have "int (length ks) \<le> offset" "0 \<le> seat q" "seat r = seat q + offset"
      using len q ok by (auto simp: seats_ok_def)
    then show ?thesis by simp
  qed
  note placed = place_ok[OF shifted(2) ks(1), of g 0, OF this]
  have "rewrite (\<lambda>r. grp r = g \<and> who r \<in> set ks) (\<lambda>r. move (int (0 + index_in ks (who r))) r) t
      = numbered grp who move g ks rows"
    using ks(2) by (auto simp: t_def numbered_def rewrite_def)
  then show ?thesis using placed shifted(1) by (simp add: renumber_def)
qed

end

end
