(* ===== verification/Shelf_Tables.thy ===== *)
theory Shelf_Tables
  imports Positions Shelves
begin

section \<open>Curated shelves: tables and row operations\<close>

text \<open>
  \<open>librairii-storage/src/shelves.rs\<close> with the row operations of \<open>shelves/curation.rs\<close> and
  \<open>shelves/sources.rs\<close> on the tables of \<open>017_curated_shelves.sql\<close>. A table with an order is the list of its
  rows; the two tables that hold only keys are sets. The rest of the library a shelf operation reads
  (stories, archives, collections and what their saved queries match, one snapshot of the
  transaction) is the argument \<open>lib\<close>. \<open>names\<close> is \<open>collections::normalize_name\<close>.
\<close>

subsection \<open>Rows\<close>

record shelf_row =
  sr_id :: i64
  sr_name :: string
  sr_normalized :: string
  sr_position :: i64
  sr_revision :: i64

record member_row =
  mr_shelf :: i64
  mr_uuid :: string
  mr_position :: i64
  mr_protected :: bool
  mr_title :: string

record source_row =
  sc_id :: i64
  sc_shelf :: i64
  sc_collection :: "i64 option"
  sc_name :: string
  sc_active :: bool

record shelf_tables =
  tbl_shelves :: "shelf_row list"
  tbl_members :: "member_row list"
  tbl_sources :: "source_row list"
  tbl_origins :: "(i64 \<times> string \<times> i64) set"
  tbl_exclusions :: "(i64 \<times> string) set"

record story_summary =
  st_uuid :: string
  st_title :: string
  st_rest :: nat

text \<open>
  \<open>lv_catalog\<close>: the stories a query can return, in the default order. \<open>lv_saved\<close>: name and definition of
  a collection. \<open>lv_matches\<close>: what \<open>collections::source\<close> and its query give, \<open>None\<close> where the collection
  needs attention.
\<close>

record library_view =
  lv_catalog :: "story_summary list"
  lv_broken :: "string \<Rightarrow> bool"
  lv_archived :: "string \<Rightarrow> bool"
  lv_saved :: "i64 \<Rightarrow> (string \<times> nat) option"
  lv_matches :: "i64 \<Rightarrow> string list option"

definition shelf_refused :: "shelf_error \<Rightarrow> storage_error" where
  "shelf_refused e = Err_domain (shelf_error_code e)"

subsection \<open>Reading\<close>

definition members_of :: "i64 \<Rightarrow> shelf_tables \<Rightarrow> member_row list" where
  "members_of g t = filter (\<lambda>m. mr_shelf m = g) (tbl_members t)"

definition shelf_of_row :: "library_view \<Rightarrow> shelf_tables \<Rightarrow> shelf_row \<Rightarrow> shelf" where
  "shelf_of_row lib t r =
     (let ms = members_of (sr_id r) t in
      \<lparr>shelf_id = sr_id r, shelf_name = sr_name r, shelf_position = sr_position r, shelf_revision = sr_revision r,
       shelf_count = int (length ms),
       shelf_broken_count = int (hits (\<lambda>m. lv_broken lib (mr_uuid m)) ms),
       shelf_unavailable_count = int (hits (\<lambda>m. \<not> lv_archived lib (mr_uuid m)) ms),
       shelf_source_count = int (hits (\<lambda>c. sc_shelf c = sr_id r \<and> sc_active c) (tbl_sources t))\<rparr>)"

definition read_shelf :: "library_view \<Rightarrow> i64 \<Rightarrow> shelf_tables \<Rightarrow> storage_error + shelf" where
  "read_shelf lib g t =
     (case row_at sr_id g (tbl_shelves t) of
        None \<Rightarrow> Inl (shelf_refused NotFound)
      | Some r \<Rightarrow> Inr (shelf_of_row lib t r))"

definition list_shelves :: "library_view \<Rightarrow> shelf_tables \<Rightarrow> shelf list" where
  "list_shelves lib t = map (shelf_of_row lib t) (sort_key (\<lambda>r. (sr_position r, sr_id r)) (tbl_shelves t))"

definition plain_source :: "source_row \<Rightarrow> shelf_source" where
  "plain_source c = \<lparr>source_id = sc_id c, source_collection = sc_collection c, source_name = sc_name c, source_active = sc_active c\<rparr>"

definition current_name :: "library_view \<Rightarrow> source_row \<Rightarrow> string" where
  "current_name lib c =
     (if sc_active c then
        (case Option.bind (sc_collection c) (lv_saved lib) of Some (n, _) \<Rightarrow> n | None \<Rightarrow> sc_name c)
      else sc_name c)"

definition shelf_sources :: "library_view \<Rightarrow> i64 \<Rightarrow> bool \<Rightarrow> shelf_tables \<Rightarrow> shelf_source list" where
  "shelf_sources lib g active_only t =
     map (\<lambda>c. (plain_source c)\<lparr>source_name := current_name lib c\<rparr>)
       (sort_key sc_id (filter (\<lambda>c. sc_shelf c = g \<and> (active_only \<longrightarrow> sc_active c)) (tbl_sources t)))"

definition member_of_row :: "shelf_tables \<Rightarrow> member_row \<Rightarrow> shelf_member" where
  "member_of_row t m =
     \<lparr>member_uuid = mr_uuid m, member_position = mr_position m, member_retained = mr_protected m,
      member_cached_title = mr_title m,
      member_origins = map plain_source (sort_key sc_id (filter (\<lambda>c. sc_shelf c = mr_shelf m
        \<and> (mr_shelf m, mr_uuid m, sc_id c) \<in> tbl_origins t) (tbl_sources t)))\<rparr>"

definition shelf_members :: "library_view \<Rightarrow> i64 \<Rightarrow> shelf_tables \<Rightarrow> storage_error + shelf_member list" where
  "shelf_members lib g t =
     and_then (read_shelf lib g t) (\<lambda>_.
       Inr (map (member_of_row t) (sort_key (\<lambda>m. (mr_position m, mr_uuid m)) (members_of g t))))"

definition exclusions_of :: "i64 \<Rightarrow> shelf_tables \<Rightarrow> string list" where
  "exclusions_of g t = sorted_list_of_set (snd ` {x \<in> tbl_exclusions t. fst x = g})"

definition stories_of :: "library_view \<Rightarrow> string list \<Rightarrow> story_summary list" where
  "stories_of lib uuids = filter (\<lambda>s. st_uuid s \<in> set uuids) (lv_catalog lib)"

subsection \<open>Row operations\<close>

text \<open>\<open>COALESCE(MAX(position),-1)+1\<close>, and the next \<open>INTEGER PRIMARY KEY\<close>: one more than the largest.\<close>

definition next_after :: "i64 \<Rightarrow> i64 list \<Rightarrow> i64" where
  "next_after floor ns = foldr max ns floor + 1"

definition add_member :: "i64 \<Rightarrow> string \<Rightarrow> string \<Rightarrow> bool \<Rightarrow> shelf_tables \<Rightarrow> bool \<times> shelf_tables" where
  "add_member g uuid title manual t =
     (let (inserted, ms) =
        (if \<not> list_ex (\<lambda>m. mr_shelf m = g \<and> mr_uuid m = uuid) (tbl_members t)
         then (True, tbl_members t @ [\<lparr>mr_shelf = g, mr_uuid = uuid,
           mr_position = next_after (- 1) (map mr_position (members_of g t)), mr_protected = manual, mr_title = title\<rparr>])
         else if manual
         then (0 < hits (\<lambda>m. mr_shelf m = g \<and> mr_uuid m = uuid \<and> \<not> mr_protected m) (tbl_members t),
               rewrite (\<lambda>m. mr_shelf m = g \<and> mr_uuid m = uuid \<and> \<not> mr_protected m) (\<lambda>m. m\<lparr>mr_protected := True\<rparr>) (tbl_members t))
         else (False, tbl_members t))
      in (inserted \<or> (g, uuid) \<in> tbl_exclusions t,
          t\<lparr>tbl_members := ms, tbl_exclusions := tbl_exclusions t - {(g, uuid)}\<rparr>))"

definition exclude_story :: "i64 \<Rightarrow> string \<Rightarrow> shelf_tables \<Rightarrow> bool \<times> shelf_tables" where
  "exclude_story g uuid t = ((g, uuid) \<notin> tbl_exclusions t, t\<lparr>tbl_exclusions := insert (g, uuid) (tbl_exclusions t)\<rparr>)"

definition clear_exclusion :: "i64 \<Rightarrow> string \<Rightarrow> shelf_tables \<Rightarrow> bool \<times> shelf_tables" where
  "clear_exclusion g uuid t = ((g, uuid) \<in> tbl_exclusions t, t\<lparr>tbl_exclusions := tbl_exclusions t - {(g, uuid)}\<rparr>)"

text \<open>Deleting a member takes its origins with it (\<open>ON DELETE CASCADE\<close>).\<close>

definition remove_member :: "i64 \<Rightarrow> string \<Rightarrow> shelf_tables \<Rightarrow> bool \<times> shelf_tables" where
  "remove_member g uuid t =
     (list_ex (\<lambda>m. mr_shelf m = g \<and> mr_uuid m = uuid) (tbl_members t),
      t\<lparr>tbl_members := filter (\<lambda>m. \<not> (mr_shelf m = g \<and> mr_uuid m = uuid)) (tbl_members t),
        tbl_origins := {x \<in> tbl_origins t. \<not> (fst x = g \<and> fst (snd x) = uuid)}\<rparr>)"

definition protect_where :: "(member_row \<Rightarrow> bool) \<Rightarrow> shelf_tables \<Rightarrow> bool \<times> shelf_tables" where
  "protect_where p t =
     (0 < hits (\<lambda>m. p m \<and> \<not> mr_protected m) (tbl_members t),
      t\<lparr>tbl_members := rewrite (\<lambda>m. p m \<and> \<not> mr_protected m) (\<lambda>m. m\<lparr>mr_protected := True\<rparr>) (tbl_members t)\<rparr>)"

definition keep_member :: "i64 \<Rightarrow> string \<Rightarrow> shelf_tables \<Rightarrow> bool \<times> shelf_tables" where
  "keep_member g uuid t = protect_where (\<lambda>m. mr_shelf m = g \<and> mr_uuid m = uuid) t"

definition keep_all :: "i64 \<Rightarrow> shelf_tables \<Rightarrow> bool \<times> shelf_tables" where
  "keep_all g t = protect_where (\<lambda>m. mr_shelf m = g) t"

definition record_origin :: "i64 \<Rightarrow> string \<Rightarrow> i64 \<Rightarrow> shelf_tables \<Rightarrow> storage_error + bool \<times> shelf_tables" where
  "record_origin g uuid source t =
     (if (g, uuid, source) \<in> tbl_origins t then Inr (False, t)
      else if \<not> list_ex (\<lambda>m. mr_shelf m = g \<and> mr_uuid m = uuid) (tbl_members t)
           \<or> \<not> list_ex (\<lambda>c. sc_id c = source \<and> sc_shelf c = g) (tbl_sources t)
      then Inl Err_constraint
      else Inr (True, t\<lparr>tbl_origins := insert (g, uuid, source) (tbl_origins t)\<rparr>))"

fun record_origins :: "i64 \<Rightarrow> string \<Rightarrow> shelf_source list \<Rightarrow> shelf_tables \<Rightarrow> storage_error + bool \<times> shelf_tables" where
  "record_origins g uuid [] t = Inr (False, t)"
| "record_origins g uuid (c # cs) t =
     and_then (record_origin g uuid (source_id c) t) (\<lambda>(a, t).
     and_then (record_origins g uuid cs t) (\<lambda>(b, t). Inr (a \<or> b, t)))"

text \<open>\<open>potential\<close> and \<open>attach\<close>: the partial unique index makes an active link to the same collection a no-op.\<close>

definition potential_source :: "library_view \<Rightarrow> i64 \<Rightarrow> storage_error + shelf_source" where
  "potential_source lib k =
     (case lv_saved lib k of
        None \<Rightarrow> Inl Err_other
      | Some (n, _) \<Rightarrow> Inr \<lparr>source_id = 0, source_collection = Some k, source_name = n, source_active = True\<rparr>)"

definition potential_sources :: "library_view \<Rightarrow> i64 list \<Rightarrow> storage_error + shelf_source list" where
  "potential_sources lib ks = collect_results (potential_source lib) (first_occurrences {} ks)"

definition attach_one :: "i64 \<Rightarrow> shelf_source \<Rightarrow> shelf_tables \<Rightarrow> bool \<times> shelf_tables" where
  "attach_one g c t =
     (if list_ex (\<lambda>r. sc_shelf r = g \<and> sc_collection r = source_collection c \<and> sc_active r) (tbl_sources t) then (False, t)
      else (True, t\<lparr>tbl_sources := tbl_sources t @ [\<lparr>sc_id = next_after 0 (map sc_id (tbl_sources t)), sc_shelf = g,
        sc_collection = source_collection c, sc_name = source_name c, sc_active = True\<rparr>]\<rparr>))"

fun attach_each :: "i64 \<Rightarrow> shelf_source list \<Rightarrow> shelf_tables \<Rightarrow> bool \<times> shelf_tables" where
  "attach_each g [] t = (False, t)"
| "attach_each g (c # cs) t =
     (let (a, t) = attach_one g c t; (b, t) = attach_each g cs t in (a \<or> b, t))"

definition attach_sources :: "library_view \<Rightarrow> i64 \<Rightarrow> i64 list \<Rightarrow> shelf_tables \<Rightarrow> storage_error + bool \<times> shelf_tables" where
  "attach_sources lib g ks t = and_then (potential_sources lib ks) (\<lambda>cs. Inr (attach_each g cs t))"

definition detach_source :: "i64 \<Rightarrow> shelf_source \<Rightarrow> shelf_tables \<Rightarrow> bool \<times> shelf_tables" where
  "detach_source g c t =
     (let p = (\<lambda>r. sc_id r = source_id c \<and> sc_shelf r = g \<and> sc_active r) in
      (0 < hits p (tbl_sources t),
       t\<lparr>tbl_sources := rewrite p (\<lambda>r. r\<lparr>sc_active := False, sc_name := source_name c\<rparr>) (tbl_sources t)\<rparr>))"

definition bump :: "library_view \<Rightarrow> i64 \<Rightarrow> bool \<Rightarrow> shelf_tables \<Rightarrow> storage_error + shelf \<times> shelf_tables" where
  "bump lib g changed t =
     (let t = (if changed
        then t\<lparr>tbl_shelves := rewrite (\<lambda>r. sr_id r = g) (\<lambda>r. r\<lparr>sr_revision := sr_revision r + 1\<rparr>) (tbl_shelves t)\<rparr> else t)
      in and_then (read_shelf lib g t) (\<lambda>s. Inr (s, t)))"

text \<open>\<open>insert\<close>: the unique index on the normalized name ignores ASCII case.\<close>

definition name_key :: "string \<Rightarrow> string" where
  "name_key s = map ascii_lower s"

type_synonym name_rule = "string \<Rightarrow> shelf_error + string \<times> string"

definition insert_shelf :: "name_rule \<Rightarrow> library_view \<Rightarrow> string \<Rightarrow> shelf_tables \<Rightarrow> storage_error + shelf \<times> shelf_tables" where
  "insert_shelf names lib name t =
     and_then (map_err shelf_refused (names name)) (\<lambda>(n, k).
       if name_key k \<in> (name_key \<circ> sr_normalized) ` set (tbl_shelves t) then Inl (shelf_refused DuplicateName)
       else
         (let g = next_after 0 (map sr_id (tbl_shelves t));
              r = \<lparr>sr_id = g, sr_name = n, sr_normalized = k,
                   sr_position = next_after (- 1) (map sr_position (tbl_shelves t)), sr_revision = 1\<rparr>;
              t = t\<lparr>tbl_shelves := tbl_shelves t @ [r]\<rparr>
          in and_then (read_shelf lib g t) (\<lambda>s. Inr (s, t))))"

end
