(* ===== verification/Shelf_Commands.thy ===== *)
theory Shelf_Commands
  imports Shelf_Tables
begin

section \<open>Curated shelves: commands and curation\<close>

text \<open>
  \<open>execute\<close> of \<open>librairii-storage/src/shelves.rs\<close> and \<open>curate\<close> of \<open>shelves/curation.rs\<close>, as bodies of a
  transaction. Both reorderings are instances of \<open>Positions\<close>. The tickets a deletion withdraws are in
  \<open>Shelf_Tickets\<close>.
\<close>

subsection \<open>Commands on shelves\<close>

datatype shelf_command =
  Create_shelf string | Rename_shelf i64 string | Duplicate_shelf i64 string | Reorder_shelves "i64 list" | Delete_shelf i64

datatype shelf_response = One_shelf shelf | All_shelves "shelf list" | Shelf_deleted

text \<open>The offset of a reordering, with its checked additions: above all places in use.\<close>

definition checked_offset :: "i64 list \<Rightarrow> storage_error + i64" where
  "checked_offset places =
     and_then (ok_or (shelf_refused InvalidInput) (i64_checked_add (foldr max places (- 1)) 1)) (\<lambda>offset.
       if list_all (\<lambda>p. i64_checked_add p offset \<noteq> None) places then Inr offset
       else Inl (shelf_refused InvalidInput))"

definition move_shelf :: "i64 \<Rightarrow> shelf_row \<Rightarrow> shelf_row" where
  "move_shelf n r = r\<lparr>sr_position := n\<rparr>"

definition reorder_shelves :: "library_view \<Rightarrow> i64 list \<Rightarrow> shelf_tables \<Rightarrow> storage_error + shelf list \<times> shelf_tables" where
  "reorder_shelves lib ids t =
     (let current = list_shelves lib t; expected = set (map shelf_id current) in
      if length ids \<noteq> card expected \<or> set ids \<noteq> expected then Inl (shelf_refused InvalidInput)
      else and_then (checked_offset (map shelf_position current)) (\<lambda>offset.
        and_then (renumber whole_table sr_id sr_position move_shelf True offset ids (tbl_shelves t)) (\<lambda>rows.
          let t = t\<lparr>tbl_shelves := rows\<rparr> in Inr (list_shelves lib t, t))))"

definition rename_shelf :: "name_rule \<Rightarrow> library_view \<Rightarrow> i64 \<Rightarrow> string \<Rightarrow> shelf_tables \<Rightarrow> storage_error + shelf \<times> shelf_tables" where
  "rename_shelf names lib g name t =
     and_then (read_shelf lib g t) (\<lambda>_.
     and_then (map_err shelf_refused (names name)) (\<lambda>(n, k).
       let p = (\<lambda>r. sr_id r = g \<and> sr_name r \<noteq> n) in
       if 0 < hits p (tbl_shelves t) \<and> name_key k \<in> (name_key \<circ> sr_normalized) ` {r \<in> set (tbl_shelves t). sr_id r \<noteq> g}
       then Inl (shelf_refused DuplicateName)
       else bump lib g (0 < hits p (tbl_shelves t))
         (t\<lparr>tbl_shelves := rewrite p (\<lambda>r. r\<lparr>sr_name := n, sr_normalized := k\<rparr>) (tbl_shelves t)\<rparr>)))"

text \<open>Deleting a shelf takes its members, origins, sources and exclusions with it.\<close>

definition delete_shelf :: "i64 \<Rightarrow> shelf_tables \<Rightarrow> shelf_tables" where
  "delete_shelf g t =
     \<lparr>tbl_shelves = filter (\<lambda>r. sr_id r \<noteq> g) (tbl_shelves t),
      tbl_members = filter (\<lambda>m. mr_shelf m \<noteq> g) (tbl_members t),
      tbl_sources = filter (\<lambda>c. sc_shelf c \<noteq> g) (tbl_sources t),
      tbl_origins = {x \<in> tbl_origins t. fst x \<noteq> g},
      tbl_exclusions = {x \<in> tbl_exclusions t. fst x \<noteq> g}\<rparr>"

text \<open>The copy of one source link and of the origins that name it.\<close>

definition copy_source :: "i64 \<Rightarrow> i64 \<Rightarrow> i64 \<Rightarrow> shelf_tables \<Rightarrow> shelf_tables" where
  "copy_source g copy source t =
     (case row_at sc_id source (tbl_sources t) of
        None \<Rightarrow> t
      | Some c \<Rightarrow>
          (let k = next_after 0 (map sc_id (tbl_sources t)) in
           t\<lparr>tbl_sources := tbl_sources t @ [c\<lparr>sc_id := k, sc_shelf := copy\<rparr>],
             tbl_origins := tbl_origins t \<union> (\<lambda>x. (copy, fst (snd x), k)) ` {x \<in> tbl_origins t. fst x = g \<and> snd (snd x) = source}\<rparr>))"

definition duplicate_shelf :: "name_rule \<Rightarrow> library_view \<Rightarrow> i64 \<Rightarrow> string \<Rightarrow> shelf_tables \<Rightarrow> storage_error + shelf \<times> shelf_tables" where
  "duplicate_shelf names lib g name t =
     and_then (read_shelf lib g t) (\<lambda>_.
     and_then (insert_shelf names lib name t) (\<lambda>(copy, t).
       let n = shelf_id copy;
           t = t\<lparr>tbl_members := tbl_members t @ map (\<lambda>m. m\<lparr>mr_shelf := n\<rparr>) (members_of g t),
                 tbl_exclusions := tbl_exclusions t \<union> (\<lambda>x. (n, snd x)) ` {x \<in> tbl_exclusions t. fst x = g}\<rparr>;
           t = foldl (\<lambda>t c. copy_source g n (source_id c) t) t (shelf_sources lib g False t)
       in and_then (read_shelf lib n t) (\<lambda>s. Inr (s, t))))"

definition execute_shelves :: "name_rule \<Rightarrow> library_view \<Rightarrow> shelf_command \<Rightarrow> shelf_tables \<Rightarrow> storage_error + shelf_response \<times> shelf_tables" where
  "execute_shelves names lib c t =
     (case c of
        Create_shelf name \<Rightarrow> and_then (insert_shelf names lib name t) (\<lambda>(s, t). Inr (One_shelf s, t))
      | Rename_shelf g name \<Rightarrow> and_then (rename_shelf names lib g name t) (\<lambda>(s, t). Inr (One_shelf s, t))
      | Delete_shelf g \<Rightarrow> and_then (read_shelf lib g t) (\<lambda>_. Inr (Shelf_deleted, delete_shelf g t))
      | Reorder_shelves ids \<Rightarrow> and_then (reorder_shelves lib ids t) (\<lambda>(all, t). Inr (All_shelves all, t))
      | Duplicate_shelf g name \<Rightarrow> and_then (duplicate_shelf names lib g name t) (\<lambda>(s, t). Inr (One_shelf s, t)))"

subsection \<open>Curation of one shelf\<close>

datatype curation =
  Add_stories "string list" | Remove_stories "string list" | Remove_and_exclude "string list"
  | Exclude_stories "string list" | Clear_exclusion string | Reorder_stories "string list"

definition move_member :: "i64 \<Rightarrow> member_row \<Rightarrow> member_row" where
  "move_member n m = m\<lparr>mr_position := n\<rparr>"

text \<open>A loop of row operations, whether any of them changed something.\<close>

fun each_row :: "('a \<Rightarrow> shelf_tables \<Rightarrow> bool \<times> shelf_tables) \<Rightarrow> 'a list \<Rightarrow> shelf_tables \<Rightarrow> bool \<times> shelf_tables" where
  "each_row f [] t = (False, t)"
| "each_row f (x # xs) t = (let (a, t) = f x t; (b, t) = each_row f xs t in (a \<or> b, t))"

definition discard_story :: "i64 \<Rightarrow> bool \<Rightarrow> bool \<Rightarrow> string \<Rightarrow> shelf_tables \<Rightarrow> bool \<times> shelf_tables" where
  "discard_story g excluding removing uuid t =
     (let (a, t) = (if removing then remove_member g uuid t else (False, t));
          (b, t) = (if excluding then exclude_story g uuid t else (False, t))
      in (a \<or> b, t))"

definition curate_discard ::
    "library_view \<Rightarrow> i64 \<Rightarrow> bool \<Rightarrow> bool \<Rightarrow> string list \<Rightarrow> shelf_tables \<Rightarrow> storage_error + bool \<times> shelf_tables" where
  "curate_discard lib g excluding removing values t =
     (let ids = first_occurrences {} values in
      and_then (if removing then and_then (shelf_members lib g t) (\<lambda>ms. Inr (member_uuid ` set ms \<union> set (exclusions_of g t)))
                else Inr (set ids)) (\<lambda>known.
        if \<not> set ids \<subseteq> known then Inl (shelf_refused NotFound)
        else Inr (each_row (discard_story g excluding removing) ids t)))"

text \<open>\<open>titles\<close>: the last title of each story found.\<close>

definition titles_of :: "library_view \<Rightarrow> string list \<Rightarrow> string \<Rightarrow> string option" where
  "titles_of lib ids = map_of (rev (map (\<lambda>s. (st_uuid s, st_title s)) (stories_of lib ids)))"

definition add_found :: "library_view \<Rightarrow> i64 \<Rightarrow> string list \<Rightarrow> shelf_tables \<Rightarrow> storage_error + bool \<times> shelf_tables" where
  "add_found lib g ids t =
     (if card (st_uuid ` set (stories_of lib ids)) \<noteq> length ids then Inl (shelf_refused NotFound)
      else Inr (each_row (\<lambda>u. add_member g u (case titles_of lib ids u of Some n \<Rightarrow> n | None \<Rightarrow> []) True) ids t))"

definition curate_reorder :: "library_view \<Rightarrow> i64 \<Rightarrow> string list \<Rightarrow> shelf_tables \<Rightarrow> storage_error + bool \<times> shelf_tables" where
  "curate_reorder lib g values t =
     (let ids = first_occurrences {} values in
      and_then (shelf_members lib g t) (\<lambda>current.
        let old = map member_uuid current in
        if length ids \<noteq> length values \<or> set ids \<noteq> set old then Inl (shelf_refused InvalidInput)
        else if ids = old then Inr (False, t)
        else and_then (checked_offset (map member_position current)) (\<lambda>offset.
          and_then (renumber mr_shelf mr_uuid mr_position move_member g offset ids (tbl_members t)) (\<lambda>rows.
            Inr (True, t\<lparr>tbl_members := rows\<rparr>)))))"

definition curate :: "library_view \<Rightarrow> i64 \<Rightarrow> curation \<Rightarrow> shelf_tables \<Rightarrow> storage_error + shelf \<times> shelf_tables" where
  "curate lib g action t =
     and_then (read_shelf lib g t) (\<lambda>_.
     and_then
       (case action of
          Remove_stories v \<Rightarrow> curate_discard lib g False True v t
        | Remove_and_exclude v \<Rightarrow> curate_discard lib g True True v t
        | Exclude_stories v \<Rightarrow> curate_discard lib g True False v t
        | Add_stories v \<Rightarrow> add_found lib g (first_occurrences {} v) t
        | Clear_exclusion u \<Rightarrow> Inr (clear_exclusion g u t)
        | Reorder_stories v \<Rightarrow> curate_reorder lib g v t)
       (\<lambda>(changed, t). bump lib g changed t))"

text \<open>\<open>add_shelf_stories_guarded\<close>: the same addition for stories named by row and identity.\<close>

definition add_guarded ::
    "(string \<Rightarrow> string option) \<Rightarrow> (i64 \<times> string \<Rightarrow> bool) \<Rightarrow> library_view \<Rightarrow> i64 \<Rightarrow> (i64 \<times> string) list \<Rightarrow> shelf_tables
      \<Rightarrow> storage_error + shelf \<times> shelf_tables" where
  "add_guarded canonical present lib g targets t =
     (if targets = [] \<or> 1000 < length targets \<or> \<not> list_all (\<lambda>s. 0 < fst s \<and> present s) targets then Inl Err_snapshot_changed
      else
        and_then (read_shelf lib g t) (\<lambda>_.
          let ids = first_occurrences {} (map snd targets) in
          and_then (collect_results (\<lambda>u. map_err shelf_refused (from_stored canonical u)) ids) (\<lambda>_.
          and_then (add_found lib g ids t) (\<lambda>(changed, t). bump lib g changed t))))"

end
