(* ===== verification/Shelf_Review.thy ===== *)
theory Shelf_Review
  imports Shelf_Commands
begin

section \<open>Curated shelves: reviewed changes\<close>

text \<open>
  \<open>shelves/sources.rs\<close>, \<open>review.rs\<close>, \<open>source_change.rs\<close> and \<open>deletion.rs\<close>: what the sources of a shelf
  match now, the candidates a review shows, and the transactions that apply the decisions. A plan
  keeps a digest of everything the review showed; SHA-256 of the debug text of that evidence is the
  argument \<open>digest\<close>, on the evidence itself. The claim of the ticket comes first in each transaction
  and is the subject of \<open>Shelf_Tickets\<close>; the bodies here start after it.
\<close>

subsection \<open>What the sources match\<close>

record source_state =
  ss_source :: shelf_source
  ss_definition :: "(string \<times> nat) option"
  ss_matches :: "string list"
  ss_warning :: bool

record source_evaluation =
  se_sources :: "source_state list"
  se_incomplete :: bool

definition evaluate_source :: "library_view \<Rightarrow> shelf_source \<Rightarrow> storage_error + source_state" where
  "evaluate_source lib c =
     (case source_collection c of
        None \<Rightarrow> Inl (shelf_refused InvalidInput)
      | Some k \<Rightarrow> Inr \<lparr>ss_source = c, ss_definition = lv_saved lib k,
          ss_matches = (case lv_matches lib k of Some us \<Rightarrow> us | None \<Rightarrow> []), ss_warning = (lv_matches lib k = None)\<rparr>)"

definition evaluate_sources :: "library_view \<Rightarrow> shelf_source list \<Rightarrow> storage_error + source_evaluation" where
  "evaluate_sources lib cs =
     and_then (collect_results (evaluate_source lib) cs) (\<lambda>states.
       Inr \<lparr>se_sources = states, se_incomplete = list_ex ss_warning states\<rparr>)"

text \<open>The entry of the map \<open>matching\<close>: the sources that list the story, \<open>[]\<close> for no entry.\<close>

definition matching_of :: "source_evaluation \<Rightarrow> string \<Rightarrow> shelf_source list" where
  "matching_of e uuid =
     concat (map (\<lambda>s. map (\<lambda>_. ss_source s) (filter (\<lambda>u. u = uuid) (ss_matches s))) (se_sources e))"

definition matched_uuids :: "source_evaluation \<Rightarrow> string list" where
  "matched_uuids e = remdups_adj (sort (concat (map ss_matches (se_sources e))))"

subsection \<open>Candidates and evidence\<close>

record candidate =
  cd_uuid :: string
  cd_title :: string
  cd_story :: "story_summary option"
  cd_sources :: "shelf_source list"
  cd_origins :: "shelf_source list"
  cd_manual :: bool
  cd_reason :: string

datatype review_warning = Source_warning shelf_source | Story_unavailable string

type_synonym heading = "string \<times> string \<times> bool \<times> shelf_source list \<times> shelf_source list"

definition heading_of :: "candidate \<Rightarrow> heading" where
  "heading_of c = (cd_uuid c, cd_title c, cd_manual c, cd_sources c, cd_origins c)"

datatype 'd evidence =
  Creation_evidence string string "string list" source_evaluation "heading list"
| Update_evidence shelf "shelf_member list" "string list" source_evaluation "(string \<times> string) list" "heading list" "heading list"
| Change_evidence 'd 'd "i64 list" "(string \<times> string \<times> shelf_source list \<times> bool) list"
| Deletion_evidence "i64 \<times> string \<times> nat" "'d list"

definition source_warnings :: "source_evaluation \<Rightarrow> review_warning list" where
  "source_warnings e = map (\<lambda>s. Source_warning (ss_source s)) (filter ss_warning (se_sources e))"

subsection \<open>Creating a shelf from a review\<close>

record creation_preview =
  cp_name :: string
  cp_candidates :: "candidate list"
  cp_warnings :: "review_warning list"
  cp_incomplete :: bool

definition initial_candidate :: "source_evaluation \<Rightarrow> bool \<Rightarrow> story_summary \<Rightarrow> candidate" where
  "initial_candidate e manual s =
     \<lparr>cd_uuid = st_uuid s, cd_title = st_title s, cd_story = Some s, cd_sources = matching_of e (st_uuid s),
      cd_origins = [], cd_manual = manual, cd_reason = ''initial_membership''\<rparr>"

text \<open>\<open>by_uuid\<close> holds the last story of each identity; each is taken out once.\<close>

definition story_with :: "story_summary list \<Rightarrow> string \<Rightarrow> story_summary option" where
  "story_with ss uuid = find (\<lambda>s. st_uuid s = uuid) (rev ss)"

fun first_stories :: "string set \<Rightarrow> story_summary list \<Rightarrow> story_summary list" where
  "first_stories taken [] = []"
| "first_stories taken (s # ss) =
     (if st_uuid s \<in> taken then first_stories taken ss else s # first_stories (insert (st_uuid s) taken) ss)"

definition creation ::
    "('d evidence \<Rightarrow> 'd) \<Rightarrow> name_rule \<Rightarrow> library_view \<Rightarrow> string \<Rightarrow> i64 list \<Rightarrow> string list \<Rightarrow> storage_error + creation_preview \<times> 'd" where
  "creation digest names lib name ks manual =
     and_then (map_err shelf_refused (names name)) (\<lambda>(n, k).
     and_then (potential_sources lib ks) (\<lambda>cs.
     and_then (evaluate_sources lib cs) (\<lambda>e.
       let ordered = stories_of lib (manual @ matched_uuids e) in
       if \<not> list_all (\<lambda>u. story_with ordered u \<noteq> None) manual then Inl (shelf_refused NotFound)
       else
         (let cands = map (initial_candidate e True) (List.map_filter (story_with ordered) (first_occurrences {} manual))
                @ map (initial_candidate e False) (first_stories (set manual) ordered)
          in Inr (\<lparr>cp_name = n, cp_candidates = cands, cp_warnings = source_warnings e, cp_incomplete = se_incomplete e\<rparr>,
                  digest (Creation_evidence n k manual e (map heading_of cands)))))))"

text \<open>One candidate that was selected: the member, and the attached sources that match it as its origins.\<close>

definition accept_candidate :: "i64 \<Rightarrow> shelf_source list \<Rightarrow> string set \<Rightarrow> candidate \<Rightarrow> shelf_tables \<Rightarrow> storage_error + shelf_tables" where
  "accept_candidate g attached selected c t =
     (if cd_uuid c \<notin> selected then Inr t
      else
        (let t = snd (add_member g (cd_uuid c) (cd_title c) (cd_manual c) t);
             accepted = filter (\<lambda>s. \<exists>p \<in> set (cd_sources c). source_collection p = source_collection s) attached
         in and_then (record_origins g (cd_uuid c) accepted t) (\<lambda>(_, t). Inr t)))"

fun accept_all :: "i64 \<Rightarrow> shelf_source list \<Rightarrow> string set \<Rightarrow> candidate list \<Rightarrow> shelf_tables \<Rightarrow> storage_error + shelf_tables" where
  "accept_all g attached selected [] t = Inr t"
| "accept_all g attached selected (c # cs) t =
     and_then (accept_candidate g attached selected c t) (accept_all g attached selected cs)"

definition create_reviewed ::
    "('d evidence \<Rightarrow> 'd) \<Rightarrow> name_rule \<Rightarrow> library_view \<Rightarrow> string \<Rightarrow> i64 list \<Rightarrow> string list \<Rightarrow> 'd \<Rightarrow> string list \<Rightarrow> shelf_tables
      \<Rightarrow> storage_error + shelf \<times> shelf_tables" where
  "create_reviewed digest names lib name ks manual seen selected t =
     and_then (creation digest names lib name ks manual) (\<lambda>(fresh, now).
       if now \<noteq> seen then Inl (shelf_refused StaleReview)
       else if \<not> set selected \<subseteq> cd_uuid ` set (cp_candidates fresh) then Inl (shelf_refused InvalidInput)
       else
         and_then (insert_shelf names lib (cp_name fresh) t) (\<lambda>(s, t).
         and_then (attach_sources lib (shelf_id s) ks t) (\<lambda>(_, t).
         and_then (accept_all (shelf_id s) (shelf_sources lib (shelf_id s) True t) (set selected) (cp_candidates fresh) t) (\<lambda>t.
         and_then (read_shelf lib (shelf_id s) t) (\<lambda>s. Inr (s, t))))))"

subsection \<open>Reviewing a shelf against its sources\<close>

datatype review_action = Act_add | Act_exclude | Act_keep | Act_remove_and_exclude | Act_not_now

type_synonym decision = "string \<times> review_action"

record update_preview =
  up_shelf :: shelf
  up_exclusion_count :: nat
  up_source_count :: nat
  up_additions :: "candidate list"
  up_removals :: "candidate list"
  up_warnings :: "review_warning list"
  up_incomplete :: bool
  up_to_date :: bool

definition addition_of :: "source_evaluation \<Rightarrow> story_summary \<Rightarrow> candidate" where
  "addition_of e s =
     \<lparr>cd_uuid = st_uuid s, cd_title = st_title s, cd_story = Some s, cd_sources = matching_of e (st_uuid s),
      cd_origins = [], cd_manual = False, cd_reason = ''source_match''\<rparr>"

definition removal_of :: "shelf_member \<Rightarrow> story_summary \<Rightarrow> candidate" where
  "removal_of m s =
     \<lparr>cd_uuid = member_uuid m, cd_title = st_title s, cd_story = Some s, cd_sources = [],
      cd_origins = member_origins m, cd_manual = False, cd_reason = ''no_source_matches''\<rparr>"

definition removals_of :: "source_evaluation \<Rightarrow> story_summary list \<Rightarrow> shelf_member list \<Rightarrow> candidate list" where
  "removals_of e ss ms =
     List.map_filter (\<lambda>m. case story_with ss (member_uuid m) of
         None \<Rightarrow> None
       | Some s \<Rightarrow>
           if \<not> se_incomplete e \<and> se_sources e \<noteq> [] \<and> \<not> member_retained m \<and> matching_of e (member_uuid m) = []
           then Some (removal_of m s) else None) ms"

definition review_evaluation ::
    "('d evidence \<Rightarrow> 'd) \<Rightarrow> library_view \<Rightarrow> i64 \<Rightarrow> shelf_source list option \<Rightarrow> shelf_tables \<Rightarrow> storage_error + update_preview \<times> 'd" where
  "review_evaluation digest lib g override t =
     and_then (read_shelf lib g t) (\<lambda>s.
     and_then (shelf_members lib g t) (\<lambda>ms.
     and_then (evaluate_sources lib (case override of Some cs \<Rightarrow> cs | None \<Rightarrow> shelf_sources lib g True t)) (\<lambda>e.
       let excluded = exclusions_of g t;
           ss = stories_of lib (map member_uuid ms @ matched_uuids e);
           additions = map (addition_of e) (filter (\<lambda>x. st_uuid x \<notin> member_uuid ` set ms \<and> st_uuid x \<notin> set excluded
             \<and> matching_of e (st_uuid x) \<noteq> []) ss);
           removals = removals_of e ss ms;
           warnings = source_warnings e @ map Story_unavailable
             (filter (\<lambda>u. story_with ss u = None) (map member_uuid ms));
           available = map (\<lambda>u. (u, case story_with ss u of Some x \<Rightarrow> st_title x | None \<Rightarrow> []))
             (remdups_adj (sort (map st_uuid ss)))
       in Inr (\<lparr>up_shelf = s, up_exclusion_count = length excluded, up_source_count = length (se_sources e),
                up_additions = additions, up_removals = removals, up_warnings = warnings, up_incomplete = se_incomplete e,
                up_to_date = (\<not> se_incomplete e \<and> additions = [] \<and> removals = [])\<rparr>,
               digest (Update_evidence (s\<lparr>shelf_broken_count := 0\<rparr>) ms excluded e available
                 (map heading_of additions) (map heading_of removals))))))"

text \<open>\<open>actions\<close>: one decision per candidate, of a kind its list allows.\<close>

definition allowed_action :: "update_preview \<Rightarrow> decision \<Rightarrow> bool" where
  "allowed_action p d =
     (if fst d \<in> cd_uuid ` set (up_additions p) then snd d \<in> {Act_add, Act_exclude, Act_not_now}
      else if fst d \<in> cd_uuid ` set (up_removals p) then snd d \<in> {Act_keep, Act_remove_and_exclude, Act_not_now}
      else False)"

definition review_actions :: "update_preview \<Rightarrow> decision list \<Rightarrow> storage_error + (string \<Rightarrow> review_action option)" where
  "review_actions p ds =
     (if rejects_repeat (\<lambda>d. \<not> allowed_action p d) fst {} ds then Inl (shelf_refused InvalidInput)
      else Inr (map_of ds))"

definition apply_action :: "i64 \<Rightarrow> (string \<Rightarrow> review_action option) \<Rightarrow> candidate \<Rightarrow> shelf_tables \<Rightarrow> storage_error + bool \<times> shelf_tables" where
  "apply_action g acts c t =
     (case acts (cd_uuid c) of
        Some Act_add \<Rightarrow>
          (let (a, t) = add_member g (cd_uuid c) (cd_title c) False t in
           and_then (record_origins g (cd_uuid c) (cd_sources c) t) (\<lambda>(b, t). Inr (a \<or> b, t)))
      | Some Act_exclude \<Rightarrow> Inr (exclude_story g (cd_uuid c) t)
      | Some Act_keep \<Rightarrow> Inr (keep_member g (cd_uuid c) t)
      | Some Act_remove_and_exclude \<Rightarrow> Inr (discard_story g True True (cd_uuid c) t)
      | _ \<Rightarrow> Inr (False, t))"

fun apply_actions :: "i64 \<Rightarrow> (string \<Rightarrow> review_action option) \<Rightarrow> candidate list \<Rightarrow> shelf_tables \<Rightarrow> storage_error + bool \<times> shelf_tables" where
  "apply_actions g acts [] t = Inr (False, t)"
| "apply_actions g acts (c # cs) t =
     and_then (apply_action g acts c t) (\<lambda>(a, t).
     and_then (apply_actions g acts cs t) (\<lambda>(b, t). Inr (a \<or> b, t)))"

definition apply_updates ::
    "('d evidence \<Rightarrow> 'd) \<Rightarrow> library_view \<Rightarrow> i64 \<Rightarrow> 'd \<Rightarrow> decision list \<Rightarrow> shelf_tables \<Rightarrow> storage_error + shelf \<times> shelf_tables" where
  "apply_updates digest lib g seen ds t =
     and_then (review_evaluation digest lib g None t) (\<lambda>(fresh, now).
       if now \<noteq> seen then Inl (shelf_refused StaleReview)
       else
         and_then (review_actions fresh ds) (\<lambda>acts.
         and_then (apply_actions g acts (up_additions fresh @ up_removals fresh) t) (\<lambda>(changed, t).
         bump lib g changed t)))"

end
