(* ===== verification/Shelf_Changes.thy ===== *)
theory Shelf_Changes
  imports Shelf_Review
begin

section \<open>Curated shelves: changing and losing sources\<close>

text \<open>
  \<open>shelves/source_change.rs\<close> and \<open>shelves/deletion.rs\<close>: the sources of a shelf are replaced, or a
  collection that shelves use is deleted, and every member that loses its coverage is decided on.
\<close>

record change_preview =
  chg_shelf :: shelf
  chg_exclusion_count :: nat
  chg_sources :: "shelf_source list"
  chg_detached :: "shelf_source list"
  chg_affected :: "candidate list"
  chg_warnings :: "review_warning list"
  chg_incomplete :: bool

record 'd change_evaluation =
  ce_preview :: change_preview
  ce_desired :: "i64 list"
  ce_digest :: 'd

text \<open>A wanted collection that is a source already keeps its link.\<close>

definition keep_link :: "shelf_source list \<Rightarrow> shelf_source \<Rightarrow> shelf_source" where
  "keep_link current c =
     (case find (\<lambda>s. source_collection s = source_collection c) current of Some old \<Rightarrow> old | None \<Rightarrow> c)"

definition affected_of :: "source_evaluation \<Rightarrow> story_summary list \<Rightarrow> i64 list \<Rightarrow> shelf_member list \<Rightarrow> candidate list" where
  "affected_of e ss desired ms =
     map (\<lambda>m. \<lparr>cd_uuid = member_uuid m,
         cd_title = (case story_with ss (member_uuid m) of Some s \<Rightarrow> st_title s | None \<Rightarrow> member_cached_title m),
         cd_story = story_with ss (member_uuid m), cd_sources = [], cd_origins = member_origins m, cd_manual = False,
         cd_reason = (if desired = [] then ''last_source_detached'' else ''source_coverage_lost'')\<rparr>)
       (filter (\<lambda>m. \<not> (member_retained m \<or> matching_of e (member_uuid m) \<noteq> [])) ms)"

definition change_evaluate ::
    "('d evidence \<Rightarrow> 'd) \<Rightarrow> library_view \<Rightarrow> i64 \<Rightarrow> i64 list \<Rightarrow> shelf_tables \<Rightarrow> storage_error + 'd change_evaluation" where
  "change_evaluate digest lib g wanted_ids t =
     (let desired = first_occurrences {} wanted_ids in
      and_then (review_evaluation digest lib g None t) (\<lambda>(_, before).
      and_then (potential_sources lib desired) (\<lambda>potential.
        let current = shelf_sources lib g True t; wanted = map (keep_link current) potential in
        and_then (review_evaluation digest lib g (Some wanted) t) (\<lambda>(after, later).
        and_then (read_shelf lib g t) (\<lambda>s.
        and_then (evaluate_sources lib wanted) (\<lambda>e.
        and_then (shelf_members lib g t) (\<lambda>ms.
          let detached = filter (\<lambda>c. \<not> list_ex (\<lambda>k. source_collection c = Some k) desired) current;
              ss = stories_of lib (map member_uuid ms);
              affected = (if detached = [] then [] else affected_of e ss desired ms)
          in Inr \<lparr>ce_preview = \<lparr>chg_shelf = s, chg_exclusion_count = length (exclusions_of g t), chg_sources = wanted,
                    chg_detached = detached, chg_affected = affected, chg_warnings = up_warnings after,
                    chg_incomplete = up_incomplete after\<rparr>,
                  ce_desired = desired,
                  ce_digest = digest (Change_evidence before later desired
                    (map (\<lambda>c. (cd_uuid c, cd_title c, cd_origins c, cd_story c \<noteq> None)) affected))\<rparr>)))))))"

definition refused_decision :: "change_preview \<Rightarrow> decision \<Rightarrow> bool" where
  "refused_decision p d =
     (case find (\<lambda>c. cd_uuid c = fst d) (rev (chg_affected p)) of
        None \<Rightarrow> True
      | Some c \<Rightarrow>
          snd d \<noteq> Act_keep \<and> snd d \<noteq> Act_remove_and_exclude
          \<or> snd d = Act_remove_and_exclude \<and> (chg_incomplete p \<or> cd_story c = None))"

text \<open>\<open>validate\<close>: all kept, or exactly one decision for every affected member.\<close>

definition change_validate :: "change_preview \<Rightarrow> bool \<Rightarrow> decision list \<Rightarrow> storage_error + (string \<Rightarrow> review_action option)" where
  "change_validate p all ds =
     (if all then
        (if ds \<noteq> [] then Inl (shelf_refused InvalidInput)
         else Inr (map_of (map (\<lambda>c. (cd_uuid c, Act_keep)) (chg_affected p))))
      else if rejects_repeat (refused_decision p) fst {} ds then Inl (shelf_refused InvalidInput)
      else if length ds \<noteq> card (cd_uuid ` set (chg_affected p)) then Inl (shelf_refused InvalidInput)
      else Inr (map_of ds))"

fun settle_affected :: "i64 \<Rightarrow> (string \<Rightarrow> review_action option) \<Rightarrow> candidate list \<Rightarrow> shelf_tables \<Rightarrow> storage_error + bool \<times> shelf_tables" where
  "settle_affected g acts [] t = Inr (False, t)"
| "settle_affected g acts (c # cs) t =
     (case acts (cd_uuid c) of
        Some Act_keep \<Rightarrow>
          (let (a, t) = keep_member g (cd_uuid c) t in and_then (settle_affected g acts cs t) (\<lambda>(b, t). Inr (a \<or> b, t)))
      | Some Act_remove_and_exclude \<Rightarrow>
          (let (a, t) = discard_story g True True (cd_uuid c) t in
           and_then (settle_affected g acts cs t) (\<lambda>(b, t). Inr (a \<or> b, t)))
      | _ \<Rightarrow> Inl (shelf_refused InvalidInput))"

definition change_apply ::
    "library_view \<Rightarrow> 'd change_evaluation \<Rightarrow> (string \<Rightarrow> review_action option) \<Rightarrow> shelf_tables \<Rightarrow> storage_error + shelf \<times> shelf_tables" where
  "change_apply lib e acts t =
     (let g = shelf_id (chg_shelf (ce_preview e)) in
      and_then (attach_sources lib g (ce_desired e) t) (\<lambda>(a, t).
        let (b, t) = each_row (detach_source g) (chg_detached (ce_preview e)) t in
        and_then (settle_affected g acts (chg_affected (ce_preview e)) t) (\<lambda>(c, t).
          let (d, t) = (if ce_desired e = [] then keep_all g t else (False, t)) in
          bump lib g (a \<or> b \<or> c \<or> d) t)))"

definition change_sources ::
    "('d evidence \<Rightarrow> 'd) \<Rightarrow> library_view \<Rightarrow> i64 \<Rightarrow> i64 list \<Rightarrow> 'd \<Rightarrow> bool \<Rightarrow> decision list \<Rightarrow> shelf_tables
      \<Rightarrow> storage_error + shelf \<times> shelf_tables" where
  "change_sources digest lib g desired seen all ds t =
     and_then (change_evaluate digest lib g desired t) (\<lambda>fresh.
       if ce_digest fresh \<noteq> seen then Inl (shelf_refused StaleReview)
       else and_then (change_validate (ce_preview fresh) all ds) (\<lambda>acts. change_apply lib fresh acts t))"

text \<open>\<open>attach_shelf_sources\<close>, without a review.\<close>

definition attach_shelf_sources :: "library_view \<Rightarrow> i64 \<Rightarrow> i64 list \<Rightarrow> shelf_tables \<Rightarrow> storage_error + shelf \<times> shelf_tables" where
  "attach_shelf_sources lib g ks t =
     and_then (read_shelf lib g t) (\<lambda>_. and_then (attach_sources lib g ks t) (\<lambda>(changed, t). bump lib g changed t))"

subsection \<open>Deleting a collection that shelves use\<close>

definition shelves_using :: "i64 \<Rightarrow> shelf_tables \<Rightarrow> i64 list" where
  "shelves_using k t = remdups_adj (sort (map sc_shelf (filter (\<lambda>c. sc_collection c = Some k \<and> sc_active c) (tbl_sources t))))"

definition remaining_sources :: "library_view \<Rightarrow> i64 \<Rightarrow> i64 \<Rightarrow> shelf_tables \<Rightarrow> i64 list" where
  "remaining_sources lib k g t =
     List.map_filter (\<lambda>c. case source_collection c of Some j \<Rightarrow> if j \<noteq> k then Some j else None | None \<Rightarrow> None)
       (shelf_sources lib g True t)"

definition deletion_evaluate ::
    "('d evidence \<Rightarrow> 'd) \<Rightarrow> library_view \<Rightarrow> i64 \<Rightarrow> shelf_tables \<Rightarrow> storage_error + 'd change_evaluation list \<times> 'd" where
  "deletion_evaluate digest lib k t =
     (case lv_saved lib k of
        None \<Rightarrow> Inl Err_other
      | Some saved \<Rightarrow>
          and_then (collect_results (\<lambda>g. change_evaluate digest lib g (remaining_sources lib k g t) t) (shelves_using k t)) (\<lambda>es.
            Inr (es, digest (Deletion_evidence (k, saved) (map ce_digest es)))))"

definition decisions_for :: "(i64 \<times> decision list) list \<Rightarrow> 'd change_evaluation \<Rightarrow> decision list" where
  "decisions_for groups e =
     (case map_of groups (shelf_id (chg_shelf (ce_preview e))) of Some ds \<Rightarrow> ds | None \<Rightarrow> [])"

definition validate_each ::
    "bool \<Rightarrow> (i64 \<times> decision list) list \<Rightarrow> 'd change_evaluation list \<Rightarrow> storage_error + ('d change_evaluation \<times> (string \<Rightarrow> review_action option)) list" where
  "validate_each all groups es =
     collect_results (\<lambda>e. and_then (change_validate (ce_preview e) all (decisions_for groups e)) (\<lambda>acts. Inr (e, acts))) es"

fun apply_each ::
    "library_view \<Rightarrow> ('d change_evaluation \<times> (string \<Rightarrow> review_action option)) list \<Rightarrow> shelf_tables \<Rightarrow> storage_error + shelf_tables" where
  "apply_each lib [] t = Inr t"
| "apply_each lib ((e, acts) # es) t = and_then (change_apply lib e acts t) (\<lambda>(_, t). apply_each lib es t)"

text \<open>\<open>Command::Delete\<close> of \<open>collections.rs\<close> on the links: refused while one is active, the others are cut.\<close>

definition cut_links :: "i64 \<Rightarrow> shelf_tables \<Rightarrow> storage_error + shelf_tables" where
  "cut_links k t =
     (if list_ex (\<lambda>c. sc_collection c = Some k \<and> sc_active c) (tbl_sources t) then Inl (Err_domain ''collection.in_use'')
      else Inr (t\<lparr>tbl_sources := rewrite (\<lambda>c. sc_collection c = Some k \<and> \<not> sc_active c) (\<lambda>c. c\<lparr>sc_collection := None\<rparr>) (tbl_sources t)\<rparr>))"

definition delete_linked ::
    "('d evidence \<Rightarrow> 'd) \<Rightarrow> library_view \<Rightarrow> i64 \<Rightarrow> 'd \<Rightarrow> bool \<Rightarrow> (i64 \<times> decision list) list \<Rightarrow> shelf_tables \<Rightarrow> storage_error + unit \<times> shelf_tables" where
  "delete_linked digest lib k seen all groups t =
     and_then (deletion_evaluate digest lib k t) (\<lambda>(es, now).
       if now \<noteq> seen then Inl (shelf_refused StaleReview)
       else if all \<and> groups \<noteq> [] then Inl (shelf_refused InvalidInput)
       else if rejects_repeat (\<lambda>x. fst x \<notin> (\<lambda>e. shelf_id (chg_shelf (ce_preview e))) ` set es) fst {} groups
       then Inl (shelf_refused InvalidInput)
       else and_then (validate_each all groups es) (\<lambda>checked.
         and_then (apply_each lib checked t) (\<lambda>t. and_then (cut_links k t) (\<lambda>t. Inr ((), t)))))"

end
