(* ===== verification/Shelf_Safety.thy ===== *)
theory Shelf_Safety
  imports Shelf_Changes
begin

section \<open>Curated shelves: coherence and revisions\<close>

text \<open>
  What every operation on the shelf tables keeps, and what a revision promises: an operation that
  leaves the revision of a shelf as it was has changed nothing of its name, members, sources, origins
  or exclusions. A review that compares revisions rests on this.
\<close>

subsection \<open>Coherent tables\<close>

interpretation shelf_seats: numbered_row whole_table sr_id sr_position move_shelf
  by unfold_locales (simp_all add: move_shelf_def whole_table_def)

interpretation member_seats: numbered_row mr_shelf mr_uuid mr_position move_member
  by unfold_locales (simp_all add: move_member_def)

abbreviation shelf_ids :: "shelf_tables \<Rightarrow> i64 set" where
  "shelf_ids t \<equiv> sr_id ` set (tbl_shelves t)"

definition rows_ok :: "shelf_row list \<Rightarrow> bool" where
  "rows_ok rs \<longleftrightarrow>
     seats_ok whole_table sr_id sr_position rs \<and> distinct (map (name_key \<circ> sr_normalized) rs)
     \<and> (\<forall>r \<in> set rs. 0 < sr_id r \<and> 1 \<le> sr_revision r)"

definition members_ok :: "i64 set \<Rightarrow> member_row list \<Rightarrow> bool" where
  "members_ok gs ms \<longleftrightarrow> seats_ok mr_shelf mr_uuid mr_position ms \<and> mr_shelf ` set ms \<subseteq> gs"

definition links_ok :: "i64 set \<Rightarrow> source_row list \<Rightarrow> bool" where
  "links_ok gs cs \<longleftrightarrow>
     distinct (map sc_id cs) \<and> sc_shelf ` set cs \<subseteq> gs
     \<and> distinct (map (\<lambda>c. (sc_shelf c, sc_collection c)) (filter sc_active cs))
     \<and> (\<forall>c \<in> set cs. sc_active c \<longrightarrow> sc_collection c \<noteq> None)"

abbreviation member_keys :: "member_row list \<Rightarrow> (i64 \<times> string) list" where
  "member_keys ms \<equiv> map (\<lambda>m. (mr_shelf m, mr_uuid m)) ms"

abbreviation link_keys :: "source_row list \<Rightarrow> (i64 \<times> i64) list" where
  "link_keys cs \<equiv> map (\<lambda>c. (sc_id c, sc_shelf c)) cs"

definition origins_ok :: "(i64 \<times> string) list \<Rightarrow> (i64 \<times> i64) list \<Rightarrow> (i64 \<times> string \<times> i64) set \<Rightarrow> bool" where
  "origins_ok ms cs os \<longleftrightarrow> (\<forall>(g, u, k) \<in> os. (g, u) \<in> set ms \<and> (k, g) \<in> set cs)"

definition shelves_ok :: "shelf_tables \<Rightarrow> bool" where
  "shelves_ok t \<longleftrightarrow>
     rows_ok (tbl_shelves t) \<and> members_ok (shelf_ids t) (tbl_members t) \<and> links_ok (shelf_ids t) (tbl_sources t)
     \<and> origins_ok (member_keys (tbl_members t)) (link_keys (tbl_sources t)) (tbl_origins t)
     \<and> finite (tbl_origins t) \<and> finite (tbl_exclusions t) \<and> fst ` tbl_exclusions t \<subseteq> shelf_ids t"

text \<open>The part of the tables that is the content of one shelf; an ended link is only its place in the history.\<close>

definition link_view :: "source_row \<Rightarrow> i64 \<times> bool \<times> i64 option" where
  "link_view c = (sc_id c, sc_active c, if sc_active c then sc_collection c else None)"

definition contents :: "i64 \<Rightarrow> shelf_tables \<Rightarrow>
    member_row list \<times> (i64 \<times> bool \<times> i64 option) list \<times> (string \<times> i64) set \<times> string set" where
  "contents g t =
     (members_of g t, map link_view (filter (\<lambda>c. sc_shelf c = g) (tbl_sources t)),
      snd ` {x \<in> tbl_origins t. fst x = g}, snd ` {x \<in> tbl_exclusions t. fst x = g})"

subsection \<open>Edits of one shelf\<close>

definition edit_ok :: "i64 \<Rightarrow> shelf_tables \<Rightarrow> bool \<times> shelf_tables \<Rightarrow> bool" where
  "edit_ok g t r \<longleftrightarrow>
     (shelves_ok t \<and> g \<in> shelf_ids t \<longrightarrow>
      tbl_shelves (snd r) = tbl_shelves t \<and> shelves_ok (snd r)
      \<and> (\<forall>h. h \<noteq> g \<longrightarrow> contents h (snd r) = contents h t) \<and> (\<not> fst r \<longrightarrow> snd r = t))"

lemma edit_ok_refl [simp]: "edit_ok g t (False, t)"
  by (simp add: edit_ok_def)

lemma edit_ok_then:
  assumes "edit_ok g t (a, t1)" "edit_ok g t1 (b, t2)"
  shows "edit_ok g t (a \<or> b, t2)"
  using assms unfolding edit_ok_def by auto

lemma edit_ok_chain:
  assumes "edit_ok g t r" "\<And>t1. edit_ok g t1 (f t1)"
  shows "edit_ok g t (let (a, t1) = r; (b, t2) = f t1 in (a \<or> b, t2))"
proof -
  obtain a t1 where r: "r = (a, t1)" by fastforce
  obtain b t2 where f: "f t1 = (b, t2)" by fastforce
  show ?thesis using edit_ok_then[of g t a t1 b t2] assms(1) assms(2)[of t1] r f by simp
qed

lemma each_row_edit:
  assumes "\<And>x t. edit_ok g t (f x t)"
  shows "edit_ok g t (each_row f xs t)"
proof (induction xs arbitrary: t)
  case (Cons x xs)
  show ?case using edit_ok_chain[OF assms Cons.IH] by simp
qed simp

lemma rewrite_unhit: "hits p rows = 0 \<Longrightarrow> rewrite p f rows = rows"
  by (auto simp: hits_def rewrite_def filter_empty_conv intro!: map_idI)

lemma next_after_above: "n \<in> set ns \<Longrightarrow> n < next_after floor ns"
proof (induction ns)
  case (Cons m ns)
  then show ?case by (auto simp: next_after_def)
qed simp

lemma next_after_floor: "floor < next_after floor ns"
  by (induction ns) (auto simp: next_after_def)

lemma exclude_edit: "edit_ok g t (exclude_story g u t)"
  by (auto simp: edit_ok_def exclude_story_def shelves_ok_def contents_def members_of_def insert_absorb)

lemma clear_edit: "edit_ok g t (clear_exclusion g u t)"
proof -
  have "tbl_exclusions t - {(g, u)} = tbl_exclusions t" if "(g, u) \<notin> tbl_exclusions t" using that by auto
  then show ?thesis
    by (auto simp: edit_ok_def clear_exclusion_def shelves_ok_def contents_def members_of_def)
qed

lemma seats_ok_filter: "seats_ok grp who seat rows \<Longrightarrow> seats_ok grp who seat (filter p rows)"
  by (auto simp: seats_ok_def distinct_map inj_on_def)

lemma filter_keeps_all: "\<not> list_ex p rows \<Longrightarrow> filter (\<lambda>r. \<not> p r) rows = rows"
  by (auto simp: list_ex_iff intro!: filter_True)

lemma origin_member:
  "origins_ok (member_keys ms) cs os \<Longrightarrow> (g, u, k) \<in> os \<Longrightarrow> list_ex (\<lambda>m. mr_shelf m = g \<and> mr_uuid m = u) ms"
  by (fastforce simp: origins_ok_def list_ex_iff)

lemma remove_edit: "edit_ok g t (remove_member g u t)"
proof -
  let ?p = "\<lambda>m. mr_shelf m = g \<and> mr_uuid m = u"
  let ?os = "{x \<in> tbl_origins t. \<not> (fst x = g \<and> fst (snd x) = u)}"
  let ?t = "t\<lparr>tbl_members := filter (\<lambda>m. \<not> ?p m) (tbl_members t), tbl_origins := ?os\<rparr>"
  have "shelves_ok ?t" if ok: "shelves_ok t"
  proof -
    have "origins_ok (member_keys (filter (\<lambda>m. \<not> ?p m) (tbl_members t))) (link_keys (tbl_sources t)) ?os"
      using ok by (fastforce simp: shelves_ok_def origins_ok_def)
    then show ?thesis using ok seats_ok_filter by (auto simp: shelves_ok_def members_ok_def)
  qed
  moreover have "?t = t" if ok: "shelves_ok t" and none: "\<not> list_ex ?p (tbl_members t)"
  proof -
    have "?os = tbl_origins t"
      using ok none origin_member by (fastforce simp: shelves_ok_def)
    then show ?thesis using filter_keeps_all[OF none] by simp
  qed
  moreover have "contents h ?t = contents h t" if "h \<noteq> g" for h
  proof -
    have "members_of h ?t = members_of h t"
      using that by (auto simp: members_of_def intro: filter_cong)
    moreover have "{x \<in> ?os. fst x = h} = {x \<in> tbl_origins t. fst x = h}" using that by auto
    ultimately show ?thesis by (simp add: contents_def)
  qed
  ultimately show ?thesis by (auto simp: edit_ok_def remove_member_def)
qed

lemma discard_edit: "edit_ok g t (discard_story g excluding removing u t)"
  unfolding discard_story_def
  by (rule edit_ok_chain) (use remove_edit exclude_edit in \<open>auto split: if_splits\<close>)

lemma filter_rewrite_other:
  "(\<And>r. p r \<Longrightarrow> \<not> q r \<and> \<not> q (f r)) \<Longrightarrow> filter q (rewrite p f rows) = filter q rows"
  by (induction rows) (auto simp: rewrite_def)

lemma seats_ok_maps:
  "seats_ok grp who seat rows \<longleftrightarrow>
     distinct (map (\<lambda>r. (grp r, seat r)) rows) \<and> distinct (map (\<lambda>r. (grp r, who r)) rows) \<and> (\<forall>n \<in> set (map seat rows). 0 \<le> n)"
  by (auto simp: seats_ok_def)

lemma protected_keys:
  "member_keys (rewrite p (\<lambda>m. m\<lparr>mr_protected := True\<rparr>) ms) = member_keys ms"
  "map (\<lambda>m. (mr_shelf m, mr_position m)) (rewrite p (\<lambda>m. m\<lparr>mr_protected := True\<rparr>) ms) = map (\<lambda>m. (mr_shelf m, mr_position m)) ms"
  "map mr_position (rewrite p (\<lambda>m. m\<lparr>mr_protected := True\<rparr>) ms) = map mr_position ms"
  "map mr_shelf (rewrite p (\<lambda>m. m\<lparr>mr_protected := True\<rparr>) ms) = map mr_shelf ms"
  by (rule map_rewrite, simp)+

lemma members_ok_maps: "members_ok gs ms \<longleftrightarrow> seats_ok mr_shelf mr_uuid mr_position ms \<and> set (map mr_shelf ms) \<subseteq> gs"
  by (simp add: members_ok_def)

lemma protected_members: "members_ok gs (rewrite p (\<lambda>m. m\<lparr>mr_protected := True\<rparr>) ms) = members_ok gs ms"
  by (simp only: members_ok_maps seats_ok_maps protected_keys)

lemma protect_edit:
  assumes "\<And>m. p m \<Longrightarrow> mr_shelf m = g"
  shows "edit_ok g t (protect_where p t)"
proof -
  let ?q = "\<lambda>m. p m \<and> \<not> mr_protected m"
  let ?ms = "rewrite ?q (\<lambda>m. m\<lparr>mr_protected := True\<rparr>) (tbl_members t)"
  let ?t = "t\<lparr>tbl_members := ?ms\<rparr>"
  have "shelves_ok ?t = shelves_ok t"
    by (simp add: shelves_ok_def protected_members protected_keys(1) del: map_eq_conv)
  moreover have "contents h ?t = contents h t" if "h \<noteq> g" for h
  proof -
    have "filter (\<lambda>m. mr_shelf m = h) ?ms = filter (\<lambda>m. mr_shelf m = h) (tbl_members t)"
      by (rule filter_rewrite_other) (use assms that in auto)
    then show ?thesis by (simp add: contents_def members_of_def)
  qed
  moreover have "?t = t" if "hits ?q (tbl_members t) = 0" using rewrite_unhit[OF that] by simp
  ultimately show ?thesis by (auto simp: edit_ok_def protect_where_def)
qed

lemma keep_edits: "edit_ok g t (keep_member g u t)" "edit_ok g t (keep_all g t)"
  unfolding keep_member_def keep_all_def by (rule protect_edit, simp)+

text \<open>A new row gets a place above those of its shelf.\<close>

lemma appended_seat:
  assumes ok: "seats_ok mr_shelf mr_uuid mr_position ms"
    and new: "\<not> list_ex (\<lambda>m. mr_shelf m = g \<and> mr_uuid m = u) ms"
  shows "seats_ok mr_shelf mr_uuid mr_position (ms @ [\<lparr>mr_shelf = g, mr_uuid = u,
    mr_position = next_after (- 1) (map mr_position (filter (\<lambda>m. mr_shelf m = g) ms)), mr_protected = b, mr_title = n\<rparr>])"
proof (rule seats_ok_append[OF ok])
  let ?ns = "map mr_position (filter (\<lambda>m. mr_shelf m = g) ms)"
  show "0 \<le> mr_position \<lparr>mr_shelf = g, mr_uuid = u, mr_position = next_after (- 1) ?ns, mr_protected = b, mr_title = n\<rparr>"
    using next_after_floor[of "- 1" ?ns] by simp
  show "mr_position q \<noteq> mr_position \<lparr>mr_shelf = g, mr_uuid = u, mr_position = next_after (- 1) ?ns, mr_protected = b, mr_title = n\<rparr>
      \<and> mr_uuid q \<noteq> mr_uuid \<lparr>mr_shelf = g, mr_uuid = u, mr_position = next_after (- 1) ?ns, mr_protected = b, mr_title = n\<rparr>"
    if q: "q \<in> set ms"
      "mr_shelf q = mr_shelf \<lparr>mr_shelf = g, mr_uuid = u, mr_position = next_after (- 1) ?ns, mr_protected = b, mr_title = n\<rparr>" for q
  proof -
    have "mr_position q \<in> set ?ns" using q by simp
    then have "mr_position q < next_after (- 1) ?ns" by (rule next_after_above)
    moreover have "mr_uuid q \<noteq> u" using new q unfolding list_ex_iff by auto
    ultimately show ?thesis by simp
  qed
qed

lemma origins_ok_mono: "origins_ok ms cs os \<Longrightarrow> set ms \<subseteq> set ms' \<Longrightarrow> set cs \<subseteq> set cs' \<Longrightarrow> origins_ok ms' cs' os"
  by (fastforce simp: origins_ok_def)

lemma add_edit: "edit_ok g t (add_member g u n manual t)"
proof (cases "list_ex (\<lambda>m. mr_shelf m = g \<and> mr_uuid m = u) (tbl_members t)")
  case False
  let ?m = "\<lparr>mr_shelf = g, mr_uuid = u, mr_position = next_after (- 1) (map mr_position (members_of g t)),
    mr_protected = manual, mr_title = n\<rparr>"
  let ?t = "t\<lparr>tbl_members := tbl_members t @ [?m], tbl_exclusions := tbl_exclusions t - {(g, u)}\<rparr>"
  have "shelves_ok ?t" if "shelves_ok t" "g \<in> shelf_ids t"
  proof -
    have "seats_ok mr_shelf mr_uuid mr_position (tbl_members t)"
      using that(1) by (simp add: shelves_ok_def members_ok_def)
    then have "seats_ok mr_shelf mr_uuid mr_position (tbl_members t @ [?m])"
      unfolding members_of_def by (rule appended_seat[OF _ False])
    then have "members_ok (shelf_ids t) (tbl_members t @ [?m])"
      using that by (simp add: shelves_ok_def members_ok_def)
    moreover have "origins_ok (member_keys (tbl_members t @ [?m])) (link_keys (tbl_sources t)) (tbl_origins t)"
      by (rule origins_ok_mono[of "member_keys (tbl_members t)" "link_keys (tbl_sources t)"])
        (use that in \<open>auto simp: shelves_ok_def\<close>)
    moreover have "fst ` (tbl_exclusions t - {(g, u)}) \<subseteq> shelf_ids t" using that by (auto simp: shelves_ok_def)
    ultimately show ?thesis using that by (simp add: shelves_ok_def)
  qed
  moreover have "contents h ?t = contents h t" if "h \<noteq> g" for h
  proof -
    have "{x \<in> tbl_exclusions t - {(g, u)}. fst x = h} = {x \<in> tbl_exclusions t. fst x = h}" using that by auto
    then show ?thesis using that by (simp add: contents_def members_of_def)
  qed
  ultimately show ?thesis using False by (simp add: edit_ok_def add_member_def)
next
  case True
  have "add_member g u n manual t =
      (let (a, t1) = (if manual then keep_member g u t else (False, t)); (b, t2) = clear_exclusion g u t1 in (a \<or> b, t2))"
    using True by (simp add: add_member_def keep_member_def protect_where_def clear_exclusion_def Let_def conj_assoc)
  moreover have "edit_ok g t (let (a, t1) = (if manual then keep_member g u t else (False, t)); (b, t2) = clear_exclusion g u t1 in (a \<or> b, t2))"
    by (rule edit_ok_chain) (use keep_edits(1) clear_edit in auto)
  ultimately show ?thesis by simp
qed

lemma origin_edit:
  assumes "record_origin g u k t = Inr r"
  shows "edit_ok g t r"
proof (cases "(g, u, k) \<in> tbl_origins t")
  case True
  then show ?thesis using assms by (auto simp: record_origin_def)
next
  case False
  let ?os = "insert (g, u, k) (tbl_origins t)"
  have r: "r = (True, t\<lparr>tbl_origins := ?os\<rparr>)"
    and there: "list_ex (\<lambda>m. mr_shelf m = g \<and> mr_uuid m = u) (tbl_members t)"
      "list_ex (\<lambda>c. sc_id c = k \<and> sc_shelf c = g) (tbl_sources t)"
    using assms False by (auto simp: record_origin_def split: if_splits)
  have "(g, u) \<in> set (member_keys (tbl_members t))" "(k, g) \<in> set (link_keys (tbl_sources t))"
    using there by (fastforce simp: list_ex_iff)+
  then have "shelves_ok (t\<lparr>tbl_origins := ?os\<rparr>)" if "shelves_ok t"
    using that by (simp add: shelves_ok_def origins_ok_def)
  moreover have "{x \<in> ?os. fst x = h} = {x \<in> tbl_origins t. fst x = h}" if "h \<noteq> g" for h
    using that by auto
  ultimately show ?thesis by (simp add: r edit_ok_def contents_def members_of_def)
qed

lemma origins_edit: "record_origins g u cs t = Inr r \<Longrightarrow> edit_ok g t r"
proof (induction cs arbitrary: t r)
  case (Cons c cs)
  obtain a t1 b t2 where one: "record_origin g u (source_id c) t = Inr (a, t1)"
    and rest: "record_origins g u cs t1 = Inr (b, t2)" and r: "r = (a \<or> b, t2)"
    using Cons.prems by (auto simp: result_iffs)
  show ?case unfolding r by (rule edit_ok_then[OF origin_edit[OF one] Cons.IH[OF rest]])
qed simp

lemma links_ok_append:
  assumes "links_ok gs cs" "g \<in> gs" "k \<notin> sc_id ` set cs"
    and "\<not> list_ex (\<lambda>r. sc_shelf r = g \<and> sc_collection r = Some j \<and> sc_active r) cs"
  shows "links_ok gs (cs @ [\<lparr>sc_id = k, sc_shelf = g, sc_collection = Some j, sc_name = n, sc_active = True\<rparr>])"
proof -
  have "(g, Some j) \<notin> (\<lambda>c. (sc_shelf c, sc_collection c)) ` set (filter sc_active cs)"
    using assms(4) by (auto simp: list_ex_iff)
  then show ?thesis using assms(1-3) by (simp add: links_ok_def)
qed

lemma attach_one_edit:
  assumes "source_collection c = Some j"
  shows "edit_ok g t (attach_one g c t)"
proof (cases "list_ex (\<lambda>r. sc_shelf r = g \<and> sc_collection r = Some j \<and> sc_active r) (tbl_sources t)")
  case True
  then show ?thesis using assms by (simp add: attach_one_def)
next
  case False
  let ?k = "next_after 0 (map sc_id (tbl_sources t))"
  let ?cs = "tbl_sources t @ [\<lparr>sc_id = ?k, sc_shelf = g, sc_collection = Some j, sc_name = source_name c, sc_active = True\<rparr>]"
  have fresh: "?k \<notin> sc_id ` set (tbl_sources t)"
    using next_after_above[of ?k "map sc_id (tbl_sources t)" 0] by auto
  have "shelves_ok (t\<lparr>tbl_sources := ?cs\<rparr>)" if "shelves_ok t" "g \<in> shelf_ids t"
  proof -
    have "links_ok (shelf_ids t) ?cs"
      by (rule links_ok_append[OF _ that(2) fresh False]) (use that(1) in \<open>simp add: shelves_ok_def\<close>)
    moreover have "origins_ok (member_keys (tbl_members t)) (link_keys ?cs) (tbl_origins t)"
      by (rule origins_ok_mono[of "member_keys (tbl_members t)" "link_keys (tbl_sources t)"])
        (use that in \<open>auto simp: shelves_ok_def\<close>)
    ultimately show ?thesis using that by (simp add: shelves_ok_def)
  qed
  then show ?thesis using False assms by (simp add: attach_one_def edit_ok_def contents_def members_of_def)
qed

lemma attach_each_edit: "list_all (\<lambda>c. source_collection c \<noteq> None) cs \<Longrightarrow> edit_ok g t (attach_each g cs t)"
proof (induction cs arbitrary: t)
  case (Cons c cs)
  obtain j where "source_collection c = Some j" using Cons.prems by auto
  then show ?case using edit_ok_chain[OF attach_one_edit Cons.IH] Cons.prems by simp
qed simp

lemma potential_collections:
  assumes "potential_sources lib ks = Inr cs"
  shows "map source_collection cs = map Some (first_occurrences {} ks)"
proof -
  have "collect_results (potential_source lib) ids = Inr cs \<Longrightarrow> map source_collection cs = map Some ids" for ids
    by (induction ids arbitrary: cs) (auto simp: result_iffs potential_source_def split: option.splits)
  then show ?thesis using assms by (simp add: potential_sources_def)
qed

lemma attach_edit:
  assumes "attach_sources lib g ks t = Inr r"
  shows "edit_ok g t r"
proof -
  obtain cs where cs: "potential_sources lib ks = Inr cs" "r = attach_each g cs t"
    using assms by (auto simp: attach_sources_def result_iffs)
  have "list_all (\<lambda>c. c \<noteq> None) (map source_collection cs)"
    unfolding potential_collections[OF cs(1)] by (simp add: list_all_iff)
  then have "list_all (\<lambda>c. source_collection c \<noteq> None) cs" by (simp add: list.pred_map comp_def)
  then show ?thesis unfolding cs(2) by (rule attach_each_edit)
qed

lemma links_ok_maps:
  "links_ok gs cs \<longleftrightarrow>
     distinct (map sc_id cs) \<and> set (map sc_shelf cs) \<subseteq> gs
     \<and> distinct (map (\<lambda>c. (sc_shelf c, sc_collection c)) (filter sc_active cs))
     \<and> (\<forall>c \<in> set (filter sc_active cs). sc_collection c \<noteq> None)"
  by (auto simp: links_ok_def)

lemma detached_links:
  assumes "links_ok gs cs"
  shows "links_ok gs (rewrite (\<lambda>r. p r \<and> sc_active r) (\<lambda>r. r\<lparr>sc_active := False, sc_name := n\<rparr>) cs)"
proof -
  let ?cs = "rewrite (\<lambda>r. p r \<and> sc_active r) (\<lambda>r. r\<lparr>sc_active := False, sc_name := n\<rparr>) cs"
  have "map sc_id ?cs = map sc_id cs" "map sc_shelf ?cs = map sc_shelf cs" by (rule map_rewrite, simp)+
  moreover have "filter sc_active ?cs = filter (\<lambda>r. \<not> p r) (filter sc_active cs)"
    by (induction cs) (auto simp: rewrite_def)
  moreover have "distinct (map (\<lambda>c. (sc_shelf c, sc_collection c)) (filter (\<lambda>r. \<not> p r) (filter sc_active cs)))"
    using assms by (simp add: links_ok_def distinct_map inj_on_def)
  ultimately show ?thesis using assms unfolding links_ok_maps by simp
qed

lemma detach_edit: "edit_ok g t (detach_source g c t)"
proof -
  let ?p = "\<lambda>r. sc_id r = source_id c \<and> sc_shelf r = g \<and> sc_active r"
  let ?cs = "rewrite ?p (\<lambda>r. r\<lparr>sc_active := False, sc_name := source_name c\<rparr>) (tbl_sources t)"
  let ?t = "t\<lparr>tbl_sources := ?cs\<rparr>"
  have keys: "link_keys ?cs = link_keys (tbl_sources t)" by (rule map_rewrite) simp
  have "links_ok gs ?cs" if "links_ok gs (tbl_sources t)" for gs
    using detached_links[OF that, of "\<lambda>r. sc_id r = source_id c \<and> sc_shelf r = g"] by (simp add: conj_assoc)
  then have "shelves_ok ?t" if "shelves_ok t" using that keys by (simp add: shelves_ok_def del: map_eq_conv)
  moreover have "contents h ?t = contents h t" if "h \<noteq> g" for h
  proof -
    have "filter (\<lambda>c. sc_shelf c = h) ?cs = filter (\<lambda>c. sc_shelf c = h) (tbl_sources t)"
      by (rule filter_rewrite_other) (use that in auto)
    then show ?thesis by (simp add: contents_def members_of_def)
  qed
  moreover have "?t = t" if "hits ?p (tbl_sources t) = 0" using rewrite_unhit[OF that] by simp
  ultimately show ?thesis by (auto simp: edit_ok_def detach_source_def Let_def)
qed

end
