(* ===== verification/Shelf_Runs.thy ===== *)
theory Shelf_Runs
  imports Shelf_Safety Transition_Systems
begin

section \<open>Curated shelves: every operation\<close>

text \<open>
  Each transaction body keeps the tables coherent and honours the revisions; the runs of all of them,
  under any behaviour of the database, are a safe system.
\<close>

subsection \<open>Revisions\<close>

definition revision_of :: "i64 \<Rightarrow> shelf_tables \<Rightarrow> i64 option" where
  "revision_of g t = map_option sr_revision (row_at sr_id g (tbl_shelves t))"

definition name_of :: "i64 \<Rightarrow> shelf_tables \<Rightarrow> string option" where
  "name_of g t = map_option sr_name (row_at sr_id g (tbl_shelves t))"

definition same_shelf :: "i64 \<Rightarrow> shelf_tables \<Rightarrow> shelf_tables \<Rightarrow> bool" where
  "same_shelf g t t' \<longleftrightarrow> name_of g t' = name_of g t \<and> contents g t' = contents g t"

definition shelf_change :: "shelf_tables \<Rightarrow> shelf_tables \<Rightarrow> bool" where
  "shelf_change t t' \<longleftrightarrow>
     shelves_ok t' \<and> (\<forall>g a b. revision_of g t = Some a \<longrightarrow> revision_of g t' = Some b \<longrightarrow>
       a \<le> b \<and> (a = b \<longrightarrow> same_shelf g t t'))"

lemma same_shelf_trans: "same_shelf g t u \<Longrightarrow> same_shelf g u v \<Longrightarrow> same_shelf g t v"
  by (simp add: same_shelf_def)

lemma shelf_change_refl: "shelves_ok t \<Longrightarrow> shelf_change t t"
  by (simp add: shelf_change_def same_shelf_def)

lemma revision_of_None: "revision_of g t = None \<longleftrightarrow> g \<notin> shelf_ids t"
  by (simp add: revision_of_def row_at_None)

lemma shelf_change_trans:
  assumes "shelf_change t u" "shelf_change u v" "shelf_ids t \<subseteq> shelf_ids u"
  shows "shelf_change t v"
proof -
  have "a \<le> b \<and> (a = b \<longrightarrow> same_shelf g t v)" if a: "revision_of g t = Some a" and b: "revision_of g v = Some b" for g a b
  proof -
    have "revision_of g u \<noteq> None" using a assms(3) revision_of_None[of g] by (metis option.discI subsetD)
    then obtain c where c: "revision_of g u = Some c" by blast
    have "a \<le> c \<and> (a = c \<longrightarrow> same_shelf g t u)" using assms(1) a c by (simp add: shelf_change_def)
    moreover have "c \<le> b \<and> (c = b \<longrightarrow> same_shelf g u v)" using assms(2) c b by (simp add: shelf_change_def)
    ultimately show ?thesis using same_shelf_trans by auto
  qed
  then show ?thesis using assms(2) by (simp add: shelf_change_def)
qed

lemma read_shelf_there: "read_shelf lib g t = Inr s \<Longrightarrow> g \<in> shelf_ids t \<and> shelf_id s = g"
  by (auto simp: read_shelf_def shelf_of_row_def Let_def dest: row_at_Some split: option.splits)

lemma bumped_rows:
  "rows_ok rs \<Longrightarrow> rows_ok (rewrite (\<lambda>r. sr_id r = g) (\<lambda>r. r\<lparr>sr_revision := sr_revision r + 1\<rparr>) rs)"
proof -
  let ?rs = "rewrite (\<lambda>r. sr_id r = g) (\<lambda>r. r\<lparr>sr_revision := sr_revision r + 1\<rparr>) rs"
  assume ok: "rows_ok rs"
  have "map (\<lambda>r. (whole_table r, sr_position r)) ?rs = map (\<lambda>r. (whole_table r, sr_position r)) rs"
    "map (\<lambda>r. (whole_table r, sr_id r)) ?rs = map (\<lambda>r. (whole_table r, sr_id r)) rs"
    "map sr_position ?rs = map sr_position rs" "map (name_key \<circ> sr_normalized) ?rs = map (name_key \<circ> sr_normalized) rs"
    by (rule map_rewrite, simp add: whole_table_def)+
  then show ?thesis using ok unfolding rows_ok_def seats_ok_maps by (auto simp: set_rewrite)
qed

lemma shelf_ids_rewrite: "(\<And>r. sr_id (f r) = sr_id r) \<Longrightarrow> sr_id ` set (rewrite p f rs) = sr_id ` set rs"
  using map_rewrite[of sr_id f p rs] by (metis list.set_map)

text \<open>The end of every operation on one shelf.\<close>

lemma bump_change:
  assumes edit: "edit_ok g t (a, u)" and bump: "bump lib g a u = Inr (s, v)" and ok: "shelves_ok t" "g \<in> shelf_ids t"
  shows "shelf_change t v \<and> shelf_ids v = shelf_ids t"
proof (cases a)
  case False
  then have "v = u" "u = t" using bump edit ok by (auto simp: bump_def Let_def result_iffs edit_ok_def)
  then show ?thesis using ok shelf_change_refl by simp
next
  case True
  have u: "tbl_shelves u = tbl_shelves t" "shelves_ok u" "\<And>h. h \<noteq> g \<Longrightarrow> contents h u = contents h t"
    using edit ok by (auto simp: edit_ok_def)
  let ?f = "\<lambda>r. r\<lparr>sr_revision := sr_revision r + 1\<rparr>"
  have v: "v = u\<lparr>tbl_shelves := rewrite (\<lambda>r. sr_id r = g) ?f (tbl_shelves t)\<rparr>"
    using bump True u(1) by (auto simp: bump_def Let_def result_iffs)
  have ids: "shelf_ids v = shelf_ids t" unfolding v using shelf_ids_rewrite[of ?f] by simp
  have "shelves_ok v" using u(1,2) ids bumped_rows[of "tbl_shelves t" g] by (simp add: shelves_ok_def v)
  moreover have "x \<le> y \<and> (x = y \<longrightarrow> same_shelf h t v)" if x: "revision_of h t = Some x" and y: "revision_of h v = Some y" for h x y
  proof -
    obtain r where r: "row_at sr_id h (tbl_shelves t) = Some r" "x = sr_revision r" using x by (auto simp: revision_of_def)
    have row: "row_at sr_id h (tbl_shelves v) = Some (if sr_id r = g then ?f r else r)"
      using r(1) row_at_rewrite[of sr_id ?f h "\<lambda>r. sr_id r = g" "tbl_shelves t"] by (simp add: v)
    have "sr_id r = h" using row_at_Some[OF r(1)] by simp
    then have "h \<noteq> g \<Longrightarrow> same_shelf h t v"
      using row r(1) u(3)[of h] by (simp add: same_shelf_def name_of_def v contents_def members_of_def)
    then show ?thesis using row r(2) y \<open>sr_id r = h\<close> by (auto simp: revision_of_def split: if_splits)
  qed
  ultimately show ?thesis using ids by (simp add: shelf_change_def)
qed

subsection \<open>Curation\<close>

lemma add_found_edit: "add_found lib g ids t = Inr r \<Longrightarrow> edit_ok g t r"
  by (auto simp: add_found_def intro!: each_row_edit add_edit split: if_splits)

lemma curate_discard_edit: "curate_discard lib g ex rm order t = Inr r \<Longrightarrow> edit_ok g t r"
  by (auto simp: curate_discard_def Let_def result_iffs intro!: each_row_edit discard_edit split: if_splits)

lemma moved_members:
  assumes ok: "shelves_ok t" and seats: "seats_ok mr_shelf mr_uuid mr_position (numbered mr_shelf mr_uuid move_member g ids (tbl_members t))"
  shows "edit_ok g t (True, t\<lparr>tbl_members := numbered mr_shelf mr_uuid move_member g ids (tbl_members t)\<rparr>)"
proof -
  let ?ms = "numbered mr_shelf mr_uuid move_member g ids (tbl_members t)"
  have keys: "member_keys ?ms = member_keys (tbl_members t)" "map mr_shelf ?ms = map mr_shelf (tbl_members t)"
    unfolding numbered_def by (rule map_rewrite, simp)+
  have "shelves_ok (t\<lparr>tbl_members := ?ms\<rparr>)"
    using ok seats keys by (simp add: shelves_ok_def members_ok_maps del: map_eq_conv set_map)
  moreover have "contents h (t\<lparr>tbl_members := ?ms\<rparr>) = contents h t" if "h \<noteq> g" for h
  proof -
    have "filter (\<lambda>m. mr_shelf m = h) ?ms = filter (\<lambda>m. mr_shelf m = h) (tbl_members t)"
      unfolding numbered_def by (rule filter_rewrite_other) (use that in auto)
    then show ?thesis by (simp add: contents_def members_of_def)
  qed
  ultimately show ?thesis by (simp add: edit_ok_def)
qed

lemma checked_offset_above:
  assumes "checked_offset ps = Inr offset" "p \<in> set ps"
  shows "p < offset"
proof -
  have "offset = foldr max ps (- 1) + 1"
    using assms(1) by (auto simp: checked_offset_def result_iffs i64_checked_add_Some_iff split: if_splits)
  then show ?thesis using next_after_above[OF assms(2), of "- 1"] by (simp add: next_after_def)
qed

lemma shelf_members_uuids:
  assumes "shelf_members lib g t = Inr ms"
  shows "member_uuid ` set ms = mr_uuid ` set (members_of g t)"
    and "member_position ` set ms = mr_position ` set (members_of g t)"
  using assms by (force simp: shelf_members_def result_iffs member_of_row_def)+

lemma curate_reorder_renumbers:
  assumes ok: "shelves_ok t" and r: "curate_reorder lib g order t = Inr (True, u)"
  shows "distinct order \<and> set order = mr_uuid ` set (members_of g t)
    \<and> u = t\<lparr>tbl_members := numbered mr_shelf mr_uuid move_member g order (tbl_members t)\<rparr>
    \<and> seats_ok mr_shelf mr_uuid mr_position (tbl_members u)"
proof -
  let ?ids = "first_occurrences {} order"
  obtain ms offset rows where ms: "shelf_members lib g t = Inr ms"
    and len: "length ?ids = length order" and set: "set ?ids = set (map member_uuid ms)"
    and off: "checked_offset (map member_position ms) = Inr offset"
    and rows: "renumber mr_shelf mr_uuid mr_position move_member g offset ?ids (tbl_members t) = Inr rows"
    and u: "u = t\<lparr>tbl_members := rows\<rparr>"
    using r by (auto simp: curate_reorder_def Let_def result_iffs split: if_splits)
  have "distinct order"
  proof -
    have "length ?ids = card (set order)" using distinct_card[OF distinct_first_occurrences[of "{}" order]] by simp
    then show ?thesis using len card_distinct by metis
  qed
  then have ids: "?ids = order" by (simp add: first_occurrences_distinct)
  have seats: "seats_ok mr_shelf mr_uuid mr_position (tbl_members t)" using ok by (simp add: shelves_ok_def members_ok_def)
  have "mr_position m < offset" if "m \<in> set (tbl_members t)" "mr_shelf m = g" for m
  proof -
    have "mr_position m \<in> set (map member_position ms)"
      using shelf_members_uuids(2)[OF ms] that by (auto simp: members_of_def)
    then show ?thesis by (rule checked_offset_above[OF off])
  qed
  moreover have "set order = mr_uuid ` {m \<in> set (tbl_members t). mr_shelf m = g}"
    using set ids shelf_members_uuids(1)[OF ms] by (simp add: members_of_def)
  ultimately have "rows = numbered mr_shelf mr_uuid move_member g order (tbl_members t)"
    "seats_ok mr_shelf mr_uuid mr_position rows"
    using member_seats.renumber_ok[OF seats, of g offset order] rows ids \<open>distinct order\<close> by auto
  then show ?thesis
    using u \<open>distinct order\<close> \<open>set order = _\<close> by (simp add: members_of_def)
qed

lemma curate_reorder_edit: "curate_reorder lib g order t = Inr r \<Longrightarrow> edit_ok g t r"
proof -
  assume r: "curate_reorder lib g order t = Inr r"
  show "edit_ok g t r"
  proof (cases "fst r")
    case True
    then have "r = (True, snd r)" by (simp add: prod_eq_iff)
    then have new: "shelves_ok t \<Longrightarrow> edit_ok g t (True, snd r)"
      using curate_reorder_renumbers[of t lib g order "snd r"] moved_members[of t g order] r by simp
    show ?thesis
    proof (cases "shelves_ok t")
      case True
      then show ?thesis using new \<open>r = _\<close> by simp
    next
      case False
      then show ?thesis by (simp add: edit_ok_def)
    qed
  next
    case False
    then show ?thesis using r by (auto simp: curate_reorder_def Let_def result_iffs split: if_splits)
  qed
qed

definition settled_in :: "shelf_tables \<Rightarrow> shelf_tables \<Rightarrow> bool" where
  "settled_in t v \<longleftrightarrow> shelf_change t v \<and> shelf_ids v = shelf_ids t"

lemma bump_settled:
  "edit_ok g t r \<Longrightarrow> bump lib g (fst r) (snd r) = Inr (s, v) \<Longrightarrow> shelves_ok t \<Longrightarrow> g \<in> shelf_ids t \<Longrightarrow> settled_in t v"
  using bump_change[of g t "fst r" "snd r"] by (simp add: settled_in_def)

lemma curate_settled:
  assumes ok: "shelves_ok t" and c: "curate lib g action t = Inr (s, v)"
  shows "settled_in t v"
proof -
  obtain q r where q: "read_shelf lib g t = Inr q"
    and r: "(case action of
          Remove_stories v \<Rightarrow> curate_discard lib g False True v t
        | Remove_and_exclude v \<Rightarrow> curate_discard lib g True True v t
        | Exclude_stories v \<Rightarrow> curate_discard lib g True False v t
        | Add_stories v \<Rightarrow> add_found lib g (first_occurrences {} v) t
        | Clear_exclusion u \<Rightarrow> Inr (clear_exclusion g u t)
        | Reorder_stories v \<Rightarrow> curate_reorder lib g v t) = Inr r"
    and b: "bump lib g (fst r) (snd r) = Inr (s, v)"
    using c by (auto simp: curate_def result_iffs)
  have "edit_ok g t r"
    using r curate_discard_edit add_found_edit curate_reorder_edit clear_edit by (auto split: curation.splits)
  then show ?thesis using bump_settled[OF _ b ok] read_shelf_there[OF q] by simp
qed

lemma add_guarded_settled:
  assumes ok: "shelves_ok t" and c: "add_guarded canonical present lib g targets t = Inr (s, v)"
  shows "settled_in t v"
proof -
  obtain q r where q: "read_shelf lib g t = Inr q"
    and r: "add_found lib g (first_occurrences {} (map snd targets)) t = Inr r"
    and b: "bump lib g (fst r) (snd r) = Inr (s, v)"
    using c by (auto simp: add_guarded_def Let_def result_iffs split: if_splits)
  show ?thesis using bump_settled[OF add_found_edit[OF r] b ok] read_shelf_there[OF q] by simp
qed

lemma attach_settled:
  assumes ok: "shelves_ok t" and c: "attach_shelf_sources lib g ks t = Inr (s, v)"
  shows "settled_in t v"
proof -
  obtain q r where q: "read_shelf lib g t = Inr q" and r: "attach_sources lib g ks t = Inr r"
    and b: "bump lib g (fst r) (snd r) = Inr (s, v)"
    using c by (auto simp: attach_shelf_sources_def result_iffs)
  show ?thesis using bump_settled[OF attach_edit[OF r] b ok] read_shelf_there[OF q] by simp
qed

subsection \<open>Reviewed changes\<close>

lemma apply_action_edit: "apply_action g acts c t = Inr r \<Longrightarrow> edit_ok g t r"
proof -
  assume r: "apply_action g acts c t = Inr r"
  show "edit_ok g t r"
  proof (cases "acts (cd_uuid c) = Some Act_add")
    case True
    obtain a u b v where "add_member g (cd_uuid c) (cd_title c) False t = (a, u)"
      "record_origins g (cd_uuid c) (cd_sources c) u = Inr (b, v)" "r = (a \<or> b, v)"
      using r True by (cases "add_member g (cd_uuid c) (cd_title c) False t") (auto simp: apply_action_def result_iffs)
    then show ?thesis
      using edit_ok_then[of g t a u b v] add_edit[of g t "cd_uuid c" "cd_title c" False] origins_edit by metis
  next
    case False
    then show ?thesis
      using r exclude_edit keep_edits(1) discard_edit
      by (auto simp: apply_action_def split: option.splits review_action.splits)
  qed
qed

lemma apply_actions_edit: "apply_actions g acts cs t = Inr r \<Longrightarrow> edit_ok g t r"
proof (induction cs arbitrary: t r)
  case (Cons c cs)
  obtain a u b v where "apply_action g acts c t = Inr (a, u)" "apply_actions g acts cs u = Inr (b, v)" "r = (a \<or> b, v)"
    using Cons.prems by (auto simp: result_iffs)
  then show ?case using edit_ok_then apply_action_edit Cons.IH by metis
qed simp

lemma apply_updates_parts:
  assumes "apply_updates digest lib g seen ds t = Inr (s, v)"
  obtains fresh acts r where "review_evaluation digest lib g None t = Inr (fresh, seen)"
    "review_actions fresh ds = Inr acts" "apply_actions g acts (up_additions fresh @ up_removals fresh) t = Inr r"
    "bump lib g (fst r) (snd r) = Inr (s, v)"
  using assms by (auto simp: apply_updates_def result_iffs split: if_splits)

lemma reviewed_shelf_there: "review_evaluation digest lib g ov t = Inr r \<Longrightarrow> g \<in> shelf_ids t"
  using read_shelf_there by (fastforce simp: review_evaluation_def result_iffs)

lemma apply_updates_settled:
  assumes ok: "shelves_ok t" and c: "apply_updates digest lib g seen ds t = Inr (s, v)"
  shows "settled_in t v"
proof -
  obtain fresh acts r where "review_evaluation digest lib g None t = Inr (fresh, seen)"
    and r: "apply_actions g acts (up_additions fresh @ up_removals fresh) t = Inr r"
    and b: "bump lib g (fst r) (snd r) = Inr (s, v)"
    using apply_updates_parts[OF c] by metis
  then show ?thesis using bump_settled[OF apply_actions_edit[OF r] b ok] reviewed_shelf_there by blast
qed

lemma settle_affected_edit: "settle_affected g acts cs t = Inr r \<Longrightarrow> edit_ok g t r"
proof (induction cs arbitrary: t r)
  case (Cons c cs)
  obtain x where x: "acts (cd_uuid c) = Some x" "x = Act_keep \<or> x = Act_remove_and_exclude"
    using Cons.prems by (auto split: option.splits review_action.splits)
  define q where "q = (if x = Act_keep then keep_member g (cd_uuid c) t else discard_story g True True (cd_uuid c) t)"
  have q: "edit_ok g t q" using keep_edits(1) discard_edit by (simp add: q_def)
  obtain a u where au: "q = (a, u)" by fastforce
  obtain b v where "settle_affected g acts cs u = Inr (b, v)" "r = (a \<or> b, v)"
    using Cons.prems x au by (auto simp: q_def result_iffs split: if_splits)
  then show ?case using edit_ok_then q au Cons.IH by metis
qed simp

lemma change_apply_settled:
  assumes ok: "shelves_ok t" and c: "change_apply lib e acts t = Inr (s, v)"
    and g: "shelf_id (chg_shelf (ce_preview e)) \<in> shelf_ids t"
  shows "settled_in t v"
proof -
  let ?g = "shelf_id (chg_shelf (ce_preview e))"
  obtain a t1 where 1: "attach_sources lib ?g (ce_desired e) t = Inr (a, t1)"
    using c by (auto simp: change_apply_def Let_def result_iffs)
  obtain b t2 where 2: "each_row (detach_source ?g) (chg_detached (ce_preview e)) t1 = (b, t2)" by fastforce
  obtain d t3 where 3: "settle_affected ?g acts (chg_affected (ce_preview e)) t2 = Inr (d, t3)"
    using c 1 2 by (auto simp: change_apply_def Let_def result_iffs)
  obtain h t4 where 4: "(if ce_desired e = [] then keep_all ?g t3 else (False, t3)) = (h, t4)" by fastforce
  have fin: "bump lib ?g (a \<or> b \<or> d \<or> h) t4 = Inr (s, v)"
    using c 1 2 3 4 by (simp add: change_apply_def Let_def)
  have "edit_ok ?g t3 (h, t4)" using 4 keep_edits(2)[of ?g t3] by (auto split: if_splits)
  moreover have "edit_ok ?g t1 (b, t2)" using each_row_edit[of ?g "detach_source ?g"] detach_edit 2 by metis
  ultimately have "edit_ok ?g t (a \<or> b \<or> d \<or> h, t4)"
    using edit_ok_then attach_edit[OF 1] settle_affected_edit[OF 3] by metis
  then show ?thesis using bump_settled[of ?g t "(a \<or> b \<or> d \<or> h, t4)"] fin ok g by simp
qed

lemma change_evaluate_shelf:
  assumes "change_evaluate digest lib g desired t = Inr e"
  shows "shelf_id (chg_shelf (ce_preview e)) = g \<and> g \<in> shelf_ids t"
proof -
  obtain s where "read_shelf lib g t = Inr s" "chg_shelf (ce_preview e) = s"
    using assms by (auto simp: change_evaluate_def Let_def result_iffs)
  then show ?thesis using read_shelf_there by blast
qed

lemma change_sources_settled:
  assumes ok: "shelves_ok t" and c: "change_sources digest lib g desired seen all ds t = Inr (s, v)"
  shows "settled_in t v"
proof -
  obtain e acts where "change_evaluate digest lib g desired t = Inr e" "change_apply lib e acts t = Inr (s, v)"
    using c by (auto simp: change_sources_def result_iffs split: if_splits)
  then show ?thesis using change_apply_settled[OF ok] change_evaluate_shelf by metis
qed

subsection \<open>Commands\<close>

definition grown :: "i64 \<Rightarrow> shelf_tables \<Rightarrow> shelf_tables \<Rightarrow> bool" where
  "grown n t v \<longleftrightarrow> shelf_change t v \<and> n \<notin> shelf_ids t \<and> shelf_ids v = insert n (shelf_ids t)"

lemma contents_outside:
  assumes ok: "shelves_ok t" and g: "g \<notin> shelf_ids t"
  shows "members_of g t = []" "filter (\<lambda>c. sc_shelf c = g) (tbl_sources t) = []"
    "{x \<in> tbl_origins t. fst x = g} = {}" "{x \<in> tbl_exclusions t. fst x = g} = {}"
proof -
  have ms: "mr_shelf ` set (tbl_members t) \<subseteq> shelf_ids t" and cs: "sc_shelf ` set (tbl_sources t) \<subseteq> shelf_ids t"
    and os: "origins_ok (member_keys (tbl_members t)) (link_keys (tbl_sources t)) (tbl_origins t)"
    and es: "fst ` tbl_exclusions t \<subseteq> shelf_ids t"
    using ok by (simp_all add: shelves_ok_def members_ok_def links_ok_def)
  have "\<forall>m \<in> set (tbl_members t). mr_shelf m \<noteq> g" using ms g by blast
  then show "members_of g t = []" by (simp add: members_of_def filter_empty_conv)
  have "\<forall>c \<in> set (tbl_sources t). sc_shelf c \<noteq> g" using cs g by blast
  then show "filter (\<lambda>c. sc_shelf c = g) (tbl_sources t) = []" by (simp add: filter_empty_conv)
  have "fst x \<noteq> g" if x: "x \<in> tbl_origins t" for x
  proof -
    have "(fst x, fst (snd x)) \<in> set (member_keys (tbl_members t))" using os x by (cases x) (fastforce simp: origins_ok_def)
    then show ?thesis using \<open>\<forall>m \<in> set (tbl_members t). mr_shelf m \<noteq> g\<close> by auto
  qed
  then show "{x \<in> tbl_origins t. fst x = g} = {}" by blast
  show "{x \<in> tbl_exclusions t. fst x = g} = {}" using es g by blast
qed

lemma insert_shelf_grown:
  assumes ok: "shelves_ok t" and i: "insert_shelf names lib name t = Inr (s, v)"
  shows "grown (shelf_id s) t v"
    and "tbl_members v = tbl_members t" "tbl_sources v = tbl_sources t" "tbl_origins v = tbl_origins t"
      "tbl_exclusions v = tbl_exclusions t"
proof -
  let ?g = "next_after 0 (map sr_id (tbl_shelves t))" and ?p = "next_after (- 1) (map sr_position (tbl_shelves t))"
  obtain n k where nk: "name_key k \<notin> (name_key \<circ> sr_normalized) ` set (tbl_shelves t)"
    and v: "v = t\<lparr>tbl_shelves := tbl_shelves t @ [\<lparr>sr_id = ?g, sr_name = n, sr_normalized = k, sr_position = ?p, sr_revision = 1\<rparr>]\<rparr>"
    and s: "read_shelf lib ?g v = Inr s"
    using i by (auto simp: insert_shelf_def Let_def result_iffs split: if_splits)
  have id: "shelf_id s = ?g" using read_shelf_there[OF s] by simp
  have above: "sr_id r < ?g" "sr_position r < ?p" if "r \<in> set (tbl_shelves t)" for r
    using that next_after_above[of "sr_id r" "map sr_id (tbl_shelves t)" 0]
      next_after_above[of "sr_position r" "map sr_position (tbl_shelves t)" "- 1"] by auto
  then have new: "?g \<notin> shelf_ids t" by force
  have rows: "rows_ok (tbl_shelves t)" using ok by (simp add: shelves_ok_def)
  have "seats_ok whole_table sr_id sr_position (tbl_shelves v)"
    unfolding v using next_after_floor[of "- 1" "map sr_position (tbl_shelves t)"] rows above
    by (simp del: append_assoc, intro seats_ok_append) (force simp: rows_ok_def)+
  then have "rows_ok (tbl_shelves v)"
    using rows nk next_after_floor[of 0 "map sr_id (tbl_shelves t)"] by (auto simp: rows_ok_def v)
  then have okv: "shelves_ok v"
    using ok by (auto simp: shelves_ok_def v members_ok_def links_ok_def)
  have "row_at sr_id g (tbl_shelves v) = row_at sr_id g (tbl_shelves t)" if "g \<in> shelf_ids t" for g
    using that row_at_None[of sr_id g "tbl_shelves t"] by (auto simp: v row_at_append split: option.splits)
  moreover have "g \<in> shelf_ids t" if "revision_of g t = Some a" for g a
    using that revision_of_None[of g t] by force
  ultimately have "shelf_change t v"
    using okv by (auto simp: shelf_change_def revision_of_def same_shelf_def name_of_def contents_def members_of_def v)
  moreover have "shelf_ids v = insert ?g (shelf_ids t)" by (auto simp: v)
  ultimately show "grown (shelf_id s) t v" using new id by (simp add: grown_def)
  show "tbl_members v = tbl_members t" "tbl_sources v = tbl_sources t" "tbl_origins v = tbl_origins t"
      "tbl_exclusions v = tbl_exclusions t"
    by (simp_all add: v)
qed

text \<open>Filling a shelf that is new: nobody else sees it.\<close>

lemma grown_edit:
  assumes g: "grown n t u" and e: "edit_ok n u (a, v)"
  shows "grown n t v"
proof -
  have u: "shelves_ok u" "n \<in> shelf_ids u" using g by (auto simp: grown_def shelf_change_def)
  then have v: "tbl_shelves v = tbl_shelves u" "shelves_ok v" "\<And>h. h \<noteq> n \<Longrightarrow> contents h v = contents h u"
    using e by (auto simp: edit_ok_def)
  have "h \<noteq> n" if "revision_of h t = Some x" for h x
    using that g revision_of_None[of h t] by (auto simp: grown_def)
  then have "shelf_change t v"
    using g v by (auto simp: grown_def shelf_change_def revision_of_def same_shelf_def name_of_def)
  then show ?thesis using g v(1) by (simp add: grown_def)
qed

lemma accept_all_grown:
  "grown n t u \<Longrightarrow> accept_all n attached selected cs u = Inr v \<Longrightarrow> grown n t v"
proof (induction cs arbitrary: u)
  case (Cons c cs)
  obtain w where w: "accept_candidate n attached selected c u = Inr w" "accept_all n attached selected cs w = Inr v"
    using Cons.prems(2) by (auto simp: result_iffs)
  have "grown n t w"
  proof (cases "cd_uuid c \<in> selected")
    case True
    obtain a u1 where 1: "add_member n (cd_uuid c) (cd_title c) (cd_manual c) u = (a, u1)" by fastforce
    obtain b where 2: "record_origins n (cd_uuid c) (filter (\<lambda>s. \<exists>p \<in> set (cd_sources c). source_collection p = source_collection s) attached) u1 = Inr (b, w)"
      using w(1) True 1 by (auto simp: accept_candidate_def Let_def result_iffs)
    have "edit_ok n u (a, u1)" using add_edit[of n u "cd_uuid c" "cd_title c" "cd_manual c"] 1 by simp
    then show ?thesis using grown_edit[OF grown_edit[OF Cons.prems(1)] origins_edit[OF 2]] by blast
  next
    case False
    then show ?thesis using w(1) Cons.prems(1) by (simp add: accept_candidate_def)
  qed
  then show ?case using Cons.IH w(2) by blast
qed simp

lemma create_reviewed_grown:
  assumes ok: "shelves_ok t" and c: "create_reviewed digest names lib name ks manual seen selected t = Inr (s, v)"
  shows "\<exists>n. grown n t v"
proof -
  obtain fresh :: creation_preview and s1 u a w where 1: "insert_shelf names lib (cp_name fresh) t = Inr (s1, u)"
    and 2: "attach_sources lib (shelf_id s1) ks u = Inr (a, w)"
    and 3: "accept_all (shelf_id s1) (shelf_sources lib (shelf_id s1) True w) (set selected) (cp_candidates fresh) w = Inr v"
    using c by (auto simp: create_reviewed_def result_iffs split: if_splits)
  have "grown (shelf_id s1) t w" using grown_edit[OF insert_shelf_grown(1)[OF ok 1] attach_edit[OF 2]] .
  then show ?thesis using accept_all_grown[OF _ 3] by blast
qed

lemma rename_settled:
  assumes ok: "shelves_ok t" and c: "rename_shelf names lib g name t = Inr (s, v)"
  shows "settled_in t v"
proof -
  obtain n k where "names name = Inr (n, k)"
    using c by (auto simp: rename_shelf_def Let_def result_iffs split: if_splits)
  let ?p = "\<lambda>r. sr_id r = g \<and> sr_name r \<noteq> n" and ?f = "\<lambda>r. r\<lparr>sr_name := n, sr_normalized := k\<rparr>"
  let ?u = "t\<lparr>tbl_shelves := rewrite ?p ?f (tbl_shelves t)\<rparr>"
  have there: "g \<in> shelf_ids t" and bump: "bump lib g (0 < hits ?p (tbl_shelves t)) ?u = Inr (s, v)"
    and free: "0 < hits ?p (tbl_shelves t) \<Longrightarrow> name_key k \<notin> (name_key \<circ> sr_normalized) ` {r \<in> set (tbl_shelves t). sr_id r \<noteq> g}"
    using c \<open>names name = _\<close> read_shelf_there
    by (fastforce simp: rename_shelf_def Let_def result_iffs split: if_splits)+
  show ?thesis
  proof (cases "0 < hits ?p (tbl_shelves t)")
    case False
    then have "?u = t" using rewrite_unhit[of ?p "tbl_shelves t"] by simp
    then show ?thesis using bump False ok shelf_change_refl by (auto simp: bump_def Let_def result_iffs settled_in_def)
  next
    case True
    let ?h = "\<lambda>r. r\<lparr>sr_revision := sr_revision r + 1\<rparr>"
    have v: "v = t\<lparr>tbl_shelves := rewrite (\<lambda>r. sr_id r = g) ?h (rewrite ?p ?f (tbl_shelves t))\<rparr>"
      using bump True by (auto simp: bump_def Let_def result_iffs)
    have rows: "rows_ok (tbl_shelves t)" using ok by (simp add: shelves_ok_def)
    have one: "x = y" if "x \<in> set (tbl_shelves t)" "y \<in> set (tbl_shelves t)" "sr_id x = g" "sr_id y = g" for x y
      using rows that shelf_seats.seats_ok_unique[of "tbl_shelves t" x y] by (simp add: rows_ok_def whole_table_def)
    have "inj_on (\<lambda>r. name_key (sr_normalized (if ?p r then ?f r else r))) (set (tbl_shelves t))"
    proof (rule inj_onI)
      fix x y assume x: "x \<in> set (tbl_shelves t)" and y: "y \<in> set (tbl_shelves t)"
        and eq: "name_key (sr_normalized (if ?p x then ?f x else x)) = name_key (sr_normalized (if ?p y then ?f y else y))"
      have old: "name_key (sr_normalized x) = name_key (sr_normalized y) \<Longrightarrow> x = y"
        using rows x y by (simp add: rows_ok_def distinct_map inj_on_def)
      have apart: "name_key k \<noteq> name_key (sr_normalized z)" if "z \<in> set (tbl_shelves t)" "sr_id z \<noteq> g" for z
        using free[OF True] that by auto
      show "x = y"
        using eq old one[OF x y] apart[OF x] apart[OF y] x y one by (auto split: if_splits)
    qed
    then have names: "distinct (map (name_key \<circ> sr_normalized) (rewrite ?p ?f (tbl_shelves t)))"
      using rows unfolding rows_ok_def rewrite_def map_map comp_def distinct_map[of "\<lambda>x. name_key (sr_normalized (if ?p x then ?f x else x))"]
      by (simp add: distinct_map)
    have "map (\<lambda>r. (whole_table r, sr_position r)) (rewrite ?p ?f (tbl_shelves t)) = map (\<lambda>r. (whole_table r, sr_position r)) (tbl_shelves t)"
      "map (\<lambda>r. (whole_table r, sr_id r)) (rewrite ?p ?f (tbl_shelves t)) = map (\<lambda>r. (whole_table r, sr_id r)) (tbl_shelves t)"
      "map sr_position (rewrite ?p ?f (tbl_shelves t)) = map sr_position (tbl_shelves t)"
      by (rule map_rewrite, simp add: whole_table_def)+
    then have "rows_ok (rewrite ?p ?f (tbl_shelves t))"
      using rows names unfolding rows_ok_def seats_ok_maps by (auto simp: set_rewrite)
    then have "rows_ok (tbl_shelves v)" unfolding v by (simp add: bumped_rows)
    moreover have ids: "shelf_ids v = shelf_ids t"
      unfolding v by (simp add: shelf_ids_rewrite)
    ultimately have okv: "shelves_ok v" using ok unfolding shelves_ok_def v by simp
    have "a \<le> b \<and> (a = b \<longrightarrow> same_shelf h t v)" if a: "revision_of h t = Some a" and b: "revision_of h v = Some b" for h a b
    proof -
      obtain r where r: "row_at sr_id h (tbl_shelves t) = Some r" "a = sr_revision r" using a by (auto simp: revision_of_def)
      define r' where "r' = (if ?p r then ?f r else r)"
      have "row_at sr_id h (tbl_shelves v) = Some (if sr_id r' = g then ?h r' else r')"
        using r(1) row_at_rewrite[of sr_id ?f h ?p "tbl_shelves t"]
          row_at_rewrite[of sr_id ?h h "\<lambda>r. sr_id r = g" "rewrite ?p ?f (tbl_shelves t)"] by (simp add: v r'_def)
      moreover have "contents h v = contents h t" by (simp add: v contents_def members_of_def)
      moreover have "sr_id r' = sr_id r" "sr_revision r' = sr_revision r" "sr_id r \<noteq> g \<Longrightarrow> r' = r" by (simp_all add: r'_def)
      ultimately show ?thesis using r b by (auto simp: revision_of_def same_shelf_def name_of_def split: if_splits)
    qed
    then show ?thesis using okv ids by (simp add: settled_in_def shelf_change_def)
  qed
qed

lemma moved_shelf [simp]:
  "sr_name (move_shelf n r) = sr_name r" "sr_revision (move_shelf n r) = sr_revision r"
  by (simp_all add: move_shelf_def)

lemma distinct_of_card: "length ids = card (set xs) \<Longrightarrow> set ids = set xs \<Longrightarrow> distinct ids"
  by (simp add: card_distinct)

lemma reorder_shelves_renumbers:
  assumes ok: "shelves_ok t" and c: "reorder_shelves lib ids t = Inr (all, v)"
  shows "distinct ids \<and> set ids = shelf_ids t
    \<and> v = t\<lparr>tbl_shelves := numbered whole_table sr_id move_shelf True ids (tbl_shelves t)\<rparr>
    \<and> seats_ok whole_table sr_id sr_position (tbl_shelves v) \<and> all = list_shelves lib v"
proof -
  let ?current = "list_shelves lib t"
  have cur: "set (map shelf_id ?current) = shelf_ids t" "set (map shelf_position ?current) = sr_position ` set (tbl_shelves t)"
    by (force simp: list_shelves_def shelf_of_row_def Let_def)+
  obtain offset rows where len: "length ids = card (set (map shelf_id ?current))" and set: "set ids = set (map shelf_id ?current)"
    and off: "checked_offset (map shelf_position ?current) = Inr offset"
    and rows: "renumber whole_table sr_id sr_position move_shelf True offset ids (tbl_shelves t) = Inr rows"
    and v: "v = t\<lparr>tbl_shelves := rows\<rparr>" "all = list_shelves lib v"
    using c by (auto simp: reorder_shelves_def Let_def result_iffs split: if_splits)
  have d: "distinct ids" using distinct_of_card len set by blast
  have seats: "seats_ok whole_table sr_id sr_position (tbl_shelves t)" using ok by (simp add: shelves_ok_def rows_ok_def)
  have "sr_position r < offset" if "r \<in> set (tbl_shelves t)" for r
    by (rule checked_offset_above[OF off]) (use that cur(2) in auto)
  moreover have "set ids = sr_id ` {r \<in> set (tbl_shelves t). whole_table r = True}"
    using set cur(1) by (simp add: whole_table_def)
  ultimately have "rows = numbered whole_table sr_id move_shelf True ids (tbl_shelves t)" "seats_ok whole_table sr_id sr_position rows"
    using shelf_seats.renumber_ok[OF seats, of True offset ids] rows d by auto
  then show ?thesis using d v set cur(1) by simp
qed

lemma reorder_shelves_settled:
  assumes ok: "shelves_ok t" and c: "reorder_shelves lib ids t = Inr (all, v)"
  shows "settled_in t v"
proof -
  let ?rs = "numbered whole_table sr_id move_shelf True ids (tbl_shelves t)"
  have v: "v = t\<lparr>tbl_shelves := ?rs\<rparr>" and seats: "seats_ok whole_table sr_id sr_position ?rs"
    using reorder_shelves_renumbers[OF ok c] by auto
  have keep: "map (name_key \<circ> sr_normalized) ?rs = map (name_key \<circ> sr_normalized) (tbl_shelves t)"
    unfolding numbered_def by (rule map_rewrite) (simp add: move_shelf_def)
  have ids: "sr_id ` set ?rs = shelf_ids t" unfolding numbered_def by (rule shelf_ids_rewrite) (simp add: move_shelf_def)
  have "\<forall>r \<in> set ?rs. 0 < sr_id r \<and> 1 \<le> sr_revision r"
    using ok by (auto simp: numbered_def set_rewrite shelves_ok_def rows_ok_def move_shelf_def)
  then have "shelves_ok v" using ok seats keep ids unfolding shelves_ok_def rows_ok_def v by simp
  moreover have "revision_of g v = revision_of g t \<and> same_shelf g t v" for g
    using row_at_rewrite[of sr_id "\<lambda>r. move_shelf (int (index_in ids (sr_id r))) r" g
        "\<lambda>r. whole_table r = True \<and> sr_id r \<in> set ids" "tbl_shelves t"]
    by (cases "row_at sr_id g (tbl_shelves t)")
      (simp_all add: revision_of_def same_shelf_def name_of_def v contents_def members_of_def numbered_def)
  ultimately show ?thesis using ids by (simp add: settled_in_def shelf_change_def v)
qed

lemma delete_shelf_ok:
  assumes ok: "shelves_ok t"
  shows "shelf_change t (delete_shelf g t) \<and> shelf_ids (delete_shelf g t) = shelf_ids t - {g}"
proof -
  let ?v = "delete_shelf g t"
  have ids: "shelf_ids ?v = shelf_ids t - {g}" by (auto simp: delete_shelf_def)
  have rows: "rows_ok (tbl_shelves ?v)"
    using ok seats_ok_filter[of whole_table sr_id sr_position "tbl_shelves t"]
    by (auto simp: shelves_ok_def rows_ok_def delete_shelf_def distinct_map inj_on_def)
  have ms: "members_ok (shelf_ids ?v) (tbl_members ?v)"
    using ok seats_ok_filter[of mr_shelf mr_uuid mr_position "tbl_members t"] unfolding ids
    by (auto simp: shelves_ok_def members_ok_def delete_shelf_def)
  have cs: "links_ok (shelf_ids ?v) (tbl_sources ?v)"
    using ok unfolding ids by (auto simp: shelves_ok_def links_ok_def delete_shelf_def distinct_map inj_on_def)
  have os: "origins_ok (member_keys (tbl_members ?v)) (link_keys (tbl_sources ?v)) (tbl_origins ?v)"
    using ok by (fastforce simp: shelves_ok_def origins_ok_def delete_shelf_def)
  have "finite (tbl_origins ?v)" "finite (tbl_exclusions ?v)" "fst ` tbl_exclusions ?v \<subseteq> shelf_ids ?v"
    using ok unfolding ids by (auto simp: shelves_ok_def delete_shelf_def)
  then have "shelves_ok ?v" using rows ms cs os by (simp add: shelves_ok_def)
  moreover have "revision_of h ?v = revision_of h t \<and> same_shelf h t ?v" if "h \<noteq> g" for h
  proof -
    have "row_at sr_id h (filter (\<lambda>r. sr_id r \<noteq> g) rs) = row_at sr_id h rs" for rs :: "shelf_row list"
      using that by (induction rs) (auto simp: row_at_def)
    moreover have "contents h ?v = contents h t"
    proof -
      have "members_of h ?v = members_of h t"
        "filter (\<lambda>c. sc_shelf c = h) (tbl_sources ?v) = filter (\<lambda>c. sc_shelf c = h) (tbl_sources t)"
        using that by (auto simp: members_of_def delete_shelf_def intro: filter_cong)
      moreover have "{x \<in> tbl_origins ?v. fst x = h} = {x \<in> tbl_origins t. fst x = h}"
        "{x \<in> tbl_exclusions ?v. fst x = h} = {x \<in> tbl_exclusions t. fst x = h}"
        using that by (auto simp: delete_shelf_def)
      ultimately show ?thesis by (simp add: contents_def)
    qed
    ultimately show ?thesis by (simp add: revision_of_def same_shelf_def name_of_def delete_shelf_def)
  qed
  moreover have "revision_of g ?v = None" unfolding revision_of_None ids by simp
  ultimately show ?thesis using ids unfolding shelf_change_def by (metis option.discI option.inject order_refl)
qed

lemma cut_links_settled:
  assumes ok: "shelves_ok t" and c: "cut_links k t = Inr v"
  shows "settled_in t v"
proof -
  let ?p = "\<lambda>c. sc_collection c = Some k \<and> \<not> sc_active c" and ?f = "\<lambda>c. c\<lparr>sc_collection := None\<rparr>"
  let ?cs = "rewrite ?p ?f (tbl_sources t)"
  have v: "v = t\<lparr>tbl_sources := ?cs\<rparr>" using c by (auto simp: cut_links_def split: if_splits)
  have maps: "link_keys ?cs = link_keys (tbl_sources t)" "map sc_id ?cs = map sc_id (tbl_sources t)"
    "map sc_shelf ?cs = map sc_shelf (tbl_sources t)"
    by (rule map_rewrite, simp)+
  have act: "filter sc_active ?cs = filter sc_active (tbl_sources t)" by (rule filter_rewrite_other) simp
  have "shelves_ok v"
    using ok maps act unfolding shelves_ok_def links_ok_maps v by simp
  moreover have "map link_view (filter (\<lambda>c. sc_shelf c = g) ?cs) = map link_view (filter (\<lambda>c. sc_shelf c = g) (tbl_sources t))" for g
  proof -
    have "map link_view (filter (\<lambda>c. sc_shelf c = g) (rewrite ?p ?f rs)) = map link_view (filter (\<lambda>c. sc_shelf c = g) rs)" for rs
      by (induction rs) (auto simp: rewrite_def link_view_def)
    then show ?thesis .
  qed
  ultimately show ?thesis
    by (auto simp: settled_in_def shelf_change_def revision_of_def same_shelf_def name_of_def contents_def members_of_def v)
qed

lemma settled_trans: "settled_in t u \<Longrightarrow> settled_in u v \<Longrightarrow> settled_in t v"
  unfolding settled_in_def using shelf_change_trans by auto

lemma settled_ok: "settled_in t v \<Longrightarrow> shelves_ok v"
  by (simp add: settled_in_def shelf_change_def)

lemma apply_each_settled:
  assumes "apply_each lib es t = Inr v" "shelves_ok t"
    and "\<And>e. e \<in> fst ` set es \<Longrightarrow> shelf_id (chg_shelf (ce_preview e)) \<in> shelf_ids t"
  shows "settled_in t v"
  using assms
proof (induction es arbitrary: t)
  case Nil
  then show ?case by (simp add: settled_in_def shelf_change_refl)
next
  case (Cons x es)
  obtain e acts where x: "x = (e, acts)" by fastforce
  obtain s u where u: "change_apply lib e acts t = Inr (s, u)" "apply_each lib es u = Inr v"
    using Cons.prems(1) by (auto simp: x result_iffs)
  have step: "settled_in t u" using change_apply_settled[OF Cons.prems(2) u(1)] Cons.prems(3) by (simp add: x)
  have "settled_in u v"
    by (rule Cons.IH[OF u(2) settled_ok[OF step]]) (use Cons.prems(3) step in \<open>auto simp: settled_in_def\<close>)
  then show ?case using settled_trans step by blast
qed

lemma delete_linked_settled:
  assumes ok: "shelves_ok t" and c: "delete_linked digest lib k seen all groups t = Inr (u, v)"
  shows "settled_in t v"
proof -
  obtain es checked w where es: "deletion_evaluate digest lib k t = Inr (es, seen)"
    and checked: "validate_each all groups es = Inr checked"
    and w: "apply_each lib checked t = Inr w" "cut_links k w = Inr v"
    using c by (auto simp: delete_linked_def result_iffs split: if_splits)
  have "list_all2 (\<lambda>g e. change_evaluate digest lib g (remaining_sources lib k g t) t = Inr e) (shelves_using k t) es"
    using es by (auto simp: deletion_evaluate_def result_iffs collect_results_Ok_iff split: option.splits)
  then have "shelf_id (chg_shelf (ce_preview e)) \<in> shelf_ids t" if "e \<in> set es" for e
    using that change_evaluate_shelf by (fastforce simp: list_all2_conv_all_nth in_set_conv_nth)
  moreover have "fst ` set checked \<subseteq> set es"
  proof -
    have "list_all2 (\<lambda>e x. fst x = e) es checked"
      using checked unfolding validate_each_def collect_results_Ok_iff
      by (rule list_all2_mono) (auto simp: result_iffs)
    then show ?thesis by (fastforce simp: list_all2_conv_all_nth in_set_conv_nth)
  qed
  ultimately have "settled_in t w" using apply_each_settled[OF w(1) ok] by blast
  then show ?thesis using cut_links_settled[OF _ w(2)] settled_ok settled_trans by blast
qed

end
