(* ===== verification/Shelf_Copies.thy ===== *)
theory Shelf_Copies
  imports Shelf_Runs
begin

section \<open>Curated shelves: duplicating one\<close>

text \<open>
  \<open>Command::Duplicate\<close>: the copy gets the members, exclusions, source links and origins of the
  original, the links one by one with new ids.
\<close>

lemma copied_members_ok:
  assumes ok: "members_ok gs ms" and n: "n \<notin> mr_shelf ` set ms"
  shows "members_ok (insert n gs) (ms @ map (\<lambda>m. m\<lparr>mr_shelf := n\<rparr>) (filter (\<lambda>m. mr_shelf m = g) ms))"
proof -
  let ?new = "map (\<lambda>m. m\<lparr>mr_shelf := n\<rparr>) (filter (\<lambda>m. mr_shelf m = g) ms)"
  have one: "x = y" if "x \<in> set ms" "y \<in> set ms" "mr_shelf x = g" "mr_shelf y = g" "mr_position x = mr_position y \<or> mr_uuid x = mr_uuid y" for x y
    using ok that member_seats.seats_ok_unique[of ms x y] by (auto simp: members_ok_def)
  have d: "distinct ms" using ok by (auto simp: members_ok_def seats_ok_def distinct_map)
  have "distinct (map (\<lambda>m. (mr_shelf m, mr_position m)) ?new)" "distinct (map (\<lambda>m. (mr_shelf m, mr_uuid m)) ?new)"
    using one d by (auto simp: distinct_map comp_def intro!: inj_onI)
  moreover have "set (map (\<lambda>m. (mr_shelf m, mr_position m)) ms) \<inter> set (map (\<lambda>m. (mr_shelf m, mr_position m)) ?new) = {}"
    "set (map (\<lambda>m. (mr_shelf m, mr_uuid m)) ms) \<inter> set (map (\<lambda>m. (mr_shelf m, mr_uuid m)) ?new) = {}"
    using n by force+
  ultimately have "seats_ok mr_shelf mr_uuid mr_position (ms @ ?new)"
    using ok unfolding members_ok_def seats_ok_def map_append distinct_append by auto
  then show ?thesis using ok by (auto simp: members_ok_def)
qed

lemma links_ok_snoc:
  assumes "links_ok gs cs" "sc_shelf c \<in> gs" "sc_id c \<notin> sc_id ` set cs" "sc_active c \<longrightarrow> sc_collection c \<noteq> None"
    and "\<And>d. d \<in> set cs \<Longrightarrow> sc_active c \<Longrightarrow> sc_active d \<Longrightarrow> sc_shelf d = sc_shelf c \<Longrightarrow> sc_collection d \<noteq> sc_collection c"
  shows "links_ok gs (cs @ [c])"
proof -
  have "(sc_shelf c, sc_collection c) \<notin> (\<lambda>c. (sc_shelf c, sc_collection c)) ` set (filter sc_active cs)" if "sc_active c"
    using assms(5)[OF _ that] by fastforce
  then show ?thesis using assms(1-4) by (auto simp: links_ok_def)
qed

definition copying :: "i64 \<Rightarrow> i64 \<Rightarrow> i64 list \<Rightarrow> shelf_tables \<Rightarrow> bool" where
  "copying g n ks t \<longleftrightarrow>
     shelves_ok t \<and> n \<in> shelf_ids t \<and> g \<noteq> n \<and> distinct ks
     \<and> (\<forall>u. (g, u) \<in> set (member_keys (tbl_members t)) \<longrightarrow> (n, u) \<in> set (member_keys (tbl_members t)))
     \<and> (\<forall>k \<in> set ks. (k, g) \<in> set (link_keys (tbl_sources t)))
     \<and> (\<forall>c \<in> set (tbl_sources t). \<forall>d \<in> set (tbl_sources t). sc_shelf c = n \<and> sc_active c \<and> sc_shelf d = g \<and> sc_active d
          \<and> sc_id d \<in> set ks \<longrightarrow> sc_collection d \<noteq> sc_collection c)"

lemma copy_source_step:
  assumes c: "copying g n (k # ks) t"
  shows "copying g n ks (copy_source g n k t) \<and> edit_ok n t (True, copy_source g n k t)"
proof -
  have ok: "shelves_ok t" and n: "n \<in> shelf_ids t" "g \<noteq> n" and ks: "distinct (k # ks)"
    and keys: "\<And>u. (g, u) \<in> set (member_keys (tbl_members t)) \<Longrightarrow> (n, u) \<in> set (member_keys (tbl_members t))"
    and there: "\<And>j. j \<in> set (k # ks) \<Longrightarrow> (j, g) \<in> set (link_keys (tbl_sources t))"
    and apart: "\<And>a d. a \<in> set (tbl_sources t) \<Longrightarrow> d \<in> set (tbl_sources t) \<Longrightarrow> sc_shelf a = n \<Longrightarrow> sc_active a \<Longrightarrow>
      sc_shelf d = g \<Longrightarrow> sc_active d \<Longrightarrow> sc_id d \<in> set (k # ks) \<Longrightarrow> sc_collection d \<noteq> sc_collection a"
    using c unfolding copying_def by blast+
  have links: "links_ok (shelf_ids t) (tbl_sources t)" using ok by (simp add: shelves_ok_def)
  obtain r where r: "r \<in> set (tbl_sources t)" "sc_id r = k" "sc_shelf r = g" using there[of k] by auto
  have at: "row_at sc_id k (tbl_sources t) = Some r"
    using row_at_unique[of sc_id "tbl_sources t" r] links r by (simp add: links_ok_def)
  define k' where "k' = next_after 0 (map sc_id (tbl_sources t))"
  define new where "new = r\<lparr>sc_id := k', sc_shelf := n\<rparr>"
  define os where "os = (\<lambda>x. (n, fst (snd x), k')) ` {x \<in> tbl_origins t. fst x = g \<and> snd (snd x) = k}"
  let ?v = "t\<lparr>tbl_sources := tbl_sources t @ [new], tbl_origins := tbl_origins t \<union> os\<rparr>"
  have v: "copy_source g n k t = ?v" by (simp add: copy_source_def at k'_def new_def os_def Let_def)
  have fresh: "k' \<notin> sc_id ` set (tbl_sources t)"
    using next_after_above[of k' "map sc_id (tbl_sources t)" 0] by (auto simp: k'_def)
  have "links_ok (shelf_ids t) (tbl_sources t @ [new])"
  proof (rule links_ok_snoc[OF links])
    show "sc_active new \<longrightarrow> sc_collection new \<noteq> None" using links r(1) by (simp add: links_ok_def new_def)
    show "sc_collection d \<noteq> sc_collection new"
      if "d \<in> set (tbl_sources t)" "sc_active new" "sc_active d" "sc_shelf d = sc_shelf new" for d
      using apart[OF that(1) r(1)] that r by (auto simp: new_def)
  qed (use n fresh in \<open>simp_all add: new_def\<close>)
  moreover have "origins_ok (member_keys (tbl_members t)) (link_keys (tbl_sources t @ [new])) (tbl_origins t \<union> os)"
  proof -
    have "(n, u) \<in> set (member_keys (tbl_members t))" if "(g, u, k) \<in> tbl_origins t" for u
      using keys that ok by (force simp: shelves_ok_def origins_ok_def)
    then have "origins_ok (member_keys (tbl_members t)) (link_keys (tbl_sources t @ [new])) os"
      by (force simp: origins_ok_def os_def new_def)
    moreover have "origins_ok (member_keys (tbl_members t)) (link_keys (tbl_sources t @ [new])) (tbl_origins t)"
      by (rule origins_ok_mono[of "member_keys (tbl_members t)" "link_keys (tbl_sources t)"])
        (use ok in \<open>auto simp: shelves_ok_def\<close>)
    ultimately show ?thesis by (auto simp: origins_ok_def)
  qed
  moreover have "finite (tbl_origins t \<union> os)" using ok by (simp add: shelves_ok_def os_def)
  ultimately have okv: "shelves_ok ?v" using ok by (simp add: shelves_ok_def)
  have "contents h ?v = contents h t" if "h \<noteq> n" for h
  proof -
    have "{x \<in> tbl_origins t \<union> os. fst x = h} = {x \<in> tbl_origins t. fst x = h}" using that by (auto simp: os_def)
    then show ?thesis using that by (simp add: contents_def members_of_def new_def)
  qed
  then have "edit_ok n t (True, ?v)" using okv by (simp add: edit_ok_def)
  moreover have "copying g n ks ?v"
  proof -
    have "sc_collection d \<noteq> sc_collection a"
      if a: "a \<in> set (tbl_sources t @ [new])" "sc_shelf a = n" "sc_active a"
        and d: "d \<in> set (tbl_sources t @ [new])" "sc_shelf d = g" "sc_active d" "sc_id d \<in> set ks" for a d
    proof -
      have dt: "d \<in> set (tbl_sources t)" using d(1,2) n(2) by (auto simp: new_def)
      show ?thesis
      proof (cases "a \<in> set (tbl_sources t)")
        case True
        then show ?thesis using apart[OF True dt] a d by simp
      next
        case False
        then have "a = new" using a(1) by simp
        then have act: "sc_active r" "sc_collection a = sc_collection r" using a(3) by (simp_all add: new_def)
        have "d \<noteq> r" using d(4) ks r(2) by auto
        moreover have "(sc_shelf d, sc_collection d) = (sc_shelf r, sc_collection r) \<Longrightarrow> d = r"
          using links dt r(1) act(1) d(3) by (simp add: links_ok_def distinct_map inj_on_def)
        ultimately show ?thesis using act(2) d(2) r(3) by auto
      qed
    qed
    then show ?thesis using okv n ks keys there unfolding copying_def by auto
  qed
  ultimately show ?thesis by (simp add: v)
qed

lemma copy_sources_grown:
  "copying g n ks u \<Longrightarrow> grown n t u \<Longrightarrow> grown n t (foldl (\<lambda>t k. copy_source g n k t) u ks)"
proof (induction ks arbitrary: u)
  case (Cons k ks)
  note step = copy_source_step[OF Cons.prems(1)]
  have "grown n t (copy_source g n k u)" using grown_edit[OF Cons.prems(2)] step by blast
  then show ?case using Cons.IH step by simp
qed simp

lemma duplicate_grown:
  assumes ok: "shelves_ok t" and c: "duplicate_shelf names lib g name t = Inr (s, v)"
  shows "\<exists>n. grown n t v"
proof -
  obtain q s1 u where q: "read_shelf lib g t = Inr q" and u: "insert_shelf names lib name t = Inr (s1, u)"
    using c by (auto simp: duplicate_shelf_def Let_def result_iffs)
  define n where "n = shelf_id s1"
  define w where "w = u\<lparr>tbl_members := tbl_members u @ map (\<lambda>m. m\<lparr>mr_shelf := n\<rparr>) (members_of g u),
    tbl_exclusions := tbl_exclusions u \<union> (\<lambda>x. (n, snd x)) ` {x \<in> tbl_exclusions u. fst x = g}\<rparr>"
  note ins = insert_shelf_grown[OF ok u, folded n_def]
  have g: "g \<in> shelf_ids t" using read_shelf_there[OF q] by simp
  then have gn: "g \<noteq> n" using ins(1) by (auto simp: grown_def)
  have oku: "shelves_ok u" and nu: "n \<in> shelf_ids u" and nt: "n \<notin> shelf_ids t"
    using ins(1) by (auto simp: grown_def shelf_change_def)
  have v: "v = foldl (\<lambda>t k. copy_source g n k t) w (map source_id (shelf_sources lib g False w))"
    using c u q by (auto simp: duplicate_shelf_def Let_def result_iffs n_def w_def foldl_map)
  note none = contents_outside[OF ok nt]
  have nm: "n \<notin> mr_shelf ` set (tbl_members u)" using none(1) ins(2) by (auto simp: members_of_def filter_empty_conv)
  have "members_ok (insert n (shelf_ids u)) (tbl_members w)"
    unfolding w_def using copied_members_ok[OF _ nm] oku by (simp add: shelves_ok_def members_of_def)
  then have ms: "members_ok (shelf_ids u) (tbl_members w)" using nu by (simp add: insert_absorb)
  have "origins_ok (member_keys (tbl_members w)) (link_keys (tbl_sources u)) (tbl_origins u)"
    by (rule origins_ok_mono[of "member_keys (tbl_members u)" "link_keys (tbl_sources u)"])
      (use oku in \<open>auto simp: shelves_ok_def w_def\<close>)
  moreover have "finite (tbl_exclusions w)" "fst ` tbl_exclusions w \<subseteq> shelf_ids u"
    using oku nu by (auto simp: shelves_ok_def w_def)
  ultimately have okw: "shelves_ok w" using oku ms by (simp add: shelves_ok_def w_def)
  have "contents h w = contents h u" if h: "h \<noteq> n" for h
  proof -
    have "members_of h w = members_of h u" using h by (simp add: members_of_def w_def filter_map comp_def)
    moreover have "{x \<in> tbl_exclusions w. fst x = h} = {x \<in> tbl_exclusions u. fst x = h}" using h by (auto simp: w_def)
    ultimately show ?thesis by (simp add: contents_def w_def)
  qed
  then have "edit_ok n u (True, w)" using okw by (simp add: edit_ok_def w_def)
  then have gw: "grown n t w" using grown_edit[OF ins(1)] by blast
  have "filter (\<lambda>c. sc_shelf c = n) (tbl_sources w) = []" using none(2) ins(3) by (simp add: w_def)
  then have no: "sc_shelf c \<noteq> n" if "c \<in> set (tbl_sources w)" for c using that by (simp add: filter_empty_conv)
  let ?rows = "sort_key sc_id (filter (\<lambda>c. sc_shelf c = g) (tbl_sources w))"
  have ids: "map source_id (shelf_sources lib g False w) = map sc_id ?rows"
    by (simp add: shelf_sources_def plain_source_def)
  have "distinct (map sc_id (tbl_sources w))" using okw by (simp add: shelves_ok_def links_ok_def)
  then have "distinct (map sc_id ?rows)" by (auto simp: distinct_map inj_on_def)
  moreover have "(k, g) \<in> set (link_keys (tbl_sources w))" if "k \<in> set (map sc_id ?rows)" for k
    using that by auto
  moreover have "(n, x) \<in> set (member_keys (tbl_members w))" if x: "(g, x) \<in> set (member_keys (tbl_members w))" for x
  proof -
    obtain m where m: "m \<in> set (tbl_members u)" "mr_shelf m = g" "mr_uuid m = x"
      using x gn by (auto simp: w_def)
    then have "m\<lparr>mr_shelf := n\<rparr> \<in> set (tbl_members w)" by (auto simp: w_def members_of_def)
    then have "(\<lambda>m. (mr_shelf m, mr_uuid m)) (m\<lparr>mr_shelf := n\<rparr>) \<in> set (member_keys (tbl_members w))"
      unfolding set_map by (rule imageI)
    then show ?thesis using m(3) by simp
  qed
  moreover have "n \<in> shelf_ids w" using nu by (simp add: w_def)
  ultimately have "copying g n (map sc_id ?rows) w" using okw gn no unfolding copying_def by auto
  then show ?thesis using copy_sources_grown[OF _ gw] unfolding v ids by blast
qed

end
