(* ===== verification/Shelf_Tickets.thy ===== *)
theory Shelf_Tickets
  imports Shelf_Copies
begin

section \<open>Curated shelves: review tickets\<close>

text \<open>
  \<open>shelves/tickets.rs\<close>: a review hands out a ticket that is good for one attempt. An \<open>Arc\<close> of a ticket
  outlives the registry; \<open>reg_all\<close> holds every ticket by its identity and \<open>reg_queue\<close> is the deque of the
  registry. Time is a number of milliseconds; \<open>saturating_duration_since\<close> is subtraction on \<open>nat\<close>.
\<close>

datatype ticket_kind = Tk_create | Tk_update | Tk_sources | Tk_delete_collection | Tk_curation

record ticket =
  tk_kind :: ticket_kind
  tk_target :: i64
  tk_shelves :: "i64 list"
  tk_issued :: nat
  tk_live :: bool

record registry =
  reg_all :: "ticket list"
  reg_queue :: "nat list"

definition ticket_limit :: nat where
  "ticket_limit = 64"

definition ticket_lifetime :: nat where
  "ticket_lifetime = 15 * 60 * 1000"

definition is_live :: "registry \<Rightarrow> nat \<Rightarrow> bool" where
  "is_live r k \<longleftrightarrow> k < length (reg_all r) \<and> tk_live (reg_all r ! k)"

definition kill :: "(nat \<Rightarrow> bool) \<Rightarrow> registry \<Rightarrow> registry" where
  "kill p r = r\<lparr>reg_all := map (\<lambda>k. if k \<in> set (reg_queue r) \<and> p k then (reg_all r ! k)\<lparr>tk_live := False\<rparr> else reg_all r ! k)
     [0..<length (reg_all r)], reg_queue := filter (\<lambda>k. \<not> p k) (reg_queue r)\<rparr>"

definition still_valid :: "nat \<Rightarrow> registry \<Rightarrow> nat \<Rightarrow> bool" where
  "still_valid now r k \<longleftrightarrow> is_live r k \<and> now - tk_issued (reg_all r ! k) < ticket_lifetime"

text \<open>\<open>issue_at\<close>: dead and old tickets leave, then the oldest while the limit is reached.\<close>

definition evicted :: "registry \<Rightarrow> nat list" where
  "evicted r = take (Suc (length (reg_queue r)) - ticket_limit) (reg_queue r)"

definition issue_at :: "ticket_kind \<Rightarrow> i64 \<Rightarrow> i64 list \<Rightarrow> nat \<Rightarrow> registry \<Rightarrow> nat \<times> registry" where
  "issue_at kind target shelves now r =
     (let r = kill (\<lambda>k. \<not> still_valid now r k) r;
          r = kill (\<lambda>k. k \<in> set (evicted r)) r;
          k = length (reg_all r)
      in (k, \<lparr>reg_all = reg_all r @ [\<lparr>tk_kind = kind, tk_target = target, tk_shelves = shelves, tk_issued = now, tk_live = True\<rparr>],
              reg_queue = reg_queue r @ [k]\<rparr>))"

definition claim_at :: "nat \<Rightarrow> ticket_kind \<Rightarrow> i64 \<Rightarrow> nat \<Rightarrow> registry \<Rightarrow> bool \<times> registry" where
  "claim_at k kind target now r =
     (if \<not> k < length (reg_all r) \<or> tk_kind (reg_all r ! k) \<noteq> kind \<or> tk_target (reg_all r ! k) \<noteq> target
         \<or> ticket_lifetime \<le> now - tk_issued (reg_all r ! k)
      then (False, r)
      else (tk_live (reg_all r ! k), r\<lparr>reg_all := (reg_all r)[k := (reg_all r ! k)\<lparr>tk_live := False\<rparr>]\<rparr>))"

definition withdraw_shelf :: "i64 \<Rightarrow> registry \<Rightarrow> registry" where
  "withdraw_shelf g r = kill (\<lambda>k. g \<in> set (tk_shelves (reg_all r ! k))) r"

subsection \<open>At most 64 live tickets, each for one claim\<close>

definition registry_ok :: "registry \<Rightarrow> bool" where
  "registry_ok r \<longleftrightarrow>
     distinct (reg_queue r) \<and> length (reg_queue r) \<le> ticket_limit \<and> set (reg_queue r) \<subseteq> {..<length (reg_all r)}
     \<and> (\<forall>k. is_live r k \<longrightarrow> k \<in> set (reg_queue r))"

lemma kill_all [simp]:
  "length (reg_all (kill p r)) = length (reg_all r)" "reg_queue (kill p r) = filter (\<lambda>k. \<not> p k) (reg_queue r)"
  by (simp_all add: kill_def)

lemma kill_ticket:
  "k < length (reg_all r) \<Longrightarrow> tk_shelves (reg_all (kill p r) ! k) = tk_shelves (reg_all r ! k)
     \<and> tk_kind (reg_all (kill p r) ! k) = tk_kind (reg_all r ! k) \<and> tk_target (reg_all (kill p r) ! k) = tk_target (reg_all r ! k)"
  by (simp add: kill_def)

lemma kill_live: "is_live (kill p r) k \<longleftrightarrow> is_live r k \<and> \<not> (k \<in> set (reg_queue r) \<and> p k)"
  by (auto simp: is_live_def kill_def split: if_splits)

lemma kill_ok: "registry_ok r \<Longrightarrow> registry_ok (kill p r)"
  using order_trans[OF length_filter_le[of "\<lambda>k. \<not> p k" "reg_queue r"]]
  by (auto simp: registry_ok_def kill_live)

lemma evicted_room:
  assumes "registry_ok r"
  shows "length (filter (\<lambda>k. k \<notin> set (evicted r)) (reg_queue r)) < ticket_limit"
proof -
  let ?n = "Suc (length (reg_queue r)) - ticket_limit"
  have d: "distinct (take ?n (reg_queue r) @ drop ?n (reg_queue r))" using assms by (simp add: registry_ok_def)
  have "filter (\<lambda>k. k \<notin> set (evicted r)) (take ?n (reg_queue r) @ drop ?n (reg_queue r)) = drop ?n (reg_queue r)"
    using d unfolding evicted_def filter_append distinct_append by (auto simp: filter_empty_conv intro!: filter_True)
  then have "length (filter (\<lambda>k. k \<notin> set (evicted r)) (reg_queue r)) = length (reg_queue r) - ?n" by simp
  then show ?thesis by (simp add: ticket_limit_def)
qed

lemma issue_facts:
  assumes ok: "registry_ok r" and i: "issue_at kind target shelves now r = (k, v)"
  shows "registry_ok v" "k = length (reg_all r)" "length (reg_all v) = Suc (length (reg_all r))"
    and "\<And>j. j < length (reg_all r) \<Longrightarrow> is_live v j \<Longrightarrow> is_live r j"
    and "\<And>j. j < length (reg_all r) \<Longrightarrow> tk_shelves (reg_all v ! j) = tk_shelves (reg_all r ! j)
      \<and> tk_kind (reg_all v ! j) = tk_kind (reg_all r ! j) \<and> tk_target (reg_all v ! j) = tk_target (reg_all r ! j)"
    and "reg_all v ! k = \<lparr>tk_kind = kind, tk_target = target, tk_shelves = shelves, tk_issued = now, tk_live = True\<rparr>"
proof -
  define a where "a = kill (\<lambda>k. \<not> still_valid now r k) r"
  define b where "b = kill (\<lambda>k. k \<in> set (evicted a)) a"
  have a: "registry_ok a" "length (reg_all a) = length (reg_all r)" using kill_ok[OF ok] by (simp_all add: a_def)
  have b: "registry_ok b" "length (reg_all b) = length (reg_all r)" using kill_ok[OF a(1)] a(2) by (simp_all add: b_def)
  have room: "length (reg_queue b) < ticket_limit" using evicted_room[OF a(1)] by (simp add: b_def)
  let ?new = "\<lparr>tk_kind = kind, tk_target = target, tk_shelves = shelves, tk_issued = now, tk_live = True\<rparr>"
  have k: "k = length (reg_all r)" and v: "v = \<lparr>reg_all = reg_all b @ [?new], reg_queue = reg_queue b @ [k]\<rparr>"
    using i b(2) by (auto simp: issue_at_def Let_def a_def b_def)
  have live: "is_live v j \<longleftrightarrow> is_live b j \<or> j = k" for j
    using b(2) k by (auto simp: is_live_def v nth_append)
  show "registry_ok v"
    using b room k unfolding registry_ok_def live by (auto simp: v)
  show "k = length (reg_all r)" "length (reg_all v) = Suc (length (reg_all r))" using k b(2) by (simp_all add: v)
  show "is_live r j" if "j < length (reg_all r)" "is_live v j" for j
    using that k unfolding live b_def a_def kill_live by auto
  show "tk_shelves (reg_all v ! j) = tk_shelves (reg_all r ! j)
      \<and> tk_kind (reg_all v ! j) = tk_kind (reg_all r ! j) \<and> tk_target (reg_all v ! j) = tk_target (reg_all r ! j)"
    if "j < length (reg_all r)" for j
    using that kill_ticket[of j r] kill_ticket[of j a] a(2) b(2) by (simp add: v nth_append b_def a_def)
  show "reg_all v ! k = ?new" using b(2) k by (simp add: v nth_append)
qed

lemma claim_facts:
  assumes ok: "registry_ok r" and c: "claim_at k kind target now r = (won, v)"
  shows "registry_ok v" "length (reg_all v) = length (reg_all r)"
    and "\<And>j. is_live v j \<Longrightarrow> is_live r j"
    and "\<And>j. j < length (reg_all r) \<Longrightarrow> tk_shelves (reg_all v ! j) = tk_shelves (reg_all r ! j)
      \<and> tk_kind (reg_all v ! j) = tk_kind (reg_all r ! j) \<and> tk_target (reg_all v ! j) = tk_target (reg_all r ! j)"
    and "won \<Longrightarrow> is_live r k \<and> \<not> is_live v k \<and> tk_kind (reg_all r ! k) = kind \<and> tk_target (reg_all r ! k) = target"
proof -
  have v: "v = r \<or> v = r\<lparr>reg_all := (reg_all r)[k := (reg_all r ! k)\<lparr>tk_live := False\<rparr>]\<rparr>"
    using c by (auto simp: claim_at_def split: if_splits)
  have live: "is_live v j \<Longrightarrow> is_live r j" for j
    using v by (cases "j = k") (auto simp: is_live_def)
  then show "is_live v j \<Longrightarrow> is_live r j" for j .
  show "length (reg_all v) = length (reg_all r)" using v by auto
  then show "registry_ok v" using ok live v by (auto simp: registry_ok_def)
  show "tk_shelves (reg_all v ! j) = tk_shelves (reg_all r ! j)
      \<and> tk_kind (reg_all v ! j) = tk_kind (reg_all r ! j) \<and> tk_target (reg_all v ! j) = tk_target (reg_all r ! j)"
    if "j < length (reg_all r)" for j
    using v that by (cases "j = k") auto
  show "is_live r k \<and> \<not> is_live v k \<and> tk_kind (reg_all r ! k) = kind \<and> tk_target (reg_all r ! k) = target" if won
    using that c by (auto simp: claim_at_def is_live_def split: if_splits)
qed

lemma withdraw_facts:
  assumes ok: "registry_ok r"
  shows "registry_ok (withdraw_shelf g r)" "length (reg_all (withdraw_shelf g r)) = length (reg_all r)"
    and "is_live (withdraw_shelf g r) k \<Longrightarrow> is_live r k \<and> g \<notin> set (tk_shelves (reg_all r ! k))"
    and "k < length (reg_all r) \<Longrightarrow> tk_shelves (reg_all (withdraw_shelf g r) ! k) = tk_shelves (reg_all r ! k)"
  using kill_ok[OF ok] ok kill_ticket[of k r] by (auto simp: withdraw_shelf_def kill_live registry_ok_def)

end
