(* ===== verification/Shelf_System.thy ===== *)
theory Shelf_System
  imports Shelf_Tickets
begin

section \<open>Curated shelves: reviews and changes over time\<close>

text \<open>
  All calls on the shelves of an open library in any order, under any behaviour of the database: the
  tables, the ticket registry and the curation plans that were handed out. A call may first claim a
  ticket; a reviewed call of the curation then compares the revision of its plan. What the rest of the
  library holds (\<open>lib\<close>) may be different at every call.
\<close>

datatype 'd shelf_call =
  Do_command shelf_command
| Do_curate i64 curation
| Do_add_guarded i64 "(i64 \<times> string) list"
| Do_attach i64 "i64 list"
| Do_create string "i64 list" "string list" 'd "string list"
| Do_updates i64 'd "decision list"
| Do_change i64 "i64 list" 'd bool "decision list"
| Do_delete_linked i64 'd bool "(i64 \<times> decision list) list"
| Do_unlink i64

record 'd shelf_env =
  env_names :: name_rule
  env_canonical :: "string \<Rightarrow> string option"
  env_digest :: "'d evidence \<Rightarrow> 'd"

definition forget_answer :: "storage_error + 'a \<times> shelf_tables \<Rightarrow> storage_error + unit \<times> shelf_tables" where
  "forget_answer r = and_then r (\<lambda>(_, t). Inr ((), t))"

fun call_body ::
    "'d shelf_env \<Rightarrow> (i64 \<times> string \<Rightarrow> bool) \<Rightarrow> library_view \<Rightarrow> 'd shelf_call \<Rightarrow> shelf_tables \<Rightarrow> storage_error + unit \<times> shelf_tables" where
  "call_body E present lib (Do_command c) t = forget_answer (execute_shelves (env_names E) lib c t)"
| "call_body E present lib (Do_curate g a) t = forget_answer (curate lib g a t)"
| "call_body E present lib (Do_add_guarded g targets) t = forget_answer (add_guarded (env_canonical E) present lib g targets t)"
| "call_body E present lib (Do_attach g ks) t = forget_answer (attach_shelf_sources lib g ks t)"
| "call_body E present lib (Do_create name ks manual seen selected) t =
     forget_answer (create_reviewed (env_digest E) (env_names E) lib name ks manual seen selected t)"
| "call_body E present lib (Do_updates g seen ds) t = forget_answer (apply_updates (env_digest E) lib g seen ds t)"
| "call_body E present lib (Do_change g desired seen all ds) t =
     forget_answer (change_sources (env_digest E) lib g desired seen all ds t)"
| "call_body E present lib (Do_delete_linked k seen all groups) t =
     forget_answer (delete_linked (env_digest E) lib k seen all groups t)"
| "call_body E present lib (Do_unlink k) t = and_then (cut_links k t) (\<lambda>t. Inr ((), t))"

text \<open>\<open>read(tx, id)?.revision != plan.shelf.revision\<close>, where the call compares.\<close>

definition compared_body ::
    "'d shelf_env \<Rightarrow> (i64 \<times> string \<Rightarrow> bool) \<Rightarrow> library_view \<Rightarrow> (i64 \<times> i64) option \<Rightarrow> 'd shelf_call \<Rightarrow> shelf_tables \<Rightarrow> storage_error + unit \<times> shelf_tables" where
  "compared_body E present lib planned c t =
     (case planned of
        None \<Rightarrow> call_body E present lib c t
      | Some (g, revision) \<Rightarrow>
          and_then (read_shelf lib g t) (\<lambda>s.
            if shelf_revision s \<noteq> revision then Inl (shelf_refused StaleReview) else call_body E present lib c t))"

record curation_plan =
  pl_ticket :: nat
  pl_shelf :: i64
  pl_revision :: i64
  pl_seen :: shelf_tables

record shelf_world =
  sw_tables :: shelf_tables
  sw_registry :: registry
  sw_plans :: "curation_plan list"

text \<open>Whether the body ran to its end is settled by the weather only where it committed.\<close>

definition may_run :: "weather \<Rightarrow> bool \<Rightarrow> bool" where
  "may_run w reached \<longleftrightarrow>
     (case w of Commits \<Rightarrow> reached | Commit_lost _ \<Rightarrow> reached | Worker_lost b \<Rightarrow> b \<longrightarrow> reached | Refused _ \<Rightarrow> \<not> reached | _ \<Rightarrow> True)"

definition claim_first :: "bool \<Rightarrow> (nat \<times> ticket_kind \<times> i64) option \<Rightarrow> nat \<Rightarrow> registry \<Rightarrow> bool \<times> registry" where
  "claim_first reached ticket now r =
     (case ticket of Some (k, kind, target) \<Rightarrow> if reached then claim_at k kind target now r else (True, r) | None \<Rightarrow> (True, r))"

text \<open>\<open>Command::Delete\<close> withdraws the tickets of the shelf once it has deleted the row, committed or not.\<close>

definition after_delete :: "bool \<Rightarrow> 'd shelf_call \<Rightarrow> registry \<Rightarrow> registry" where
  "after_delete reached c r = (case c of Do_command (Delete_shelf g) \<Rightarrow> if reached then withdraw_shelf g r else r | _ \<Rightarrow> r)"

inductive shelf_step :: "'d shelf_env \<Rightarrow> shelf_world \<Rightarrow> (nat \<times> bool) option \<Rightarrow> shelf_world \<Rightarrow> bool" for E where
  calls: "may_run w reached \<Longrightarrow> claim_first reached ticket now (sw_registry x) = (won, r) \<Longrightarrow>
      transact w (if won then compared_body E present lib planned c else (\<lambda>_. Inl (shelf_refused StaleReview))) (sw_tables x) = (out, t) \<Longrightarrow>
      shelf_step E x (case ticket of Some (k, _) \<Rightarrow> Some (k, reached \<and> won) | None \<Rightarrow> None)
        (x\<lparr>sw_tables := t, sw_registry := if won then after_delete (reached \<and> (t \<noteq> sw_tables x \<or> deletes)) c r else r\<rparr>)"
| snapshots: "read_shelf lib g (sw_tables x) = Inr s \<Longrightarrow> issue_at Tk_curation g [g] now (sw_registry x) = (k, r) \<Longrightarrow>
      shelf_step E x None
        (x\<lparr>sw_registry := r,
           sw_plans := sw_plans x @ [\<lparr>pl_ticket = k, pl_shelf = g, pl_revision = shelf_revision s, pl_seen = sw_tables x\<rparr>]\<rparr>)"
| previews: "kind \<noteq> Tk_curation \<Longrightarrow> issue_at kind target shelves now (sw_registry x) = (k, r) \<Longrightarrow>
      shelf_step E x None (x\<lparr>sw_registry := r\<rparr>)"

inductive_cases shelf_stepE: "shelf_step E x e y"

subsection \<open>Every body\<close>

definition command_deletes :: "shelf_command \<Rightarrow> i64 set" where
  "command_deletes c = (case c of Delete_shelf g \<Rightarrow> {g} | _ \<Rightarrow> {})"

definition deleted_by :: "'d shelf_call \<Rightarrow> i64 set" where
  "deleted_by c = (case c of Do_command x \<Rightarrow> command_deletes x | _ \<Rightarrow> {})"

lemma forget_answer_Ok: "forget_answer r = Inr (u, t) \<longleftrightarrow> (\<exists>a. r = Inr (a, t))"
  by (auto simp: forget_answer_def result_iffs)

lemma settled_change: "settled_in t v \<Longrightarrow> shelf_change t v \<and> shelf_ids t \<subseteq> shelf_ids v"
  by (simp add: settled_in_def)

lemma grown_change: "\<exists>n. grown n t v \<Longrightarrow> shelf_change t v \<and> shelf_ids t \<subseteq> shelf_ids v"
  by (auto simp: grown_def)

lemma command_change:
  assumes ok: "shelves_ok t" and c: "execute_shelves names lib c t = Inr (a, v)"
  shows "shelf_change t v \<and> shelf_ids t - command_deletes c \<subseteq> shelf_ids v"
proof (cases c)
  case (Create_shelf name)
  then obtain s where "insert_shelf names lib name t = Inr (s, v)" using c by (auto simp: execute_shelves_def result_iffs)
  then show ?thesis using grown_change insert_shelf_grown(1)[OF ok] by blast
next
  case (Rename_shelf g name)
  then obtain s where "rename_shelf names lib g name t = Inr (s, v)" using c by (auto simp: execute_shelves_def result_iffs)
  then show ?thesis using settled_change rename_settled[OF ok] by blast
next
  case (Duplicate_shelf g name)
  then obtain s where "duplicate_shelf names lib g name t = Inr (s, v)" using c by (auto simp: execute_shelves_def result_iffs)
  then show ?thesis using grown_change duplicate_grown[OF ok] by blast
next
  case (Reorder_shelves ids)
  then obtain s where "reorder_shelves lib ids t = Inr (s, v)" using c by (auto simp: execute_shelves_def result_iffs)
  then show ?thesis using settled_change reorder_shelves_settled[OF ok] by blast
next
  case (Delete_shelf g)
  then have "v = delete_shelf g t" using c by (auto simp: execute_shelves_def result_iffs)
  then show ?thesis using delete_shelf_ok[OF ok] Delete_shelf by (simp add: command_deletes_def)
qed

lemma body_change:
  assumes ok: "shelves_ok t" and c: "call_body E present lib c t = Inr (u, v)"
  shows "shelf_change t v \<and> shelf_ids t - deleted_by c \<subseteq> shelf_ids v"
proof (cases c)
  case (Do_command x)
  then show ?thesis using command_change[OF ok] c by (fastforce simp: forget_answer_Ok deleted_by_def)
next
  case (Do_create name ks manual seen selected)
  then show ?thesis using grown_change create_reviewed_grown[OF ok] c by (fastforce simp: forget_answer_Ok)
next
  case (Do_unlink k)
  then have "cut_links k t = Inr v" using c by (auto simp: result_iffs)
  then show ?thesis using settled_change[OF cut_links_settled[OF ok]] by blast
next
  case (Do_delete_linked k seen all groups)
  then obtain y where "delete_linked (env_digest E) lib k seen all groups t = Inr (y, v)"
    using c by (auto simp: forget_answer_Ok)
  then show ?thesis using settled_change delete_linked_settled[OF ok, of "env_digest E" lib k seen all groups y v] by blast
qed (use c ok curate_settled add_guarded_settled attach_settled apply_updates_settled change_sources_settled settled_change
  in \<open>fastforce simp: forget_answer_Ok\<close>)+

lemma compared_change:
  assumes ok: "shelves_ok t" and c: "compared_body E present lib planned c t = Inr (u, v)"
  shows "shelf_change t v \<and> shelf_ids t - deleted_by c \<subseteq> shelf_ids v"
proof -
  have "call_body E present lib c t = Inr (u, v)"
    using c by (auto simp: compared_body_def result_iffs split: option.splits if_splits)
  then show ?thesis using body_change[OF ok] by blast
qed

text \<open>A call leaves the tables alone, or its body ran and made them.\<close>

lemma transact_ran:
  assumes "transact w body t = (out, v)" "may_run w reached"
  shows "v = t \<or> (reached \<and> (\<exists>u. body t = Inr (u, v)))"
  using assms by (auto simp: transact_def may_run_def split: weather.splits sum.splits if_splits)

subsection \<open>The invariant\<close>

definition still_as_seen :: "i64 \<Rightarrow> i64 \<Rightarrow> shelf_tables \<Rightarrow> shelf_tables \<Rightarrow> bool" where
  "still_as_seen g revision seen t \<longleftrightarrow>
     (\<exists>b. revision_of g t = Some b \<and> revision \<le> b \<and> (revision = b \<longrightarrow> same_shelf g seen t))"

definition plan_ok :: "shelf_tables \<Rightarrow> registry \<Rightarrow> curation_plan \<Rightarrow> bool" where
  "plan_ok t r p \<longleftrightarrow>
     pl_ticket p < length (reg_all r) \<and> tk_shelves (reg_all r ! pl_ticket p) = [pl_shelf p]
     \<and> (is_live r (pl_ticket p) \<longrightarrow> still_as_seen (pl_shelf p) (pl_revision p) (pl_seen p) t)"

definition shelf_inv :: "shelf_world \<Rightarrow> bool" where
  "shelf_inv x \<longleftrightarrow>
     shelves_ok (sw_tables x) \<and> registry_ok (sw_registry x) \<and> (\<forall>p \<in> set (sw_plans x). plan_ok (sw_tables x) (sw_registry x) p)"

definition shelf_start :: "shelf_world \<Rightarrow> bool" where
  "shelf_start x \<longleftrightarrow> shelves_ok (sw_tables x) \<and> sw_registry x = \<lparr>reg_all = [], reg_queue = []\<rparr> \<and> sw_plans x = []"

lemma still_as_seen_change:
  assumes "still_as_seen g ver seen t" "shelf_change t v" "g \<in> shelf_ids v"
  shows "still_as_seen g ver seen v"
proof -
  obtain b where b: "revision_of g t = Some b" "ver \<le> b" "ver = b \<longrightarrow> same_shelf g seen t"
    using assms(1) by (auto simp: still_as_seen_def)
  obtain a where a: "revision_of g v = Some a" using assms(3) revision_of_None[of g v] by blast
  have "b \<le> a \<and> (b = a \<longrightarrow> same_shelf g t v)" using assms(2) b(1) a by (simp add: shelf_change_def)
  then show ?thesis using a b same_shelf_trans by (auto simp: still_as_seen_def)
qed

lemma plan_ok_registry:
  assumes "plan_ok t r p" "length (reg_all v) \<ge> length (reg_all r)"
    and "\<And>k. k < length (reg_all r) \<Longrightarrow> is_live v k \<Longrightarrow> is_live r k"
    and "\<And>k. k < length (reg_all r) \<Longrightarrow> tk_shelves (reg_all v ! k) = tk_shelves (reg_all r ! k)"
  shows "plan_ok t v p"
  using assms by (auto simp: plan_ok_def)

lemma after_delete_facts:
  assumes "registry_ok r"
  shows "registry_ok (after_delete b c r)" "length (reg_all (after_delete b c r)) = length (reg_all r)"
    and "is_live (after_delete b c r) k \<Longrightarrow> is_live r k"
    and "k < length (reg_all r) \<Longrightarrow> tk_shelves (reg_all (after_delete b c r) ! k) = tk_shelves (reg_all r ! k)"
    and "b \<Longrightarrow> g \<in> deleted_by c \<Longrightarrow> is_live (after_delete b c r) k \<Longrightarrow> g \<notin> set (tk_shelves (reg_all r ! k))"
  using assms withdraw_facts[OF assms]
  by (auto simp: after_delete_def deleted_by_def command_deletes_def split: shelf_call.splits shelf_command.splits if_splits)

lemma claim_first_facts:
  assumes "registry_ok r" "claim_first reached ticket now r = (won, v)"
  shows "registry_ok v" "length (reg_all v) = length (reg_all r)"
    and "\<And>k. is_live v k \<Longrightarrow> is_live r k"
    and "\<And>k. k < length (reg_all r) \<Longrightarrow> tk_shelves (reg_all v ! k) = tk_shelves (reg_all r ! k)"
    and "\<And>k kd. ticket = Some (k, kd) \<Longrightarrow> reached \<Longrightarrow> won \<Longrightarrow> is_live r k \<and> \<not> is_live v k"
  using assms claim_facts[OF assms(1)] by (auto simp: claim_first_def split: option.splits if_splits)

lemma shelf_step_inv:
  assumes "shelf_step E x e y" "shelf_inv x"
  shows "shelf_inv y"
  using assms
proof (induction rule: shelf_step.cases)
  case (calls w reached ticket now x won r present lib planned c out t deletes)
  have ok: "shelves_ok (sw_tables x)" and reg: "registry_ok (sw_registry x)"
    and plans: "\<And>p. p \<in> set (sw_plans x) \<Longrightarrow> plan_ok (sw_tables x) (sw_registry x) p"
    using calls.prems calls.hyps(1) by (auto simp: shelf_inv_def)
  note claim = claim_first_facts[OF reg calls.hyps(5)]
  define q where "q = (if won then after_delete (reached \<and> (t \<noteq> sw_tables x \<or> deletes)) c r else r)"
  have live_r: "is_live q k \<Longrightarrow> is_live r k" for k
    using after_delete_facts(3)[OF claim(1)] unfolding q_def by (cases won) simp_all
  have q1: "registry_ok q" unfolding q_def using after_delete_facts(1)[OF claim(1)] claim(1) by (cases won) simp_all
  have q2: "length (reg_all q) = length (reg_all (sw_registry x))"
    unfolding q_def using after_delete_facts(2)[OF claim(1)] claim(2) by (cases won) simp_all
  have q3: "is_live (sw_registry x) k" if "is_live q k" for k using claim(3)[OF live_r[OF that]] .
  have q4: "tk_shelves (reg_all q ! k) = tk_shelves (reg_all (sw_registry x) ! k)" if k: "k < length (reg_all (sw_registry x))" for k
  proof -
    have "tk_shelves (reg_all q ! k) = tk_shelves (reg_all r ! k)"
      unfolding q_def using after_delete_facts(4)[OF claim(1)] claim(2) k by (cases won) simp_all
    then show ?thesis using claim(4)[OF k] by simp
  qed
  note q = q1 q2 q3 q4
  have ran: "t = sw_tables x \<or> (reached \<and> won \<and> (\<exists>u. compared_body E present lib planned c (sw_tables x) = Inr (u, t)))"
    using transact_ran[OF calls.hyps(6,4)] by (auto split: if_splits)
  have okt: "shelves_ok t"
    using ran ok compared_change[OF ok, of E present lib planned c _ t] unfolding shelf_change_def by blast
  have "plan_ok t q p" if p: "p \<in> set (sw_plans x)" for p
  proof (cases "t = sw_tables x")
    case True
    then show ?thesis using plan_ok_registry[OF plans[OF p]] q by simp
  next
    case False
    then obtain u where run: "reached" "won" "compared_body E present lib planned c (sw_tables x) = Inr (u, t)" using ran by blast
    have "still_as_seen (pl_shelf p) (pl_revision p) (pl_seen p) t" if live: "is_live q (pl_ticket p)"
    proof (rule still_as_seen_change)
      show "still_as_seen (pl_shelf p) (pl_revision p) (pl_seen p) (sw_tables x)"
        using plans[OF p] q(3)[OF live] by (simp add: plan_ok_def)
      then have "pl_shelf p \<in> shelf_ids (sw_tables x)"
        using revision_of_None[of "pl_shelf p" "sw_tables x"] by (auto simp: still_as_seen_def)
      moreover have "pl_shelf p \<notin> deleted_by c"
      proof
        assume del: "pl_shelf p \<in> deleted_by c"
        have "q = after_delete True c r" using run(1,2) False by (simp add: q_def)
        then have "pl_shelf p \<notin> set (tk_shelves (reg_all r ! pl_ticket p))"
          using after_delete_facts(5)[OF claim(1) _ del, of True "pl_ticket p"] live by simp
        moreover have "tk_shelves (reg_all r ! pl_ticket p) = [pl_shelf p]"
          using plans[OF p] claim(4) by (simp add: plan_ok_def)
        ultimately show False by simp
      qed
      ultimately show "shelf_change (sw_tables x) t" "pl_shelf p \<in> shelf_ids t"
        using compared_change[OF ok run(3)] by auto
    qed
    then show ?thesis using plans[OF p] q(2,4) by (simp add: plan_ok_def)
  qed
  then show ?case using okt q(1) calls.hyps(3) by (auto simp: shelf_inv_def q_def)
next
  case (snapshots lib g x s now k r)
  have ok: "shelves_ok (sw_tables x)" and reg: "registry_ok (sw_registry x)"
    and plans: "\<And>p. p \<in> set (sw_plans x) \<Longrightarrow> plan_ok (sw_tables x) (sw_registry x) p"
    using snapshots.prems snapshots.hyps(1) by (auto simp: shelf_inv_def)
  note issue = issue_facts[OF reg snapshots.hyps(5)]
  have old: "plan_ok (sw_tables x) r p" if "p \<in> set (sw_plans x)" for p
    using plan_ok_registry[OF plans[OF that]] issue by simp
  have "revision_of g (sw_tables x) = Some (shelf_revision s)"
    using snapshots.hyps(4) by (auto simp: read_shelf_def revision_of_def shelf_of_row_def Let_def split: option.splits)
  then have "plan_ok (sw_tables x) r \<lparr>pl_ticket = k, pl_shelf = g, pl_revision = shelf_revision s, pl_seen = sw_tables x\<rparr>"
    using issue(2,3,6) by (simp add: plan_ok_def still_as_seen_def same_shelf_def)
  then show ?case using ok issue(1) old snapshots.hyps(3) by (auto simp: shelf_inv_def)
next
  case (previews kind target shelves now x k r)
  have ok: "shelves_ok (sw_tables x)" and reg: "registry_ok (sw_registry x)"
    and plans: "\<And>p. p \<in> set (sw_plans x) \<Longrightarrow> plan_ok (sw_tables x) (sw_registry x) p"
    using previews.prems previews.hyps(1) by (auto simp: shelf_inv_def)
  note issue = issue_facts[OF reg previews.hyps(5)]
  have "plan_ok (sw_tables x) r p" if "p \<in> set (sw_plans x)" for p
    using plan_ok_registry[OF plans[OF that]] issue by simp
  then show ?case using ok issue(1) previews.hyps(3) by (auto simp: shelf_inv_def)
qed

interpretation shelves: safe_system shelf_start "shelf_step E" shelf_inv for E
proof
  show "shelf_inv x" if "shelf_start x" for x
    using that by (simp add: shelf_start_def shelf_inv_def registry_ok_def is_live_def)
  show "shelf_inv y" if "shelf_step E x e y" "shelf_inv x" for x e y
    using shelf_step_inv that by blast
qed

subsection \<open>Tickets over time\<close>

lemma step_tickets:
  assumes "shelf_step E x e y" "shelf_inv x"
  shows "length (reg_all (sw_registry x)) \<le> length (reg_all (sw_registry y))
    \<and> (\<forall>k < length (reg_all (sw_registry x)). is_live (sw_registry y) k \<longrightarrow> is_live (sw_registry x) k)
    \<and> (\<forall>k. e = Some (k, True) \<longrightarrow> is_live (sw_registry x) k \<and> \<not> is_live (sw_registry y) k)"
  using assms
proof (induction rule: shelf_step.cases)
  case (calls w reached ticket now x won r present lib planned c out t deletes)
  have reg: "registry_ok (sw_registry x)" using calls.prems calls.hyps(1) by (simp add: shelf_inv_def)
  note claim = claim_first_facts[OF reg calls.hyps(5)]
  define q where "q = (if won then after_delete (reached \<and> (t \<noteq> sw_tables x \<or> deletes)) c r else r)"
  have live: "is_live q k \<Longrightarrow> is_live r k" for k
    using after_delete_facts(3)[OF claim(1)] unfolding q_def by (cases won) simp_all
  have len: "length (reg_all q) = length (reg_all (sw_registry x))"
    unfolding q_def using after_delete_facts(2)[OF claim(1)] claim(2) by (cases won) simp_all
  have "is_live (sw_registry x) k \<and> \<not> is_live q k" if e: "e = Some (k, True)" for k
  proof (cases ticket)
    case None
    then show ?thesis using e calls.hyps(2) by simp
  next
    case (Some a)
    then have "fst a = k" "reached" "won" using e calls.hyps(2) by (auto split: prod.splits)
    then show ?thesis using claim(5)[of k "snd a"] Some live by (metis prod.collapse)
  qed
  moreover have "is_live (sw_registry x) k" if "is_live q k" for k using claim(3)[OF live[OF that]] .
  ultimately show ?case using len calls.hyps(1,3) by (simp add: q_def)
next
  case (snapshots lib g x s now k r)
  have reg: "registry_ok (sw_registry x)" using snapshots.prems snapshots.hyps(1) by (simp add: shelf_inv_def)
  show ?case using issue_facts[OF reg snapshots.hyps(5)] snapshots.hyps by simp
next
  case (previews kind target shelves now x k r)
  have reg: "registry_ok (sw_registry x)" using previews.prems previews.hyps(1) by (simp add: shelf_inv_def)
  show ?case using issue_facts[OF reg previews.hyps(5)] previews.hyps by simp
qed

lemma run_dead:
  "run (shelf_step E) x es y \<Longrightarrow> shelf_inv x \<Longrightarrow> k < length (reg_all (sw_registry x)) \<Longrightarrow> \<not> is_live (sw_registry x) k \<Longrightarrow>
   Some (k, True) \<notin> set es"
proof (induction rule: run.induct)
  case (run_cons x e u es y)
  note step = step_tickets[OF run_cons.hyps(1) run_cons.prems(1)]
  have "e \<noteq> Some (k, True)" using step run_cons.prems(3) by blast
  moreover have "Some (k, True) \<notin> set es"
    by (rule run_cons.IH[OF shelves.step_good[OF run_cons.hyps(1) run_cons.prems(1)]]) (use step run_cons.prems in auto)
  ultimately show ?case by simp
qed simp

lemma run_claims_once:
  "run (shelf_step E) x es y \<Longrightarrow> shelf_inv x \<Longrightarrow> length (filter (\<lambda>e. e = Some (k, True)) es) \<le> 1"
proof (induction rule: run.induct)
  case (run_cons x e u es y)
  note step = step_tickets[OF run_cons.hyps(1) run_cons.prems(1)]
  have inv: "shelf_inv u" using shelves.step_good[OF run_cons.hyps(1) run_cons.prems(1)] .
  show ?case
  proof (cases "e = Some (k, True)")
    case True
    then have "is_live (sw_registry x) k" "\<not> is_live (sw_registry u) k" using step by auto
    then have "Some (k, True) \<notin> set es"
      using run_dead[OF run_cons.hyps(2) inv] step by (auto simp: is_live_def)
    then have "filter (\<lambda>e. e = Some (k, True)) es = []" by (auto simp: filter_empty_conv)
    then show ?thesis using True by simp
  next
    case False
    then show ?thesis using run_cons.IH[OF inv] by simp
  qed
qed simp

lemma few_live: "registry_ok r \<Longrightarrow> card {k. is_live r k} \<le> ticket_limit"
proof -
  assume ok: "registry_ok r"
  have "card {k. is_live r k} \<le> card (set (reg_queue r))"
    by (rule card_mono) (use ok in \<open>auto simp: registry_ok_def\<close>)
  also have "\<dots> \<le> length (reg_queue r)" by (rule card_length)
  finally show ?thesis using ok by (simp add: registry_ok_def)
qed

subsection \<open>A small library\<close>

definition sample_shelves :: shelf_tables where
  "sample_shelves =
     \<lparr>tbl_shelves = [\<lparr>sr_id = 1, sr_name = ''Tales'', sr_normalized = ''tales'', sr_position = 0, sr_revision = 3\<rparr>],
      tbl_members = [\<lparr>mr_shelf = 1, mr_uuid = ''u'', mr_position = 0, mr_protected = True, mr_title = ''U''\<rparr>,
        \<lparr>mr_shelf = 1, mr_uuid = ''v'', mr_position = 1, mr_protected = False, mr_title = ''V''\<rparr>],
      tbl_sources = [], tbl_origins = {}, tbl_exclusions = {}\<rparr>"

definition sample_library :: library_view where
  "sample_library =
     \<lparr>lv_catalog = [\<lparr>st_uuid = ''u'', st_title = ''U'', st_rest = 0\<rparr>, \<lparr>st_uuid = ''v'', st_title = ''V'', st_rest = 0\<rparr>],
      lv_broken = (\<lambda>_. False), lv_archived = (\<lambda>_. True), lv_saved = (\<lambda>_. None), lv_matches = (\<lambda>_. None)\<rparr>"

lemma sample_shelves_ok: "shelves_ok sample_shelves"
  by (simp add: sample_shelves_def shelves_ok_def rows_ok_def seats_ok_def members_ok_def links_ok_def origins_ok_def)

definition sample_shelf_world :: shelf_world where
  "sample_shelf_world = \<lparr>sw_tables = sample_shelves, sw_registry = \<lparr>reg_all = [], reg_queue = []\<rparr>, sw_plans = []\<rparr>"

definition sample_ticket :: ticket where
  "sample_ticket = \<lparr>tk_kind = Tk_curation, tk_target = 1, tk_shelves = [1], tk_issued = 5, tk_live = True\<rparr>"

definition sample_plan :: curation_plan where
  "sample_plan = \<lparr>pl_ticket = 0, pl_shelf = 1, pl_revision = 3, pl_seen = sample_shelves\<rparr>"

definition sample_planned :: shelf_world where
  "sample_planned = sample_shelf_world\<lparr>sw_registry := \<lparr>reg_all = [sample_ticket], reg_queue = [0]\<rparr>, sw_plans := [sample_plan]\<rparr>"

definition sample_shelf_env :: "nat shelf_env" where
  "sample_shelf_env = \<lparr>env_names = (\<lambda>s. Inr (s, s)), env_canonical = Some, env_digest = (\<lambda>_. 0)\<rparr>"

lemma sample_snapshot: "shelf_step sample_shelf_env sample_shelf_world None sample_planned"
proof -
  have s: "\<exists>s. read_shelf sample_library 1 (sw_tables sample_shelf_world) = Inr s \<and> shelf_revision s = 3"
    by (simp add: sample_shelf_world_def sample_shelves_def read_shelf_def row_at_def shelf_of_row_def Let_def)
  then obtain s where s: "read_shelf sample_library 1 (sw_tables sample_shelf_world) = Inr s" "shelf_revision s = 3" by blast
  have i: "issue_at Tk_curation 1 [1] 5 (sw_registry sample_shelf_world) = (0, \<lparr>reg_all = [sample_ticket], reg_queue = [0]\<rparr>)"
    by (simp add: sample_shelf_world_def issue_at_def kill_def evicted_def sample_ticket_def Let_def)
  show ?thesis
    using shelf_step.snapshots[OF s(1) i, of sample_shelf_env] s(2)
    by (simp add: sample_planned_def sample_plan_def sample_shelf_world_def)
qed

lemma sample_planned_reachable: "reachable shelf_start (shelf_step sample_shelf_env) sample_planned"
proof -
  have "shelf_start sample_shelf_world" by (simp add: shelf_start_def sample_shelf_world_def sample_shelves_ok)
  then show ?thesis using sample_snapshot by (meson reach_start reach_step)
qed

subsection \<open>Properties\<close>



text \<open>C12: A ticket is good for one claim: in any run, whatever is called, at most one call wins a given
  ticket; and never more than 64 tickets are live.\<close>

theorem tickets_claimed_once:
  assumes "reachable shelf_start (shelf_step E) x" and "run (shelf_step E) x es y"
  shows "length (filter (\<lambda>e. e = Some (k, True)) es) \<le> 1 \<and> card {j. is_live (sw_registry y) j} \<le> ticket_limit"
proof -
  have inv: "shelf_inv x" using shelves.reachable_good[OF assms(1)] .
  have "registry_ok (sw_registry y)" using shelves.run_good[OF assms(2) inv] by (simp add: shelf_inv_def)
  then show ?thesis using run_claims_once[OF assms(2) inv] few_live by blast
qed

theorem tickets_claimed_once_witness:
  "card {j. is_live (sw_registry sample_planned) j} \<le> 64"
proof -
  have "run (shelf_step sample_shelf_env) sample_shelf_world [None] sample_planned"
    using sample_snapshot by (auto simp: run_Cons_simp run_Nil_simp)
  moreover have "reachable shelf_start (shelf_step sample_shelf_env) sample_shelf_world"
    by (rule reach_start) (simp add: shelf_start_def sample_shelf_world_def sample_shelves_ok)
  ultimately show ?thesis using tickets_claimed_once by (fastforce simp: ticket_limit_def)
qed

end
