(* ===== verification/Shelf_Decisions.thy ===== *)
theory Shelf_Decisions
  imports Shelf_System
begin

section \<open>Curated shelves: decisions and order\<close>

text \<open>
  What a user decided is what happens: a member leaves a shelf only where the call names it, and a new
  order is the order that was asked for.
\<close>

subsection \<open>Members that stay\<close>

abbreviation keys_of :: "shelf_tables \<Rightarrow> (i64 \<times> string) set" where
  "keys_of t \<equiv> set (member_keys (tbl_members t))"

text \<open>Only members of \<open>R\<close> may leave, and they become excluded; an exclusion in \<open>R\<close> stays.\<close>

definition retains :: "(i64 \<times> string) set \<Rightarrow> shelf_tables \<Rightarrow> shelf_tables \<Rightarrow> bool" where
  "retains R t v \<longleftrightarrow> keys_of t \<subseteq> keys_of v \<union> (R \<inter> tbl_exclusions v) \<and> R \<inter> tbl_exclusions t \<subseteq> tbl_exclusions v"

lemma retains_refl [simp]: "retains R t t"
  by (auto simp: retains_def)

lemma retains_trans: "retains R t u \<Longrightarrow> retains R u v \<Longrightarrow> retains R t v"
  unfolding retains_def by blast

lemma retains_same: "member_keys (tbl_members v) = member_keys (tbl_members t) \<Longrightarrow> tbl_exclusions t \<subseteq> tbl_exclusions v \<Longrightarrow> retains R t v"
  unfolding retains_def by auto

lemma retains_each_row: "(\<And>x t. retains R t (snd (f x t))) \<Longrightarrow> retains R t (snd (each_row f xs t))"
proof (induction xs arbitrary: t)
  case (Cons x xs)
  obtain a u b v where au: "f x t = (a, u)" "each_row f xs u = (b, v)" by fastforce
  have "retains R t u" using Cons.prems[of t x] au by simp
  moreover have "retains R u v" using Cons.IH[OF Cons.prems, of u] au by simp
  ultimately show ?case using retains_trans au by simp
qed simp

lemma retains_exclude: "retains R t (snd (exclude_story g u t))"
  by (rule retains_same) (auto simp: exclude_story_def)

lemma retains_protect: "retains R t (snd (protect_where p t))"
  by (rule retains_same) (simp_all add: protect_where_def protected_keys)

lemma retains_keep: "retains R t (snd (keep_member g u t))" "retains R t (snd (keep_all g t))"
  by (simp_all add: keep_member_def keep_all_def retains_protect)

lemma added_keys: "keys_of t \<subseteq> keys_of (snd (add_member g u n manual t))"
proof (cases "list_ex (\<lambda>m. mr_shelf m = g \<and> mr_uuid m = u) (tbl_members t)")
  case True
  have "member_keys (tbl_members (snd (add_member g u n manual t))) = member_keys (tbl_members t)"
    using True protected_keys(1) by (simp add: add_member_def Let_def del: map_map)
  then show ?thesis by simp
qed (auto simp: add_member_def)

lemma retains_add: "(g, u) \<notin> R \<Longrightarrow> retains R t (snd (add_member g u n manual t))"
  using added_keys[of t g u n manual] by (auto simp: retains_def add_member_def Let_def)

lemma retains_discard: "(g, u) \<in> R \<Longrightarrow> retains R t (snd (discard_story g True True u t))"
  by (auto simp: retains_def discard_story_def remove_member_def exclude_story_def)

lemma retains_origin: "record_origin g u k t = Inr r \<Longrightarrow> retains R t (snd r)"
  by (rule retains_same) (auto simp: record_origin_def split: if_splits)

lemma retains_origins: "record_origins g u cs t = Inr r \<Longrightarrow> retains R t (snd r)"
proof (induction cs arbitrary: t r)
  case (Cons c cs)
  obtain a t1 b t2 where one: "record_origin g u (source_id c) t = Inr (a, t1)"
    and rest: "record_origins g u cs t1 = Inr (b, t2)" and r: "r = (a \<or> b, t2)"
    using Cons.prems by (auto simp: result_iffs)
  have "retains R t t1" "retains R t1 t2" using retains_origin[OF one] Cons.IH[OF rest] by simp_all
  then show ?case using retains_trans r by simp
qed simp

lemma retains_detach: "retains R t (snd (detach_source g c t))"
  by (rule retains_same) (simp_all add: detach_source_def Let_def)

lemma retains_attach_each: "retains R t (snd (attach_each g cs t))"
proof (induction cs arbitrary: t)
  case (Cons c cs)
  obtain a u b v where au: "attach_one g c t = (a, u)" "attach_each g cs u = (b, v)" by fastforce
  have "retains R t u" by (rule retains_same) (use au in \<open>auto simp: attach_one_def split: if_splits\<close>)
  moreover have "retains R u v" using Cons.IH[of u] au by simp
  ultimately show ?case using retains_trans au by simp
qed simp

lemma retains_attach: "attach_sources lib g ks t = Inr r \<Longrightarrow> retains R t (snd r)"
  by (auto simp: attach_sources_def result_iffs retains_attach_each)

lemma retains_bump: "bump lib g changed t = Inr (s, v) \<Longrightarrow> retains R t v"
  by (rule retains_same) (auto simp: bump_def Let_def result_iffs split: if_splits)

subsection \<open>Decided removals\<close>

definition removed_by :: "i64 \<Rightarrow> (string \<Rightarrow> review_action option) \<Rightarrow> (i64 \<times> string) set" where
  "removed_by g acts = {x. fst x = g \<and> acts (snd x) = Some Act_remove_and_exclude}"

lemma retains_action: "apply_action g acts c t = Inr r \<Longrightarrow> retains (removed_by g acts) t (snd r)"
proof (cases "acts (cd_uuid c) = Some Act_add")
  case True
  assume r: "apply_action g acts c t = Inr r"
  obtain a u where au: "add_member g (cd_uuid c) (cd_title c) False t = (a, u)" by fastforce
  obtain b v where b: "record_origins g (cd_uuid c) (cd_sources c) u = Inr (b, v)" "r = (a \<or> b, v)"
    using r True au by (auto simp: apply_action_def result_iffs)
  have "retains (removed_by g acts) t u" using retains_add[of g "cd_uuid c" "removed_by g acts" t "cd_title c" False] au True
    by (simp add: removed_by_def)
  then show ?thesis using retains_trans retains_origins[OF b(1)] b(2) by fastforce
next
  case False
  assume "apply_action g acts c t = Inr r"
  then show ?thesis using False retains_exclude retains_keep(1) retains_discard[of g "cd_uuid c" "removed_by g acts" t]
    by (auto simp: apply_action_def removed_by_def split: option.splits review_action.splits)
qed

lemma retains_actions: "apply_actions g acts cs t = Inr r \<Longrightarrow> retains (removed_by g acts) t (snd r)"
proof (induction cs arbitrary: t r)
  case (Cons c cs)
  obtain a u b v where one: "apply_action g acts c t = Inr (a, u)" and rest: "apply_actions g acts cs u = Inr (b, v)"
    and r: "r = (a \<or> b, v)"
    using Cons.prems by (auto simp: result_iffs)
  have "retains (removed_by g acts) t u" "retains (removed_by g acts) u v" using retains_action[OF one] Cons.IH[OF rest] by simp_all
  then show ?case using retains_trans r by simp
qed simp

lemma retains_settle:
  "settle_affected g acts cs t = Inr r \<Longrightarrow> removed_by g acts \<subseteq> R \<Longrightarrow> retains R t (snd r)"
proof (induction cs arbitrary: t r)
  case (Cons c cs)
  obtain x where x: "acts (cd_uuid c) = Some x" "x = Act_keep \<or> x = Act_remove_and_exclude"
    using Cons.prems(1) by (auto split: option.splits review_action.splits)
  define q where "q = (if x = Act_keep then keep_member g (cd_uuid c) t else discard_story g True True (cd_uuid c) t)"
  obtain a u where au: "q = (a, u)" by fastforce
  obtain b v where b: "settle_affected g acts cs u = Inr (b, v)" "r = (a \<or> b, v)"
    using Cons.prems(1) x au by (auto simp: q_def result_iffs split: if_splits)
  have "(g, cd_uuid c) \<in> R" if "x = Act_remove_and_exclude"
    using that x(1) Cons.prems(2) by (auto simp: removed_by_def)
  then have "retains R t (snd q)"
    using x(2) retains_keep(1)[of R t g "cd_uuid c"] retains_discard[of g "cd_uuid c" R t] by (auto simp: q_def)
  then have "retains R t u" "retains R u v" using au Cons.IH[OF b(1) Cons.prems(2)] by simp_all
  then show ?case using retains_trans b(2) by simp
qed simp

lemma retains_change:
  assumes c: "change_apply lib e acts t = Inr (s, v)" and R: "removed_by (shelf_id (chg_shelf (ce_preview e))) acts \<subseteq> R"
  shows "retains R t v"
proof -
  let ?g = "shelf_id (chg_shelf (ce_preview e))"
  obtain a t1 where 1: "attach_sources lib ?g (ce_desired e) t = Inr (a, t1)"
    using c by (auto simp: change_apply_def Let_def result_iffs)
  obtain b t2 where 2: "each_row (detach_source ?g) (chg_detached (ce_preview e)) t1 = (b, t2)" by fastforce
  obtain d t3 where 3: "settle_affected ?g acts (chg_affected (ce_preview e)) t2 = Inr (d, t3)"
    using c 1 2 by (auto simp: change_apply_def Let_def result_iffs)
  obtain h t4 where 4: "(if ce_desired e = [] then keep_all ?g t3 else (False, t3)) = (h, t4)" by fastforce
  have fin: "bump lib ?g (a \<or> b \<or> d \<or> h) t4 = Inr (s, v)"
    using c 1 2 3 4 by (simp add: change_apply_def Let_def)
  have "retains R t t1" using retains_attach[OF 1, of R] by simp
  moreover have "retains R t1 t2" using retains_each_row[of R "detach_source ?g" t1] retains_detach 2 by (metis snd_conv)
  moreover have "retains R t2 t3" using retains_settle[OF 3 R] by simp
  moreover have "retains R t3 t4" using retains_keep(2)[of R t3 ?g] 4 by (auto split: if_splits)
  ultimately show ?thesis using retains_trans retains_bump[OF fin] by blast
qed

lemma retains_changes:
  "apply_each lib checked t = Inr v \<Longrightarrow>
   (\<And>e acts. (e, acts) \<in> set checked \<Longrightarrow> removed_by (shelf_id (chg_shelf (ce_preview e))) acts \<subseteq> R) \<Longrightarrow> retains R t v"
proof (induction checked arbitrary: t)
  case (Cons x checked)
  obtain e acts where x: "x = (e, acts)" by fastforce
  obtain s u where u: "change_apply lib e acts t = Inr (s, u)" "apply_each lib checked u = Inr v"
    using Cons.prems(1) x by (auto simp: result_iffs)
  have "retains R t u" by (rule retains_change[OF u(1)]) (use Cons.prems(2) x in auto)
  moreover have "retains R u v" by (rule Cons.IH[OF u(2)]) (use Cons.prems(2) in auto)
  ultimately show ?case using retains_trans by blast
qed simp

subsection \<open>What a review lets go\<close>

lemma story_members:
  assumes "shelf_members lib g t = Inr ms" "shelves_ok t" "m \<in> set (tbl_members t)" "mr_shelf m = g" "x \<in> set ms"
    "member_uuid x = mr_uuid m"
  shows "member_retained x = mr_protected m"
proof -
  obtain n where n: "n \<in> set (members_of g t)" "x = member_of_row t n"
    using assms(1,5) by (auto simp: shelf_members_def result_iffs)
  have "distinct (member_keys (tbl_members t))" using assms(2) by (simp add: shelves_ok_def members_ok_def seats_ok_def)
  then have "n = m" using n assms(3,4,6) by (auto simp: distinct_map inj_on_def members_of_def member_of_row_def)
  then show ?thesis using n(2) by (simp add: member_of_row_def)
qed

lemma review_removals:
  assumes "review_evaluation digest lib g ov t = Inr (fresh, now)" "u \<in> cd_uuid ` set (up_removals fresh)"
  shows "\<exists>ms x. shelf_members lib g t = Inr ms \<and> x \<in> set ms \<and> member_uuid x = u \<and> \<not> member_retained x"
proof -
  obtain ms e ss where ms: "shelf_members lib g t = Inr ms" and r: "up_removals fresh = removals_of e ss ms"
    using assms(1) by (auto simp: review_evaluation_def Let_def result_iffs)
  obtain m s where "m \<in> set ms" "\<not> member_retained m" "u = cd_uuid (removal_of m s)"
    using assms(2) unfolding r by (auto simp: removals_of_def List.map_filter_def split: option.splits if_splits)
  then show ?thesis using ms by (auto simp: removal_of_def)
qed

lemma change_affected:
  assumes "change_evaluate digest lib g desired t = Inr e" "u \<in> cd_uuid ` set (chg_affected (ce_preview e))"
  shows "\<exists>ms x. shelf_members lib g t = Inr ms \<and> x \<in> set ms \<and> member_uuid x = u \<and> \<not> member_retained x"
proof -
  obtain ms ev ss ds d where ms: "shelf_members lib g t = Inr ms"
    and r: "chg_affected (ce_preview e) = (if (d :: shelf_source list) = [] then [] else affected_of ev ss ds ms)"
    using assms(1) by (simp add: change_evaluate_def Let_def result_iffs) force
  obtain m where "m \<in> set ms" "\<not> member_retained m" "u = member_uuid m"
    using assms(2) unfolding r by (auto simp: affected_of_def split: if_splits)
  then show ?thesis using ms by auto
qed

lemma review_actions_removal:
  assumes "review_actions p ds = Inr acts" "acts u = Some Act_remove_and_exclude"
  shows "(u, Act_remove_and_exclude) \<in> set ds \<and> u \<in> cd_uuid ` set (up_removals p)"
proof -
  have a: "\<forall>d \<in> set ds. allowed_action p d" "acts = map_of ds"
    using assms(1) by (auto simp: review_actions_def not_rejects_repeat_empty split: if_splits)
  then have d: "(u, Act_remove_and_exclude) \<in> set ds" using assms(2) map_of_SomeD by fastforce
  moreover have "allowed_action p (u, Act_remove_and_exclude)" using a(1) d by (rule bspec)
  ultimately show ?thesis by (simp add: allowed_action_def split: if_splits)
qed

lemma change_validate_removal:
  assumes "change_validate p all ds = Inr acts" "acts u = Some Act_remove_and_exclude"
  shows "\<not> all \<and> (u, Act_remove_and_exclude) \<in> set ds \<and> u \<in> cd_uuid ` set (chg_affected p)"
proof (cases all)
  case True
  then have "acts = map_of (map (\<lambda>c. (cd_uuid c, Act_keep)) (chg_affected p))"
    using assms(1) by (auto simp: change_validate_def split: if_splits)
  then have "(u, Act_remove_and_exclude) \<in> set (map (\<lambda>c. (cd_uuid c, Act_keep)) (chg_affected p))"
    using assms(2) map_of_SomeD by metis
  then show ?thesis by auto
next
  case False
  then have a: "\<forall>d \<in> set ds. \<not> refused_decision p d" "acts = map_of ds"
    using assms(1) by (auto simp: change_validate_def not_rejects_repeat_empty split: if_splits)
  then have d: "(u, Act_remove_and_exclude) \<in> set ds" using assms(2) map_of_SomeD by fastforce
  have "\<not> refused_decision p (u, Act_remove_and_exclude)" using a(1) d by (rule bspec)
  then have "find (\<lambda>c. cd_uuid c = u) (rev (chg_affected p)) \<noteq> None"
    by (auto simp: refused_decision_def split: option.splits)
  then have "u \<in> cd_uuid ` set (chg_affected p)" by (auto simp: find_None_iff)
  then show ?thesis using False d by simp
qed

subsection \<open>No other way out\<close>

text \<open>The call names the removal of the story from the shelf; a reviewed call does it by a decision.\<close>

definition by_decision :: "'d shelf_call \<Rightarrow> i64 \<Rightarrow> string \<Rightarrow> bool" where
  "by_decision c g u =
     (case c of
        Do_updates h _ ds \<Rightarrow> h = g \<and> (u, Act_remove_and_exclude) \<in> set ds
      | Do_change h _ _ all ds \<Rightarrow> h = g \<and> \<not> all \<and> (u, Act_remove_and_exclude) \<in> set ds
      | Do_delete_linked _ _ all groups \<Rightarrow> \<not> all \<and> (\<exists>ds. (g, ds) \<in> set groups \<and> (u, Act_remove_and_exclude) \<in> set ds)
      | _ \<Rightarrow> False)"

definition by_curation :: "'d shelf_call \<Rightarrow> i64 \<Rightarrow> string \<Rightarrow> bool" where
  "by_curation c g u =
     (case c of
        Do_command (Delete_shelf h) \<Rightarrow> h = g
      | Do_curate h (Remove_stories us) \<Rightarrow> h = g \<and> u \<in> set us
      | Do_curate h (Remove_and_exclude us) \<Rightarrow> h = g \<and> u \<in> set us
      | _ \<Rightarrow> False)"

lemma updates_lose:
  assumes ok: "shelves_ok t" and c: "apply_updates digest lib g seen ds t = Inr (s, v)"
    and m: "m \<in> set (tbl_members t)" "(mr_shelf m, mr_uuid m) \<notin> keys_of v"
  shows "g = mr_shelf m \<and> (mr_uuid m, Act_remove_and_exclude) \<in> set ds \<and> \<not> mr_protected m
    \<and> (mr_shelf m, mr_uuid m) \<in> tbl_exclusions v"
proof -
  obtain fresh now acts changed u where e: "review_evaluation digest lib g None t = Inr (fresh, now)"
    and a: "review_actions fresh ds = Inr acts"
    and r: "apply_actions g acts (up_additions fresh @ up_removals fresh) t = Inr (changed, u)"
    and b: "bump lib g changed u = Inr (s, v)"
    using c by (auto simp: apply_updates_def result_iffs split: if_splits)
  have "retains (removed_by g acts) t u" using retains_actions[OF r] by simp
  then have "retains (removed_by g acts) t v" using retains_trans retains_bump[OF b] by blast
  then have lost: "mr_shelf m = g" "acts (mr_uuid m) = Some Act_remove_and_exclude" "(mr_shelf m, mr_uuid m) \<in> tbl_exclusions v"
    using m by (auto simp: retains_def removed_by_def)
  have d: "(mr_uuid m, Act_remove_and_exclude) \<in> set ds" "mr_uuid m \<in> cd_uuid ` set (up_removals fresh)"
    using review_actions_removal[OF a lost(2)] by auto
  obtain ms x where "shelf_members lib g t = Inr ms" "x \<in> set ms" "member_uuid x = mr_uuid m" "\<not> member_retained x"
    using review_removals[OF e d(2)] by blast
  then have "\<not> mr_protected m" using story_members[OF _ ok m(1) lost(1)] by blast
  then show ?thesis using lost d by simp
qed

lemma changes_lose:
  assumes ok: "shelves_ok t" and e: "change_evaluate digest lib g desired t = Inr e"
    and a: "change_validate (ce_preview e) all ds = Inr acts"
    and m: "m \<in> set (tbl_members t)" "(mr_shelf m, mr_uuid m) \<in> removed_by (shelf_id (chg_shelf (ce_preview e))) acts"
  shows "g = mr_shelf m \<and> \<not> all \<and> (mr_uuid m, Act_remove_and_exclude) \<in> set ds \<and> \<not> mr_protected m"
proof -
  have lost: "mr_shelf m = g" "acts (mr_uuid m) = Some Act_remove_and_exclude"
    using m(2) change_evaluate_shelf[OF e] by (auto simp: removed_by_def)
  have d: "\<not> all" "(mr_uuid m, Act_remove_and_exclude) \<in> set ds" "mr_uuid m \<in> cd_uuid ` set (chg_affected (ce_preview e))"
    using change_validate_removal[OF a lost(2)] by auto
  obtain ms x where "shelf_members lib g t = Inr ms" "x \<in> set ms" "member_uuid x = mr_uuid m" "\<not> member_retained x"
    using change_affected[OF e d(3)] by blast
  then have "\<not> mr_protected m" using story_members[OF _ ok m(1) lost(1)] by blast
  then show ?thesis using lost d by simp
qed

lemma change_sources_lose:
  assumes ok: "shelves_ok t" and c: "change_sources digest lib g desired seen all ds t = Inr (s, v)"
    and m: "m \<in> set (tbl_members t)" "(mr_shelf m, mr_uuid m) \<notin> keys_of v"
  shows "g = mr_shelf m \<and> \<not> all \<and> (mr_uuid m, Act_remove_and_exclude) \<in> set ds \<and> \<not> mr_protected m
    \<and> (mr_shelf m, mr_uuid m) \<in> tbl_exclusions v"
proof -
  obtain e acts where e: "change_evaluate digest lib g desired t = Inr e" and a: "change_validate (ce_preview e) all ds = Inr acts"
    and v: "change_apply lib e acts t = Inr (s, v)"
    using c by (auto simp: change_sources_def result_iffs split: if_splits)
  have "retains (removed_by (shelf_id (chg_shelf (ce_preview e))) acts) t v" by (rule retains_change[OF v]) simp
  then have "(mr_shelf m, mr_uuid m) \<in> removed_by (shelf_id (chg_shelf (ce_preview e))) acts"
    "(mr_shelf m, mr_uuid m) \<in> tbl_exclusions v"
    using m by (auto simp: retains_def)
  then show ?thesis using changes_lose[OF ok e a m(1)] by blast
qed

lemma cut_links_keeps: "cut_links k t = Inr v \<Longrightarrow> retains R t v"
  by (rule retains_same) (auto simp: cut_links_def split: if_splits)

lemma delete_linked_lose:
  assumes ok: "shelves_ok t" and c: "delete_linked digest lib k seen all groups t = Inr (x, v)"
    and m: "m \<in> set (tbl_members t)" "(mr_shelf m, mr_uuid m) \<notin> keys_of v"
  shows "\<not> all \<and> (\<exists>ds. (mr_shelf m, ds) \<in> set groups \<and> (mr_uuid m, Act_remove_and_exclude) \<in> set ds) \<and> \<not> mr_protected m
    \<and> (mr_shelf m, mr_uuid m) \<in> tbl_exclusions v"
proof -
  obtain es now checked u where es: "deletion_evaluate digest lib k t = Inr (es, now)"
    and checked: "validate_each all groups es = Inr checked" and u: "apply_each lib checked t = Inr u" "cut_links k u = Inr v"
    using c by (auto simp: delete_linked_def result_iffs split: if_splits)
  define R where "R = (\<Union>(e, acts) \<in> set checked. removed_by (shelf_id (chg_shelf (ce_preview e))) acts)"
  have "retains R t u" by (rule retains_changes[OF u(1)]) (force simp: R_def)
  then have "retains R t v" using retains_trans cut_links_keeps[OF u(2)] by blast
  then have r: "(mr_shelf m, mr_uuid m) \<in> R" "(mr_shelf m, mr_uuid m) \<in> tbl_exclusions v" using m by (auto simp: retains_def)
  then obtain e acts where ea: "(e, acts) \<in> set checked"
    and lost: "(mr_shelf m, mr_uuid m) \<in> removed_by (shelf_id (chg_shelf (ce_preview e))) acts"
    by (auto simp: R_def)
  have "e \<in> set es \<and> change_validate (ce_preview e) all (decisions_for groups e) = Inr acts"
    using checked ea by (fastforce simp: validate_each_def collect_results_Ok_iff list_all2_conv_all_nth in_set_conv_nth result_iffs)
  then have e: "e \<in> set es" and a: "change_validate (ce_preview e) all (decisions_for groups e) = Inr acts" by simp_all
  obtain g desired where ev: "change_evaluate digest lib g desired t = Inr e"
    using es e by (fastforce simp: deletion_evaluate_def collect_results_Ok_iff list_all2_conv_all_nth in_set_conv_nth result_iffs
      split: option.splits)
  have d: "g = mr_shelf m" "\<not> all" "(mr_uuid m, Act_remove_and_exclude) \<in> set (decisions_for groups e)" "\<not> mr_protected m"
    using changes_lose[OF ok ev a m(1) lost] by auto
  have "shelf_id (chg_shelf (ce_preview e)) = mr_shelf m" using change_evaluate_shelf[OF ev] d(1) by simp
  then have "\<exists>ds. (mr_shelf m, ds) \<in> set groups \<and> (mr_uuid m, Act_remove_and_exclude) \<in> set ds"
    using d(3) by (cases "map_of groups (mr_shelf m)") (auto simp: decisions_for_def dest: map_of_SomeD)
  then show ?thesis using d r(2) by simp
qed

text \<open>The other calls keep every member, but for those a curation names and a deleted shelf.\<close>

lemma each_row_keys:
  "(\<And>x t. x \<in> set xs \<Longrightarrow> keys_of t - K \<subseteq> keys_of (snd (f x t))) \<Longrightarrow> keys_of t - K \<subseteq> keys_of (snd (each_row f xs t))"
proof (induction xs arbitrary: t)
  case (Cons x xs)
  obtain a u b v where au: "f x t = (a, u)" "each_row f xs u = (b, v)" by fastforce
  have "keys_of t - K \<subseteq> keys_of u" using Cons.prems[of x t] au by simp
  moreover have "keys_of u - K \<subseteq> keys_of (snd (each_row f xs u))" by (rule Cons.IH) (use Cons.prems in simp)
  then have "keys_of u - K \<subseteq> keys_of v" using au by simp
  ultimately have "keys_of t - K \<subseteq> keys_of v" by blast
  then show ?case using au by simp
qed simp

lemma discarded_keys: "keys_of t - {(g, u)} \<subseteq> keys_of (snd (discard_story g excluding removing u t))"
  by (auto simp: discard_story_def remove_member_def exclude_story_def)

lemma curate_discard_runs:
  "curate_discard lib g excluding removing us t = Inr r \<Longrightarrow> r = each_row (discard_story g excluding removing) (first_occurrences {} us) t"
  by (auto simp: curate_discard_def Let_def result_iffs split: if_splits)

lemma curate_discard_keys:
  assumes "curate_discard lib g excluding removing us t = Inr r"
  shows "keys_of t - (if removing then {g} \<times> set us else {}) \<subseteq> keys_of (snd r)"
  unfolding curate_discard_runs[OF assms]
proof (rule each_row_keys)
  fix u w
  assume u: "u \<in> set (first_occurrences {} us)"
  show "keys_of w - (if removing then {g} \<times> set us else {}) \<subseteq> keys_of (snd (discard_story g excluding removing u w))"
  proof (cases removing)
    case True
    have "{(g, u)} \<subseteq> {g} \<times> set us" using u by simp
    then have "keys_of w - {g} \<times> set us \<subseteq> keys_of (snd (discard_story g excluding True u w))"
      using discarded_keys[of w g u excluding True] by blast
    then show ?thesis using True by simp
  next
    case False
    then show ?thesis by (simp add: discard_story_def exclude_story_def)
  qed
qed

lemma add_found_keys: "add_found lib g ids t = Inr r \<Longrightarrow> keys_of t \<subseteq> keys_of (snd r)"
proof -
  let ?f = "\<lambda>u. add_member g u (case titles_of lib ids u of Some n \<Rightarrow> n | None \<Rightarrow> []) True"
  assume "add_found lib g ids t = Inr r"
  then have "r = each_row ?f ids t" by (simp add: add_found_def split: if_splits)
  moreover have "keys_of t - {} \<subseteq> keys_of (snd (each_row ?f ids t))"
    by (rule each_row_keys) (use added_keys in simp)
  ultimately show ?thesis by simp
qed

lemma reorder_keys:
  assumes "shelves_ok t" "curate_reorder lib g us t = Inr r"
  shows "keys_of t \<subseteq> keys_of (snd r)"
proof (cases "fst r")
  case True
  then have "snd r = t\<lparr>tbl_members := numbered mr_shelf mr_uuid move_member g us (tbl_members t)\<rparr>"
    using curate_reorder_renumbers[of t lib g us "snd r"] assms by (cases r) simp
  moreover have "member_keys (numbered mr_shelf mr_uuid move_member g us (tbl_members t)) = member_keys (tbl_members t)"
    unfolding numbered_def by (rule map_rewrite) (simp add: move_member_def)
  ultimately show ?thesis by (simp del: map_map)
next
  case False
  then show ?thesis using assms(2) by (auto simp: curate_reorder_def Let_def result_iffs split: if_splits)
qed

lemma bump_keys: "bump lib g changed t = Inr (s, v) \<Longrightarrow> keys_of v = keys_of t"
  by (auto simp: bump_def Let_def result_iffs split: if_splits)

lemma curate_keys:
  assumes ok: "shelves_ok t" and c: "curate lib g action t = Inr (s, v)"
    and k: "(h, u) \<in> keys_of t" "(h, u) \<notin> keys_of v"
  shows "by_curation (Do_curate g action) h u"
proof -
  obtain changed w where r: "(case action of
          Remove_stories v \<Rightarrow> curate_discard lib g False True v t
        | Remove_and_exclude v \<Rightarrow> curate_discard lib g True True v t
        | Exclude_stories v \<Rightarrow> curate_discard lib g True False v t
        | Add_stories v \<Rightarrow> add_found lib g (first_occurrences {} v) t
        | Clear_exclusion u \<Rightarrow> Inr (clear_exclusion g u t)
        | Reorder_stories v \<Rightarrow> curate_reorder lib g v t) = Inr (changed, w)"
    and b: "bump lib g changed w = Inr (s, v)"
    using c by (auto simp: curate_def result_iffs)
  have gone: "(h, u) \<notin> keys_of w" using k(2) bump_keys[OF b] by simp
  show ?thesis
  proof (cases action)
    case (Add_stories us)
    then show ?thesis using r gone k(1) add_found_keys[of lib g "first_occurrences {} us" t "(changed, w)"] by auto
  next
    case (Remove_stories us)
    then show ?thesis using r gone k(1) curate_discard_keys[of lib g False True us t "(changed, w)"] by (auto simp: by_curation_def)
  next
    case (Remove_and_exclude us)
    then show ?thesis using r gone k(1) curate_discard_keys[of lib g True True us t "(changed, w)"] by (auto simp: by_curation_def)
  next
    case (Exclude_stories us)
    then show ?thesis using r gone k(1) curate_discard_keys[of lib g True False us t "(changed, w)"] by auto
  next
    case (Clear_exclusion x)
    then show ?thesis using r gone k(1) by (auto simp: clear_exclusion_def)
  next
    case (Reorder_stories us)
    then show ?thesis using r gone k(1) reorder_keys[OF ok, of lib g us "(changed, w)"] by auto
  qed
qed

lemma insert_shelf_keys: "insert_shelf names lib name t = Inr (s, v) \<Longrightarrow> tbl_members v = tbl_members t"
  by (auto simp: insert_shelf_def Let_def result_iffs split: if_splits)

lemma copy_source_members: "tbl_members (copy_source g n k t) = tbl_members t"
  by (simp add: copy_source_def Let_def split: option.splits)

lemma copy_sources_members: "tbl_members (foldl (\<lambda>t c. copy_source g n (source_id c) t) t cs) = tbl_members t"
  by (induction cs arbitrary: t) (simp_all add: copy_source_members)

lemma duplicate_keys: "duplicate_shelf names lib g name t = Inr (s, v) \<Longrightarrow> keys_of t \<subseteq> keys_of v"
  by (auto simp: duplicate_shelf_def Let_def result_iffs copy_sources_members dest!: insert_shelf_keys)

lemma command_keys:
  assumes "shelves_ok t" "execute_shelves names lib c t = Inr (a, v)" "(h, u) \<in> keys_of t" "(h, u) \<notin> keys_of v"
  shows "c = Delete_shelf h"
proof (cases c)
  case (Create_shelf name)
  then show ?thesis using assms insert_shelf_keys by (fastforce simp: execute_shelves_def result_iffs)
next
  case (Rename_shelf g name)
  then obtain s where "rename_shelf names lib g name t = Inr (s, v)" using assms(2) by (auto simp: execute_shelves_def result_iffs)
  then have "keys_of v = keys_of t" by (auto simp: rename_shelf_def Let_def result_iffs dest!: bump_keys split: if_splits)
  then show ?thesis using assms by simp
next
  case (Duplicate_shelf g name)
  then obtain s where "duplicate_shelf names lib g name t = Inr (s, v)" using assms(2) by (auto simp: execute_shelves_def result_iffs)
  then show ?thesis using assms duplicate_keys by blast
next
  case (Reorder_shelves ids)
  then obtain s where "reorder_shelves lib ids t = Inr (s, v)" using assms(2) by (auto simp: execute_shelves_def result_iffs)
  then have "tbl_members v = tbl_members t" by (auto simp: reorder_shelves_def Let_def result_iffs split: if_splits)
  then show ?thesis using assms by simp
next
  case (Delete_shelf g)
  then have "v = delete_shelf g t" using assms(2) by (auto simp: execute_shelves_def result_iffs)
  then show ?thesis using assms(3,4) Delete_shelf by (auto simp: delete_shelf_def)
qed

lemma accept_all_keys: "accept_all g attached selected cs t = Inr v \<Longrightarrow> keys_of t \<subseteq> keys_of v"
proof (induction cs arbitrary: t)
  case (Cons c cs)
  obtain u where u: "accept_candidate g attached selected c t = Inr u" "accept_all g attached selected cs u = Inr v"
    using Cons.prems by (auto simp: result_iffs)
  have "keys_of t \<subseteq> keys_of u"
  proof (cases "cd_uuid c \<in> selected")
    case True
    obtain a w os b where w: "add_member g (cd_uuid c) (cd_title c) (cd_manual c) t = (a, w)"
      and b: "record_origins g (cd_uuid c) os w = Inr (b, u)"
      using u(1) True by (cases "add_member g (cd_uuid c) (cd_title c) (cd_manual c) t")
        (auto simp: accept_candidate_def Let_def result_iffs)
    have "keys_of w \<subseteq> keys_of u" using retains_origins[OF b, of "{}"] by (simp add: retains_def)
    then show ?thesis using added_keys[of t g "cd_uuid c" "cd_title c" "cd_manual c"] w by auto
  next
    case False
    then show ?thesis using u(1) by (simp add: accept_candidate_def)
  qed
  then show ?case using Cons.IH[OF u(2)] by blast
qed simp

lemma create_reviewed_keys:
  assumes "create_reviewed digest names lib name ks manual seen selected t = Inr (s, v)"
  shows "keys_of t \<subseteq> keys_of v"
proof -
  obtain fresh now sh u a w g where r: "insert_shelf names lib (cp_name fresh) t = Inr (sh, u)"
    "attach_sources lib (shelf_id sh) ks u = Inr (a, w)"
    "accept_all (shelf_id sh) g (set selected) (cp_candidates (fresh :: creation_preview)) w = Inr v"
    using assms by (auto simp: create_reviewed_def result_iffs split: if_splits)
  have "keys_of u \<subseteq> keys_of w" using retains_attach[OF r(2), of "{}"] by (simp add: retains_def)
  then show ?thesis using insert_shelf_keys[OF r(1)] accept_all_keys[OF r(3)] by auto
qed

lemma add_guarded_keys: "add_guarded canonical present lib g targets t = Inr (s, v) \<Longrightarrow> keys_of t \<subseteq> keys_of v"
  using add_found_keys bump_keys by (fastforce simp: add_guarded_def Let_def result_iffs split: if_splits)

lemma attach_keys: "attach_shelf_sources lib g ks t = Inr (s, v) \<Longrightarrow> keys_of t \<subseteq> keys_of v"
  using retains_attach[of lib g ks t _ "{}"] bump_keys by (fastforce simp: attach_shelf_sources_def retains_def result_iffs)

subsection \<open>The order asked for\<close>

lemma numbered_order:
  assumes ok: "shelves_ok t" and ks: "distinct ks" "set ks = mr_uuid ` set (members_of g t)"
    and v: "members_of g v = map (\<lambda>m. move_member (int (index_in ks (mr_uuid m))) m) (members_of g t)"
  shows "map mr_uuid (sort_key (\<lambda>m. (mr_position m, mr_uuid m)) (members_of g v)) = ks"
proof (rule order_of_numbers[OF ks(1)])
  have "distinct (map mr_uuid (members_of g t))"
    using ok by (auto simp: shelves_ok_def members_ok_def seats_ok_def members_of_def distinct_map inj_on_def)
  moreover have uuids: "map mr_uuid (members_of g v) = map mr_uuid (members_of g t)" unfolding v by (simp add: move_member_def)
  ultimately show "distinct (map mr_uuid (members_of g v))" by simp
  show "mr_uuid ` set (members_of g v) = set ks" using uuids ks(2) by (metis set_map)
  show "mr_position m = int (index_in ks (mr_uuid m))" if "m \<in> set (members_of g v)" for m
    using that unfolding v by (auto simp: move_member_def)
qed

lemma members_of_numbered:
  "set ks = mr_uuid ` set (members_of g t) \<Longrightarrow>
   members_of h (t\<lparr>tbl_members := numbered mr_shelf mr_uuid move_member g ks (tbl_members t)\<rparr>) =
     (if h = g then map (\<lambda>m. move_member (int (index_in ks (mr_uuid m))) m) (members_of g t) else members_of h t)"
proof -
  assume ks: "set ks = mr_uuid ` set (members_of g t)"
  have "filter (\<lambda>m. mr_shelf m = h) (rewrite (\<lambda>m. mr_shelf m = g \<and> mr_uuid m \<in> set ks)
      (\<lambda>m. move_member (int (index_in ks (mr_uuid m))) m) ms)
    = (if h = g then map (\<lambda>m. move_member (int (index_in ks (mr_uuid m))) m) (filter (\<lambda>m. mr_shelf m = g) ms)
       else filter (\<lambda>m. mr_shelf m = h) ms)"
    if "mr_uuid ` set (filter (\<lambda>m. mr_shelf m = g) ms) \<subseteq> set ks" for ms
    using that by (induction ms) (auto simp: rewrite_def move_member_def split: if_splits)
  then show ?thesis using ks by (simp add: members_of_def numbered_def)
qed

lemma curate_reorder_result:
  assumes ok: "shelves_ok t" and c: "curate_reorder lib g order t = Inr (changed, u)"
  shows "map mr_uuid (sort_key (\<lambda>m. (mr_position m, mr_uuid m)) (members_of g u)) = order
    \<and> map (move_member 0) (tbl_members u) = map (move_member 0) (tbl_members t)
    \<and> (\<forall>h. h \<noteq> g \<longrightarrow> members_of h u = members_of h t) \<and> u = t\<lparr>tbl_members := tbl_members u\<rparr>"
proof (cases changed)
  case True
  have r: "distinct order" "set order = mr_uuid ` set (members_of g t)"
    "u = t\<lparr>tbl_members := numbered mr_shelf mr_uuid move_member g order (tbl_members t)\<rparr>"
    using curate_reorder_renumbers[OF ok] c True by auto
  have "map mr_uuid (sort_key (\<lambda>m. (mr_position m, mr_uuid m)) (members_of g u)) = order"
    by (rule numbered_order[OF ok r(1,2)]) (simp add: r(3) members_of_numbered[OF r(2)])
  moreover have "map (move_member 0) (tbl_members u) = map (move_member 0) (tbl_members t)"
    unfolding r(3) numbered_def by (simp, rule map_rewrite) (simp add: move_member_def)
  ultimately show ?thesis using members_of_numbered[OF r(2)] r(3) by simp
next
  case False
  then obtain ms where ms: "shelf_members lib g t = Inr ms" "u = t" "first_occurrences {} order = map member_uuid ms"
    "length (first_occurrences {} order) = length order"
    using c by (auto simp: curate_reorder_def Let_def result_iffs split: if_splits)
  have "card (set order) = length order" using ms(4) distinct_card[OF distinct_first_occurrences[of "{}" order]] by simp
  then have "first_occurrences {} order = order" by (simp add: card_distinct first_occurrences_distinct)
  then show ?thesis using ms by (auto simp: shelf_members_def result_iffs member_of_row_def)
qed

subsection \<open>Properties\<close>


text \<open>A shelf with a source that matches nothing: its unprotected member may be let go.\<close>

definition sourced_shelves :: shelf_tables where
  "sourced_shelves = sample_shelves\<lparr>tbl_sources :=
     [\<lparr>sc_id = 1, sc_shelf = 1, sc_collection = Some 7, sc_name = ''Saved'', sc_active = True\<rparr>]\<rparr>"

definition sourced_library :: library_view where
  "sourced_library = sample_library\<lparr>lv_saved := (\<lambda>_. Some (''Saved'', 0)), lv_matches := (\<lambda>_. Some [])\<rparr>"

definition reviewed_removal :: "nat shelf_call" where
  "reviewed_removal = Do_updates 1 0 [(''v'', Act_remove_and_exclude)]"

lemma sourced_shelves_ok: "shelves_ok sourced_shelves"
  by (simp add: sourced_shelves_def sample_shelves_def shelves_ok_def rows_ok_def seats_ok_def members_ok_def links_ok_def origins_ok_def)

definition removal_outcome :: "storage_error + shelf \<times> shelf_tables" where
  "removal_outcome = apply_updates (\<lambda>_. 0 :: nat) sourced_library 1 0 [(''v'', Act_remove_and_exclude)] sourced_shelves"

lemma removal_outcome_evaluates:
  "and_then removal_outcome (\<lambda>r. Inr (map mr_uuid (tbl_members (snd r)))) = Inr [''u'']"
  by code_simp

lemma reviewed_removal_outcome:
  "removal_outcome = Inr (s, v) \<Longrightarrow>
   call_body sample_shelf_env (\<lambda>_. True) sourced_library reviewed_removal sourced_shelves = Inr ((), v)"
  unfolding reviewed_removal_def by (simp add: forget_answer_def removal_outcome_def sample_shelf_env_def)

lemma key_absent: "u \<notin> mr_uuid ` ms \<Longrightarrow> (g, u) \<notin> (\<lambda>n. (mr_shelf n, mr_uuid n)) ` ms"
  by auto


text \<open>C13: A reordering gives exactly the order asked for, and moves nothing else: no other shelf, no other
  column of the members and no other table of content, whether or not the places had gaps before.\<close>

theorem reorder_gives_order:
  assumes "shelves_ok t" and "curate lib g (Reorder_stories order) t = Inr (s, v)"
  shows "(\<exists>ms. shelf_members lib g v = Inr ms \<and> map member_uuid ms = order)
    \<and> map (move_member 0) (tbl_members v) = map (move_member 0) (tbl_members t)
    \<and> (\<forall>h. h \<noteq> g \<longrightarrow> members_of h v = members_of h t)
    \<and> tbl_sources v = tbl_sources t \<and> tbl_origins v = tbl_origins t \<and> tbl_exclusions v = tbl_exclusions t"
proof -
  obtain changed u where r: "curate_reorder lib g order t = Inr (changed, u)" and b: "bump lib g changed u = Inr (s, v)"
    using assms(2) by (auto simp: curate_def result_iffs)
  have "tbl_members v = tbl_members u \<and> tbl_sources v = tbl_sources u \<and> tbl_origins v = tbl_origins u
      \<and> tbl_exclusions v = tbl_exclusions u \<and> read_shelf lib g v = Inr s"
    using b by (auto simp: bump_def Let_def result_iffs split: if_splits)
  moreover have "tbl_sources u = tbl_sources t \<and> tbl_origins u = tbl_origins t \<and> tbl_exclusions u = tbl_exclusions t"
    using curate_reorder_result[OF assms(1) r] by (metis shelf_tables.select_convs(3-5) shelf_tables.surjective shelf_tables.update_convs(2))
  ultimately show ?thesis
    using curate_reorder_result[OF assms(1) r] by (simp add: shelf_members_def member_of_row_def members_of_def comp_def)
qed

theorem reorder_gives_order_witness:
  "\<exists>s v ms. curate sample_library 1 (Reorder_stories [''v'', ''u'']) sample_shelves = Inr (s, v)
    \<and> shelf_members sample_library 1 v = Inr ms \<and> map member_uuid ms = [''v'', ''u'']"
proof -
  define out where "out = curate sample_library 1 (Reorder_stories [''v'', ''u'']) sample_shelves"
  have "and_then out (\<lambda>_. Inr ()) = Inr ()" unfolding out_def by code_simp
  then obtain s v where "out = Inr (s, v)" by (cases out) auto
  note run = this[unfolded out_def]
  from reorder_gives_order[OF sample_shelves_ok run] obtain ms
    where "shelf_members sample_library 1 v = Inr ms" "map member_uuid ms = [''v'', ''u'']"
    by (elim conjE exE)
  with run show ?thesis by (intro exI conjI)
qed

end
