(* ===== verification/Collection_Order.thy ===== *)
theory Collection_Order
  imports Positions
begin

section \<open>The order of the collections\<close>

text \<open>
  \<open>reorder\<close> of \<open>librairii-storage/src/collections.rs\<close>. The columns it does not touch are \<open>cl_rest\<close>. The
  rows are moved by more than the number of collections, which leaves room above all places in use.
\<close>

record 'c collection_row =
  cl_id :: i64
  cl_position :: i64
  cl_rest :: 'c

definition list_collections :: "'c collection_row list \<Rightarrow> 'c collection_row list" where
  "list_collections rows = sort_key (\<lambda>c. (cl_position c, cl_id c)) rows"

definition move_collection :: "i64 \<Rightarrow> 'c collection_row \<Rightarrow> 'c collection_row" where
  "move_collection n c = c\<lparr>cl_position := n\<rparr>"

definition invalid_order :: storage_error where
  "invalid_order = Err_domain ''collection.invalid_order''"

text \<open>The checked sums: \<open>max + count + 1\<close>, and the largest place moved by it.\<close>

definition collection_offset :: "i64 list \<Rightarrow> nat \<Rightarrow> storage_error + i64" where
  "collection_offset places n =
     (let top = foldr max places (- 1) in
      and_then (ok_or invalid_order (if i64_ok (int n) then Some (int n) else None)) (\<lambda>count.
      and_then (ok_or invalid_order (Option.bind (i64_checked_add top count) (\<lambda>v. i64_checked_add v 1))) (\<lambda>offset.
      and_then (ok_or invalid_order (i64_checked_add top offset)) (\<lambda>_. Inr offset))))"

definition reorder_collections ::
    "i64 list \<Rightarrow> 'c collection_row list \<Rightarrow> storage_error + 'c collection_row list \<times> 'c collection_row list" where
  "reorder_collections ids rows =
     (let current = list_collections rows; actual = sort ids in
      if sort (map cl_id current) \<noteq> actual \<or> list_ex (\<lambda>(a, b). a = b) (zip actual (tl actual)) then Inl invalid_order
      else if ids = [] then Inr (current, rows)
      else and_then (collection_offset (map cl_position current) (length ids)) (\<lambda>offset.
        and_then (renumber whole_table cl_id cl_position move_collection True offset ids rows) (\<lambda>rows.
          Inr (list_collections rows, rows))))"

interpretation collection_seats: numbered_row whole_table cl_id cl_position move_collection
  by unfold_locales (simp_all add: move_collection_def whole_table_def)

lemma foldr_max_above: "n \<in> set ns \<Longrightarrow> n \<le> foldr max ns (m :: int)"
  by (induction ns) auto

lemma foldr_max_floor: "m \<le> foldr max ns (m :: int)"
  by (induction ns) auto

lemma collection_offset_above:
  assumes "collection_offset places n = Inr offset" "p \<in> set places"
  shows "p < offset"
proof -
  have "offset = foldr max places (- 1) + int n + 1"
    using assms(1) by (auto simp: collection_offset_def Let_def result_iffs ok_or_def i64_checked_add_def
      split: option.splits if_splits)
  then show ?thesis using foldr_max_above[OF assms(2), of "- 1"] by simp
qed

lemma no_equal_neighbours: "sorted xs \<Longrightarrow> \<not> list_ex (\<lambda>(a, b). a = b) (zip xs (tl xs)) \<Longrightarrow> distinct (xs :: int list)"
proof (induction xs)
  case (Cons x xs)
  show ?case
  proof (cases xs)
    case (Cons y ys)
    then have "x < y" "\<forall>z \<in> set xs. y \<le> z" using Cons.prems by auto
    then have "x \<notin> set xs" by auto
    then show ?thesis using Cons.IH Cons.prems Cons by auto
  qed simp
qed simp

text \<open>A reordering that succeeds lists the collections in exactly the given order and changes places only.\<close>

lemma reorder_collections_correct:
  assumes seats: "seats_ok whole_table cl_id cl_position rows"
    and r: "reorder_collections ids rows = Inr (shown, rows')"
  shows "map cl_id shown = ids \<and> shown = list_collections rows'
    \<and> map (move_collection 0) rows' = map (move_collection 0) rows \<and> seats_ok whole_table cl_id cl_position rows'"
proof (cases "ids = []")
  case True
  then have "map cl_id (list_collections rows) = []"
    using r by (auto simp: reorder_collections_def Let_def split: if_splits dest: arg_cong[where f = length])
  then show ?thesis using r True seats by (auto simp: reorder_collections_def Let_def split: if_splits)
next
  case False
  have sorted_ids: "sort (map cl_id (list_collections rows)) = sort ids"
    and apart: "\<not> list_ex (\<lambda>(a, b). a = b) (zip (sort ids) (tl (sort ids)))"
    using r by (auto simp: reorder_collections_def Let_def split: if_splits)
  obtain offset where off: "collection_offset (map cl_position (list_collections rows)) (length ids) = Inr offset"
    and new: "renumber whole_table cl_id cl_position move_collection True offset ids rows = Inr rows'"
    and shown: "shown = list_collections rows'"
    using r False by (auto simp: reorder_collections_def Let_def result_iffs split: if_splits)
  have d: "distinct ids" using no_equal_neighbours[OF _ apart] by simp
  have ids: "set ids = cl_id ` set rows"
    using arg_cong[OF sorted_ids, of set] by (simp add: list_collections_def)
  have "cl_position c < offset" if "c \<in> set rows" for c
    by (rule collection_offset_above[OF off]) (use that in \<open>simp add: list_collections_def\<close>)
  then have rows': "rows' = numbered whole_table cl_id move_collection True ids rows" "seats_ok whole_table cl_id cl_position rows'"
    using collection_seats.renumber_ok[OF seats, of True offset ids] new d ids by (auto simp: whole_table_def)
  have keep: "map (move_collection 0) rows' = map (move_collection 0) rows" "map cl_id rows' = map cl_id rows"
    unfolding rows'(1) numbered_def by (rule map_rewrite, simp add: move_collection_def)+
  have "map cl_id shown = ids"
    unfolding shown list_collections_def
  proof (rule order_of_numbers[OF d])
    show "distinct (map cl_id rows')"
      using rows'(2) by (auto simp: seats_ok_def whole_table_def distinct_map inj_on_def)
    show "cl_id ` set rows' = set ids" using keep(2) ids by (metis set_map)
    show "cl_position c = int (index_in ids (cl_id c))" if "c \<in> set rows'" for c
      using that ids unfolding rows'(1) numbered_def set_rewrite by (auto simp: whole_table_def move_collection_def)
  qed
  then show ?thesis using shown keep(1) rows'(2) by simp
qed

end
