(* ===== verification/Spec2Isabelle.thy ===== *)
theory Spec2Isabelle
  imports Prelude Ordered_Map Operation_History Operation_Policy Import_Pack Json_Tokens
    Query_Codec Query_Runtime Query_Url Transition_Systems Navigation Handover Shelves
    Lifecycle Job_Terminal Tagging Job_Creation Rounds Persistence Session_Calls Scheduler Session_Safety
    Session_Progress Timestamps Catalog Refresh Store_Service Store_Policy Removal_Safety Shelf_Decisions Collection_Order
begin

text \<open>
  A verification library for the Rust workspace of Librairii, a desktop library of story archives.

  \<^bold>\<open>The program.\<close> \<open>librairii-core\<close> holds the pure rules (saved queries, addresses, import of archives,
  operations and their history, tags). \<open>librairii-app\<close> holds the stateful services above it (the gate that
  admits uses of a library and switches libraries, the job session with its coordinator and workers,
  the metadata refresh) and the ports they call. \<open>librairii-storage\<close> implements the ports on SQLite and
  the file system. \<open>librairii-desktop\<close> and \<open>librairii-ui\<close> show the result. An import or export is an
  operation with items: the session admits it, workers run its items, every result is persisted through
  the terminal repository, and the history shows it. Shelves are curated lists of stories in the same
  database; a removal moves an archive away and deletes its story.

  \<^bold>\<open>Shared.\<close> \<open>Prelude\<close>: results with the error on the left, machine integers as \<open>int\<close> with their ranges and
  the checked or wrapping arithmetic written out, \<open>BTreeSet\<close> scans. \<open>Codecs\<close> (labels), \<open>Ordered_Map\<close>
  (\<open>BTreeMap\<close>), \<open>Transition_Systems\<close> (safe systems, runs), \<open>Rounds\<close> (retry loops), \<open>Store_Contract\<close> (what a
  terminal store promises) and \<open>Positions\<close> (numbered rows) hold the locales; each is interpreted on the
  model of the code in the theory of the component that provides it. \<open>Utf8\<close>, \<open>Float64\<close>,
  \<open>Unicode_Tables\<close>: text, the floats the import limits use, the frozen letter and digit ranges.

  \<^bold>\<open>Theories and sources\<close> (under \<open>src/crates\<close>).
  \<^item> \<open>Vocabulary\<close>: \<open>core/vocabulary.rs\<close>, \<open>identity.rs\<close>. \<open>Operation_Data\<close>, \<open>Operation_Codec\<close>,
    \<open>Operation_Policy\<close>, \<open>Operation_History\<close>: \<open>core/operations\<close>. The transitions count items once, an
    interruption keeps the facts of finished items, the aggregate is the one its definition over all
    items gives, and the bounded window is the newest rows of a sorted list.
  \<^item> \<open>Import_Types\<close>, \<open>Import_Names\<close>, \<open>Import_Inventory\<close>, \<open>Import_Pack\<close>: \<open>core/import\<close>. Entry names that
    cannot leave the root, budgets that no sequence of pushes exceeds, pack roots and dispatch.
  \<^item> \<open>Json_Strings\<close>, \<open>Json_Scanner\<close>, \<open>Studio_Json\<close>, \<open>Json_Tokens\<close>: \<open>core/import/studio_json\<close>, a scanner with a
    bounded stack; a delimited token can be decoded without an index out of range.
  \<^item> \<open>Query_Data\<close>, \<open>Query_Parser\<close>, \<open>Query_Canonical\<close>, \<open>Query_Saved\<close>, \<open>Query_Codec\<close>, \<open>Query_Runtime\<close>,
    \<open>Query_Url\<close>: \<open>core/collection_codec\<close>. What is decoded is canonical, and inspecting the references of a
    payload agrees with decoding it.
  \<^item> \<open>Navigation\<close>, \<open>Handover\<close>, \<open>Shelves\<close>, \<open>Tagging\<close>: \<open>core/navigation.rs\<close>, \<open>handover.rs\<close>, \<open>shelves.rs\<close> with
    \<open>shelves/warnings.rs\<close>, \<open>tagging\<close>.
  \<^item> \<open>Timestamps\<close>, \<open>Catalog\<close>, \<open>Refresh\<close>: \<open>core/metadata.rs\<close>, \<open>app/metadata\<close>. A catalog that is admitted is
    well formed, and a refresh ends its session exactly once.
  \<^item> \<open>Lifecycle\<close>: \<open>app/lifecycle.rs\<close>. Threads step on one gate; a switch is exclusive, a stale generation
    is refused and a drain can complete.
  \<^item> \<open>Operation_Ports\<close>, \<open>Job_Creation\<close>, \<open>Job_Progress\<close>, \<open>Job_Terminal\<close>: \<open>app/ports\<close>, \<open>app/jobs\<close>.
  \<^item> \<open>Session_Calls\<close>, \<open>Persistence\<close>, \<open>Scheduler\<close>, \<open>Session_Safety\<close>, \<open>Session_Progress\<close>: \<open>app/native_jobs\<close>. The
    handle, the coordinator and the workers as steps between locks: every item in flight is in one
    place, a stop is final, and a shutdown can complete.
  \<^item> \<open>Tables\<close>, \<open>Operation_Store\<close>, \<open>Operation_Jobs\<close>, \<open>Store_Safety\<close>, \<open>Store_Runs\<close>, \<open>Store_Service\<close>,
    \<open>Store_Policy\<close>: \<open>storage/operations_repository\<close> with the transactions of \<open>database.rs\<close>. The two tables
    stay coherent under any mix of writers and failures, the answers of the repository are true, its
    writes are what the policy of the core computes, and with it \<open>persist\<close> of the session saves for good.
  \<^item> \<open>Removal\<close>, \<open>Removal_Safety\<close>: \<open>storage/removal.rs\<close>, \<open>platform/unix/removal.rs\<close>. No failure or crash
    loses an archive whose story is still there, and opening the library again finishes.
  \<^item> \<open>Shelf_Tables\<close>, \<open>Shelf_Commands\<close>, \<open>Shelf_Review\<close>, \<open>Shelf_Changes\<close>, \<open>Shelf_Tickets\<close> (operations),
    \<open>Shelf_Safety\<close>, \<open>Shelf_Runs\<close>, \<open>Shelf_Copies\<close> (what each keeps), \<open>Shelf_System\<close> (all calls over time),
    \<open>Shelf_Decisions\<close> (what users decided): \<open>storage/shelves.rs\<close>, \<open>storage/shelves\<close>; \<open>Collection_Order\<close>:
    the reordering of \<open>storage/collections.rs\<close>. A reviewed shelf is
    unchanged when its plan is applied, a ticket is good for one claim, members leave only by
    decision and a new order is the order asked for.

  \<^bold>\<open>Concurrency and failures.\<close> A lock, a channel operation or a transaction is one step; runs are sequences
  of steps of all threads in any order. What SQLite answers is a \<open>weather\<close> per call: refused, committed,
  rolled back, or unknown to the caller either way. Files are a map from paths to identities, and every
  rename may fail.

  \<^bold>\<open>Bounds and fuel.\<close> The JSON reader of saved queries takes \<open>parse_fuel\<close>, twice the length of the input and one:
  each recursive call is made on a shorter suffix after a call on the same one, so the fuel cannot run
  out before the input (\<open>decode_payload_total\<close>). Loops that retry until a store answers are partial
  functions whose \<open>None\<close> is never returning; termination is proved where an answer is assured and
  refuted where it is not (\<open>lost_finish_never_returns\<close>). Every other recursion terminates by a measure.

  \<^bold>\<open>Parameters.\<close> Code outside the sources is an argument: \<open>serde_json\<close> readers and printers, the \<open>uuid\<close>
  parser, SHA-256 and the digest of a review's evidence, the calendar of \<open>time\<close>, the large frozen
  language, folding and normalization tables, allocator capacities, and for shelves the stories,
  collections and query results of the library as one view per transaction.

  \<^bold>\<open>Not modelled.\<close> The desktop and the widgets, the adapters to archive formats and devices, the SQL text of
  searches and of history pages, directory descriptors and flushes below \<open>platform\<close>, migration of old
  profiles and adoption of old libraries, backup and relocation, export to devices, localization, log
  files, \<open>xtask\<close>, the fuzz targets, qualification and vendored crates. These are input and output, data
  tables, one-time conversions or code of others. Positions past \<open>i64\<close> in rows SQLite numbers itself and
  the length \<open>CHECK\<close>s of shelf columns are idealised; so are time and the pauses between retries.
\<close>

end
